(* ===== verification/Prelude.thy ===== *)
theory Prelude imports Complex_Main "HOL-Library.Word" begin

text \<open>
  What the components share: the C integer types, the collections of facts their proofs use, byte
  buffers (\<open>memcpy\<close>, \<open>memset\<close>) and the conversions between words and bytes.
\<close>

unbundle bit_operations_syntax

section \<open>C integers\<close>

type_synonym u8 = "8 word"
type_synonym u16 = "16 word"
type_synonym u32 = "32 word"
type_synonym u64 = "64 word"

text \<open>
  Integer promotion: an operand of an integer type narrower than \<open>int\<close> is widened to 32 bits
  before an operator is applied.  The bit-packing expressions of the sources never produce a
  negative intermediate value that is read as such, so the 32-bit pattern is an unsigned word.
\<close>

abbreviation promote :: "'a::len word \<Rightarrow> u32" where "promote \<equiv> ucast"

text \<open>A comparison is an \<open>int\<close> that is 0 or 1.\<close>

abbreviation cbool :: "bool \<Rightarrow> u32" where "cbool b \<equiv> of_bool b"

section \<open>Collections of facts\<close>

named_theorems reg_simps \<open>reading a register back after writes\<close>
named_theorems log_simps \<open>the events an operation appends to the log\<close>
named_theorems frame_simps \<open>state components that an operation leaves alone\<close>

section \<open>Words\<close>

lemma bit_ucast_less: "bit (ucast w :: 'b::len word) n \<longleftrightarrow> n < LENGTH('b) \<and> bit (w :: 'a::len word) n"
  by (simp add: bit_ucast_iff)

lemma word_bit_less: "bit (w :: 'a::len word) n \<Longrightarrow> n < LENGTH('a)"
  by (rule bit_imp_le_length)

lemma and_not_or_mask: "(x AND NOT m) OR m = (x OR m :: 'a::len word)"
  by (rule bit_word_eqI) (auto simp: bit_simps)

lemma unat_and_mask: "unat (x AND mask n :: 'a::len word) < 2 ^ n"
proof -
  have "unat (x AND mask n) = take_bit n (unat x)"
    by (simp add: take_bit_eq_mask [symmetric] unsigned_take_bit_eq)
  then show ?thesis by simp
qed

lemma and_mask_less: "m = mask n \<Longrightarrow> unat ((x :: 'a::len word) AND m) < 2 ^ n"
  using unat_and_mask by simp

text \<open>Two words of a fixed width are equal when they agree bit by bit; the bits are listed, so that
  the simplifier evaluates shifts and masks at each of them.\<close>

lemma word8_eqI:
  "list_all (\<lambda>n. bit (a :: u8) n = bit b n)
     [0,1,2,3,4,5,6,7] \<Longrightarrow> a = b"
proof (rule bit_word_eqI)
  fix n
  assume all: "list_all (\<lambda>n. bit a n = bit b n) [0,1,2,3,4,5,6,7]"
    and "n < LENGTH(8)"
  then have "n \<in> set [0..<8]" by simp
  also have "[0..<8] = [0,1,2,3,4,5,6,7]" by (simp add: upt_rec)
  finally show "bit a n = bit b n" using all by (simp only: list_all_iff)
qed

lemma word16_eqI:
  "list_all (\<lambda>n. bit (a :: u16) n = bit b n)
     [0,1,2,3,4,5,6,7,8,9,10,11,12,13,14,15] \<Longrightarrow> a = b"
proof (rule bit_word_eqI)
  fix n
  assume all: "list_all (\<lambda>n. bit a n = bit b n) [0,1,2,3,4,5,6,7,8,9,10,11,12,13,14,15]"
    and "n < LENGTH(16)"
  then have "n \<in> set [0..<16]" by simp
  also have "[0..<16] = [0,1,2,3,4,5,6,7,8,9,10,11,12,13,14,15]" by (simp add: upt_rec)
  finally show "bit a n = bit b n" using all by (simp only: list_all_iff)
qed

lemma word32_eqI:
  "list_all (\<lambda>n. bit (a :: u32) n = bit b n)
     [0,1,2,3,4,5,6,7,8,9,10,11,12,13,14,15,16,17,18,19,20,21,22,23,24,25,26,27,28,29,30,31] \<Longrightarrow> a = b"
proof (rule bit_word_eqI)
  fix n
  assume all: "list_all (\<lambda>n. bit a n = bit b n) [0,1,2,3,4,5,6,7,8,9,10,11,12,13,14,15,16,17,18,19,20,21,22,23,24,25,26,27,28,29,30,31]"
    and "n < LENGTH(32)"
  then have "n \<in> set [0..<32]" by simp
  also have "[0..<32] = [0,1,2,3,4,5,6,7,8,9,10,11,12,13,14,15,16,17,18,19,20,21,22,23,24,25,26,27,28,29,30,31]" by (simp add: upt_rec)
  finally show "bit a n = bit b n" using all by (simp only: list_all_iff)
qed

lemma bit_small_nat: "c < 2 ^ k \<Longrightarrow> k \<le> n \<Longrightarrow> \<not> bit (c :: nat) n"
  by (metis bit_take_bit_iff leD take_bit_nat_eq_self)

lemma bit_of_nat_word: "bit (of_nat c :: 'a::len word) n \<longleftrightarrow> n < LENGTH('a) \<and> bit c n"
  by (simp add: bit_simps)

lemma bit_times2: "bit (x * 2 :: 'a::len word) n \<longleftrightarrow> 0 < n \<and> n < LENGTH('a) \<and> bit x (n - 1)"
  using bit_push_bit_iff [of 1 x n] by (auto simp: push_bit_eq_mult word_bit_less)

lemma word_high_bits: "unat (w :: 'a::len word) < 2 ^ k \<Longrightarrow> k \<le> n \<Longrightarrow> \<not> bit w n"
  using bit_small_nat [of "unat w" k n] by (simp add: bit_unsigned_iff word_bit_less)

lemmas word_bits =
  bit_or_iff bit_and_iff bit_xor_iff bit_not_iff bit_push_bit_iff bit_ucast_iff bit_drop_bit_eq
  bit_of_nat_word bit_times2 numeral_2_eq_2 [symmetric]

lemma unat_promote16: "unat (promote (w :: u16)) = unat w"
  using unsigned_less [of w, where ?'a = nat] by (simp add: unsigned_ucast_eq take_bit_nat_eq_self)

lemma unat_ucast8_16: "unat (ucast (w :: u8) :: u16) = unat w"
  using unsigned_less [of w, where ?'a = nat] by (simp add: unsigned_ucast_eq take_bit_nat_eq_self)

lemma and_eq_less: "(w :: 'a::len word) AND m = w \<Longrightarrow> m = mask k \<Longrightarrow> unat w < 2 ^ k"
  using and_mask_less [of m k w] by simp

lemma u8_high: "8 \<le> n \<Longrightarrow> \<not> bit (w :: u8) n"
  by (auto dest: word_bit_less)

lemma u16_high: "16 \<le> n \<Longrightarrow> \<not> bit (w :: u16) n"
  by (auto dest: word_bit_less)

section \<open>Byte buffers\<close>

text \<open>\<open>memcpy(dst + off, src, n)\<close> on a buffer kept as a list; copies past the end are excluded by
  the bounds lemmas, which the callers prove.\<close>

definition blit :: "'a list \<Rightarrow> nat \<Rightarrow> 'a list \<Rightarrow> 'a list" where
  "blit dst off src = take off dst @ src @ drop (off + length src) dst"

definition chunk :: "nat \<Rightarrow> nat \<Rightarrow> 'a list \<Rightarrow> 'a list" where
  "chunk off n xs = take n (drop off xs)"

lemma length_blit [simp]: "off + length src \<le> length dst \<Longrightarrow> length (blit dst off src) = length dst"
  by (simp add: blit_def)

lemma length_chunk [simp]: "off + n \<le> length xs \<Longrightarrow> length (chunk off n xs) = n"
  by (simp add: chunk_def)

lemma nth_blit:
  "off + length src \<le> length dst \<Longrightarrow> i < length dst \<Longrightarrow>
   blit dst off src ! i = (if off \<le> i \<and> i < off + length src then src ! (i - off) else dst ! i)"
  by (auto simp: blit_def nth_append nth_drop min_def)

lemma nth_chunk [simp]: "off + n \<le> length xs \<Longrightarrow> i < n \<Longrightarrow> chunk off n xs ! i = xs ! (off + i)"
  by (simp add: chunk_def)

lemma chunk_blit_same:
  "off + length src \<le> length dst \<Longrightarrow> chunk off (length src) (blit dst off src) = src"
  by (simp add: chunk_def blit_def)

lemma chunk_blit_disjoint:
  assumes "off + length src \<le> length dst" "a + n \<le> length dst" "a + n \<le> off \<or> off + length src \<le> a"
  shows "chunk a n (blit dst off src) = chunk a n dst"
  by (rule nth_equalityI) (use assms in \<open>auto simp: nth_blit\<close>)

lemma chunk_blit_inside:
  assumes "off + length src \<le> length dst" "a + n \<le> length dst" "off \<le> a" "a + n \<le> off + length src"
  shows "chunk a n (blit dst off src) = chunk (a - off) n src"
  by (rule nth_equalityI) (use assms in \<open>auto simp: nth_blit\<close>)

section \<open>Words and bytes\<close>

text \<open>The host is little endian; \<open>ntohl\<close> and \<open>htonl\<close> therefore swap bytes, and a 32-bit field
  read through \<open>ntohl(*(uint32_t * )p)\<close> is big endian.\<close>

definition le16 :: "u16 \<Rightarrow> u8 list" where
  "le16 v = [ucast v, ucast (drop_bit 8 v)]"

definition le32 :: "u32 \<Rightarrow> u8 list" where
  "le32 v = [ucast v, ucast (drop_bit 8 v), ucast (drop_bit 16 v), ucast (drop_bit 24 v)]"

definition be32 :: "u32 \<Rightarrow> u8 list" where
  "be32 v = rev (le32 v)"

definition of_le32 :: "u8 list \<Rightarrow> u32" where
  "of_le32 b = ucast (b ! 0) OR push_bit 8 (ucast (b ! 1)) OR push_bit 16 (ucast (b ! 2)) OR push_bit 24 (ucast (b ! 3))"

definition of_be32 :: "u8 list \<Rightarrow> u32" where
  "of_be32 b = of_le32 [b ! 3, b ! 2, b ! 1, b ! 0]"

lemma length_le [simp]: "length (le16 v) = 2" "length (le32 w) = 4" "length (be32 w) = 4"
  by (simp_all add: le16_def le32_def be32_def)

lemma of_le32_le32 [simp]: "of_le32 (le32 v) = v"
proof (rule bit_word_eqI)
  fix n assume n: "n < LENGTH(32)"
  then have "n < 8 \<or> (8 \<le> n \<and> n < 16) \<or> (16 \<le> n \<and> n < 24) \<or> (24 \<le> n \<and> n < 32)" by auto
  then show "bit (of_le32 (le32 v)) n = bit v n"
    by (elim disjE) (simp_all add: of_le32_def le32_def bit_or_iff bit_push_bit_iff bit_ucast_iff bit_drop_bit_eq less_diff_conv2)
qed

lemma of_be32_be32 [simp]: "of_be32 (be32 v) = v"
proof -
  have "[be32 v ! 3, be32 v ! 2, be32 v ! 1, be32 v ! 0] = le32 v"
    by (simp add: be32_def le32_def eval_nat_numeral)
  then show ?thesis by (simp add: of_be32_def)
qed

lemma le16_inj: "le16 v = le16 w \<longleftrightarrow> v = w"
proof
  assume eq: "le16 v = le16 w"
  show "v = w"
  proof (rule bit_word_eqI)
    fix n assume n: "n < LENGTH(16)"
    have "bit (ucast v :: u8) n = bit (ucast w :: u8) n"
      and "bit (ucast (drop_bit 8 v) :: u8) (n - 8) = bit (ucast (drop_bit 8 w) :: u8) (n - 8)"
      using eq by (simp_all add: le16_def)
    with n show "bit v n = bit w n"
      by (cases "n < 8") (auto simp: bit_simps)
  qed
qed simp

section \<open>Folding a handler over its inputs\<close>

lemma foldl_invariant:
  "I s \<Longrightarrow> (\<And>s x. I s \<Longrightarrow> x \<in> set xs \<Longrightarrow> I (f s x)) \<Longrightarrow> I (foldl f s xs)"
  by (induction xs arbitrary: s) auto

end
