(* ===== verification/Mmio.thy ===== *)
theory Mmio imports Prelude begin

text \<open>
  The FPGA interface the servers share.  The configuration page that every server maps at
  0x40000000 is a byte-addressed memory \<open>cfg\<close>; a register is a pointer of the C source into it, that
  is a byte offset and a width.  Accesses through \<open>volatile\<close> pointers and calls that leave the
  process are events, appended to \<open>log\<close> in program order.
\<close>

section \<open>Little-endian registers in a byte memory\<close>

type_synonym mem = "nat \<Rightarrow> u8"

definition rd16 :: "mem \<Rightarrow> nat \<Rightarrow> u16" where
  "rd16 m a = ucast (m a) OR push_bit 8 (ucast (m (a + 1)))"

definition rd32 :: "mem \<Rightarrow> nat \<Rightarrow> u32" where
  "rd32 m a = of_le32 [m a, m (a + 1), m (a + 2), m (a + 3)]"

definition wr8 :: "nat \<Rightarrow> u8 \<Rightarrow> mem \<Rightarrow> mem" where
  "wr8 a v m = m(a := v)"

definition wr16 :: "nat \<Rightarrow> u16 \<Rightarrow> mem \<Rightarrow> mem" where
  "wr16 a v m = m(a := ucast v, a + 1 := ucast (drop_bit 8 v))"

definition wr32 :: "nat \<Rightarrow> u32 \<Rightarrow> mem \<Rightarrow> mem" where
  "wr32 a v m = m(a := ucast v, a + 1 := ucast (drop_bit 8 v),
                  a + 2 := ucast (drop_bit 16 v), a + 3 := ucast (drop_bit 24 v))"

lemma rd8_wr8 [reg_simps]: "wr8 a v m b = (if a = b then v else m b)"
  by (simp add: wr8_def)

lemma rd8_wr16 [reg_simps]: "b < a \<or> a + 2 \<le> b \<Longrightarrow> wr16 a v m b = m b"
  by (auto simp: wr16_def)

lemma rd8_wr32 [reg_simps]: "b < a \<or> a + 4 \<le> b \<Longrightarrow> wr32 a v m b = m b"
  by (auto simp: wr32_def)

lemma rd16_wr8 [reg_simps]: "a < b \<or> b + 2 \<le> a \<Longrightarrow> rd16 (wr8 a v m) b = rd16 m b"
  by (auto simp: rd16_def wr8_def)

lemma rd16_wr16 [reg_simps]: "rd16 (wr16 a v m) a = v"
proof (rule bit_word_eqI)
  fix n assume n: "n < LENGTH(16)"
  then have "n < 8 \<or> (8 \<le> n \<and> n < 16)" by auto
  then show "bit (rd16 (wr16 a v m) a) n = bit v n"
    by (elim disjE) (simp_all add: rd16_def wr16_def bit_or_iff bit_push_bit_iff bit_ucast_iff bit_drop_bit_eq less_diff_conv2)
qed

lemma rd16_wr16_other [reg_simps]: "a + 2 \<le> b \<or> b + 2 \<le> a \<Longrightarrow> rd16 (wr16 a v m) b = rd16 m b"
  by (auto simp: rd16_def wr16_def)

lemma rd16_wr32 [reg_simps]: "a + 4 \<le> b \<or> b + 2 \<le> a \<Longrightarrow> rd16 (wr32 a v m) b = rd16 m b"
  by (auto simp: rd16_def wr32_def)

lemma rd32_wr8 [reg_simps]: "a < b \<or> b + 4 \<le> a \<Longrightarrow> rd32 (wr8 a v m) b = rd32 m b"
  by (auto simp: rd32_def wr8_def)

lemma rd32_wr16 [reg_simps]: "a + 2 \<le> b \<or> b + 4 \<le> a \<Longrightarrow> rd32 (wr16 a v m) b = rd32 m b"
  by (auto simp: rd32_def wr16_def)

lemma rd32_wr32 [reg_simps]: "rd32 (wr32 a v m) a = v"
proof -
  have "[wr32 a v m a, wr32 a v m (a + 1), wr32 a v m (a + 2), wr32 a v m (a + 3)] = le32 v"
    by (simp add: wr32_def le32_def)
  then show ?thesis by (simp add: rd32_def)
qed

lemma rd32_wr32_other [reg_simps]: "a + 4 \<le> b \<or> b + 4 \<le> a \<Longrightarrow> rd32 (wr32 a v m) b = rd32 m b"
  by (auto simp: rd32_def wr32_def)

section \<open>Events\<close>

text \<open>\<open>Cfg8 a v\<close> is a store of one byte at offset \<open>a\<close> of the configuration page, likewise
  \<open>Cfg16\<close>, \<open>Cfg32\<close>; \<open>Fifo\<close> is a store into the FIFO window, \<open>Codec\<close>, \<open>Alex\<close>, \<open>Gen\<close> into the windows
  of those names; \<open>Win k i v\<close> is a store of word \<open>i\<close> of memory window number \<open>k\<close>; \<open>Slave\<close> selects an I2C device (\<open>ioctl(fd, I2C_SLAVE, addr)\<close>), \<open>I2c\<close> is a
  \<open>write\<close> of bytes to the I2C file, \<open>Uart\<close> to the serial port; \<open>Send\<close> is a message to the client.\<close>

datatype ev =
    Cfg8 nat u8 | Cfg16 nat u16 | Cfg32 nat u32
  | Fifo u32 | Codec u32 | Alex u32 | Gen u32 | Win nat nat u32
  | Slave u8 | I2c "u8 list" | Uart "u8 list" | Send "u8 list"

record dev =
  cfg :: mem
  log :: "ev list"

definition emit :: "ev list \<Rightarrow> 'a dev_scheme \<Rightarrow> 'a dev_scheme" where
  "emit es s = s\<lparr>log := log s @ es\<rparr>"

definition put8 :: "nat \<Rightarrow> u8 \<Rightarrow> 'a dev_scheme \<Rightarrow> 'a dev_scheme" where
  "put8 a v s = s\<lparr>cfg := wr8 a v (cfg s), log := log s @ [Cfg8 a v]\<rparr>"

definition put16 :: "nat \<Rightarrow> u16 \<Rightarrow> 'a dev_scheme \<Rightarrow> 'a dev_scheme" where
  "put16 a v s = s\<lparr>cfg := wr16 a v (cfg s), log := log s @ [Cfg16 a v]\<rparr>"

definition put32 :: "nat \<Rightarrow> u32 \<Rightarrow> 'a dev_scheme \<Rightarrow> 'a dev_scheme" where
  "put32 a v s = s\<lparr>cfg := wr32 a v (cfg s), log := log s @ [Cfg32 a v]\<rparr>"

text \<open>\<open>*p &= ~m\<close>, \<open>*p |= m\<close> and the pair of them that the sources write to pulse a reset line.\<close>

definition clr8 :: "nat \<Rightarrow> u8 \<Rightarrow> 'a dev_scheme \<Rightarrow> 'a dev_scheme" where
  "clr8 a m s = put8 a (cfg s a AND NOT m) s"

definition set8 :: "nat \<Rightarrow> u8 \<Rightarrow> 'a dev_scheme \<Rightarrow> 'a dev_scheme" where
  "set8 a m s = put8 a (cfg s a OR m) s"

definition pulse8 :: "nat \<Rightarrow> u8 \<Rightarrow> 'a dev_scheme \<Rightarrow> 'a dev_scheme" where
  "pulse8 a m s = set8 a m (clr8 a m s)"

lemma log_emit [log_simps]: "log (emit es s) = log s @ es"
  by (simp add: emit_def)

lemma cfg_emit [reg_simps]: "cfg (emit es s) = cfg s"
  by (simp add: emit_def)

lemma emit_append: "emit es2 (emit es1 s) = emit (es1 @ es2) s"
  by (simp add: emit_def)

lemma log_put [log_simps]:
  "log (put8 a v s) = log s @ [Cfg8 a v]"
  "log (put16 a w s) = log s @ [Cfg16 a w]"
  "log (put32 a x s) = log s @ [Cfg32 a x]"
  by (simp_all add: put8_def put16_def put32_def)

lemma cfg_put [reg_simps]:
  "cfg (put8 a v s) = wr8 a v (cfg s)"
  "cfg (put16 a w s) = wr16 a w (cfg s)"
  "cfg (put32 a x s) = wr32 a x (cfg s)"
  by (simp_all add: put8_def put16_def put32_def)

lemma more_put [frame_simps]:
  "dev.more (put8 a v s) = dev.more s"
  "dev.more (put16 a w s) = dev.more s"
  "dev.more (put32 a x s) = dev.more s"
  "dev.more (emit es s) = dev.more s"
  by (simp_all add: put8_def put16_def put32_def emit_def)

lemma cfg_clr8 [reg_simps]: "cfg (clr8 a m s) = wr8 a (cfg s a AND NOT m) (cfg s)"
  by (simp add: clr8_def cfg_put)

lemma cfg_set8 [reg_simps]: "cfg (set8 a m s) = wr8 a (cfg s a OR m) (cfg s)"
  by (simp add: set8_def cfg_put)

lemma cfg_pulse8 [reg_simps]: "cfg (pulse8 a m s) = wr8 a (cfg s a OR m) (cfg s)"
  by (simp add: pulse8_def reg_simps and_not_or_mask wr8_def)

lemma log_pulse8 [log_simps]:
  "log (pulse8 a m s) = log s @ [Cfg8 a (cfg s a AND NOT m), Cfg8 a (cfg s a OR m)]"
  by (simp add: pulse8_def set8_def clr8_def log_simps reg_simps and_not_or_mask)

lemma log_clr8 [log_simps]: "log (clr8 a m s) = log s @ [Cfg8 a (cfg s a AND NOT m)]"
  by (simp add: clr8_def log_simps)

lemma log_set8 [log_simps]: "log (set8 a m s) = log s @ [Cfg8 a (cfg s a OR m)]"
  by (simp add: set8_def log_simps)

lemma more_bits [frame_simps]:
  "dev.more (clr8 a m s) = dev.more s" "dev.more (set8 a m s) = dev.more s"
  "dev.more (pulse8 a m s) = dev.more s"
  by (simp_all add: clr8_def set8_def pulse8_def frame_simps)

section \<open>The registers are what the writes made of them\<close>

text \<open>What the FPGA sees: the stores of the log applied, in order, to its initial register file.\<close>

fun apply_ev :: "ev \<Rightarrow> mem \<Rightarrow> mem" where
  "apply_ev (Cfg8 a v) m = wr8 a v m"
| "apply_ev (Cfg16 a v) m = wr16 a v m"
| "apply_ev (Cfg32 a v) m = wr32 a v m"
| "apply_ev _ m = m"

definition replay :: "ev list \<Rightarrow> mem \<Rightarrow> mem" where
  "replay es m = fold apply_ev es m"

definition mirrored :: "mem \<Rightarrow> 'a dev_scheme \<Rightarrow> bool" where
  "mirrored m0 s \<longleftrightarrow> cfg s = replay (log s) m0"

lemma replay_simps [simp]:
  "replay [] m = m" "replay (e # es) m = replay es (apply_ev e m)"
  "replay (es @ fs) m = replay fs (replay es m)"
  by (simp_all add: replay_def)

lemma mirrored_put:
  "mirrored m0 s \<Longrightarrow> mirrored m0 (put8 a v s)"
  "mirrored m0 s \<Longrightarrow> mirrored m0 (put16 a w s)"
  "mirrored m0 s \<Longrightarrow> mirrored m0 (put32 a x s)"
  by (simp_all add: mirrored_def log_simps reg_simps)

end
