(* ===== verification/Shadow.thy ===== *)
theory Shadow imports Mmio begin

text \<open>
  The I2C bus as the devices see it, and the write-through registers of the transceiver server: a
  shadow variable holds the value last sent to a device register, and a store sends a value only
  when it differs from the shadow.  The locale \<open>write_through\<close> states that contract once, and
  \<open>i2c_reg\<close> extends it to registers of devices on the bus; every shadowed register of the server
  is an interpretation.
\<close>

section \<open>What the devices on the bus have received\<close>

text \<open>The two MCP4725 converters and the NUCLEO board take whole messages; every other device on
  the bus takes a register number followed by the register's value.\<close>

definition i2c_raw :: "u8 \<Rightarrow> bool" where
  "i2c_raw a \<longleftrightarrow> a = 0x60 \<or> a = 0x61 \<or> a = 0x55"

definition i2c_key :: "u8 \<Rightarrow> u8 list \<Rightarrow> u8 \<times> u8" where
  "i2c_key a bs = (a, if i2c_raw a then 0 else hd bs)"

type_synonym bus = "u8 \<times> (u8 \<times> u8 \<rightharpoonup> u8 list)"

fun bus_step :: "ev \<Rightarrow> bus \<Rightarrow> bus" where
  "bus_step (Slave a) (cur, m) = (a, m)"
| "bus_step (I2c bs) (cur, m) = (cur, m(i2c_key cur bs \<mapsto> bs))"
| "bus_step _ b = b"

definition seen :: "ev list \<Rightarrow> u8 \<times> u8 \<rightharpoonup> u8 list" where
  "seen es = snd (fold bus_step es (0, Map.empty))"

lemma seen_message: "seen (es @ [Slave a, I2c bs]) = (seen es)(i2c_key a bs \<mapsto> bs)"
proof -
  obtain c m where "fold bus_step es (0, Map.empty) = (c, m)" by (cases "fold bus_step es (0, Map.empty)")
  then show ?thesis by (simp add: seen_def)
qed

definition off_bus :: "ev \<Rightarrow> bool" where
  "off_bus e \<longleftrightarrow> (\<forall>a. e \<noteq> Slave a) \<and> (\<forall>bs. e \<noteq> I2c bs)"

lemma bus_step_off_bus: "off_bus e \<Longrightarrow> bus_step e b = b"
  by (cases b; cases e) (auto simp: off_bus_def)

lemma seen_off_bus: "\<forall>e \<in> set fs. off_bus e \<Longrightarrow> seen (es @ fs) = seen es"
proof -
  assume "\<forall>e \<in> set fs. off_bus e"
  then have "fold bus_step fs b = b" for b
    by (induction fs arbitrary: b) (simp_all add: bus_step_off_bus)
  then show ?thesis by (simp add: seen_def)
qed

lemma off_bus_simps [simp]:
  "off_bus (Cfg8 a v)" "off_bus (Cfg16 a w)" "off_bus (Cfg32 a x)" "off_bus (Fifo x)" "off_bus (Codec x)"
  "off_bus (Alex x)" "off_bus (Gen x)" "off_bus (Win k i x)" "off_bus (Uart bs)" "off_bus (Send bs)"
  "\<not> off_bus (Slave d)" "\<not> off_bus (I2c bs)"
  by (simp_all add: off_bus_def)

section \<open>Messages\<close>

text \<open>The byte layouts of \<open>i2c_write_addr_data8\<close>, \<open>_data16\<close>, \<open>_data24\<close>, \<open>i2c_write_data16\<close> and
  \<open>i2c_write_data40\<close>.\<close>

definition i2c_write_addr_data8 :: "u8 \<Rightarrow> u8 \<Rightarrow> u8 list" where
  "i2c_write_addr_data8 addr data = [addr, data]"

definition i2c_write_addr_data16 :: "u8 \<Rightarrow> u16 \<Rightarrow> u8 list" where
  "i2c_write_addr_data16 addr data = [addr, ucast data, ucast (drop_bit 8 data)]"

definition i2c_write_addr_data24 :: "u8 \<Rightarrow> u32 \<Rightarrow> u8 list" where
  "i2c_write_addr_data24 addr data = [addr, ucast data, ucast (drop_bit 8 data), ucast (drop_bit 16 data)]"

definition i2c_write_data16 :: "u16 \<Rightarrow> u8 list" where
  "i2c_write_data16 data = [ucast (drop_bit 8 data), ucast data]"

definition i2c_write_data40 :: "u32 \<Rightarrow> u32 \<Rightarrow> u8 list" where
  "i2c_write_data40 low high = take 5 (le32 low @ le32 high)"

lemmas i2c_messages =
  i2c_write_addr_data8_def i2c_write_addr_data16_def i2c_write_addr_data24_def
  i2c_write_data16_def i2c_write_data40_def

lemma hd_i2c_messages [simp]:
  "hd (i2c_write_addr_data8 r b) = r" "hd (i2c_write_addr_data16 r w) = r" "hd (i2c_write_addr_data24 r x) = r"
  by (simp_all add: i2c_messages)

section \<open>The contract of a write-through register\<close>

text \<open>\<open>coherent\<close>: if the device register has been written at all, it holds the shadow's value.\<close>

definition coherent :: "(u8 \<times> u8) \<Rightarrow> ('v \<Rightarrow> u8 list) \<Rightarrow> 'v \<Rightarrow> ev list \<Rightarrow> bool" where
  "coherent k enc v es \<longleftrightarrow> (seen es k = None \<or> seen es k = Some (enc v))"

text \<open>The same for a table of registers, each with the message that its shadow's value makes.\<close>

definition agrees :: "ev list \<Rightarrow> ((u8 \<times> u8) \<times> u8 list) list \<Rightarrow> bool" where
  "agrees es T \<longleftrightarrow> list_all (\<lambda>(k, m). seen es k = None \<or> seen es k = Some m) T"

definition assign :: "u8 \<times> u8 \<Rightarrow> u8 list \<Rightarrow> ((u8 \<times> u8) \<times> u8 list) list \<Rightarrow> ((u8 \<times> u8) \<times> u8 list) list" where
  "assign k m T = map (\<lambda>(k', m'). (k', if k' = k then m else m')) T"

lemma agrees_iff: "agrees es T \<longleftrightarrow> (\<forall>k m. (k, m) \<in> set T \<longrightarrow> seen es k = None \<or> seen es k = Some m)"
  by (auto simp: agrees_def list_all_iff)

lemma agrees_off_bus: "\<forall>e \<in> set fs. off_bus e \<Longrightarrow> agrees (es @ fs) T = agrees es T"
  by (simp add: agrees_def seen_off_bus)

text \<open>The values a register is told, given the value it starts with: consecutive repetitions are not sent.\<close>

fun changes :: "'v \<Rightarrow> 'v list \<Rightarrow> 'v list" where
  "changes v [] = []"
| "changes v (w # ws) = (if v = w then changes v ws else w # changes w ws)"

locale write_through =
  fixes get :: "'s \<Rightarrow> 'v" and store :: "'v \<Rightarrow> 's \<Rightarrow> 's" and evs :: "'s \<Rightarrow> ev list"
    and msg :: "'v \<Rightarrow> ev list"
  assumes store_same: "get s = v \<Longrightarrow> store v s = s"
    and get_store: "get (store v s) = v"
    and store_sends: "get s \<noteq> v \<Longrightarrow> evs (store v s) = evs s @ msg v"
begin

lemma store_store: "store v (store v s) = store v s"
  by (simp add: store_same get_store)

lemma store_events: "evs (store v s) = evs s @ (if get s = v then [] else msg v)"
  by (simp add: store_same store_sends)

lemma get_fold: "get (fold store vs s) = last (get s # vs)"
  by (induction vs arbitrary: s) (simp_all add: get_store)

lemma fold_events: "evs (fold store vs s) = evs s @ concat (map msg (changes (get s) vs))"
  by (induction vs arbitrary: s) (simp_all add: get_store store_events)

end

locale i2c_reg = write_through get store evs "\<lambda>v. [Slave addr, I2c (enc v)]"
  for get :: "'s \<Rightarrow> 'v" and store :: "'v \<Rightarrow> 's \<Rightarrow> 's" and evs :: "'s \<Rightarrow> ev list"
    and addr :: u8 and enc :: "'v \<Rightarrow> u8 list" +
  fixes key :: "u8 \<times> u8"
  assumes key_enc: "i2c_key addr (enc v) = key"
begin

lemma seen_store: "seen (evs (store v s)) = (if get s = v then seen (evs s) else (seen (evs s))(key \<mapsto> enc v))"
  by (simp add: store_events seen_message key_enc)

lemma seen_store_other: "k \<noteq> key \<Longrightarrow> seen (evs (store v s)) k = seen (evs s) k"
  by (simp add: seen_store)

lemma coherent_store: "coherent key enc (get s) (evs s) \<Longrightarrow> coherent key enc v (evs (store v s))"
  by (auto simp: coherent_def seen_store)

lemma agrees_store:
  assumes "agrees (evs s) T" and "\<forall>m. (key, m) \<in> set T \<longrightarrow> m = enc (get s)"
  shows "agrees (evs (store v s)) (assign key (enc v) T)"
  unfolding agrees_iff
proof (intro allI impI)
  fix k m
  assume "(k, m) \<in> set (assign key (enc v) T)"
  then obtain m' where T: "(k, m') \<in> set T" and m: "m = (if k = key then enc v else m')"
    by (auto simp: assign_def)
  from T assms(1) have "seen (evs s) k = None \<or> seen (evs s) k = Some m'" by (simp add: agrees_iff del: split_paired_All)
  with T m assms(2) show "seen (evs (store v s)) k = None \<or> seen (evs (store v s)) k = Some m"
    by (auto simp: seen_store)
qed

lemma coherent_store_other: "k \<noteq> key \<Longrightarrow> coherent k e w (evs (store v s)) = coherent k e w (evs s)"
  by (simp add: coherent_def seen_store_other)

end

end
