(* ===== verification/HpsdrState.thy ===== *)
theory HpsdrState imports Shadow begin

text \<open>
  The global variables and registers of sdr-transceiver-hpsdr.c.  Flags that the source keeps in an
  \<open>int\<close> or \<open>uint16_t\<close> and only ever sets to 0 or 1 are booleans; the counts \<open>receivers\<close> and \<open>rate\<close>
  are never negative and are naturals; \<open>freq_data[3]\<close> and \<open>log_table_lookup[256]\<close> are functions of
  the index.  \<open>gpio_in\<close> is the value the volatile input register returns.  The two builds of the
  server (125 MHz and 122.88 MHz boards) differ in constants only, collected in \<open>variant\<close>.
\<close>

record hpsdr = dev +
  gpio_in :: u8
  receivers :: nat
  rate :: nat
  enable_thread :: bool
  active_thread :: bool
  i2c_pene :: bool
  i2c_alex :: bool
  i2c_level :: bool
  i2c_misc :: bool
  i2c_drive :: bool
  i2c_codec :: bool
  i2c_dac0 :: bool
  i2c_dac1 :: bool
  i2c_arduino :: bool
  i2c_nucleo :: bool
  i2c_pene_data :: u16
  i2c_alex_data :: u16
  i2c_level_data :: u16
  i2c_misc_data :: u16
  i2c_drive_data :: u16
  i2c_dac0_data :: u16
  i2c_dac1_data :: u16
  i2c_nucleo_data :: "u32 \<times> u32"
  i2c_ard_frx1_data :: u16
  i2c_ard_frx2_data :: u16
  i2c_ard_ftx_data :: u16
  i2c_ard_ocant_data :: u32
  i2c_ard_txatt_data :: u32
  i2c_ard_rxatt_data :: u16
  log_table_lookup :: "nat \<Rightarrow> u8"
  i2c_boost_data :: u8
  dac_level_data :: u8
  cw_int_data :: u8
  rx_att_data :: u8
  tx_mux_data :: u8
  tx_eer_data :: u8
  cw_hang :: u16
  cw_reversed :: u8
  cw_speed :: u8
  cw_mode :: u8
  cw_weight :: u8
  cw_spacing :: u8
  cw_delay :: u8
  cw_ptt :: u8
  rx_sync_data :: u16
  alex_data_rx :: u16
  alex_data_tx :: u16
  alex_data_0 :: u16
  alex_data_1 :: u16
  alex_update :: bool
  freq_data :: "nat \<Rightarrow> u32"
  misc_data_0 :: u16
  misc_data_1 :: u16
  misc_data_2 :: u16
  misc_update :: bool
  nucleo_data_0 :: u32
  nucleo_data_1 :: u32
  nucleo_data_2 :: u32
  nucleo_data_3 :: u32
  nucleo_update :: bool
  uart_fd :: int
  icom_band_data :: u8

text \<open>The initial values of the globals.  The configuration page is taken to be clear.\<close>

definition hpsdr_start :: hpsdr where
  "hpsdr_start = \<lparr>cfg = (\<lambda>_. 0), log = [], gpio_in = 0, receivers = 1, rate = 0,
     enable_thread = False, active_thread = False,
     i2c_pene = False, i2c_alex = False, i2c_level = False, i2c_misc = False, i2c_drive = False,
     i2c_codec = False, i2c_dac0 = False, i2c_dac1 = False, i2c_arduino = False, i2c_nucleo = False,
     i2c_pene_data = 0, i2c_alex_data = 0, i2c_level_data = 0, i2c_misc_data = 0, i2c_drive_data = 0,
     i2c_dac0_data = 0xfff, i2c_dac1_data = 0xfff, i2c_nucleo_data = (0, 0),
     i2c_ard_frx1_data = 0, i2c_ard_frx2_data = 0, i2c_ard_ftx_data = 0, i2c_ard_ocant_data = 0,
     i2c_ard_txatt_data = 0, i2c_ard_rxatt_data = 0, log_table_lookup = (\<lambda>_. 0), i2c_boost_data = 0,
     dac_level_data = 0, cw_int_data = 0, rx_att_data = 0, tx_mux_data = 0, tx_eer_data = 0,
     cw_hang = 0, cw_reversed = 0, cw_speed = 25, cw_mode = 0, cw_weight = 50, cw_spacing = 0,
     cw_delay = 0, cw_ptt = 0, rx_sync_data = 0,
     alex_data_rx = 0, alex_data_tx = 0, alex_data_0 = 0, alex_data_1 = 0, alex_update = False,
     freq_data = (\<lambda>_. 0), misc_data_0 = 0, misc_data_1 = 0, misc_data_2 = 0, misc_update = False,
     nucleo_data_0 = 0, nucleo_data_1 = 0, nucleo_data_2 = 0, nucleo_data_3 = 0, nucleo_update = False,
     uart_fd = 0, icom_band_data = 0\<rparr>"

text \<open>The constants in which the two builds differ: the sample clock in Hz, the decimation rates
  of the four sample rates, the transmit level per drive unit (in hundredths) and the defaults.
  \<open>v_thetis\<close> is the preprocessor switch \<open>THETIS\<close>: the Makefile builds a second binary with it.\<close>

record variant =
  v_clk :: int
  v_rates :: "u16 list"
  v_level100 :: int
  v_tx_level :: u16
  v_ps_level :: u16
  v_tx_scale :: int
  v_thetis :: bool

definition hpsdr_125 :: variant where
  "hpsdr_125 = \<lparr>v_clk = 125000000, v_rates = [1000, 500, 250, 125], v_level100 = 12592,
                v_tx_level = 32110, v_ps_level = 23080, v_tx_scale = 6100000, v_thetis = False\<rparr>"

definition hpsdr_122_88 :: variant where
  "hpsdr_122_88 = \<lparr>v_clk = 122880000, v_rates = [1280, 640, 320, 160], v_level100 = 8592,
                   v_tx_level = 21910, v_ps_level = 18716, v_tx_scale = 4100000, v_thetis = False\<rparr>"

definition thetis :: "variant \<Rightarrow> variant" where
  "thetis v = v\<lparr>v_thetis := True\<rparr>"

section \<open>Registers\<close>

text \<open>The pointers that \<open>main\<close> sets into the configuration page.\<close>

definition rx_rst :: nat where "rx_rst = 0"
definition lo_rst :: nat where "lo_rst = 1"
definition tx_rst :: nat where "tx_rst = 2"
definition gpio_out :: nat where "gpio_out = 3"
definition rx_rate :: nat where "rx_rate = 4"
definition rx_sel :: nat where "rx_sel = 6"
definition rx_freq :: "nat \<Rightarrow> nat" where "rx_freq i = 8 + 4 * i"
definition tx_freq :: nat where "tx_freq = 20"
definition tx_size :: nat where "tx_size = 24"
definition tx_level :: nat where "tx_level = 26"
definition ps_level :: nat where "ps_level = 28"
definition tx_sel :: nat where "tx_sel = 30"
definition dac_freq :: nat where "dac_freq = 32"
definition dac_size :: nat where "dac_size = 36"
definition dac_level :: nat where "dac_level = 38"

lemmas reg_addr =
  rx_rst_def lo_rst_def tx_rst_def gpio_out_def rx_rate_def rx_sel_def rx_freq_def tx_freq_def
  tx_size_def tx_level_def ps_level_def tx_sel_def dac_freq_def dac_size_def dac_level_def

text \<open>Every register of the page with its width in bytes.\<close>

definition reg_table :: "(nat \<times> nat) list" where
  "reg_table =
    [(rx_rst, 1), (lo_rst, 1), (tx_rst, 1), (gpio_out, 1), (rx_rate, 2), (rx_sel, 1),
     (rx_freq 0, 4), (rx_freq 1, 4), (rx_freq 2, 4), (tx_freq, 4), (tx_size, 2), (tx_level, 2),
     (ps_level, 2), (tx_sel, 1), (dac_freq, 4), (dac_size, 2), (dac_level, 2)]"

lemma registers_disjoint:
  "sorted_wrt (\<lambda>(a, n) (b, m). a + n \<le> b) reg_table \<and> (\<forall>(a, n) \<in> set reg_table. a + n \<le> 40)"
  by (simp add: reg_table_def reg_addr)

end
