(* ===== verification/LowerBound.thy ===== *)
theory LowerBound imports Main begin

text \<open>
  The binary search \<open>lower_bound\<close> that the transceiver server (over \<open>int\<close>) and the pulse generator
  (over \<open>int64_t\<close>) contain in the same form, and its specification on sorted arrays.
\<close>

function lower_bound_loop :: "int list \<Rightarrow> int \<Rightarrow> nat \<Rightarrow> nat \<Rightarrow> nat" where
  "lower_bound_loop a v i j =
     (if i < j
      then let k = i + (j - i) div 2
           in if a ! k < v then lower_bound_loop a v (k + 1) j else lower_bound_loop a v i k
      else i)"
  by pat_completeness auto
termination
  by (relation "measure (\<lambda>(a, v, i, j). j - i)") auto

declare lower_bound_loop.simps [simp del]

definition lower_bound :: "int list \<Rightarrow> nat \<Rightarrow> int \<Rightarrow> nat" where
  "lower_bound a sz v = lower_bound_loop a v 0 sz"

text \<open>Every element the loop reads is inside \<open>[i, j)\<close>, and its result is a split point of that range.\<close>

lemma lower_bound_loop_split:
  assumes "i \<le> j" and "j \<le> length a" and "sorted a"
    and "\<forall>n < i. a ! n < v" and "\<forall>n. j \<le> n \<and> n < length a \<longrightarrow> v \<le> a ! n"
  shows "lower_bound_loop a v i j \<le> length a \<and>
         (\<forall>n < lower_bound_loop a v i j. a ! n < v) \<and>
         (\<forall>n. lower_bound_loop a v i j \<le> n \<and> n < length a \<longrightarrow> v \<le> a ! n)"
  using assms
proof (induction a v i j rule: lower_bound_loop.induct)
  case (1 a v i j)
  show ?case
  proof (cases "i < j")
    case False
    then have "lower_bound_loop a v i j = i" by (simp add: lower_bound_loop.simps [of a v i j])
    with False "1.prems" show ?thesis by simp
  next
    case True
    define k where "k = i + (j - i) div 2"
    have k: "i \<le> k" "k < j" using True by (auto simp: k_def)
    show ?thesis
    proof (cases "a ! k < v")
      case less: True
      have kl: "k < length a" using k "1.prems" by simp
      have below: "\<forall>n < k + 1. a ! n < v"
      proof (intro allI impI)
        fix n assume "n < k + 1"
        then have "a ! n \<le> a ! k" using sorted_nth_mono [OF "1.prems"(3)] kl by simp
        with less show "a ! n < v" by simp
      qed
      have "lower_bound_loop a v i j = lower_bound_loop a v (k + 1) j"
        using True less by (simp add: lower_bound_loop.simps [of a v i j] k_def [symmetric] Let_def)
      then show ?thesis
        using "1.IH"(1) [OF True k_def less _ _ _ below] k "1.prems" by simp
    next
      case geq: False
      have above: "\<forall>n. k \<le> n \<and> n < length a \<longrightarrow> v \<le> a ! n"
      proof (intro allI impI)
        fix n assume "k \<le> n \<and> n < length a"
        then have "a ! k \<le> a ! n" using sorted_nth_mono [OF "1.prems"(3)] by simp
        with geq show "v \<le> a ! n" by simp
      qed
      have "lower_bound_loop a v i j = lower_bound_loop a v i k"
        using True geq by (simp add: lower_bound_loop.simps [of a v i j] k_def [symmetric] Let_def)
      then show ?thesis
        using "1.IH"(2) [OF True k_def geq _ _ _ _ above] k "1.prems" by simp
    qed
  qed
qed

lemma lower_bound_split:
  assumes "sorted a" and "sz = length a"
  shows "lower_bound a sz v \<le> length a"
    and "n < lower_bound a sz v \<Longrightarrow> a ! n < v"
    and "lower_bound a sz v \<le> n \<Longrightarrow> n < length a \<Longrightarrow> v \<le> a ! n"
  using lower_bound_loop_split [of 0 "length a" a v] assms by (auto simp: lower_bound_def)

text \<open>The specification: the number of elements below the value.\<close>

theorem lower_bound_spec:
  assumes "sorted a" and "sz = length a"
  shows "lower_bound a sz v = length (filter (\<lambda>x. x < v) a)"
proof -
  let ?r = "lower_bound a sz v"
  note s = lower_bound_split(1) [OF assms, of v] lower_bound_split(2,3) [OF assms, where v = v]
  have "filter (\<lambda>x. x < v) (take ?r a) = take ?r a"
    using s by (intro filter_True) (auto simp: in_set_conv_nth)
  moreover have "filter (\<lambda>x. x < v) (drop ?r a) = []"
    using s by (auto simp: filter_empty_conv in_set_conv_nth not_less)
  ultimately have "filter (\<lambda>x. x < v) (take ?r a @ drop ?r a) = take ?r a" by (simp only: filter_append append_Nil2)
  then show ?thesis using s(1) by simp
qed

lemma lower_bound_eq:
  assumes "sorted a" and "sz = length a" and "r \<le> length a"
    and "\<forall>n < r. a ! n < v" and "\<forall>n. r \<le> n \<and> n < length a \<longrightarrow> v \<le> a ! n"
  shows "lower_bound a sz v = r"
  using lower_bound_split(1) [OF assms(1,2), of v] lower_bound_split(2,3) [OF assms(1,2), where v = v] assms(3-5)
  by (metis leD leI nat_less_le order_less_le_trans)

end
