(* ===== verification/HpsdrFilters.thy ===== *)
theory HpsdrFilters imports HpsdrState LowerBound begin

text \<open>
  The band and filter logic of sdr-transceiver-hpsdr.c: \<open>alex_write\<close> (Alexiares filter boards),
  \<open>misc_write\<close> and \<open>nucleo_write\<close> (band codes for external hardware over I2C) and \<open>icom_write\<close>
  (band changes of an ICOM transceiver over the serial port).
\<close>

section \<open>alex_write\<close>

definition alex_hpf :: "u16 \<Rightarrow> u16 \<Rightarrow> u16 \<Rightarrow> u32 \<Rightarrow> u16" where
  "alex_hpf preamp manual data1 freq =
    (if preamp \<noteq> 0 then 0
     else if manual \<noteq> 0 then data1 AND 0x3f
     else if freq < 1416000 then 0x20
     else if freq < 6500000 then 0x10
     else if freq < 9500000 then 0x08
     else if freq < 13000000 then 0x04
     else if freq < 20000000 then 0x01
     else 0x02)"

definition alex_lpf :: "u16 \<Rightarrow> u16 \<Rightarrow> u32 \<Rightarrow> u16" where
  "alex_lpf manual data1 freq =
    (if manual \<noteq> 0 then drop_bit 8 data1 AND 0x7f
     else if freq > 32000000 then 0x10
     else if freq > 22000000 then 0x20
     else if freq > 15000000 then 0x40
     else if freq > 8000000 then 0x01
     else if freq > 4500000 then 0x02
     else if freq > 2400000 then 0x04
     else 0x08)"

definition alex_rx_word :: "u16 \<Rightarrow> u16 \<Rightarrow> u16 \<Rightarrow> u16 \<Rightarrow> u16" where
  "alex_rx_word ptt preamp hpf data0 = ucast
    (push_bit 15 (promote ptt) OR
     push_bit 14 (drop_bit 1 (promote data0) AND 1) OR
     push_bit 13 (drop_bit 2 (promote data0) AND 1) OR
     push_bit 12 (drop_bit 5 (promote hpf) AND 1) OR
     push_bit 11 (drop_bit 7 (promote data0) AND 1) OR
     push_bit 10 (cbool (drop_bit 5 (promote data0) AND 3 = 1)) OR
     push_bit 9 (cbool (drop_bit 5 (promote data0) AND 3 = 2)) OR
     push_bit 8 (cbool (drop_bit 5 (promote data0) AND 3 = 3)) OR
     push_bit 4 (drop_bit 2 (promote hpf) AND 7) OR
     push_bit 3 (promote preamp) OR
     push_bit 1 (promote hpf AND 3) OR
     1)"

definition alex_tx_word :: "u16 \<Rightarrow> u16 \<Rightarrow> u16 \<Rightarrow> u16 \<Rightarrow> u16" where
  "alex_tx_word ptt lpf data0 data1 = ucast
    (push_bit 13 (drop_bit 4 (promote lpf) AND 7) OR
     push_bit 12 (promote ptt) OR
     push_bit 11 (NOT (drop_bit 7 (promote data1)) AND promote ptt) OR
     push_bit 10 (cbool (drop_bit 8 (promote data0) AND 3 = 2)) OR
     push_bit 9 (cbool (drop_bit 8 (promote data0) AND 3 = 1)) OR
     push_bit 8 (cbool (drop_bit 8 (promote data0) AND 3 = 0)) OR
     push_bit 4 (promote lpf AND 0x0f) OR
     push_bit 3 1)"

definition alex_store_rx :: "u16 \<Rightarrow> hpsdr \<Rightarrow> hpsdr" where
  "alex_store_rx data s =
    (if alex_data_rx s \<noteq> data
     then emit [Alex (push_bit 16 1 OR promote data)] (s\<lparr>alex_data_rx := data\<rparr>) else s)"

definition alex_store_tx :: "u16 \<Rightarrow> hpsdr \<Rightarrow> hpsdr" where
  "alex_store_tx data s =
    (if alex_data_tx s \<noteq> data
     then emit [Alex (push_bit 17 1 OR promote data)] (s\<lparr>alex_data_tx := data\<rparr>) else s)"

definition alex_max :: "hpsdr \<Rightarrow> u32" where
  "alex_max s = (if freq_data s 1 > freq_data s 2 then freq_data s 1 else freq_data s 2)"

definition alex_min :: "hpsdr \<Rightarrow> u32" where
  "alex_min s = (if freq_data s 1 < freq_data s 2 then freq_data s 1 else freq_data s 2)"

definition alex_manual :: "hpsdr \<Rightarrow> u16" where
  "alex_manual s = drop_bit 15 (alex_data_1 s) AND 1"

definition alex_preamp :: "hpsdr \<Rightarrow> u16" where
  "alex_preamp s = (if alex_manual s \<noteq> 0 then drop_bit 6 (alex_data_1 s) AND 1
                    else of_bool (alex_max s > 50000000))"

definition alex_ptt :: "hpsdr \<Rightarrow> u16" where
  "alex_ptt s = alex_data_0 s AND 1"

definition alex_rx_data :: "hpsdr \<Rightarrow> u16" where
  "alex_rx_data s =
    alex_rx_word (alex_ptt s) (alex_preamp s)
      (alex_hpf (alex_preamp s) (alex_manual s) (alex_data_1 s) (alex_min s)) (alex_data_0 s)"

definition alex_tx_data :: "hpsdr \<Rightarrow> u16" where
  "alex_tx_data s =
    alex_tx_word (alex_ptt s)
      (alex_lpf (alex_manual s) (alex_data_1 s)
        (if alex_ptt s \<noteq> 0 then freq_data s 0 else alex_max s))
      (alex_data_0 s) (alex_data_1 s)"

definition alex_write :: "hpsdr \<Rightarrow> hpsdr" where
  "alex_write s =
    (if i2c_codec s then s
     else let s1 = alex_store_rx (alex_rx_data s) s
          in alex_store_tx (alex_tx_data s1) s1)"

section \<open>misc_write and nucleo_write\<close>

definition misc_freqs :: "int list" where
  "misc_freqs =
    [1700000, 2100000, 3400000, 3900000, 6900000, 7350000, 9900000, 10250000,
     13900000, 14450000, 17950000, 18250000, 20900000, 21550000, 24800000, 25100000,
     26900000, 30000000, 49000000, 55000000]"

definition nucleo_freqs :: "int list" where
  "nucleo_freqs =
    [1700000, 2100000, 3400000, 3900000, 5250000, 5450000, 6900000, 7350000, 9900000, 10250000,
     13900000, 14450000, 17950000, 18250000, 20900000, 21550000, 24800000, 25100000,
     26900000, 30000000, 49000000, 55000000]"

text \<open>\<open>code[i] = lower_bound(freqs, n, freq_data[i]); code[i] = code[i] % 2 ? code[i] / 2 + 1 : 0;\<close>\<close>

definition band_code :: "int list \<Rightarrow> nat \<Rightarrow> u32 \<Rightarrow> nat" where
  "band_code freqs n f =
    (let c = lower_bound freqs n (sint f) in if c mod 2 \<noteq> 0 then c div 2 + 1 else 0)"

definition misc_word :: "nat \<Rightarrow> nat \<Rightarrow> nat \<Rightarrow> u16 \<Rightarrow> u16 \<Rightarrow> u16 \<Rightarrow> u16" where
  "misc_word c0 c1 c2 m0 m1 m2 = ucast
    ((push_bit 8 (cbool (c0 \<noteq> c1)) OR push_bit 4 (of_nat c2) OR of_nat c1) OR
     (push_bit 8 (promote m1 AND 0x18) OR push_bit 6 (promote m0 AND 0x18)) OR
     push_bit 13 (promote m2 AND 0x03))"

definition misc_store :: "u16 \<Rightarrow> hpsdr \<Rightarrow> hpsdr" where
  "misc_store data s =
    (if i2c_misc_data s \<noteq> data
     then emit [Slave 0x23, I2c (i2c_write_addr_data16 0x02 data)] (s\<lparr>i2c_misc_data := data\<rparr>) else s)"

definition misc_write :: "hpsdr \<Rightarrow> hpsdr" where
  "misc_write s =
    misc_store (misc_word (band_code misc_freqs 20 (freq_data s 0)) (band_code misc_freqs 20 (freq_data s 1))
                          (band_code misc_freqs 20 (freq_data s 2))
                          (misc_data_0 s) (misc_data_1 s) (misc_data_2 s)) s"

definition nucleo_word0 :: "nat \<Rightarrow> nat \<Rightarrow> u32 \<Rightarrow> u32 \<Rightarrow> u32 \<Rightarrow> u32 \<Rightarrow> u32" where
  "nucleo_word0 c0 c1 n0 n1 n2 n3 =
    push_bit 25 n3 OR push_bit 20 n2 OR push_bit 17 n1 OR push_bit 1 n0 OR cbool (c0 \<noteq> c1)"

definition nucleo_word1 :: "nat \<Rightarrow> nat \<Rightarrow> u32" where
  "nucleo_word1 c1 c2 = push_bit 4 (of_nat c2) OR of_nat c1"

definition nucleo_store :: "u32 \<times> u32 \<Rightarrow> hpsdr \<Rightarrow> hpsdr" where
  "nucleo_store data s =
    (if i2c_nucleo_data s \<noteq> data
     then emit [Slave 0x55, I2c (i2c_write_data40 (fst data) (snd data))] (s\<lparr>i2c_nucleo_data := data\<rparr>) else s)"

definition nucleo_write :: "hpsdr \<Rightarrow> hpsdr" where
  "nucleo_write s =
    (let c0 = band_code nucleo_freqs 22 (freq_data s 0);
         c1 = band_code nucleo_freqs 22 (freq_data s 1);
         c2 = band_code nucleo_freqs 22 (freq_data s 2)
     in nucleo_store (nucleo_word0 c0 c1 (nucleo_data_0 s) (nucleo_data_1 s) (nucleo_data_2 s) (nucleo_data_3 s),
                      nucleo_word1 c1 c2) s)"

section \<open>icom_write\<close>

definition icom_band :: "u32 \<Rightarrow> u8" where
  "icom_band freq =
    (if freq < 2000000 then 0x01
     else if freq < 4000000 then 0x03
     else if freq < 8000000 then 0x07
     else if freq < 11000000 then 0x10
     else if freq < 15000000 then 0x14
     else if freq < 20000000 then 0x18
     else if freq < 22000000 then 0x21
     else if freq < 26000000 then 0x24
     else 0x28)"

definition icom_message :: "u8 \<Rightarrow> u8 list" where
  "icom_message band =
    [0xfe, 0xfe, 0x04, 0xe0, 0x05, 0x00, 0x00,
     (if band = 0x01 then 0x80 else if band = 0x03 then 0x50 else 0x00), band, 0xfd]"

definition icom_write :: "hpsdr \<Rightarrow> hpsdr" where
  "icom_write s =
    (let band = icom_band (freq_data s 0)
     in if icom_band_data s \<noteq> band
        then let s1 = s\<lparr>icom_band_data := band\<rparr>
             in if uart_fd s1 \<ge> 0 then emit [Uart (icom_message band)] s1 else s1
        else s)"


section \<open>Band codes\<close>

lemma band_code_odd:
  assumes "sorted freqs" and "n = length freqs" and "even n" and "0 < b" and "2 * b \<le> n"
  shows "band_code freqs n f = b \<longleftrightarrow> freqs ! (2 * b - 2) < sint f \<and> sint f \<le> freqs ! (2 * b - 1)"
    (is "?l \<longleftrightarrow> ?r")
proof
  let ?lb = "lower_bound freqs n (sint f)"
  assume ?l
  then have lb: "?lb = 2 * b - 1" using \<open>0 < b\<close> by (auto simp: band_code_def Let_def split: if_splits) presburger
  then show ?r
    using lower_bound_split(2) [OF assms(1,2), of "2 * b - 2" "sint f"]
      lower_bound_split(3) [OF assms(1,2), of "sint f" "2 * b - 1"] assms(2,4,5) by simp
next
  let ?lb = "lower_bound freqs n (sint f)"
  assume r: ?r
  have "?lb = 2 * b - 1"
  proof (rule lower_bound_eq [OF assms(1,2)])
    show "\<forall>k < 2 * b - 1. freqs ! k < sint f"
    proof (intro allI impI)
      fix k assume "k < 2 * b - 1"
      then have "freqs ! k \<le> freqs ! (2 * b - 2)" using assms by (intro sorted_nth_mono) auto
      with r show "freqs ! k < sint f" by simp
    qed
    show "\<forall>k. 2 * b - 1 \<le> k \<and> k < length freqs \<longrightarrow> sint f \<le> freqs ! k"
    proof (intro allI impI)
      fix k assume "2 * b - 1 \<le> k \<and> k < length freqs"
      then have "freqs ! (2 * b - 1) \<le> freqs ! k" using assms by (intro sorted_nth_mono) auto
      with r show "sint f \<le> freqs ! k" by simp
    qed
  qed (use assms in simp)
  then show ?l using \<open>0 < b\<close> by (simp add: band_code_def Let_def) presburger
qed

lemma band_code_le:
  "sorted freqs \<Longrightarrow> n = length freqs \<Longrightarrow> even n \<Longrightarrow> 2 * band_code freqs n f \<le> n"
  using lower_bound_split(1) [of freqs n "sint f"]
  by (auto simp: band_code_def Let_def) presburger

lemma sorted_freqs [simp]: "sorted misc_freqs" "sorted nucleo_freqs"
  "length misc_freqs = 20" "length nucleo_freqs = 22"
  by (simp_all add: misc_freqs_def nucleo_freqs_def)

lemma misc_code_le: "band_code misc_freqs 20 f \<le> 10"
  using band_code_le [of misc_freqs 20 f] by simp

lemma nucleo_code_le: "band_code nucleo_freqs 22 f \<le> 11"
  using band_code_le [of nucleo_freqs 22 f] by simp

section \<open>Field layout of the words\<close>

lemma misc_word_fields:
  assumes "c1 < 16" and "c2 < 16"
  shows "misc_word c0 c1 c2 m0 m1 m2 AND 15 = of_nat c1"
    and "drop_bit 4 (misc_word c0 c1 c2 m0 m1 m2) AND 15 = of_nat c2"
    and "bit (misc_word c0 c1 c2 m0 m1 m2) 8 = (c0 \<noteq> c1)"
    and "drop_bit 9 (misc_word c0 c1 c2 m0 m1 m2) AND 3 = drop_bit 3 m0 AND 3"
    and "drop_bit 11 (misc_word c0 c1 c2 m0 m1 m2) AND 3 = drop_bit 3 m1 AND 3"
    and "drop_bit 13 (misc_word c0 c1 c2 m0 m1 m2) = m2 AND 3"
proof -
  have c: "4 \<le> n \<Longrightarrow> \<not> bit c1 n" "4 \<le> n \<Longrightarrow> \<not> bit c2 n" for n
    using assms bit_small_nat [of c1 4] bit_small_nat [of c2 4] by auto
  note b = misc_word_def word_bits
  show "misc_word c0 c1 c2 m0 m1 m2 AND 15 = of_nat c1"
    by (rule word16_eqI) (simp add: b c)
  show "drop_bit 4 (misc_word c0 c1 c2 m0 m1 m2) AND 15 = of_nat c2"
    by (rule word16_eqI) (simp add: b c)
  show "bit (misc_word c0 c1 c2 m0 m1 m2) 8 = (c0 \<noteq> c1)"
    by (simp add: b c)
  show "drop_bit 9 (misc_word c0 c1 c2 m0 m1 m2) AND 3 = drop_bit 3 m0 AND 3"
    by (rule word16_eqI) (simp add: b c)
  show "drop_bit 11 (misc_word c0 c1 c2 m0 m1 m2) AND 3 = drop_bit 3 m1 AND 3"
    by (rule word16_eqI) (simp add: b c)
  show "drop_bit 13 (misc_word c0 c1 c2 m0 m1 m2) = m2 AND 3"
    by (rule word16_eqI) (simp add: b c)
qed


lemma nucleo_word0_fields:
  assumes "unat n0 < 2 ^ 16" and "unat n1 < 2 ^ 3" and "unat n2 < 2 ^ 5" and "unat n3 < 2 ^ 5"
  shows "bit (nucleo_word0 c0 c1 n0 n1 n2 n3) 0 = (c0 \<noteq> c1)"
    and "drop_bit 1 (nucleo_word0 c0 c1 n0 n1 n2 n3) AND 0xffff = n0"
    and "drop_bit 17 (nucleo_word0 c0 c1 n0 n1 n2 n3) AND 7 = n1"
    and "drop_bit 20 (nucleo_word0 c0 c1 n0 n1 n2 n3) AND 0x1f = n2"
    and "drop_bit 25 (nucleo_word0 c0 c1 n0 n1 n2 n3) = n3"
proof -
  have h: "16 \<le> n \<Longrightarrow> \<not> bit n0 n" "3 \<le> n \<Longrightarrow> \<not> bit n1 n" "5 \<le> n \<Longrightarrow> \<not> bit n2 n" "5 \<le> n \<Longrightarrow> \<not> bit n3 n" for n
    using assms [THEN word_high_bits] by simp_all
  note b = nucleo_word0_def word_bits
  show "bit (nucleo_word0 c0 c1 n0 n1 n2 n3) 0 = (c0 \<noteq> c1)"
    by (simp add: b)
  show "drop_bit 1 (nucleo_word0 c0 c1 n0 n1 n2 n3) AND 0xffff = n0"
    by (rule word32_eqI) (simp add: b h)
  show "drop_bit 17 (nucleo_word0 c0 c1 n0 n1 n2 n3) AND 7 = n1"
    by (rule word32_eqI) (simp add: b h)
  show "drop_bit 20 (nucleo_word0 c0 c1 n0 n1 n2 n3) AND 0x1f = n2"
    by (rule word32_eqI) (simp add: b h)
  show "drop_bit 25 (nucleo_word0 c0 c1 n0 n1 n2 n3) = n3"
    by (rule word32_eqI) (simp add: b h)
qed

text \<open>The five bytes of \<open>i2c_write_data40\<close> carry the low word and the low byte of the high word.\<close>

lemma data40_low: "of_le32 (take 4 (i2c_write_data40 low high)) = low"
  by (simp add: i2c_write_data40_def min_def)

lemma data40_high: "i2c_write_data40 low high ! 4 = ucast high" "length (i2c_write_data40 low high) = 5"
  by (simp_all add: i2c_write_data40_def le32_def)

lemma nucleo_word1_fields:
  assumes "c1 < 16" and "c2 < 16"
  shows "(ucast (nucleo_word1 c1 c2) :: u8) AND 15 = of_nat c1"
    and "drop_bit 4 (ucast (nucleo_word1 c1 c2) :: u8) = of_nat c2"
proof -
  have c: "4 \<le> n \<Longrightarrow> \<not> bit c1 n" "4 \<le> n \<Longrightarrow> \<not> bit c2 n" for n
    using assms bit_small_nat [of c1 4] bit_small_nat [of c2 4] by auto
  show "(ucast (nucleo_word1 c1 c2) :: u8) AND 15 = of_nat c1"
    by (rule word8_eqI) (simp add: nucleo_word1_def word_bits c)
  show "drop_bit 4 (ucast (nucleo_word1 c1 c2) :: u8) = of_nat c2"
    by (rule word8_eqI) (simp add: nucleo_word1_def word_bits c)
qed

section \<open>Alex words\<close>

text \<open>The low-pass field of the transmit word and the high-pass field of the receive word, put
  together from the two places where the words keep them.\<close>

definition tx_word_lpf :: "u16 \<Rightarrow> u16" where
  "tx_word_lpf w = push_bit 4 (drop_bit 13 w) OR (drop_bit 4 w AND 0x0f)"

definition rx_word_hpf :: "u16 \<Rightarrow> u16" where
  "rx_word_hpf w = push_bit 5 (drop_bit 12 w AND 1) OR push_bit 2 (drop_bit 4 w AND 7) OR (drop_bit 1 w AND 3)"

lemma tx_word_fields:
  assumes ptt: "ptt = 0 \<or> ptt = 1" and lpf: "unat lpf < 2 ^ 7"
  shows "tx_word_lpf (alex_tx_word ptt lpf data0 data1) = lpf"
    and "bit (alex_tx_word ptt lpf data0 data1) 12 = (ptt = 1)"
proof -
  have h: "7 \<le> n \<Longrightarrow> \<not> bit lpf n" for n using word_high_bits [OF lpf] .
  show "tx_word_lpf (alex_tx_word ptt lpf data0 data1) = lpf"
    by (rule word16_eqI) (use ptt in \<open>auto simp: tx_word_lpf_def alex_tx_word_def word_bits h\<close>)
  show "bit (alex_tx_word ptt lpf data0 data1) 12 = (ptt = 1)"
    using ptt by (auto simp: alex_tx_word_def word_bits h)
qed

lemma rx_word_fields:
  assumes ptt: "ptt = 0 \<or> ptt = 1" and pre: "preamp = 0 \<or> preamp = 1" and hpf: "unat hpf < 2 ^ 6"
  shows "rx_word_hpf (alex_rx_word ptt preamp hpf data0) = hpf"
    and "bit (alex_rx_word ptt preamp hpf data0) 3 = (preamp = 1)"
    and "bit (alex_rx_word ptt preamp hpf data0) 15 = (ptt = 1)"
proof -
  have h: "6 \<le> n \<Longrightarrow> \<not> bit hpf n" for n using word_high_bits [OF hpf] .
  show "rx_word_hpf (alex_rx_word ptt preamp hpf data0) = hpf"
    by (rule word16_eqI) (use ptt pre in \<open>auto simp: rx_word_hpf_def alex_rx_word_def word_bits h\<close>)
  show "bit (alex_rx_word ptt preamp hpf data0) 3 = (preamp = 1)"
    using ptt pre by (auto simp: alex_rx_word_def word_bits h)
  show "bit (alex_rx_word ptt preamp hpf data0) 15 = (ptt = 1)"
    using ptt pre by (auto simp: alex_rx_word_def word_bits h)
qed


section \<open>Write-through stores\<close>

interpretation alex_rx: write_through alex_data_rx alex_store_rx log "\<lambda>d. [Alex (push_bit 16 1 OR promote d)]"
  by unfold_locales (auto simp: alex_store_rx_def log_simps emit_def)

interpretation alex_tx: write_through alex_data_tx alex_store_tx log "\<lambda>d. [Alex (push_bit 17 1 OR promote d)]"
  by unfold_locales (auto simp: alex_store_tx_def log_simps emit_def)

interpretation misc: i2c_reg i2c_misc_data misc_store log "0x23" "i2c_write_addr_data16 0x02" "(0x23, 0x02)"
  by unfold_locales (auto simp: misc_store_def emit_def i2c_key_def i2c_raw_def)

interpretation nucleo: i2c_reg i2c_nucleo_data nucleo_store log "0x55" "\<lambda>d. i2c_write_data40 (fst d) (snd d)" "(0x55, 0)"
  by unfold_locales (auto simp: nucleo_store_def emit_def i2c_key_def i2c_raw_def)

lemma alex_store_rx_frame [frame_simps]:
  "i2c_codec (alex_store_rx d s) = i2c_codec s" "freq_data (alex_store_rx d s) = freq_data s"
  "alex_data_0 (alex_store_rx d s) = alex_data_0 s" "alex_data_1 (alex_store_rx d s) = alex_data_1 s"
  "alex_data_tx (alex_store_rx d s) = alex_data_tx s" "cfg (alex_store_rx d s) = cfg s"
  by (simp_all add: alex_store_rx_def emit_def)

lemma alex_store_tx_frame [frame_simps]:
  "i2c_codec (alex_store_tx d s) = i2c_codec s" "freq_data (alex_store_tx d s) = freq_data s"
  "alex_data_0 (alex_store_tx d s) = alex_data_0 s" "alex_data_1 (alex_store_tx d s) = alex_data_1 s"
  "alex_data_rx (alex_store_tx d s) = alex_data_rx s" "cfg (alex_store_tx d s) = cfg s"
  by (simp_all add: alex_store_tx_def emit_def)

lemmas alex_inputs = alex_max_def alex_min_def alex_manual_def alex_preamp_def alex_ptt_def

lemma alex_data_frame [frame_simps]:
  "alex_rx_data (alex_store_rx d s) = alex_rx_data s" "alex_tx_data (alex_store_rx d s) = alex_tx_data s"
  "alex_rx_data (alex_store_tx d s) = alex_rx_data s" "alex_tx_data (alex_store_tx d s) = alex_tx_data s"
  by (simp_all add: alex_rx_data_def alex_tx_data_def alex_inputs frame_simps)

lemma alex_write_words:
  "\<not> i2c_codec s \<Longrightarrow> alex_data_rx (alex_write s) = alex_rx_data s"
  "\<not> i2c_codec s \<Longrightarrow> alex_data_tx (alex_write s) = alex_tx_data s"
  by (simp_all add: alex_write_def Let_def frame_simps alex_rx.get_store alex_tx.get_store)

lemma alex_write_events:
  "log (alex_write s) = log s @
     (if i2c_codec s then []
      else (if alex_data_rx s = alex_rx_data s then [] else [Alex (push_bit 16 1 OR promote (alex_rx_data s))]) @
           (if alex_data_tx s = alex_tx_data s then [] else [Alex (push_bit 17 1 OR promote (alex_tx_data s))]))"
  by (simp add: alex_write_def Let_def frame_simps alex_rx.store_events alex_tx.store_events)

lemma alex_write_idem: "alex_write (alex_write s) = alex_write s"
  by (simp add: alex_write_def Let_def frame_simps alex_rx.get_store alex_tx.get_store alex_rx.store_same alex_tx.store_same)

section \<open>The filters the words select\<close>

definition lpf_table :: "(u16 \<times> u32) list" where
  "lpf_table = [(0x08, 2400000), (0x04, 4500000), (0x02, 8000000), (0x01, 15000000), (0x40, 22000000), (0x20, 32000000)]"

definition lpf_for :: "u32 \<Rightarrow> u16" where
  "lpf_for f = (case find (\<lambda>(b, c). f \<le> c) lpf_table of Some (b, c) \<Rightarrow> b | None \<Rightarrow> 0x10)"

definition hpf_table :: "(u16 \<times> u32) list" where
  "hpf_table = [(0x02, 20000000), (0x01, 13000000), (0x04, 9500000), (0x08, 6500000), (0x10, 1416000)]"

definition hpf_for :: "u32 \<Rightarrow> u16" where
  "hpf_for f = (case find (\<lambda>(b, c). c \<le> f) hpf_table of Some (b, c) \<Rightarrow> b | None \<Rightarrow> 0x20)"

lemma alex_lpf_auto: "alex_lpf 0 data1 f = lpf_for f"
  by (auto simp: alex_lpf_def lpf_for_def lpf_table_def word_le_nat_alt word_less_nat_alt)

lemma alex_hpf_auto: "alex_hpf 0 0 data1 f = hpf_for f"
  by (auto simp: alex_hpf_def hpf_for_def hpf_table_def word_le_nat_alt word_less_nat_alt)

lemma lpf_passes: "(lpf_for f, c) \<in> set lpf_table \<Longrightarrow> f \<le> c"
  by (auto simp: lpf_for_def lpf_table_def split: if_splits)

lemma lpf_tightest: "(b, c) \<in> set lpf_table \<Longrightarrow> f \<le> c \<Longrightarrow> \<exists>c'. (lpf_for f, c') \<in> set lpf_table \<and> f \<le> c' \<and> c' \<le> c"
  by (auto simp: lpf_for_def lpf_table_def word_le_nat_alt split: if_splits)

lemma alex_flag: "(w AND 1 :: u16) = 0 \<or> w AND 1 = 1"
  by (simp add: and_one_eq mod_2_eq_odd)

lemma alex_ptt_bit: "alex_ptt s \<noteq> 0 \<longleftrightarrow> bit (alex_data_0 s) 0"
  by (simp add: alex_ptt_def and_one_eq even_iff_mod_2_eq_zero [symmetric] bit_0)


lemma alex_ptt_cases: "alex_ptt s = 0 \<or> alex_ptt s = 1"
  by (simp add: alex_ptt_def alex_flag)

lemma lpf_for_bound: "unat (lpf_for f) < 2 ^ 7"
  by (simp add: lpf_for_def lpf_table_def)

lemma hpf_for_bound: "unat (hpf_for f) < 2 ^ 6"
  by (simp add: hpf_for_def hpf_table_def)

section \<open>icom_write\<close>

text \<open>The frequency of the CI-V message: five BCD bytes, least significant first.\<close>

definition bcd :: "u8 \<Rightarrow> nat" where
  "bcd b = 10 * (unat b div 16) + unat b mod 16"

definition civ_freq :: "u8 list \<Rightarrow> nat" where
  "civ_freq bs = bcd (bs ! 5) + bcd (bs ! 6) * 100 + bcd (bs ! 7) * 10000 + bcd (bs ! 8) * 1000000"

text \<open>The amateur bands as \<open>icom_write\<close> divides the spectrum: the first frequency, the first one of the next band, and the
  frequency that selects the band, all in Hz.\<close>

definition civ_bands :: "(nat \<times> nat \<times> nat) list" where
  "civ_bands =
    [(0, 2000000, 1800000), (2000000, 4000000, 3500000), (4000000, 8000000, 7000000), (8000000, 11000000, 10000000),
     (11000000, 15000000, 14000000), (15000000, 20000000, 18000000), (20000000, 22000000, 21000000),
     (22000000, 26000000, 24000000), (26000000, 2 ^ 32, 28000000)]"

text \<open>Two decimal digits in each byte.\<close>

definition bcd_digits :: "u8 list \<Rightarrow> bool" where
  "bcd_digits bs \<longleftrightarrow> list_all (\<lambda>b. unat b div 16 < 10 \<and> unat b mod 16 < 10) bs"

definition civ_frame :: "u8 list \<Rightarrow> bool" where
  "civ_frame bs \<longleftrightarrow> length bs = 10 \<and> take 5 bs = [0xfe, 0xfe, 0x04, 0xe0, 0x05] \<and> bcd_digits (take 4 (drop 5 bs)) \<and> bs ! 9 = 0xfd"

text \<open>Each row has a byte of its own, the megahertz of its frequency as two decimal digits.\<close>

definition civ_byte :: "nat \<Rightarrow> u8" where
  "civ_byte fr = of_nat (16 * (fr div 10000000) + fr div 1000000 mod 10)"

lemma civ_rows:
  "list_all (\<lambda>(lo, hi, fr). civ_frame (icom_message (civ_byte fr)) \<and> civ_freq (icom_message (civ_byte fr)) = fr \<and> lo \<le> fr \<and> fr < hi) civ_bands"
  by (simp add: civ_bands_def civ_byte_def civ_frame_def bcd_digits_def icom_message_def civ_freq_def bcd_def)

lemma icom_band_row: "(lo, hi, fr) \<in> set civ_bands \<Longrightarrow> icom_band f = civ_byte fr \<longleftrightarrow> lo \<le> unat f \<and> unat f < hi"
  using unsigned_less [of f, where ?'a = nat]
  by (auto simp: civ_bands_def civ_byte_def icom_band_def word_less_nat_alt split: if_splits)

lemma icom_band_nonzero: "icom_band f \<noteq> 0"
  by (simp add: icom_band_def)

lemma icom_write_events:
  "log (icom_write s) = log s @
     (if icom_band_data s \<noteq> icom_band (freq_data s 0) \<and> uart_fd s \<ge> 0
      then [Uart (icom_message (icom_band (freq_data s 0)))] else [])"
  by (simp add: icom_write_def Let_def emit_def)

lemma icom_write_data: "icom_band_data (icom_write s) = icom_band (freq_data s 0)"
  by (simp add: icom_write_def Let_def emit_def)

text \<open>The frequency for which the transceiver has been told its band last, if any.\<close>

definition icom_told :: "u32 option \<Rightarrow> hpsdr \<Rightarrow> bool" where
  "icom_told prev s \<longleftrightarrow> icom_band_data s = (case prev of None \<Rightarrow> 0 | Some g \<Rightarrow> icom_band g)"

text \<open>C9: when the transmit frequency lies in a row of \<open>civ_bands\<close>, \<open>icom_write\<close> sends nothing if the frequency of the previous call was in the
  same row, and otherwise one CI-V message: its header, the frequency of the row as four bytes of two decimal digits, the least significant
  first, and its end mark.\<close>

theorem icom_selects_band:
  assumes row: "(lo, hi, fr) \<in> set civ_bands" "lo \<le> unat (freq_data s 0)" "unat (freq_data s 0) < hi"
    and prev: "icom_told prev s" and uart: "0 \<le> uart_fd s"
  shows "\<exists>bs. log (icom_write s) = log s @ (if \<exists>g. prev = Some g \<and> lo \<le> unat g \<and> unat g < hi then [] else [Uart bs]) \<and>
    civ_frame bs \<and> civ_freq bs = fr \<and> icom_told (Some (freq_data s 0)) (icom_write s)"
proof (intro exI conjI)
  have band: "icom_band (freq_data s 0) = civ_byte fr" using icom_band_row [OF row(1)] row(2,3) by blast
  have told: "icom_band_data s = civ_byte fr \<longleftrightarrow> (\<exists>g. prev = Some g \<and> lo \<le> unat g \<and> unat g < hi)"
    using prev icom_band_row [OF row(1)] icom_band_nonzero [of "freq_data s 0"] by (cases prev) (auto simp: icom_told_def band)
  show "log (icom_write s) = log s @ (if \<exists>g. prev = Some g \<and> lo \<le> unat g \<and> unat g < hi then [] else [Uart (icom_message (civ_byte fr))])"
    using uart by (simp add: icom_write_events band flip: told)
  show "civ_frame (icom_message (civ_byte fr))" "civ_freq (icom_message (civ_byte fr)) = fr"
    using civ_rows row(1) by (auto simp: list_all_iff)
  show "icom_told (Some (freq_data s 0)) (icom_write s)" by (simp add: icom_told_def icom_write_data)
qed

theorem icom_selects_band_witness:
  "\<exists>bs. log (icom_write (hpsdr_start\<lparr>freq_data := (\<lambda>_. 7100000)\<rparr>)) = [Uart bs] \<and> civ_freq bs = 7000000"
  using icom_selects_band [of 4000000 8000000 7000000 "hpsdr_start\<lparr>freq_data := (\<lambda>_. 7100000)\<rparr>" None]
  by (auto simp: civ_bands_def icom_told_def hpsdr_start_def)

section \<open>Properties\<close>

text \<open>The band code that \<open>misc_write\<close> computes for a frequency is \<open>b\<close> exactly when
  the frequency lies in the \<open>b\<close>-th band of the table (lower edge excluded), it is at most 10, and it
  is 0 exactly outside all bands.\<close>

theorem misc_band_iff:
  "band_code misc_freqs 20 f \<le> 10 \<and>
   (\<forall>b \<in> {1..10}. band_code misc_freqs 20 f = b \<longleftrightarrow>
      misc_freqs ! (2 * b - 2) < sint f \<and> sint f \<le> misc_freqs ! (2 * b - 1))"
  using band_code_odd [of misc_freqs 20 _ f] misc_code_le [of f] by auto

theorem misc_band_iff_witness:
  "band_code misc_freqs 20 7100000 = 3 \<and> 6900000 < sint (7100000 :: u32)"
  using misc_band_iff [of 7100000] by (simp add: misc_freqs_def)

text \<open>The word that \<open>misc_write\<close> sends holds each of its inputs in a field of
  its own: the two band codes, the flag that transmit and receive bands differ, and the
  attenuation and antenna bits.\<close>

theorem misc_word_roundtrip:
  "let c = (\<lambda>i. band_code misc_freqs 20 (freq_data s i)); w = i2c_misc_data (misc_write s) in
   w AND 15 = of_nat (c 1) \<and> drop_bit 4 w AND 15 = of_nat (c 2) \<and> bit w 8 = (c 0 \<noteq> c 1) \<and>
   drop_bit 9 w AND 3 = drop_bit 3 (misc_data_0 s) AND 3 \<and>
   drop_bit 11 w AND 3 = drop_bit 3 (misc_data_1 s) AND 3 \<and>
   drop_bit 13 w = misc_data_2 s AND 3"
proof -
  have "band_code misc_freqs 20 (freq_data s i) < 16" for i using misc_code_le [of "freq_data s i"] by simp
  then show ?thesis by (simp add: Let_def misc_write_def misc.get_store misc_word_fields)
qed

text \<open>C8: outside manual mode, after \<open>alex_write\<close> the transmit word carries the PTT
  flag and the low-pass filter of the frequency in use (the transmit frequency while PTT is on, the
  higher receive frequency otherwise), and that filter, if it is one of the table, passes the
  frequency and is the tightest that does.\<close>

theorem alex_write_tx_filter:
  assumes "\<not> i2c_codec s" and "alex_manual s = 0"
  shows "let ptt = bit (alex_data_0 s) 0; f = (if ptt then freq_data s 0 else alex_max s);
             w = alex_data_tx (alex_write s) in
         bit w 12 = ptt \<and> tx_word_lpf w = lpf_for f \<and>
         (\<forall>c. (lpf_for f, c) \<in> set lpf_table \<longrightarrow> f \<le> c) \<and>
         (\<forall>b c. (b, c) \<in> set lpf_table \<and> f \<le> c \<longrightarrow> (\<exists>c' \<le> c. (lpf_for f, c') \<in> set lpf_table))"
proof -
  note w = tx_word_fields [OF alex_ptt_cases [of s] lpf_for_bound]
  have "alex_ptt s = 1 \<longleftrightarrow> bit (alex_data_0 s) 0" using alex_ptt_bit [of s] alex_ptt_cases [of s] by auto
  moreover have "alex_tx_data s = alex_tx_word (alex_ptt s)
      (lpf_for (if bit (alex_data_0 s) 0 then freq_data s 0 else alex_max s)) (alex_data_0 s) (alex_data_1 s)"
    using assms by (simp add: alex_tx_data_def alex_lpf_auto alex_ptt_bit)
  ultimately show ?thesis
    using lpf_passes lpf_tightest by (simp add: Let_def alex_write_words [OF assms(1)] w) blast
qed

theorem alex_write_tx_filter_witness:
  "tx_word_lpf (alex_data_tx (alex_write (hpsdr_start\<lparr>freq_data := (\<lambda>_. 7100000)\<rparr>))) = 2"
  using alex_write_tx_filter [of "hpsdr_start\<lparr>freq_data := (\<lambda>_. 7100000)\<rparr>"]
  by (simp add: Let_def hpsdr_start_def alex_manual_def alex_max_def lpf_for_def lpf_table_def)

end
