(* ===== verification/Doubles.thy ===== *)
theory Doubles imports Complex_Main begin

text \<open>
  Binary64 arithmetic of the C sources.  Every double the servers compute is a finite number in the
  normal range, so a double is modelled by the rational it denotes and each C operator by the exact
  rational operation followed by \<open>rnd\<close>, the IEEE round-to-nearest-even to 53 significant bits.
  The exponent range is not limited: the values that occur lie between 2^-40 and 2^64 in magnitude,
  where binary64 neither overflows nor loses precision to gradual underflow.
\<close>

type_synonym dbl = rat

section \<open>The exponent of a positive rational\<close>

fun lg2 :: "nat \<Rightarrow> nat" where
  "lg2 n = (if n < 2 then 0 else Suc (lg2 (n div 2)))"

declare lg2.simps [simp del]

lemma lg2_bounds: "0 < n \<Longrightarrow> 2 ^ lg2 n \<le> n \<and> n < 2 ^ Suc (lg2 n)"
proof (induction n rule: lg2.induct)
  case (1 n)
  show ?case
  proof (cases "n < 2")
    case True
    with "1.prems" show ?thesis by (simp add: lg2.simps [of n])
  next
    case False
    with "1.IH" have "2 ^ lg2 (n div 2) \<le> n div 2 \<and> n div 2 < 2 ^ Suc (lg2 (n div 2))" by simp
    with False show ?thesis by (simp add: lg2.simps [of n]) linarith
  qed
qed

definition dexp :: "rat \<Rightarrow> int" where
  "dexp x = (let (n, d) = quotient_of x;
                 e = int (lg2 (nat n)) - int (lg2 (nat d))
             in if x < 2 powi e then e - 1 else e)"

lemma powi_le_iff: "(2::rat) powi a \<le> 2 powi b \<longleftrightarrow> a \<le> b"
proof
  assume "a \<le> b"
  then obtain n where b: "b = a + int n" using zle_iff_zadd by blast
  have "(1::rat) \<le> 2 ^ n" by simp
  then have "2 powi a * 1 \<le> (2::rat) powi a * 2 ^ n" by (intro mult_left_mono) simp_all
  then show "(2::rat) powi a \<le> 2 powi b" by (simp add: b power_int_add)
next
  assume le: "(2::rat) powi a \<le> 2 powi b"
  show "a \<le> b"
  proof (rule ccontr)
    assume "\<not> a \<le> b"
    then obtain n where a: "a = b + int (Suc n)" using zless_iff_Suc_zadd [of b a] by auto
    have "(1::rat) < 2 ^ Suc n" by (rule one_less_power) simp_all
    then have "2 powi b * 1 < (2::rat) powi b * 2 ^ Suc n" by (intro mult_strict_left_mono) simp_all
    then have "(2::rat) powi b < 2 powi a" unfolding a by (simp add: power_int_add)
    with le show False by simp
  qed
qed

lemma powi_less_iff: "(2::rat) powi a < 2 powi b \<longleftrightarrow> a < b"
  using powi_le_iff [of b a] by linarith

lemma powi_Suc_int: "(2::rat) powi (e + 1) = 2 * 2 powi e"
  by (simp add: power_int_add)

lemma dexp_bounds:
  assumes "0 < x"
  shows "2 powi dexp x \<le> x \<and> x < 2 powi (dexp x + 1)"
proof -
  obtain n d where q: "quotient_of x = (n, d)" by (cases "quotient_of x")
  have d: "0 < d" and x: "x = of_int n / of_int d"
    using quotient_of_denom_pos [OF q] quotient_of_div [OF q] by simp_all
  have n: "0 < n" using assms d by (simp add: x zero_less_divide_iff)
  define a where "a = lg2 (nat n)"
  define b where "b = lg2 (nat d)"
  have na: "2 ^ a \<le> nat n \<and> nat n < 2 ^ Suc a" using lg2_bounds [of "nat n"] n by (simp add: a_def)
  have db: "2 ^ b \<le> nat d \<and> nat d < 2 ^ Suc b" using lg2_bounds [of "nat d"] d by (simp add: b_def)
  have na': "(2::int) ^ a \<le> n" "n < 2 ^ Suc a"
    using na n by (simp_all add: le_nat_iff nat_less_iff del: power_Suc)
  have db': "(2::int) ^ b \<le> d" "d < 2 ^ Suc b"
    using db d by (simp_all add: le_nat_iff nat_less_iff del: power_Suc)
  have N: "(2::rat) powi int a \<le> of_int n" "of_int n < (2::rat) powi (int a + 1)"
    using na' of_int_le_iff [of "2 ^ a" n, where ?'a = rat] of_int_less_iff [of n "2 ^ Suc a", where ?'a = rat]
    by (simp_all add: power_int_add)
  have D: "(2::rat) powi int b \<le> of_int d" "of_int d < (2::rat) powi (int b + 1)"
    using db' of_int_le_iff [of "2 ^ b" d, where ?'a = rat] of_int_less_iff [of d "2 ^ Suc b", where ?'a = rat]
    by (simp_all add: power_int_add)
  have dq: "(0::rat) < of_int d" using d by simp
  have up: "x < 2 powi (int a - int b + 1)"
  proof -
    have "(2::rat) powi (int a - int b + 1) * of_int d \<ge> 2 powi (int a - int b + 1) * 2 powi int b"
      using D(1) by (intro mult_left_mono) simp_all
    also have "(2::rat) powi (int a - int b + 1) * 2 powi int b = 2 powi (int a + 1)"
      by (simp add: power_int_add [symmetric] del: power_int_of_nat)
    finally have "of_int n < (2::rat) powi (int a - int b + 1) * of_int d" using N(2) by linarith
    then show ?thesis using dq by (simp add: x pos_divide_less_eq)
  qed
  have lo: "2 powi (int a - int b - 1) \<le> x"
  proof -
    have "(2::rat) powi (int a - int b - 1) * of_int d \<le> 2 powi (int a - int b - 1) * 2 powi (int b + 1)"
      using D(2) by (intro mult_left_mono) simp_all
    also have "\<dots> = (2::rat) powi int a"
      by (simp add: power_int_add [symmetric] del: power_int_of_nat)
    finally have "(2::rat) powi (int a - int b - 1) * of_int d \<le> of_int n" using N(1) by linarith
    then show ?thesis using dq by (simp add: x pos_le_divide_eq)
  qed
  show ?thesis
    using up lo by (auto simp: dexp_def q a_def [symmetric] b_def [symmetric] Let_def)
qed

lemma dexp_unique: "2 powi e \<le> x \<Longrightarrow> x < 2 powi (e + 1) \<Longrightarrow> dexp x = e"
proof -
  assume lo: "2 powi e \<le> x" and hi: "x < 2 powi (e + 1)"
  have "0 < (2::rat) powi e" by simp
  with lo have "0 < x" by linarith
  then have d: "2 powi dexp x \<le> x" "x < 2 powi (dexp x + 1)" using dexp_bounds by auto
  have "(2::rat) powi e < 2 powi (dexp x + 1)" "(2::rat) powi dexp x < 2 powi (e + 1)"
    using lo hi d by linarith+
  then show ?thesis by (simp add: powi_less_iff)
qed

lemma dexp_less: "0 < x \<Longrightarrow> x < 2 powi m \<Longrightarrow> dexp x \<le> m - 1"
proof -
  assume "0 < x" and hi: "x < 2 powi m"
  then have "2 powi dexp x \<le> x" using dexp_bounds by blast
  with hi have "(2::rat) powi dexp x < 2 powi m" by linarith
  then show ?thesis by (simp add: powi_less_iff)
qed

lemma dexp_scale: "0 < x \<Longrightarrow> dexp (x * 2 powi j) = dexp x + j"
proof (rule dexp_unique)
  assume x: "0 < x"
  have p: "0 < (2::rat) powi j" by simp
  show "2 powi (dexp x + j) \<le> x * 2 powi j"
    using dexp_bounds [OF x] p by (simp add: power_int_add)
  show "x * 2 powi j < 2 powi (dexp x + j + 1)"
    using mult_strict_right_mono [OF conjunct2 [OF dexp_bounds [OF x]] p]
    by (simp add: power_int_add ac_simps)
qed


section \<open>Rounding to nearest, ties to even\<close>

definition rne :: "rat \<Rightarrow> int" where
  "rne q = (let f = \<lfloor>q\<rfloor>; r = q - of_int f
            in if r < 1/2 \<or> (r = 1/2 \<and> even f) then f else f + 1)"

lemma rne_err: "\<bar>of_int (rne q) - q\<bar> \<le> 1/2"
proof -
  have "of_int \<lfloor>q\<rfloor> \<le> q" "q < of_int \<lfloor>q\<rfloor> + 1" by linarith+
  then show ?thesis by (auto simp: rne_def Let_def abs_le_iff)
qed

lemma rne_of_int [simp]: "rne (of_int k) = k"
  by (simp add: rne_def)

definition rnd :: "rat \<Rightarrow> dbl" where
  "rnd x = (if x = 0 then 0
            else let u = 2 powi (dexp \<bar>x\<bar> - 52) in sgn x * (of_int (rne (\<bar>x\<bar> / u)) * u))"

lemma rnd_0 [simp]: "rnd 0 = 0"
  by (simp add: rnd_def)

lemma rnd_minus: "rnd (- x) = - rnd x"
  by (simp add: rnd_def Let_def)

lemma rnd_pos: "0 < x \<Longrightarrow> rnd x = of_int (rne (x / 2 powi (dexp x - 52))) * 2 powi (dexp x - 52)"
  by (simp add: rnd_def Let_def)

text \<open>A nonnegative value below \<open>2^m\<close> is rounded by at most half a unit in its last place.\<close>

lemma rnd_err:
  assumes "0 \<le> x" and "x < 2 powi m"
  shows "\<bar>rnd x - x\<bar> \<le> 2 powi (m - 54)"
proof (cases "x = 0")
  case True
  then show ?thesis by simp
next
  case False
  with assms have x: "0 < x" by simp
  define u :: rat where "u = 2 powi (dexp x - 52)"
  have u: "0 < u" by (simp add: u_def)
  have "\<bar>rnd x - x\<bar> = \<bar>(of_int (rne (x / u)) - x / u) * u\<bar>"
    using u by (simp add: rnd_pos [OF x] u_def [symmetric] left_diff_distrib)
  also have "\<dots> = \<bar>of_int (rne (x / u)) - x / u\<bar> * u" using u by (simp add: abs_mult)
  also have "\<dots> \<le> 1/2 * u" using u by (intro mult_right_mono rne_err) simp
  also have "\<dots> = 2 powi (dexp x - 53)"
    using powi_Suc_int [of "dexp x - 53"] by (simp add: u_def)
  also have "\<dots> \<le> 2 powi (m - 54)"
    using dexp_less [OF x assms(2)] by (simp add: powi_le_iff)
  finally show ?thesis .
qed

lemma rnd_scale: "rnd (x * 2 powi j) = rnd x * 2 powi j"
proof -
  have pos: "rnd (y * 2 powi j) = rnd y * 2 powi j" if y: "0 < y" for y :: rat
  proof -
    have e: "dexp (y * 2 powi j) - 52 = (dexp y - 52) + j" using dexp_scale [OF y] by simp
    have yj: "0 < y * 2 powi j" using y by simp
    show ?thesis
      unfolding rnd_pos [OF y] rnd_pos [OF yj] e by (simp add: power_int_add)
  qed
  consider "x = 0" | "0 < x" | "0 < - x" by linarith
  then show ?thesis
  proof cases
    case 3
    then show ?thesis using pos [OF 3] rnd_minus [of "x * 2 powi j"] rnd_minus [of x] by simp
  qed (use pos in simp_all)
qed

text \<open>Integers of at most 53 bits are doubles, and so are their multiples by a power of two.\<close>

lemma rnd_nat: "n < 2 ^ 53 \<Longrightarrow> rnd (of_nat n) = of_nat n"
proof (cases "n = 0")
  case False
  assume n: "n < 2 ^ 53"
  from False have x: "0 < (of_nat n :: rat)" by simp
  have "(of_nat n :: rat) < of_nat (2 ^ 53)" using n by (subst of_nat_less_iff)
  then have "(of_nat n :: rat) < 2 powi 53" by simp
  then have e: "dexp (of_nat n) \<le> 52" using dexp_less [OF x] by fastforce
  define k where "k = nat (52 - dexp (of_nat n))"
  have k: "dexp (of_nat n) - 52 = - int k" using e by (simp add: k_def)
  have "(of_nat n :: rat) / 2 powi (- int k) = of_int (int n * 2 ^ k)"
    by (simp add: power_int_minus divide_inverse)
  then have "rne (of_nat n / 2 powi (- int k)) = int n * 2 ^ k" by (metis rne_of_int)
  then show ?thesis unfolding rnd_pos [OF x] k by (simp add: power_int_minus)
qed simp

lemma rnd_int: "\<bar>k\<bar> < 2 ^ 53 \<Longrightarrow> rnd (of_int k) = of_int k"
proof -
  assume k: "\<bar>k\<bar> < 2 ^ 53"
  have n: "rnd (of_nat (nat \<bar>k\<bar>)) = of_nat (nat \<bar>k\<bar>)" using k by (intro rnd_nat) (simp add: nat_less_iff)
  show ?thesis
  proof (cases "0 \<le> k")
    case True
    with n show ?thesis by simp
  next
    case False
    then have "of_int k = - (of_nat (nat \<bar>k\<bar>) :: rat)" by simp
    with n show ?thesis by (simp only: rnd_minus)
  qed
qed

lemma rnd_int_le: "\<bar>k\<bar> \<le> 2 ^ 53 \<Longrightarrow> rnd (of_int k) = of_int k"
proof (cases "\<bar>k\<bar> = 2 ^ 53")
  case True
  then have "k = 1 * 2 ^ 53 \<or> k = - 1 * 2 ^ 53" by linarith
  then obtain s :: int where s: "\<bar>s\<bar> = 1" and k: "k = s * 2 ^ 53" by (elim disjE) auto
  have "rnd (of_int k) = rnd (of_int s * 2 powi 53)" by (simp add: k)
  also have "\<dots> = of_int s * 2 powi 53" using s by (simp only: rnd_scale) (simp add: rnd_int)
  finally show ?thesis by (simp add: k)
qed (simp add: rnd_int)

text \<open>Rounding is idempotent: its results are doubles.\<close>

lemma rne_le: "0 \<le> q \<Longrightarrow> q \<le> of_int k \<Longrightarrow> 0 \<le> rne q \<and> rne q \<le> k"
proof -
  assume "0 \<le> q" and le: "q \<le> of_int k"
  then have f: "0 \<le> \<lfloor>q\<rfloor>" "\<lfloor>q\<rfloor> \<le> k" by linarith+
  have "rne q \<le> k"
  proof (cases "\<lfloor>q\<rfloor> = k")
    case True
    with le have "q - of_int \<lfloor>q\<rfloor> < 1/2" by simp
    then show ?thesis using True by (simp add: rne_def Let_def)
  next
    case False
    with f have "\<lfloor>q\<rfloor> + 1 \<le> k" by simp
    then show ?thesis by (simp add: rne_def Let_def)
  qed
  with f show ?thesis by (simp add: rne_def Let_def)
qed

lemma rnd_nonneg: "0 \<le> x \<Longrightarrow> 0 \<le> rnd x"
proof (cases "x = 0")
  case False
  assume "0 \<le> x"
  with False have x: "0 < x" by simp
  then have "0 \<le> \<lfloor>x / 2 powi (dexp x - 52)\<rfloor>" by simp
  then have "0 \<le> rne (x / 2 powi (dexp x - 52))" by (auto simp: rne_def Let_def)
  then show ?thesis by (simp add: rnd_pos [OF x])
qed simp

lemma rnd_rnd [simp]: "rnd (rnd x) = rnd x"
proof -
  have pos: "rnd (rnd y) = rnd y" if y: "0 < y" for y :: rat
  proof -
    define e where "e = dexp y - 52"
    define k where "k = rne (y / 2 powi e)"
    have r: "rnd y = of_int k * 2 powi e" unfolding rnd_pos [OF y] k_def e_def ..
    have p: "0 < (2::rat) powi e" by simp
    have "y < 2 powi (53 + e)" using dexp_bounds [OF y] by (simp add: e_def add.commute)
    then have "y < 2 ^ 53 * 2 powi e" by (simp add: power_int_add)
    then have "y / 2 powi e \<le> of_int (2 ^ 53)" using p by (simp add: pos_divide_le_eq)
    moreover have "0 \<le> y / 2 powi e" using y p by simp
    ultimately have "0 \<le> k \<and> k \<le> 2 ^ 53" unfolding k_def by (intro rne_le)
    then have "rnd (of_int k) = of_int k" by (intro rnd_int_le) simp
    then show ?thesis unfolding r rnd_scale by simp
  qed
  consider "x = 0" | "0 < x" | "0 < - x" by linarith
  then show ?thesis
  proof cases
    case 3
    then show ?thesis using pos [OF 3] by (simp add: rnd_minus)
  qed (use pos in simp_all)
qed

section \<open>The C operators on doubles\<close>

definition fadd :: "dbl \<Rightarrow> dbl \<Rightarrow> dbl" where "fadd x y = rnd (x + y)"
definition fsub :: "dbl \<Rightarrow> dbl \<Rightarrow> dbl" where "fsub x y = rnd (x - y)"
definition fmul :: "dbl \<Rightarrow> dbl \<Rightarrow> dbl" where "fmul x y = rnd (x * y)"
definition fdiv :: "dbl \<Rightarrow> dbl \<Rightarrow> dbl" where "fdiv x y = rnd (x / y)"

text \<open>The conversions \<open>(uint32_t)floor(x)\<close>, \<open>(int16_t)floor(x)\<close> and \<open>(uint16_t)floor(x)\<close>; where
  \<open>floor x\<close> does not fit the type the C conversion is undefined, which callers exclude.\<close>

definition dfloor :: "dbl \<Rightarrow> int" where "dfloor x = \<lfloor>x\<rfloor>"

text \<open>Rounding half up, the effect of \<open>floor(x + 0.5)\<close> on exact values.\<close>

definition round_half_up :: "int \<Rightarrow> int \<Rightarrow> int" where
  "round_half_up n d = (2 * n + d) div (2 * d)"


section \<open>Rounded quotients are exact\<close>

text \<open>
  A real that is within \<open>1/D\<close> of \<open>N/D\<close> has the same floor, unless \<open>D\<close> divides \<open>N\<close>.
\<close>

lemma floor_near:
  assumes D: "0 < D" and N: "N mod D \<noteq> 0" and near: "\<bar>y - of_int N / of_int D\<bar> < 1 / of_int D"
  shows "\<lfloor>y :: rat\<rfloor> = N div D"
proof -
  have Dq: "0 < (of_int D :: rat)" using D by simp
  have m: "1 \<le> N mod D" "N mod D \<le> D - 1"
    using N pos_mod_sign [OF D, of N] pos_mod_bound [OF D, of N] by linarith+
  have split: "(of_int N :: rat) = of_int (N div D) * of_int D + of_int (N mod D)"
    by (simp flip: of_int_mult of_int_add)
  have r: "(1::rat) \<le> of_int (N mod D)" "(of_int (N mod D) :: rat) \<le> of_int D - 1"
    using m of_int_le_iff [of 1 "N mod D", where ?'a = rat] of_int_le_iff [of "N mod D" "D - 1", where ?'a = rat]
    by simp_all
  have "\<bar>y * of_int D - of_int N\<bar> = \<bar>(y - of_int N / of_int D) * of_int D\<bar>"
    using Dq by (simp add: left_diff_distrib)
  also have "\<dots> = \<bar>y - of_int N / of_int D\<bar> * of_int D" using Dq by (simp add: abs_mult)
  also have "\<dots> < 1" using near Dq by (simp add: pos_less_divide_eq)
  finally have c: "\<bar>y * of_int D - of_int N\<bar> < 1" .
  have "of_int (N div D) * of_int D < y * of_int D" using c r split by linarith
  moreover have "y * of_int D < (of_int (N div D) + 1) * of_int D"
    using c r split by (simp add: algebra_simps)
  ultimately have "of_int (N div D) < y" "y < of_int (N div D) + 1"
    using Dq by simp_all
  then show ?thesis by (simp add: floor_eq_iff)
qed

lemma floor_half_exact:
  assumes a: "0 \<le> a" and q: "0 < q" "odd q"
    and m: "of_int a / of_int q + 1 < (2 powi m :: rat)"
    and small: "2 powi (m - 53) < 1 / (2 * of_int q :: rat)"
  shows "\<lfloor>fadd (rnd (of_int a / of_int q)) (1/2)\<rfloor> = round_half_up a q"
proof -
  define x :: rat where "x = of_int a / of_int q"
  have x0: "0 \<le> x" using a q by (simp add: x_def)
  have e1: "\<bar>rnd x - x\<bar> \<le> 2 powi (m - 54)" using x0 m by (intro rnd_err) (simp_all add: x_def)
  have two: "2 powi (m - 53) = 2 * (2::rat) powi (m - 54)" using powi_Suc_int [of "m - 54"] by simp
  have q1: "(1::rat) \<le> of_int q" using q of_int_le_iff [of 1 q, where ?'a = rat] by simp
  then have "1 / (2 * of_int q :: rat) \<le> 1/2" by (simp add: field_simps)
  then have tiny: "(2::rat) powi (m - 54) < 1/4" using small two by linarith
  have nn: "0 \<le> rnd x" using x0 by (rule rnd_nonneg)
  have e2: "\<bar>fadd (rnd x) (1/2) - (rnd x + 1/2)\<bar> \<le> 2 powi (m - 54)"
    unfolding fadd_def using nn e1 tiny m by (intro rnd_err) (auto simp: x_def abs_le_iff)
  have "\<bar>fadd (rnd x) (1/2) - (x + 1/2)\<bar> \<le> 2 powi (m - 53)" using e1 e2 two by linarith
  also have "\<dots> < 1 / of_int (2 * q)" using small by simp
  also have "x + 1/2 = of_int (2 * a + q) / of_int (2 * q)" using q1 by (simp add: x_def field_simps)
  finally have near: "\<bar>fadd (rnd x) (1/2) - of_int (2 * a + q) / of_int (2 * q)\<bar> < 1 / of_int (2 * q)" .
  have "odd (2 * a + q)" using q by simp
  then have "(2 * a + q) mod (2 * q) \<noteq> 0" by (metis dvd_mult_left even_mult_iff mod_0_imp_dvd)
  then show ?thesis
    using floor_near [OF _ _ near] q by (simp add: round_half_up_def x_def)
qed

end
