(* ===== verification/Dds.thy ===== *)
theory Dds imports Doubles "HOL-Library.Word" begin

text \<open>
  The phase increments of the direct digital synthesisers.  Every server computes them with the
  expression \<open>(uint32_t)floor(freq / clk * (1 << 30) + 0.5)\<close> in doubles.
\<close>

definition dds_real :: "dbl \<Rightarrow> int \<Rightarrow> dbl" where
  "dds_real clk f = fmul (fdiv (of_int f) clk) 1073741824"

definition dds_inc :: "dbl \<Rightarrow> int \<Rightarrow> int" where
  "dds_inc clk f = dfloor (fadd (dds_real clk f) (1/2))"

definition dds_word :: "dbl \<Rightarrow> int \<Rightarrow> 32 word" where
  "dds_word clk f = word_of_int (dds_inc clk f)"

lemma dds_real_scaled: "dds_real clk f = rnd (of_int f * 2 ^ 30 / clk)"
proof -
  have "dds_real clk f = rnd (rnd (of_int f / clk) * 2 powi 30)"
    by (simp add: dds_real_def fmul_def fdiv_def)
  also have "\<dots> = rnd (of_int f / clk * 2 powi 30)" by (simp only: rnd_scale rnd_rnd)
  finally show ?thesis by simp
qed

text \<open>The clock is \<open>2^s * q\<close> Hz with \<open>q\<close> odd; the quotient \<open>f * 2^30 / clk\<close> is then
  a fraction over \<open>q\<close>, and it is rounded correctly while its rounding errors stay below \<open>1/(2q)\<close>.\<close>

lemma dds_inc_exact:
  assumes f: "0 \<le> f" and q: "0 < q" "odd q" and s: "s \<le> 30"
    and m: "of_int (f * 2 ^ (30 - s)) / of_int q + 1 < (2 powi m :: rat)"
    and small: "2 powi (m - 53) < 1 / (2 * of_int q :: rat)"
  shows "dds_inc (of_int (2 ^ s * q)) f = round_half_up (f * 2 ^ (30 - s)) q"
proof -
  have "(2::rat) ^ 30 = 2 ^ s * 2 ^ (30 - s)" using s by (simp flip: power_add)
  then have "of_int f * 2 ^ 30 / of_int (2 ^ s * q) = (of_int (f * 2 ^ (30 - s)) / of_int q :: rat)"
    using q by (simp add: field_simps)
  then show ?thesis
    using floor_half_exact [OF _ q m small] f
    by (simp add: dds_inc_def dfloor_def dds_real_scaled)
qed

abbreviation clk125 :: dbl where "clk125 \<equiv> 125000000"
abbreviation clk12288 :: dbl where "clk12288 \<equiv> 122880000"

lemma round_half_up_scale: "0 < k \<Longrightarrow> round_half_up (k * a) (k * q) = round_half_up a q"
  using div_mult_mult1 [of k "2 * a + q" "2 * q"]
  by (simp add: round_half_up_def algebra_simps)

lemma round_half_up_bounds:
  assumes "0 < d"
  shows "2 * d * round_half_up n d \<le> 2 * n + d" and "2 * n - d < 2 * d * round_half_up n d"
proof -
  have "(2 * n + d) div (2 * d) * (2 * d) + (2 * n + d) mod (2 * d) = 2 * n + d" by (rule div_mult_mod_eq)
  moreover have "0 \<le> (2 * n + d) mod (2 * d)" "(2 * n + d) mod (2 * d) < 2 * d" using assms by simp_all
  moreover have "2 * d * ((2 * n + d) div (2 * d)) = (2 * n + d) div (2 * d) * (2 * d)" by (rule mult.commute)
  ultimately show "2 * d * round_half_up n d \<le> 2 * n + d" "2 * n - d < 2 * d * round_half_up n d"
    unfolding round_half_up_def by linarith+
qed

theorem dds_inc_125:
  assumes "0 \<le> f" and "f < 249000000"
  shows "dds_inc clk125 f = round_half_up (f * 2 ^ 30) 125000000"
proof -
  have c: "clk125 = of_int (2 ^ 6 * 1953125)" by simp
  have le: "(of_int f :: rat) \<le> 249000000" using assms(2) of_int_le_iff [of f 249000000, where ?'a = rat] by simp
  have "dds_inc clk125 f = round_half_up (f * 2 ^ (30 - 6)) 1953125"
    unfolding c
  proof (rule dds_inc_exact [where m = 31])
    show "of_int (f * 2 ^ (30 - 6)) / of_int 1953125 + 1 < (2 powi 31 :: rat)" using le by simp
  qed (use assms in \<open>simp_all add: power_int_def power_divide\<close>)
  then show ?thesis using round_half_up_scale [of 64 "f * 2 ^ 24" 1953125] by (simp add: ac_simps)
qed

theorem dds_inc_12288:
  assumes "0 \<le> f" and "f < 249000000"
  shows "dds_inc clk12288 f = round_half_up (f * 2 ^ 30) 122880000"
proof -
  have c: "clk12288 = of_int (2 ^ 16 * 1875)" by simp
  have le: "(of_int f :: rat) \<le> 249000000" using assms(2) of_int_le_iff [of f 249000000, where ?'a = rat] by simp
  have "dds_inc clk12288 f = round_half_up (f * 2 ^ (30 - 16)) 1875"
    unfolding c
  proof (rule dds_inc_exact [where m = 32])
    show "of_int (f * 2 ^ (30 - 16)) / of_int 1875 + 1 < (2 powi 32 :: rat)" using le by simp
  qed (use assms in \<open>simp_all add: power_int_def power_divide\<close>)
  then show ?thesis using round_half_up_scale [of 65536 "f * 2 ^ 14" 1875] by (simp add: ac_simps)
qed

text \<open>The levels are computed the same way from a byte and a decimal literal \<open>c\<close>:
  \<open>(int16_t)floor(data * c + 0.5)\<close>.  The literals of the sources are multiples of 1/25, rounded.\<close>

lemma level_exact:
  assumes d: "0 \<le> d" "d \<le> 255" and p: "0 \<le> p" "p < 6400"
  shows "dfloor (fadd (fmul (of_int d) (rnd (of_int p / 25))) (1/2)) = round_half_up (d * p) 25"
proof -
  define c :: rat where "c = of_int p / 25"
  have dq: "0 \<le> (of_int d :: rat)" "(of_int d :: rat) \<le> 255"
    using d of_int_le_iff [of d 255, where ?'a = rat] by simp_all
  have c: "0 \<le> c" "c < 2 powi 8" using p of_int_less_iff [of p 6400, where ?'a = rat] by (simp_all add: c_def)
  have e1: "\<bar>rnd c - c\<bar> \<le> 2 powi (8 - 54)" by (rule rnd_err [OF c])
  have t: "(2::rat) powi (8 - 54) = 1 / 70368744177664" "(2::rat) powi (16 - 54) = 1 / 274877906944"
    "(2::rat) powi (17 - 54) = 1 / 137438953472" "(2::rat) powi 8 = 256"
    by (simp_all add: power_int_def power_divide)
  have r: "0 \<le> rnd c" "rnd c \<le> 257" using rnd_nonneg [OF c(1)] e1 c unfolding t abs_le_iff by linarith+
  have prod: "0 \<le> of_int d * rnd c" "of_int d * rnd c \<le> 255 * 257"
    using mult_mono [OF dq(2) r(2)] dq r by simp_all
  have "\<bar>of_int d * rnd c - of_int d * c\<bar> = of_int d * \<bar>rnd c - c\<bar>" using dq by (simp add: abs_mult flip: right_diff_distrib)
  also have "\<dots> \<le> 255 * 2 powi (8 - 54)" using mult_mono [OF dq(2) e1] by simp
  finally have e2: "\<bar>of_int d * rnd c - of_int d * c\<bar> \<le> 255 * 2 powi (8 - 54)" .
  have e3: "\<bar>fmul (of_int d) (rnd c) - of_int d * rnd c\<bar> \<le> 2 powi (16 - 54)"
    unfolding fmul_def using prod by (intro rnd_err) simp_all
  have f: "0 \<le> fmul (of_int d) (rnd c)" unfolding fmul_def using prod by (intro rnd_nonneg) simp
  have e4: "\<bar>fadd (fmul (of_int d) (rnd c)) (1/2) - (fmul (of_int d) (rnd c) + 1/2)\<bar> \<le> 2 powi (17 - 54)"
    unfolding fadd_def using f e3 [unfolded t abs_le_iff] prod by (intro rnd_err) simp_all
  have x: "of_int d * c + 1/2 = of_int (2 * (d * p) + 25) / of_int 50" by (simp add: c_def field_simps)
  have "\<bar>fadd (fmul (of_int d) (rnd c)) (1/2) - (of_int d * c + 1/2)\<bar> < 1 / of_int 50"
    using e2 e3 e4 unfolding t abs_le_iff abs_less_iff of_int_numeral by linarith
  then have "\<lfloor>fadd (fmul (of_int d) (rnd c)) (1/2)\<rfloor> = (2 * (d * p) + 25) div 50"
    unfolding x by (intro floor_near) (simp, presburger, simp)
  then show ?thesis by (simp add: dfloor_def c_def round_half_up_def)
qed

end
