(* ===== verification/HpsdrEp2.thy ===== *)
theory HpsdrEp2 imports HpsdrFilters Dds begin

text \<open>
  \<open>process_ep2\<close> of sdr-transceiver-hpsdr.c: the command bytes C0..C4 that the host sends in every
  half datagram.  \<open>frame\<close> is the list of the bytes at the pointer; the function reads five of them.
  One definition per shadowed device register, one per block of a case, one per case.
\<close>

section \<open>Stores of the shadowed registers\<close>

definition pene_store :: "u16 \<Rightarrow> hpsdr \<Rightarrow> hpsdr" where
  "pene_store data s =
    (if i2c_pene_data s \<noteq> data
     then emit [Slave 0x20, I2c (i2c_write_addr_data16 0x02 data)] (s\<lparr>i2c_pene_data := data\<rparr>) else s)"

definition dac0_store :: "u16 \<Rightarrow> hpsdr \<Rightarrow> hpsdr" where
  "dac0_store data s =
    (if i2c_dac0_data s \<noteq> data
     then emit [Slave 0x60, I2c (i2c_write_data16 data)] (s\<lparr>i2c_dac0_data := data\<rparr>) else s)"

definition ocant_store :: "u32 \<Rightarrow> hpsdr \<Rightarrow> hpsdr" where
  "ocant_store data32 s =
    (if i2c_ard_ocant_data s \<noteq> data32
     then emit [Slave 0x40, I2c (i2c_write_addr_data24 0x04 data32)] (s\<lparr>i2c_ard_ocant_data := data32\<rparr>) else s)"

definition ftx_store :: "u16 \<Rightarrow> hpsdr \<Rightarrow> hpsdr" where
  "ftx_store data s =
    (if i2c_ard_ftx_data s \<noteq> data
     then emit [Slave 0x40, I2c (i2c_write_addr_data16 0x03 data)] (s\<lparr>i2c_ard_ftx_data := data\<rparr>) else s)"

definition frx1_store :: "u16 \<Rightarrow> hpsdr \<Rightarrow> hpsdr" where
  "frx1_store data s =
    (if i2c_ard_frx1_data s \<noteq> data
     then emit [Slave 0x40, I2c (i2c_write_addr_data16 0x01 data)] (s\<lparr>i2c_ard_frx1_data := data\<rparr>) else s)"

definition frx2_store :: "u16 \<Rightarrow> hpsdr \<Rightarrow> hpsdr" where
  "frx2_store data s =
    (if i2c_ard_frx2_data s \<noteq> data
     then emit [Slave 0x40, I2c (i2c_write_addr_data16 0x02 data)] (s\<lparr>i2c_ard_frx2_data := data\<rparr>) else s)"

definition alex_i2c_store :: "u16 \<Rightarrow> hpsdr \<Rightarrow> hpsdr" where
  "alex_i2c_store data s =
    (if i2c_alex_data s \<noteq> data
     then emit [Slave 0x21, I2c (i2c_write_addr_data16 0x02 data)] (s\<lparr>i2c_alex_data := data\<rparr>) else s)"

definition level_store :: "u16 \<Rightarrow> hpsdr \<Rightarrow> hpsdr" where
  "level_store data s =
    (if i2c_level_data s \<noteq> data
     then emit [Slave 0x22, I2c (i2c_write_addr_data16 0x02 data)] (s\<lparr>i2c_level_data := data\<rparr>) else s)"

text \<open>The two potentiometers of the drive device are set to the same value.\<close>

definition drive_message :: "u16 \<Rightarrow> u8 list" where
  "drive_message data = i2c_write_addr_data16 0xa9 (ucast (push_bit 8 (promote data) OR promote data))"

definition drive_store :: "u16 \<Rightarrow> hpsdr \<Rightarrow> hpsdr" where
  "drive_store data s =
    (if i2c_drive_data s \<noteq> data
     then emit [Slave 0x28, I2c (drive_message data)] (s\<lparr>i2c_drive_data := data\<rparr>) else s)"

definition txatt_store :: "u32 \<Rightarrow> hpsdr \<Rightarrow> hpsdr" where
  "txatt_store data32 s =
    (if i2c_ard_txatt_data s \<noteq> data32
     then emit [Slave 0x40, I2c (i2c_write_addr_data24 0x05 data32)] (s\<lparr>i2c_ard_txatt_data := data32\<rparr>) else s)"

definition rxatt_store :: "u16 \<Rightarrow> hpsdr \<Rightarrow> hpsdr" where
  "rxatt_store data s =
    (if i2c_ard_rxatt_data s \<noteq> data
     then emit [Slave 0x40, I2c (i2c_write_addr_data16 0x06 data)] (s\<lparr>i2c_ard_rxatt_data := data\<rparr>) else s)"

definition boost_store :: "u8 \<Rightarrow> hpsdr \<Rightarrow> hpsdr" where
  "boost_store boost s =
    (if i2c_boost_data s \<noteq> boost
     then emit [Slave 0x1A, I2c (i2c_write_addr_data8 0x08 (0x14 + boost))] (s\<lparr>i2c_boost_data := boost\<rparr>) else s)"

text \<open>Stores of values that the main loop picks up later.\<close>

definition alex0_store :: "u16 \<Rightarrow> hpsdr \<Rightarrow> hpsdr" where
  "alex0_store data s = (if alex_data_0 s \<noteq> data then s\<lparr>alex_data_0 := data, alex_update := True\<rparr> else s)"

definition alex1_store :: "u16 \<Rightarrow> hpsdr \<Rightarrow> hpsdr" where
  "alex1_store data s = (if alex_data_1 s \<noteq> data then s\<lparr>alex_data_1 := data, alex_update := True\<rparr> else s)"

definition misc0_store :: "u16 \<Rightarrow> hpsdr \<Rightarrow> hpsdr" where
  "misc0_store data s = (if misc_data_0 s \<noteq> data then s\<lparr>misc_data_0 := data, misc_update := True\<rparr> else s)"

definition misc1_store :: "u16 \<Rightarrow> hpsdr \<Rightarrow> hpsdr" where
  "misc1_store data s = (if misc_data_1 s \<noteq> data then s\<lparr>misc_data_1 := data, misc_update := True\<rparr> else s)"

definition misc2_store :: "u16 \<Rightarrow> hpsdr \<Rightarrow> hpsdr" where
  "misc2_store data s = (if misc_data_2 s \<noteq> data then s\<lparr>misc_data_2 := data, misc_update := True\<rparr> else s)"

definition nucleo0_store :: "u16 \<Rightarrow> hpsdr \<Rightarrow> hpsdr" where
  "nucleo0_store data s =
    (if nucleo_data_0 s \<noteq> promote data then s\<lparr>nucleo_data_0 := promote data, nucleo_update := True\<rparr> else s)"

definition nucleo1_store :: "u16 \<Rightarrow> hpsdr \<Rightarrow> hpsdr" where
  "nucleo1_store data s =
    (if nucleo_data_1 s \<noteq> promote data then s\<lparr>nucleo_data_1 := promote data, nucleo_update := True\<rparr> else s)"

definition nucleo2_store :: "u16 \<Rightarrow> hpsdr \<Rightarrow> hpsdr" where
  "nucleo2_store data s =
    (if nucleo_data_2 s \<noteq> promote data then s\<lparr>nucleo_data_2 := promote data, nucleo_update := True\<rparr> else s)"

definition nucleo3_store :: "u16 \<Rightarrow> hpsdr \<Rightarrow> hpsdr" where
  "nucleo3_store data s =
    (if nucleo_data_3 s \<noteq> promote data then s\<lparr>nucleo_data_3 := promote data, nucleo_update := True\<rparr> else s)"

section \<open>C0 = 0, 1: configuration\<close>

definition cfg_sync :: "u8 list \<Rightarrow> hpsdr \<Rightarrow> hpsdr" where
  "cfg_sync frame s =
    (let s1 = s\<lparr>receivers := unat (drop_bit 3 (promote (frame ! 4)) AND 7) + 1\<rparr>;
         data = ucast (drop_bit 7 (promote (frame ! 4)) AND 1) :: u16
     in if rx_sync_data s1 \<noteq> data
        then let s2 = s1\<lparr>rx_sync_data := data\<rparr>
             in if rx_sync_data s2 \<noteq> 0
                then pulse8 lo_rst 3 (put32 (rx_freq 1) (rd32 (cfg s2) (rx_freq 0)) s2)
                else s2
        else s1)"

definition cfg_att :: "u8 list \<Rightarrow> u8" where
  "cfg_att frame = ucast (promote (frame ! 3) AND 0x03)"

definition cfg_preamp :: "u8 list \<Rightarrow> hpsdr \<Rightarrow> u8" where
  "cfg_preamp frame s =
    (if promote (frame ! 0 AND 0x01) OR (promote (gpio_in s) AND 1) \<noteq> 0 then 0
     else ucast (drop_bit 2 (promote (frame ! 3) AND 0x04) OR cbool (rx_att_data s = 0)))"

definition cfg_gpio :: "u8 list \<Rightarrow> hpsdr \<Rightarrow> hpsdr" where
  "cfg_gpio frame s =
    (let s1 = s\<lparr>tx_eer_data := ucast (promote (frame ! 2) AND 1)\<rparr>;
         ptt = frame ! 0 AND 0x01;
         att = cfg_att frame;
         preamp = cfg_preamp frame s1
     in put8 gpio_out
          (ucast (push_bit 3 (promote (frame ! 2) AND 0x1e) OR push_bit 2 (promote att) OR
                  push_bit 1 (promote preamp) OR promote ptt)) s1)"

definition cfg_rate :: "variant \<Rightarrow> u8 list \<Rightarrow> hpsdr \<Rightarrow> hpsdr" where
  "cfg_rate v frame s =
    (let r = unat (promote (frame ! 1) AND 3)
     in put16 rx_rate (v_rates v ! r) (s\<lparr>rate := r\<rparr>))"

definition cfg_alex :: "u8 list \<Rightarrow> hpsdr \<Rightarrow> hpsdr" where
  "cfg_alex frame =
    alex0_store (ucast
      (push_bit 8 (promote (frame ! 4) AND 0x03) OR (promote (frame ! 3) AND 0xe0) OR
       push_bit 1 (promote (frame ! 3) AND 0x03) OR (promote (frame ! 0) AND 0x01)))"

definition cfg_pene :: "u8 list \<Rightarrow> hpsdr \<Rightarrow> hpsdr" where
  "cfg_pene frame s =
    (if i2c_pene s
     then pene_store (ucast
            (push_bit 11 (promote (frame ! 3) AND 0x1c) OR push_bit 11 (promote (frame ! 4) AND 0x03) OR
             push_bit 4 (promote (frame ! 3) AND 0x60) OR push_bit 7 (promote (frame ! 3) AND 0x03) OR
             drop_bit 1 (promote (frame ! 2)))) s
     else s)"

definition cfg_nucleo_word :: "u8 list \<Rightarrow> u16" where
  "cfg_nucleo_word frame = ucast
    (push_bit 15 (cbool (promote (frame ! 4) AND 0x03 = 2)) OR
     push_bit 14 (cbool (promote (frame ! 4) AND 0x03 = 1)) OR
     push_bit 13 (cbool (promote (frame ! 4) AND 0x03 = 0)) OR
     push_bit 12 (cbool (drop_bit 5 (promote (frame ! 3)) AND 0x03 = 3)) OR
     push_bit 11 (cbool (drop_bit 5 (promote (frame ! 3)) AND 0x03 = 2)) OR
     push_bit 10 (cbool (drop_bit 5 (promote (frame ! 3)) AND 0x03 = 1)) OR
     push_bit 5 (promote (frame ! 3) AND 0x18) OR (promote (frame ! 2) AND 0xfe) OR
     (promote (frame ! 0) AND 0x01))"

definition cfg_nucleo :: "u8 list \<Rightarrow> hpsdr \<Rightarrow> hpsdr" where
  "cfg_nucleo frame s = (if i2c_nucleo s then nucleo0_store (cfg_nucleo_word frame) s else s)"

definition dac0_word :: "u8 \<Rightarrow> u8 \<Rightarrow> u16" where
  "dac0_word rx_att att =
    (let data = ucast (promote rx_att + 10 * promote att) :: u16
     in ucast (4065 - (ucast data :: u32) * 4095 div 61))"

definition cfg_dac0 :: "u8 list \<Rightarrow> hpsdr \<Rightarrow> hpsdr" where
  "cfg_dac0 frame s = (if i2c_dac0 s then dac0_store (dac0_word (rx_att_data s) (cfg_att frame)) s else s)"

definition ocant_word :: "u8 list \<Rightarrow> u32 \<Rightarrow> u32" where
  "ocant_word frame old =
    (if promote (frame ! 0) AND 0x01 \<noteq> 0
     then (old AND 0x00fc7f00) OR drop_bit 1 (promote (frame ! 2)) OR push_bit 16 (promote (frame ! 4) AND 0x03)
     else let data32 = (old AND 0x0003007f) OR push_bit 7 (promote (frame ! 2));
              data8 = ucast (drop_bit 5 (promote (frame ! 3) AND 0x60)) :: u8
          in if data8 = 0 then data32 OR push_bit 20 (promote (frame ! 4) AND 0x03)
             else data32 OR push_bit 20 (promote (data8 + 2) AND 0x07))"

definition cfg_arduino :: "u8 list \<Rightarrow> hpsdr \<Rightarrow> hpsdr" where
  "cfg_arduino frame s =
    (if i2c_arduino s then ocant_store (ocant_word frame (i2c_ard_ocant_data s)) s else s)"

definition ep2_config :: "variant \<Rightarrow> u8 list \<Rightarrow> hpsdr \<Rightarrow> hpsdr" where
  "ep2_config v frame s =
    cfg_arduino frame (cfg_dac0 frame (cfg_nucleo frame (cfg_pene frame (cfg_alex frame
      (cfg_rate v frame (cfg_gpio frame (cfg_sync frame s)))))))"

section \<open>C0 = 2 .. 9: frequencies\<close>

definition freq_min :: u32 where "freq_min = 0"
definition freq_max :: u32 where "freq_max = 61440000"

definition frame_freq :: "u8 list \<Rightarrow> u32" where
  "frame_freq frame = of_be32 [frame ! 1, frame ! 2, frame ! 3, frame ! 4]"

definition freq_rejected :: "u32 \<Rightarrow> bool" where
  "freq_rejected freq \<longleftrightarrow> freq < freq_min \<or> freq > freq_max"

definition phase_inc :: "variant \<Rightarrow> u32 \<Rightarrow> u32" where
  "phase_inc v freq = dds_word (of_int (v_clk v)) (uint freq)"

text \<open>\<open>alex_update = 1; if(i2c_misc) misc_update = 1; if(i2c_nucleo) nucleo_update = 1;\<close>\<close>

definition flag_updates :: "hpsdr \<Rightarrow> hpsdr" where
  "flag_updates s = s\<lparr>alex_update := True, misc_update := (misc_update s \<or> i2c_misc s),
                     nucleo_update := (nucleo_update s \<or> i2c_nucleo s)\<rparr>"

definition ep2_tx_freq :: "variant \<Rightarrow> u8 list \<Rightarrow> hpsdr \<Rightarrow> hpsdr" where
  "ep2_tx_freq v frame s =
    (let freq = frame_freq frame
     in if freq_rejected freq then s
        else let s1 = put32 tx_freq (phase_inc v freq) s
             in if freq_data s1 0 \<noteq> freq
                then let s2 = flag_updates (icom_write (s1\<lparr>freq_data := (freq_data s1)(0 := freq)\<rparr>))
                     in if i2c_arduino s2 then ftx_store (ucast (freq div 1000)) s2 else s2
                else s1)"

definition ep2_rx1_freq :: "variant \<Rightarrow> u8 list \<Rightarrow> hpsdr \<Rightarrow> hpsdr" where
  "ep2_rx1_freq v frame s =
    (let freq = frame_freq frame
     in if freq_rejected freq then s
        else let s1 = put32 (rx_freq 0) (phase_inc v freq) s;
                 s2 = (if rx_sync_data s1 \<noteq> 0 then put32 (rx_freq 1) (rd32 (cfg s1) (rx_freq 0)) s1 else s1)
             in if freq_data s2 1 \<noteq> freq
                then let s3 = s2\<lparr>freq_data := (freq_data s2)(1 := freq)\<rparr>;
                         s4 = (if rx_sync_data s3 \<noteq> 0 then pulse8 lo_rst 3 s3 else s3);
                         s5 = flag_updates s4
                     in if i2c_arduino s5 then frx1_store (ucast (freq div 1000)) s5 else s5
                else s2)"

text \<open>The block that follows the phase increment of the second displayed receiver: case 6, 7, and in
  the THETIS build case 8, 9.\<close>

definition rx2_changed :: "u32 \<Rightarrow> hpsdr \<Rightarrow> hpsdr" where
  "rx2_changed freq s =
    (if freq_data s 2 \<noteq> freq
     then let s1 = flag_updates (s\<lparr>freq_data := (freq_data s)(2 := freq)\<rparr>)
          in if i2c_arduino s1 then frx2_store (ucast (freq div 1000)) s1 else s1
     else s)"

definition ep2_rx2_freq :: "variant \<Rightarrow> u8 list \<Rightarrow> hpsdr \<Rightarrow> hpsdr" where
  "ep2_rx2_freq v frame s =
    (if rx_sync_data s \<noteq> 0 then s
     else let freq = frame_freq frame
          in if freq_rejected freq then s
             else let s1 = put32 (rx_freq 1) (phase_inc v freq) s
                  in if v_thetis v then s1 else rx2_changed freq s1)"

definition ep2_rx3_freq :: "variant \<Rightarrow> u8 list \<Rightarrow> hpsdr \<Rightarrow> hpsdr" where
  "ep2_rx3_freq v frame s =
    (let freq = frame_freq frame
     in if freq_rejected freq then s
        else let s1 = put32 (rx_freq 2) (phase_inc v freq) s
             in if v_thetis v then rx2_changed freq s1 else s1)"

section \<open>C0 = 18, 19: drive, filters\<close>

definition drive_alex :: "u8 list \<Rightarrow> hpsdr \<Rightarrow> hpsdr" where
  "drive_alex frame =
    alex1_store (ucast (push_bit 9 (promote (frame ! 2) AND 0x40) OR push_bit 8 (promote (frame ! 4)) OR
                        promote (frame ! 3)))"

definition drive_misc :: "u8 list \<Rightarrow> hpsdr \<Rightarrow> hpsdr" where
  "drive_misc frame s =
    (if i2c_misc s
     then misc2_store (ucast (drop_bit 6 (promote (frame ! 3) AND 0x80) OR drop_bit 5 (promote (frame ! 3) AND 0x20))) s
     else s)"

definition drive_nucleo :: "u8 list \<Rightarrow> hpsdr \<Rightarrow> hpsdr" where
  "drive_nucleo frame s =
    (if i2c_nucleo s then nucleo1_store (ucast (drop_bit 5 (promote (frame ! 3) AND 0xe0))) s else s)"

definition drive_i2c_alex :: "u8 list \<Rightarrow> hpsdr \<Rightarrow> hpsdr" where
  "drive_i2c_alex frame s =
    (if i2c_alex s then alex_i2c_store (ucast (push_bit 8 (promote (frame ! 4)) OR promote (frame ! 3))) s else s)"

definition txatt_word :: "u8 list \<Rightarrow> u8 \<Rightarrow> u32 \<Rightarrow> u32" where
  "txatt_word frame att old =
    (old AND 0x00001f00) OR promote att OR push_bit 10 (promote (frame ! 3) AND 0xc0)"

text \<open>\<open>(int16_t)floor(data * 125.92 + 0.5)\<close>, the literal rounded to a double.\<close>

definition level_word :: "variant \<Rightarrow> u16 \<Rightarrow> u16" where
  "level_word v data =
    word_of_int (dfloor (fadd (fmul (of_int (uint data)) (rnd (of_int (v_level100 v) / 100))) (1/2)))"

definition drive_level :: "variant \<Rightarrow> u8 list \<Rightarrow> hpsdr \<Rightarrow> hpsdr" where
  "drive_level v frame s =
    (let data = ucast (frame ! 1) :: u16
     in if i2c_level s then level_store data s
        else if i2c_drive s then drive_store data s
        else if i2c_arduino s
        then txatt_store (txatt_word frame (log_table_lookup s (unat data)) (i2c_ard_txatt_data s)) s
        else put16 tx_level (level_word v data) s)"

definition drive_boost :: "u8 list \<Rightarrow> hpsdr \<Rightarrow> hpsdr" where
  "drive_boost frame s = (if i2c_codec s then boost_store (frame ! 2 AND 0x01) s else s)"

definition ep2_drive :: "variant \<Rightarrow> u8 list \<Rightarrow> hpsdr \<Rightarrow> hpsdr" where
  "ep2_drive v frame s =
    drive_boost frame (drive_level v frame (drive_i2c_alex frame (drive_nucleo frame
      (drive_misc frame (drive_alex frame s)))))"

section \<open>C0 = 20 .. 33: attenuators, keyer and audio settings\<close>

definition ep2_att1 :: "u8 list \<Rightarrow> hpsdr \<Rightarrow> hpsdr" where
  "ep2_att1 frame s =
    (let att = frame ! 4 AND 0x1f;
         s1 = s\<lparr>rx_att_data := att\<rparr>;
         s2 = (if i2c_misc s1 then misc0_store (ucast att) s1 else s1);
         s3 = (if i2c_nucleo s2 then nucleo2_store (ucast att) s2 else s2)
     in if i2c_arduino s3 then rxatt_store ((i2c_ard_rxatt_data s3 AND 0x1f00) OR ucast att) s3 else s3)"

definition ep2_att2 :: "u8 list \<Rightarrow> hpsdr \<Rightarrow> hpsdr" where
  "ep2_att2 frame s =
    (let att = frame ! 1 AND 0x1f;
         s1 = (if i2c_misc s then misc1_store (ucast att) s else s);
         s2 = (if i2c_nucleo s1 then nucleo3_store (ucast att) s1 else s1);
         s3 = s2\<lparr>cw_reversed := drop_bit 6 (frame ! 2) AND 1, cw_speed := frame ! 3 AND 63,
                 cw_mode := drop_bit 6 (frame ! 3) AND 3, cw_weight := frame ! 4 AND 127,
                 cw_spacing := drop_bit 7 (frame ! 4) AND 1\<rparr>
     in if i2c_arduino s3
        then rxatt_store ((i2c_ard_rxatt_data s3 AND 0x1f) OR push_bit 8 (ucast att)) s3 else s3)"

definition ep2_txrx_att :: "u8 list \<Rightarrow> hpsdr \<Rightarrow> hpsdr" where
  "ep2_txrx_att frame s =
    (if i2c_arduino s
     then txatt_store ((i2c_ard_txatt_data s AND 0x0003003f) OR push_bit 8 (promote (frame ! 3) AND 0x1f)) s
     else s)"

definition ep2_keyer :: "u8 list \<Rightarrow> hpsdr \<Rightarrow> hpsdr" where
  "ep2_keyer frame s =
    (let s1 = s\<lparr>cw_int_data := frame ! 1 AND 1, dac_level_data := frame ! 2, cw_delay := frame ! 3\<rparr>
     in if i2c_codec s1 then put16 dac_level (ucast (dac_level_data s1) * 64) s1 else s1)"

definition ep2_sidetone :: "u8 list \<Rightarrow> hpsdr \<Rightarrow> hpsdr" where
  "ep2_sidetone frame s =
    (let s1 = s\<lparr>cw_hang := ucast (push_bit 2 (promote (frame ! 1)) OR (promote (frame ! 2) AND 3))\<rparr>
     in if i2c_codec s1
        then put32 dac_freq (dds_word 48000 (uint (push_bit 4 (promote (frame ! 3)) OR (promote (frame ! 4) AND 255)))) s1
        else s1)"

section \<open>The switch\<close>

definition process_ep2 :: "variant \<Rightarrow> u8 list \<Rightarrow> hpsdr \<Rightarrow> hpsdr" where
  "process_ep2 v frame s =
    (let c0 = unat (frame ! 0)
     in if c0 = 0 \<or> c0 = 1 then ep2_config v frame s
        else if c0 = 2 \<or> c0 = 3 then ep2_tx_freq v frame s
        else if c0 = 4 \<or> c0 = 5 then ep2_rx1_freq v frame s
        else if c0 = 6 \<or> c0 = 7 then ep2_rx2_freq v frame s
        else if c0 = 8 \<or> c0 = 9 then ep2_rx3_freq v frame s
        else if c0 = 18 \<or> c0 = 19 then ep2_drive v frame s
        else if c0 = 20 \<or> c0 = 21 then ep2_att1 frame s
        else if c0 = 22 \<or> c0 = 23 then ep2_att2 frame s
        else if c0 = 28 \<or> c0 = 29 then ep2_txrx_att frame s
        else if c0 = 30 \<or> c0 = 31 then ep2_keyer frame s
        else if c0 = 32 \<or> c0 = 33 then ep2_sidetone frame s
        else s)"

section \<open>The contract of the stores\<close>

interpretation pene: i2c_reg i2c_pene_data pene_store log "0x20" "i2c_write_addr_data16 0x02" "(0x20, 0x02)"
  by unfold_locales (auto simp: pene_store_def emit_def i2c_key_def i2c_raw_def)

interpretation dac0: i2c_reg i2c_dac0_data dac0_store log "0x60" i2c_write_data16 "(0x60, 0)"
  by unfold_locales (auto simp: dac0_store_def emit_def i2c_key_def i2c_raw_def)

interpretation ocant: i2c_reg i2c_ard_ocant_data ocant_store log "0x40" "i2c_write_addr_data24 0x04" "(0x40, 0x04)"
  by unfold_locales (auto simp: ocant_store_def emit_def i2c_key_def i2c_raw_def)

interpretation ftx: i2c_reg i2c_ard_ftx_data ftx_store log "0x40" "i2c_write_addr_data16 0x03" "(0x40, 0x03)"
  by unfold_locales (auto simp: ftx_store_def emit_def i2c_key_def i2c_raw_def)

interpretation frx1: i2c_reg i2c_ard_frx1_data frx1_store log "0x40" "i2c_write_addr_data16 0x01" "(0x40, 0x01)"
  by unfold_locales (auto simp: frx1_store_def emit_def i2c_key_def i2c_raw_def)

interpretation frx2: i2c_reg i2c_ard_frx2_data frx2_store log "0x40" "i2c_write_addr_data16 0x02" "(0x40, 0x02)"
  by unfold_locales (auto simp: frx2_store_def emit_def i2c_key_def i2c_raw_def)

interpretation alexi: i2c_reg i2c_alex_data alex_i2c_store log "0x21" "i2c_write_addr_data16 0x02" "(0x21, 0x02)"
  by unfold_locales (auto simp: alex_i2c_store_def emit_def i2c_key_def i2c_raw_def)

interpretation level: i2c_reg i2c_level_data level_store log "0x22" "i2c_write_addr_data16 0x02" "(0x22, 0x02)"
  by unfold_locales (auto simp: level_store_def emit_def i2c_key_def i2c_raw_def)

interpretation drive: i2c_reg i2c_drive_data drive_store log "0x28" drive_message "(0x28, 0xa9)"
  by unfold_locales (auto simp: drive_store_def drive_message_def emit_def i2c_key_def i2c_raw_def)

interpretation txatt: i2c_reg i2c_ard_txatt_data txatt_store log "0x40" "i2c_write_addr_data24 0x05" "(0x40, 0x05)"
  by unfold_locales (auto simp: txatt_store_def emit_def i2c_key_def i2c_raw_def)

interpretation rxatt: i2c_reg i2c_ard_rxatt_data rxatt_store log "0x40" "i2c_write_addr_data16 0x06" "(0x40, 0x06)"
  by unfold_locales (auto simp: rxatt_store_def emit_def i2c_key_def i2c_raw_def)

interpretation boost: i2c_reg i2c_boost_data boost_store log "0x1A" "\<lambda>b. i2c_write_addr_data8 0x08 (0x14 + b)" "(0x1A, 0x08)"
  by unfold_locales (auto simp: boost_store_def i2c_write_addr_data8_def emit_def i2c_key_def i2c_raw_def)

section \<open>Collections over the definitions\<close>

lemmas i2c_store_defs =
  pene_store_def dac0_store_def ocant_store_def ftx_store_def frx1_store_def frx2_store_def alex_i2c_store_def
  level_store_def drive_store_def txatt_store_def rxatt_store_def boost_store_def

lemmas flag_store_defs =
  alex0_store_def alex1_store_def misc0_store_def misc1_store_def misc2_store_def
  nucleo0_store_def nucleo1_store_def nucleo2_store_def nucleo3_store_def flag_updates_def

lemmas config_defs =
  ep2_config_def cfg_sync_def cfg_gpio_def cfg_rate_def cfg_alex_def cfg_pene_def cfg_nucleo_def
  cfg_dac0_def cfg_arduino_def

lemmas freq_defs =
  ep2_tx_freq_def ep2_rx1_freq_def ep2_rx2_freq_def ep2_rx3_freq_def rx2_changed_def

lemmas drive_defs =
  ep2_drive_def drive_alex_def drive_misc_def drive_nucleo_def drive_i2c_alex_def drive_level_def drive_boost_def

lemmas setting_defs =
  ep2_att1_def ep2_att2_def ep2_txrx_att_def ep2_keyer_def ep2_sidetone_def

lemmas ep2_defs = config_defs freq_defs drive_defs setting_defs

text \<open>To show that every command keeps a property, show that each primitive store does.\<close>

lemma process_ep2_cases:
  assumes "P (ep2_config v frame s)" "P (ep2_tx_freq v frame s)" "P (ep2_rx1_freq v frame s)"
    "P (ep2_rx2_freq v frame s)" "P (ep2_rx3_freq v frame s)" "P (ep2_drive v frame s)"
    "P (ep2_att1 frame s)" "P (ep2_att2 frame s)" "P (ep2_txrx_att frame s)" "P (ep2_keyer frame s)"
    "P (ep2_sidetone frame s)" "P s"
  shows "P (process_ep2 v frame s)"
  using assms by (simp add: process_ep2_def Let_def)

end
