(* ===== verification/HpsdrEp2Inv.thy ===== *)
theory HpsdrEp2Inv imports HpsdrEp2 begin

text \<open>
  What every command of the host keeps: the ranges of the settings, the agreement of the shadow
  registers with the devices on the I2C bus, the copy of the first receiver's frequency in the
  second while they are synchronised, and the registers that belong to other parts of the server.
\<close>

section \<open>Ranges of the settings\<close>

definition hpsdr_ok :: "hpsdr \<Rightarrow> bool" where
  "hpsdr_ok s \<longleftrightarrow>
    1 \<le> receivers s \<and> receivers s \<le> 8 \<and> rate s < 4 \<and>
    unat (rx_att_data s) < 2 ^ 5 \<and> unat (tx_eer_data s) < 2 ^ 1 \<and> unat (cw_int_data s) < 2 ^ 1 \<and>
    unat (cw_reversed s) < 2 ^ 1 \<and> unat (cw_speed s) < 2 ^ 6 \<and> unat (cw_mode s) < 2 ^ 2 \<and>
    unat (cw_weight s) < 2 ^ 7 \<and> unat (cw_spacing s) < 2 ^ 1 \<and> unat (cw_hang s) < 2 ^ 10 \<and>
    unat (rx_sync_data s) < 2 ^ 1 \<and>
    freq_data s 0 \<le> freq_max \<and> freq_data s 1 \<le> freq_max \<and> freq_data s 2 \<le> freq_max \<and>
    unat (misc_data_0 s) < 2 ^ 5 \<and> unat (misc_data_1 s) < 2 ^ 5 \<and> unat (misc_data_2 s) < 2 ^ 2 \<and>
    unat (nucleo_data_0 s) < 2 ^ 16 \<and> unat (nucleo_data_1 s) < 2 ^ 3 \<and>
    unat (nucleo_data_2 s) < 2 ^ 5 \<and> unat (nucleo_data_3 s) < 2 ^ 5"

named_theorems ok_simps \<open>the ranges and the operations that do not touch them\<close>

lemma hpsdr_ok_put [ok_simps]:
  "hpsdr_ok (put8 a v s) = hpsdr_ok s" "hpsdr_ok (put16 a w s) = hpsdr_ok s" "hpsdr_ok (put32 a x s) = hpsdr_ok s"
  "hpsdr_ok (emit es s) = hpsdr_ok s" "hpsdr_ok (pulse8 a v s) = hpsdr_ok s"
  by (simp_all add: hpsdr_ok_def put8_def put16_def put32_def emit_def pulse8_def set8_def clr8_def)

lemma hpsdr_ok_store [ok_simps]:
  "hpsdr_ok (pene_store d s) = hpsdr_ok s" "hpsdr_ok (dac0_store d s) = hpsdr_ok s"
  "hpsdr_ok (ocant_store x s) = hpsdr_ok s" "hpsdr_ok (ftx_store d s) = hpsdr_ok s"
  "hpsdr_ok (frx1_store d s) = hpsdr_ok s" "hpsdr_ok (frx2_store d s) = hpsdr_ok s"
  "hpsdr_ok (alex_i2c_store d s) = hpsdr_ok s" "hpsdr_ok (level_store d s) = hpsdr_ok s"
  "hpsdr_ok (drive_store d s) = hpsdr_ok s" "hpsdr_ok (txatt_store x s) = hpsdr_ok s"
  "hpsdr_ok (rxatt_store d s) = hpsdr_ok s" "hpsdr_ok (boost_store b s) = hpsdr_ok s"
  "hpsdr_ok (alex0_store d s) = hpsdr_ok s" "hpsdr_ok (alex1_store d s) = hpsdr_ok s"
  "hpsdr_ok (flag_updates s) = hpsdr_ok s" "hpsdr_ok (icom_write s) = hpsdr_ok s"
  by (simp_all add: i2c_store_defs flag_store_defs icom_write_def ok_simps Let_def) (simp_all add: hpsdr_ok_def)

lemma hpsdr_ok_flag_store [ok_simps]:
  "hpsdr_ok s \<Longrightarrow> unat d < 2 ^ 5 \<Longrightarrow> hpsdr_ok (misc0_store d s)"
  "hpsdr_ok s \<Longrightarrow> unat d < 2 ^ 5 \<Longrightarrow> hpsdr_ok (misc1_store d s)"
  "hpsdr_ok s \<Longrightarrow> unat d < 2 ^ 2 \<Longrightarrow> hpsdr_ok (misc2_store d s)"
  "hpsdr_ok s \<Longrightarrow> hpsdr_ok (nucleo0_store d s)"
  "hpsdr_ok s \<Longrightarrow> unat d < 2 ^ 3 \<Longrightarrow> hpsdr_ok (nucleo1_store d s)"
  "hpsdr_ok s \<Longrightarrow> unat d < 2 ^ 5 \<Longrightarrow> hpsdr_ok (nucleo2_store d s)"
  "hpsdr_ok s \<Longrightarrow> unat d < 2 ^ 5 \<Longrightarrow> hpsdr_ok (nucleo3_store d s)"
  using unsigned_less [of d, where ?'a = nat] by (simp_all add: flag_store_defs hpsdr_ok_def unat_promote16)

lemma hpsdr_ok_config: "hpsdr_ok s \<Longrightarrow> hpsdr_ok (ep2_config v frame s)"
proof -
  assume ok: "hpsdr_ok s"
  have r: "unat (x AND 7 :: u32) < 8" "unat (x AND 3 :: u32) < 4" for x
    using and_mask_less [of 7 3 x] and_mask_less [of 3 2 x] by (simp_all add: mask_eq_exp_minus_1)
  have r': "unat (x AND 7 :: u32) \<le> 7" for x using r(1) [of x] by simp
  have one: "unat (ucast (x AND 1 :: u32) :: u16) < 2" "unat (ucast (x AND 1 :: u32) :: u8) < 2" for x
    using and_eq_less [of "ucast (x AND 1) :: u16" 1 1] and_eq_less [of "ucast (x AND 1) :: u8" 1 1]
    by (simp_all add: word16_eqI word8_eqI word_bits bit_1_iff mask_eq_exp_minus_1)
  have "hpsdr_ok (cfg_sync frame s)"
    using ok by (simp add: cfg_sync_def Let_def ok_simps) (auto simp: hpsdr_ok_def r' one)
  then have "hpsdr_ok (cfg_gpio frame (cfg_sync frame s))"
    by (simp add: cfg_gpio_def Let_def ok_simps) (simp add: hpsdr_ok_def one)
  then have "hpsdr_ok (cfg_rate v frame (cfg_gpio frame (cfg_sync frame s)))"
    by (simp add: cfg_rate_def Let_def ok_simps) (simp add: hpsdr_ok_def r)
  then show ?thesis
    by (simp add: ep2_config_def cfg_alex_def cfg_pene_def cfg_nucleo_def cfg_dac0_def cfg_arduino_def ok_simps)
qed

lemma hpsdr_ok_freq:
  assumes "hpsdr_ok s"
  shows "hpsdr_ok (ep2_tx_freq v frame s)" "hpsdr_ok (ep2_rx1_freq v frame s)"
    "hpsdr_ok (ep2_rx2_freq v frame s)" "hpsdr_ok (ep2_rx3_freq v frame s)"
proof -
  have set_freq: "hpsdr_ok t \<Longrightarrow> f \<le> freq_max \<Longrightarrow> hpsdr_ok (t\<lparr>freq_data := (freq_data t)(i := f)\<rparr>)" for t f i
    by (simp add: hpsdr_ok_def)
  have le: "\<not> freq_rejected f \<Longrightarrow> f \<le> freq_max" for f by (simp add: freq_rejected_def not_less)
  note simps = Let_def ok_simps set_freq le assms
  show "hpsdr_ok (ep2_tx_freq v frame s)" by (simp add: ep2_tx_freq_def simps)
  show "hpsdr_ok (ep2_rx1_freq v frame s)" by (simp add: ep2_rx1_freq_def simps)
  show "hpsdr_ok (ep2_rx2_freq v frame s)" by (simp add: ep2_rx2_freq_def rx2_changed_def simps)
  show "hpsdr_ok (ep2_rx3_freq v frame s)" by (simp add: ep2_rx3_freq_def rx2_changed_def simps)
qed

lemma hpsdr_ok_drive: "hpsdr_ok s \<Longrightarrow> hpsdr_ok (ep2_drive v frame s)"
proof -
  assume ok: "hpsdr_ok s"
  have "unat (ucast (drop_bit 6 (promote (x :: u8) AND 0x80) OR drop_bit 5 (promote x AND 0x20)) :: u16) < 2 ^ 2" for x
    by (rule and_eq_less [where m = 3]; (rule word16_eqI)?; simp add: word_bits mask_eq_exp_minus_1)
  moreover have "unat (ucast (drop_bit 5 (promote (x :: u8) AND 0xe0)) :: u16) < 2 ^ 3" for x
    by (rule and_eq_less [where m = 7]; (rule word16_eqI)?; simp add: word_bits mask_eq_exp_minus_1)
  ultimately show ?thesis
    using ok by (simp add: drive_defs Let_def ok_simps)
qed

lemma hpsdr_ok_settings:
  assumes "hpsdr_ok s"
  shows "hpsdr_ok (ep2_att1 frame s)" "hpsdr_ok (ep2_att2 frame s)" "hpsdr_ok (ep2_txrx_att frame s)"
    "hpsdr_ok (ep2_keyer frame s)" "hpsdr_ok (ep2_sidetone frame s)"
proof -
  have m: "unat (x AND 1 :: u8) < 2" "unat (x AND 3 :: u8) < 4" "unat (x AND 0x1f :: u8) < 32"
     "unat (x AND 63 :: u8) < 64" "unat (x AND 127 :: u8) < 128" for x
    using and_mask_less [of 1 1 x] and_mask_less [of 3 2 x] and_mask_less [of 31 5 x]
      and_mask_less [of 63 6 x] and_mask_less [of 127 7 x] by (simp_all add: mask_eq_exp_minus_1)
  have hang: "unat (ucast (push_bit 2 (promote (x :: u8)) OR (promote (y :: u8) AND 3)) :: u16) < 1024" for x y
  proof -
    have "(ucast (push_bit 2 (promote x) OR (promote y AND 3)) :: u16) AND 1023 =
          ucast (push_bit 2 (promote x) OR (promote y AND 3))"
      by (rule word16_eqI) (simp add: word_bits u8_high)
    from and_eq_less [OF this, of 10] show ?thesis by (simp add: mask_eq_exp_minus_1)
  qed
  show "hpsdr_ok (ep2_att1 frame s)"
  proof -
    have "hpsdr_ok (s\<lparr>rx_att_data := frame ! 4 AND 0x1f\<rparr>)" using assms by (simp add: hpsdr_ok_def m)
    then show ?thesis by (simp add: ep2_att1_def Let_def ok_simps unat_ucast8_16 m)
  qed
  show "hpsdr_ok (ep2_att2 frame s)"
  proof -
    have set_cw: "hpsdr_ok t \<Longrightarrow> hpsdr_ok (t\<lparr>cw_reversed := drop_bit 6 (frame ! 2) AND 1, cw_speed := frame ! 3 AND 63,
                 cw_mode := drop_bit 6 (frame ! 3) AND 3, cw_weight := frame ! 4 AND 127,
                 cw_spacing := drop_bit 7 (frame ! 4) AND 1\<rparr>)" for t
      by (simp add: hpsdr_ok_def m)
    show ?thesis using assms by (simp add: ep2_att2_def Let_def ok_simps set_cw unat_ucast8_16 m)
  qed
  show "hpsdr_ok (ep2_txrx_att frame s)" using assms by (simp add: ep2_txrx_att_def ok_simps)
  show "hpsdr_ok (ep2_keyer frame s)"
    using assms by (simp add: ep2_keyer_def Let_def ok_simps) (simp add: hpsdr_ok_def m)
  show "hpsdr_ok (ep2_sidetone frame s)"
    using assms by (simp add: ep2_sidetone_def Let_def ok_simps) (simp add: hpsdr_ok_def hang)
qed

lemma hpsdr_ok_ep2: "hpsdr_ok s \<Longrightarrow> hpsdr_ok (process_ep2 v frame s)"
  by (rule process_ep2_cases) (simp_all add: hpsdr_ok_config hpsdr_ok_freq hpsdr_ok_drive hpsdr_ok_settings)

section \<open>Shadows and devices\<close>

text \<open>Every shadowed register: the device's bus address and register number, and the message that
  makes the register hold the shadow's value.\<close>

definition shadows :: "hpsdr \<Rightarrow> ((u8 \<times> u8) \<times> u8 list) list" where
  "shadows s =
    [((0x20, 0x02), i2c_write_addr_data16 0x02 (i2c_pene_data s)),
     ((0x21, 0x02), i2c_write_addr_data16 0x02 (i2c_alex_data s)),
     ((0x22, 0x02), i2c_write_addr_data16 0x02 (i2c_level_data s)),
     ((0x23, 0x02), i2c_write_addr_data16 0x02 (i2c_misc_data s)),
     ((0x28, 0xa9), drive_message (i2c_drive_data s)),
     ((0x60, 0), i2c_write_data16 (i2c_dac0_data s)),
     ((0x61, 0), i2c_write_data16 (i2c_dac1_data s)),
     ((0x1A, 0x08), i2c_write_addr_data8 0x08 (0x14 + i2c_boost_data s)),
     ((0x40, 0x01), i2c_write_addr_data16 0x01 (i2c_ard_frx1_data s)),
     ((0x40, 0x02), i2c_write_addr_data16 0x02 (i2c_ard_frx2_data s)),
     ((0x40, 0x03), i2c_write_addr_data16 0x03 (i2c_ard_ftx_data s)),
     ((0x40, 0x04), i2c_write_addr_data24 0x04 (i2c_ard_ocant_data s)),
     ((0x40, 0x05), i2c_write_addr_data24 0x05 (i2c_ard_txatt_data s)),
     ((0x40, 0x06), i2c_write_addr_data16 0x06 (i2c_ard_rxatt_data s))]"

text \<open>The message for the two words of the NUCLEO board is a special case: the board is told a value
  while it is probed that the shadow does not hold.\<close>

definition nucleo_probe :: "u8 list" where
  "nucleo_probe = i2c_write_data40 0x02100000 0"

definition nucleo_agrees :: "hpsdr \<Rightarrow> bool" where
  "nucleo_agrees s \<longleftrightarrow>
    coherent (0x55, 0) (\<lambda>d. i2c_write_data40 (fst d) (snd d)) (i2c_nucleo_data s) (log s) \<or>
    i2c_nucleo_data s = (0, 0) \<and> seen (log s) (0x55, 0) = Some nucleo_probe"

definition bus_ok :: "hpsdr \<Rightarrow> bool" where
  "bus_ok s \<longleftrightarrow> agrees (log s) (shadows s) \<and> nucleo_agrees s"

lemma shadows_store:
  "shadows (pene_store d s) = assign (0x20, 0x02) (i2c_write_addr_data16 0x02 d) (shadows s)"
  "shadows (alex_i2c_store d s) = assign (0x21, 0x02) (i2c_write_addr_data16 0x02 d) (shadows s)"
  "shadows (level_store d s) = assign (0x22, 0x02) (i2c_write_addr_data16 0x02 d) (shadows s)"
  "shadows (misc_store d s) = assign (0x23, 0x02) (i2c_write_addr_data16 0x02 d) (shadows s)"
  "shadows (drive_store d s) = assign (0x28, 0xa9) (drive_message d) (shadows s)"
  "shadows (dac0_store d s) = assign (0x60, 0) (i2c_write_data16 d) (shadows s)"
  "shadows (boost_store b s) = assign (0x1A, 0x08) (i2c_write_addr_data8 0x08 (0x14 + b)) (shadows s)"
  "shadows (frx1_store d s) = assign (0x40, 0x01) (i2c_write_addr_data16 0x01 d) (shadows s)"
  "shadows (frx2_store d s) = assign (0x40, 0x02) (i2c_write_addr_data16 0x02 d) (shadows s)"
  "shadows (ftx_store d s) = assign (0x40, 0x03) (i2c_write_addr_data16 0x03 d) (shadows s)"
  "shadows (ocant_store x s) = assign (0x40, 0x04) (i2c_write_addr_data24 0x04 x) (shadows s)"
  "shadows (txatt_store x s) = assign (0x40, 0x05) (i2c_write_addr_data24 0x05 x) (shadows s)"
  "shadows (rxatt_store d s) = assign (0x40, 0x06) (i2c_write_addr_data16 0x06 d) (shadows s)"
  by (auto simp: shadows_def assign_def i2c_store_defs misc_store_def emit_def)

lemma nucleo_store_frame [frame_simps]:
  "i2c_nucleo_data (pene_store d s) = i2c_nucleo_data s"
  "i2c_nucleo_data (alex_i2c_store d s) = i2c_nucleo_data s"
  "i2c_nucleo_data (level_store d s) = i2c_nucleo_data s"
  "i2c_nucleo_data (misc_store d s) = i2c_nucleo_data s"
  "i2c_nucleo_data (drive_store d s) = i2c_nucleo_data s"
  "i2c_nucleo_data (dac0_store d s) = i2c_nucleo_data s"
  "i2c_nucleo_data (boost_store b s) = i2c_nucleo_data s"
  "i2c_nucleo_data (frx1_store d s) = i2c_nucleo_data s"
  "i2c_nucleo_data (frx2_store d s) = i2c_nucleo_data s"
  "i2c_nucleo_data (ftx_store d s) = i2c_nucleo_data s"
  "i2c_nucleo_data (ocant_store x s) = i2c_nucleo_data s"
  "i2c_nucleo_data (txatt_store x s) = i2c_nucleo_data s"
  "i2c_nucleo_data (rxatt_store d s) = i2c_nucleo_data s"
  by (simp_all add: i2c_store_defs misc_store_def emit_def)

lemma shadows_mem:
  "((0x20, 0x02), m) \<in> set (shadows s) \<longleftrightarrow> m = i2c_write_addr_data16 0x02 (i2c_pene_data s)"
  "((0x21, 0x02), m) \<in> set (shadows s) \<longleftrightarrow> m = i2c_write_addr_data16 0x02 (i2c_alex_data s)"
  "((0x22, 0x02), m) \<in> set (shadows s) \<longleftrightarrow> m = i2c_write_addr_data16 0x02 (i2c_level_data s)"
  "((0x23, 0x02), m) \<in> set (shadows s) \<longleftrightarrow> m = i2c_write_addr_data16 0x02 (i2c_misc_data s)"
  "((0x28, 0xa9), m) \<in> set (shadows s) \<longleftrightarrow> m = drive_message (i2c_drive_data s)"
  "((0x60, 0), m) \<in> set (shadows s) \<longleftrightarrow> m = i2c_write_data16 (i2c_dac0_data s)"
  "((0x1A, 0x08), m) \<in> set (shadows s) \<longleftrightarrow> m = i2c_write_addr_data8 0x08 (0x14 + i2c_boost_data s)"
  "((0x40, 0x01), m) \<in> set (shadows s) \<longleftrightarrow> m = i2c_write_addr_data16 0x01 (i2c_ard_frx1_data s)"
  "((0x40, 0x02), m) \<in> set (shadows s) \<longleftrightarrow> m = i2c_write_addr_data16 0x02 (i2c_ard_frx2_data s)"
  "((0x40, 0x03), m) \<in> set (shadows s) \<longleftrightarrow> m = i2c_write_addr_data16 0x03 (i2c_ard_ftx_data s)"
  "((0x40, 0x04), m) \<in> set (shadows s) \<longleftrightarrow> m = i2c_write_addr_data24 0x04 (i2c_ard_ocant_data s)"
  "((0x40, 0x05), m) \<in> set (shadows s) \<longleftrightarrow> m = i2c_write_addr_data24 0x05 (i2c_ard_txatt_data s)"
  "((0x40, 0x06), m) \<in> set (shadows s) \<longleftrightarrow> m = i2c_write_addr_data16 0x06 (i2c_ard_rxatt_data s)"
  by (simp_all add: shadows_def)

lemma bus_ok_step:
  assumes "bus_ok s" and "agrees (log s) (shadows s) \<Longrightarrow> agrees (log t) (shadows t)"
    and "i2c_nucleo_data t = i2c_nucleo_data s" and "seen (log t) (0x55, 0) = seen (log s) (0x55, 0)"
  shows "bus_ok t"
  using assms by (simp add: bus_ok_def nucleo_agrees_def coherent_def)

lemma bus_ok_off_bus:
  assumes "bus_ok s" and "log t = log s @ es" and "\<forall>e \<in> set es. off_bus e"
    and "shadows t = shadows s" and "i2c_nucleo_data t = i2c_nucleo_data s"
  shows "bus_ok t"
  using assms by (auto intro!: bus_ok_step [of s t] simp: agrees_off_bus seen_off_bus)

text \<open>Each store of a device on the bus keeps the table in agreement: the locale's law, once per device.\<close>

lemma bus_ok_store [ok_simps]:
  "bus_ok s \<Longrightarrow> bus_ok (pene_store d s)"
  "bus_ok s \<Longrightarrow> bus_ok (alex_i2c_store d s)"
  "bus_ok s \<Longrightarrow> bus_ok (level_store d s)"
  "bus_ok s \<Longrightarrow> bus_ok (misc_store d s)"
  "bus_ok s \<Longrightarrow> bus_ok (drive_store d s)"
  "bus_ok s \<Longrightarrow> bus_ok (dac0_store d s)"
  "bus_ok s \<Longrightarrow> bus_ok (boost_store b s)"
  "bus_ok s \<Longrightarrow> bus_ok (frx1_store d s)"
  "bus_ok s \<Longrightarrow> bus_ok (frx2_store d s)"
  "bus_ok s \<Longrightarrow> bus_ok (ftx_store d s)"
  "bus_ok s \<Longrightarrow> bus_ok (ocant_store x s)"
  "bus_ok s \<Longrightarrow> bus_ok (txatt_store x s)"
  "bus_ok s \<Longrightarrow> bus_ok (rxatt_store d s)"
  subgoal by (erule bus_ok_step) (simp_all add: shadows_store shadows_mem nucleo_store_frame pene.agrees_store pene.seen_store_other)
  subgoal by (erule bus_ok_step) (simp_all add: shadows_store shadows_mem nucleo_store_frame alexi.agrees_store alexi.seen_store_other)
  subgoal by (erule bus_ok_step) (simp_all add: shadows_store shadows_mem nucleo_store_frame level.agrees_store level.seen_store_other)
  subgoal by (erule bus_ok_step) (simp_all add: shadows_store shadows_mem nucleo_store_frame misc.agrees_store misc.seen_store_other)
  subgoal by (erule bus_ok_step) (simp_all add: shadows_store shadows_mem nucleo_store_frame drive.agrees_store drive.seen_store_other)
  subgoal by (erule bus_ok_step) (simp_all add: shadows_store shadows_mem nucleo_store_frame dac0.agrees_store dac0.seen_store_other)
  subgoal by (erule bus_ok_step) (simp_all add: shadows_store shadows_mem nucleo_store_frame boost.agrees_store boost.seen_store_other)
  subgoal by (erule bus_ok_step) (simp_all add: shadows_store shadows_mem nucleo_store_frame frx1.agrees_store frx1.seen_store_other)
  subgoal by (erule bus_ok_step) (simp_all add: shadows_store shadows_mem nucleo_store_frame frx2.agrees_store frx2.seen_store_other)
  subgoal by (erule bus_ok_step) (simp_all add: shadows_store shadows_mem nucleo_store_frame ftx.agrees_store ftx.seen_store_other)
  subgoal by (erule bus_ok_step) (simp_all add: shadows_store shadows_mem nucleo_store_frame ocant.agrees_store ocant.seen_store_other)
  subgoal by (erule bus_ok_step) (simp_all add: shadows_store shadows_mem nucleo_store_frame txatt.agrees_store txatt.seen_store_other)
  subgoal by (erule bus_ok_step) (simp_all add: shadows_store shadows_mem nucleo_store_frame rxatt.agrees_store rxatt.seen_store_other)
  done

lemma bus_ok_nucleo_store: "bus_ok s \<Longrightarrow> bus_ok (nucleo_store d s)"
proof -
  assume ok: "bus_ok s"
  have "shadows (nucleo_store d s) = shadows s" by (simp add: nucleo_store_def shadows_def emit_def)
  moreover have "agrees (log (nucleo_store d s)) (shadows s)"
    using ok nucleo.agrees_store [of s "shadows s" d]
    by (simp add: bus_ok_def) (simp add: shadows_def assign_def)
  moreover have "nucleo_agrees (nucleo_store d s)"
  proof (cases "i2c_nucleo_data s = d")
    case True
    with ok show ?thesis by (simp add: nucleo.store_same bus_ok_def)
  next
    case False
    then show ?thesis by (simp add: nucleo_agrees_def coherent_def nucleo.seen_store nucleo.get_store)
  qed
  ultimately show ?thesis by (simp add: bus_ok_def)
qed

lemma bus_ok_fields [ok_simps]:
  "bus_ok (s\<lparr>receivers := a\<rparr>) = bus_ok s" "bus_ok (s\<lparr>rate := a\<rparr>) = bus_ok s"
  "bus_ok (s\<lparr>rx_sync_data := w\<rparr>) = bus_ok s" "bus_ok (s\<lparr>tx_eer_data := b\<rparr>) = bus_ok s"
  "bus_ok (s\<lparr>freq_data := f\<rparr>) = bus_ok s" "bus_ok (s\<lparr>rx_att_data := b\<rparr>) = bus_ok s"
  "bus_ok (s\<lparr>cw_hang := w\<rparr>) = bus_ok s"
  "bus_ok (s\<lparr>cw_int_data := b\<rparr>) = bus_ok s" "bus_ok (s\<lparr>dac_level_data := b\<rparr>) = bus_ok s"
  "bus_ok (s\<lparr>cw_delay := b\<rparr>) = bus_ok s" "bus_ok (s\<lparr>cw_reversed := b\<rparr>) = bus_ok s"
  "bus_ok (s\<lparr>cw_speed := b\<rparr>) = bus_ok s" "bus_ok (s\<lparr>cw_mode := b\<rparr>) = bus_ok s"
  "bus_ok (s\<lparr>cw_weight := b\<rparr>) = bus_ok s" "bus_ok (s\<lparr>cw_spacing := b\<rparr>) = bus_ok s"
  "bus_ok (alex0_store w s) = bus_ok s" "bus_ok (alex1_store w s) = bus_ok s"
  "bus_ok (misc0_store w s) = bus_ok s" "bus_ok (misc1_store w s) = bus_ok s" "bus_ok (misc2_store w s) = bus_ok s"
  "bus_ok (nucleo0_store w s) = bus_ok s" "bus_ok (nucleo1_store w s) = bus_ok s"
  "bus_ok (nucleo2_store w s) = bus_ok s" "bus_ok (nucleo3_store w s) = bus_ok s"
  "bus_ok (flag_updates s) = bus_ok s"
  by (simp_all add: bus_ok_def nucleo_agrees_def shadows_def flag_store_defs)

lemma bus_ok_put [ok_simps]:
  "bus_ok s \<Longrightarrow> bus_ok (put8 a v s)" "bus_ok s \<Longrightarrow> bus_ok (put16 a w s)" "bus_ok s \<Longrightarrow> bus_ok (put32 a x s)"
  "bus_ok s \<Longrightarrow> bus_ok (pulse8 a v s)"
  by (erule bus_ok_off_bus, (rule log_simps | simp), (simp add: shadows_def put8_def put16_def put32_def pulse8_def set8_def clr8_def)+)+

lemma bus_ok_icom [ok_simps]: "bus_ok s \<Longrightarrow> bus_ok (icom_write s)"
  by (erule bus_ok_off_bus, rule icom_write_events) (simp_all add: icom_write_def shadows_def emit_def Let_def)

lemma bus_ok_ep2: "bus_ok s \<Longrightarrow> bus_ok (process_ep2 v frame s)"
  by (rule process_ep2_cases) (simp_all add: ep2_defs Let_def ok_simps)

end
