(* ===== verification/HpsdrEp2Props.thy ===== *)
theory HpsdrEp2Props imports HpsdrEp2Inv begin

text \<open>
  What the commands of the host do to the registers of the FPGA: which registers they may change,
  the phase increments, levels and output pins they set, the synchronisation of the first two
  receivers, and the layout of the values sent to the I2C devices.
\<close>

section \<open>Registers a command may change\<close>

text \<open>Reset lines of the local oscillators, output pins, decimation rate, receive and transmit
  frequencies, transmit level, side tone frequency and level.\<close>

definition host_reg :: "nat \<Rightarrow> bool" where
  "host_reg a \<longleftrightarrow> a = 1 \<or> a \<in> {3..<6} \<or> a \<in> {8..<24} \<or> a \<in> {26..<28} \<or> a \<in> {32..<36} \<or> a \<in> {38..<40}"

lemma cfg_store [reg_simps]:
  "cfg (pene_store d s) = cfg s" "cfg (dac0_store d s) = cfg s" "cfg (ocant_store x s) = cfg s"
  "cfg (ftx_store d s) = cfg s" "cfg (frx1_store d s) = cfg s" "cfg (frx2_store d s) = cfg s"
  "cfg (alex_i2c_store d s) = cfg s" "cfg (level_store d s) = cfg s" "cfg (drive_store d s) = cfg s"
  "cfg (txatt_store x s) = cfg s" "cfg (rxatt_store d s) = cfg s" "cfg (boost_store b s) = cfg s"
  "cfg (alex0_store d s) = cfg s" "cfg (alex1_store d s) = cfg s" "cfg (misc0_store d s) = cfg s"
  "cfg (misc1_store d s) = cfg s" "cfg (misc2_store d s) = cfg s" "cfg (nucleo0_store d s) = cfg s"
  "cfg (nucleo1_store d s) = cfg s" "cfg (nucleo2_store d s) = cfg s" "cfg (nucleo3_store d s) = cfg s"
  "cfg (flag_updates s) = cfg s" "cfg (icom_write s) = cfg s"
  by (simp_all add: i2c_store_defs flag_store_defs icom_write_def Let_def emit_def)

lemma rx_sync_store [frame_simps]:
  "rx_sync_data (pene_store d s) = rx_sync_data s" "rx_sync_data (dac0_store d s) = rx_sync_data s"
  "rx_sync_data (ocant_store x s) = rx_sync_data s" "rx_sync_data (ftx_store d s) = rx_sync_data s"
  "rx_sync_data (frx1_store d s) = rx_sync_data s" "rx_sync_data (frx2_store d s) = rx_sync_data s"
  "rx_sync_data (alex_i2c_store d s) = rx_sync_data s" "rx_sync_data (level_store d s) = rx_sync_data s"
  "rx_sync_data (drive_store d s) = rx_sync_data s" "rx_sync_data (txatt_store x s) = rx_sync_data s"
  "rx_sync_data (rxatt_store d s) = rx_sync_data s" "rx_sync_data (boost_store b s) = rx_sync_data s"
  "rx_sync_data (alex0_store d s) = rx_sync_data s" "rx_sync_data (alex1_store d s) = rx_sync_data s"
  "rx_sync_data (misc0_store d s) = rx_sync_data s" "rx_sync_data (misc1_store d s) = rx_sync_data s"
  "rx_sync_data (misc2_store d s) = rx_sync_data s" "rx_sync_data (nucleo0_store d s) = rx_sync_data s"
  "rx_sync_data (nucleo1_store d s) = rx_sync_data s" "rx_sync_data (nucleo2_store d s) = rx_sync_data s"
  "rx_sync_data (nucleo3_store d s) = rx_sync_data s" "rx_sync_data (flag_updates s) = rx_sync_data s"
  "rx_sync_data (icom_write s) = rx_sync_data s"
  by (simp_all add: i2c_store_defs flag_store_defs icom_write_def Let_def emit_def)

lemma rx_sync_put [frame_simps]:
  "rx_sync_data (put8 a v s) = rx_sync_data s" "rx_sync_data (put16 a w s) = rx_sync_data s"
  "rx_sync_data (put32 a x s) = rx_sync_data s" "rx_sync_data (pulse8 a v s) = rx_sync_data s"
  "freq_data (put32 a x s) = freq_data s"
  by (simp_all add: put8_def put16_def put32_def pulse8_def set8_def clr8_def)

lemma host_reg_addr:
  "\<not> host_reg a \<Longrightarrow> a \<noteq> 1 \<and> a \<noteq> 3 \<and> (a < 4 \<or> 6 \<le> a) \<and> (a < 8 \<or> 24 \<le> a) \<and>
     (a < 26 \<or> 28 \<le> a) \<and> (a < 32 \<or> 36 \<le> a) \<and> (a < 38 \<or> 40 \<le> a)"
  by (auto simp: host_reg_def)

lemma host_reg_ranges:
  assumes "\<not> host_reg a"
  shows "a < 4 \<or> 6 \<le> a" "a < 8 \<or> 12 \<le> a" "a < 12 \<or> 16 \<le> a" "a < 16 \<or> 20 \<le> a" "a < 20 \<or> 24 \<le> a"
    "a < 26 \<or> 28 \<le> a" "a < 32 \<or> 36 \<le> a" "a < 38 \<or> 40 \<le> a" "a \<noteq> 1" "a \<noteq> 3" "1 \<noteq> a" "3 \<noteq> a" "Suc 0 \<noteq> a"
  using host_reg_addr [OF assms] by auto

named_theorems confined_simps \<open>blocks of the commands that leave a register alone\<close>

lemma confined_config [confined_simps]:
  assumes "\<not> host_reg a"
  shows "cfg (cfg_sync frame s) a = cfg s a" "cfg (cfg_gpio frame s) a = cfg s a" "cfg (cfg_rate v frame s) a = cfg s a"
    "cfg (cfg_alex frame s) a = cfg s a" "cfg (cfg_pene frame s) a = cfg s a" "cfg (cfg_nucleo frame s) a = cfg s a"
    "cfg (cfg_dac0 frame s) a = cfg s a" "cfg (cfg_arduino frame s) a = cfg s a"
  by (simp_all add: config_defs Let_def reg_simps reg_addr host_reg_ranges [OF assms])

lemma confined_freq [confined_simps]:
  assumes "\<not> host_reg a"
  shows "cfg (rx2_changed f s) a = cfg s a" "cfg (ep2_tx_freq v frame s) a = cfg s a" "cfg (ep2_rx1_freq v frame s) a = cfg s a"
    "cfg (ep2_rx2_freq v frame s) a = cfg s a" "cfg (ep2_rx3_freq v frame s) a = cfg s a"
  by (simp_all add: freq_defs Let_def reg_simps reg_addr host_reg_ranges [OF assms])

lemma confined_drive [confined_simps]:
  assumes "\<not> host_reg a"
  shows "cfg (drive_alex frame s) a = cfg s a" "cfg (drive_misc frame s) a = cfg s a" "cfg (drive_nucleo frame s) a = cfg s a"
    "cfg (drive_i2c_alex frame s) a = cfg s a" "cfg (drive_level v frame s) a = cfg s a" "cfg (drive_boost frame s) a = cfg s a"
  by (simp_all add: drive_defs Let_def reg_simps reg_addr host_reg_ranges [OF assms])

lemma confined_setting [confined_simps]:
  assumes "\<not> host_reg a"
  shows "cfg (ep2_att1 frame s) a = cfg s a" "cfg (ep2_att2 frame s) a = cfg s a" "cfg (ep2_txrx_att frame s) a = cfg s a"
    "cfg (ep2_keyer frame s) a = cfg s a" "cfg (ep2_sidetone frame s) a = cfg s a"
  by (simp_all add: setting_defs Let_def reg_simps reg_addr host_reg_ranges [OF assms])

lemma process_ep2_keeps: "\<not> host_reg a \<Longrightarrow> cfg (process_ep2 v frame s) a = cfg s a"
  by (rule process_ep2_cases)
    (simp_all add: ep2_config_def ep2_drive_def confined_simps)

section \<open>Frequencies\<close>

lemma uint_freq_max: "f \<le> freq_max \<Longrightarrow> uint f \<le> 61440000"
  by (simp add: freq_max_def word_le_def)

lemma phase_inc_exact:
  assumes "v_clk v = 125000000 \<or> v_clk v = 122880000" and "f \<le> freq_max"
  shows "phase_inc v f = word_of_int (round_half_up (uint f * 2 ^ 30) (v_clk v))"
  using assms uint_freq_max [OF assms(2)] dds_inc_125 [of "uint f"] dds_inc_12288 [of "uint f"]
  by (auto simp: phase_inc_def dds_word_def)

text \<open>The increment as a natural number: no accepted frequency overflows the 32-bit register, and the
  synthesised frequency is off by at most half a step of the 30-bit phase accumulator.\<close>

lemma phase_inc_nat:
  assumes "v_clk v = 125000000 \<or> v_clk v = 122880000" and "f \<le> freq_max"
  shows "uint (phase_inc v f) = round_half_up (uint f * 2 ^ 30) (v_clk v)"
proof -
  let ?n = "uint f * 2 ^ 30" and ?d = "v_clk v"
  have d: "0 < ?d" using assms by auto
  have "0 \<le> round_half_up ?n ?d" using d by (simp add: round_half_up_def pos_imp_zdiv_nonneg_iff)
  moreover have "round_half_up ?n ?d < 2 ^ 32"
    using round_half_up_bounds(1) [OF d, of ?n] assms uint_freq_max [OF assms(2)] by auto
  ultimately show ?thesis
    by (simp add: phase_inc_exact [OF assms] uint_word_of_int_eq take_bit_int_eq_self)
qed

lemma process_ep2_switch:
  "frame ! 0 \<in> {0, 1} \<Longrightarrow> process_ep2 v frame s = ep2_config v frame s"
  "frame ! 0 \<in> {2, 3} \<Longrightarrow> process_ep2 v frame s = ep2_tx_freq v frame s"
  "frame ! 0 \<in> {4, 5} \<Longrightarrow> process_ep2 v frame s = ep2_rx1_freq v frame s"
  "frame ! 0 \<in> {6, 7} \<Longrightarrow> process_ep2 v frame s = ep2_rx2_freq v frame s"
  "frame ! 0 \<in> {8, 9} \<Longrightarrow> process_ep2 v frame s = ep2_rx3_freq v frame s"
  "frame ! 0 \<in> {18, 19} \<Longrightarrow> process_ep2 v frame s = ep2_drive v frame s"
  "frame ! 0 \<in> {20, 21} \<Longrightarrow> process_ep2 v frame s = ep2_att1 frame s"
  "frame ! 0 \<in> {22, 23} \<Longrightarrow> process_ep2 v frame s = ep2_att2 frame s"
  "frame ! 0 \<in> {28, 29} \<Longrightarrow> process_ep2 v frame s = ep2_txrx_att frame s"
  "frame ! 0 \<in> {30, 31} \<Longrightarrow> process_ep2 v frame s = ep2_keyer frame s"
  "frame ! 0 \<in> {32, 33} \<Longrightarrow> process_ep2 v frame s = ep2_sidetone frame s"
  by (elim insertE; simp add: process_ep2_def)+

lemma cfg_rx2_changed [reg_simps]: "cfg (rx2_changed f s) = cfg s"
  by (simp add: rx2_changed_def Let_def reg_simps)

lemma freq_registers:
  assumes "\<not> freq_rejected (frame_freq frame)"
  shows "rd32 (cfg (ep2_tx_freq v frame s)) tx_freq = phase_inc v (frame_freq frame)"
    "rd32 (cfg (ep2_rx1_freq v frame s)) (rx_freq 0) = phase_inc v (frame_freq frame)"
    "rx_sync_data s = 0 \<Longrightarrow> rd32 (cfg (ep2_rx2_freq v frame s)) (rx_freq 1) = phase_inc v (frame_freq frame)"
    "rd32 (cfg (ep2_rx3_freq v frame s)) (rx_freq 2) = phase_inc v (frame_freq frame)"
  using assms
  by (simp_all add: ep2_tx_freq_def ep2_rx1_freq_def ep2_rx2_freq_def ep2_rx3_freq_def Let_def reg_simps frame_simps reg_addr)

text \<open>C4: a frequency command whose frequency is in range sets the phase increment
  of its synthesiser to the correctly rounded value \<open>freq * 2^30 / clk\<close>, so that the synthesised
  frequency is within half a step of the one asked for; the double arithmetic of the source loses nothing.\<close>

theorem frequency_register:
  assumes "v \<in> {hpsdr_125, hpsdr_122_88, thetis hpsdr_125, thetis hpsdr_122_88}"
    and "f = frame_freq frame" and "f \<le> freq_max"
    and "(frame ! 0 \<in> {2, 3} \<and> a = tx_freq) \<or> (frame ! 0 \<in> {4, 5} \<and> a = rx_freq 0) \<or>
         (frame ! 0 \<in> {6, 7} \<and> a = rx_freq 1 \<and> rx_sync_data s = 0) \<or> (frame ! 0 \<in> {8, 9} \<and> a = rx_freq 2)"
  shows "2 * \<bar>uint (rd32 (cfg (process_ep2 v frame s)) a) * v_clk v - uint f * 2 ^ 30\<bar> \<le> v_clk v"
proof -
  have clk: "v_clk v = 125000000 \<or> v_clk v = 122880000"
    using assms(1) by (auto simp: hpsdr_125_def hpsdr_122_88_def thetis_def)
  have acc: "\<not> freq_rejected f" using assms(3) by (simp add: freq_rejected_def freq_min_def not_less)
  have "rd32 (cfg (process_ep2 v frame s)) a = phase_inc v f"
    using assms(4) freq_registers [of frame] acc unfolding assms(2)
    by (elim disjE conjE) (simp_all add: process_ep2_switch)
  moreover note phase_inc_nat [OF clk assms(3)] round_half_up_bounds [of "v_clk v" "uint f * 2 ^ 30"]
  ultimately show ?thesis using clk by (auto simp: abs_le_iff algebra_simps)
qed

theorem frequency_register_witness:
  "2 * \<bar>uint (rd32 (cfg (process_ep2 hpsdr_125 [2, 0, 0x6c, 0x50, 0xe0] hpsdr_start)) tx_freq) * 125000000 - 7098592 * 2 ^ 30\<bar> \<le> 125000000"
  using frequency_register [of hpsdr_125 _ "[2, 0, 0x6c, 0x50, 0xe0]" tx_freq hpsdr_start]
  by (simp add: frame_freq_def of_be32_def of_le32_def freq_max_def hpsdr_125_def)

text \<open>A frequency command above 61.44 MHz, and a command for the second receiver
  while it follows the first, leave the whole state of the server alone.\<close>

theorem frequency_rejected:
  assumes "frame ! 0 \<in> {2, 3, 4, 5, 6, 7, 8, 9}" and "frame_freq frame > freq_max \<or> (frame ! 0 \<in> {6, 7} \<and> rx_sync_data s \<noteq> 0)"
  shows "process_ep2 v frame s = s"
proof -
  have two: "\<not> (frame ! 0 \<in> {6, 7} \<and> rx_sync_data s \<noteq> 0)" if "frame ! 0 \<in> {2, 3, 4, 5, 8, 9}" using that by auto
  consider "frame ! 0 \<in> {2, 3}" | "frame ! 0 \<in> {4, 5}" | "frame ! 0 \<in> {6, 7}" | "frame ! 0 \<in> {8, 9}"
    using assms(1) by auto
  then show ?thesis
  proof cases
    case 1
    then have "freq_rejected (frame_freq frame)" using two assms(2) by (auto simp: freq_rejected_def)
    then show ?thesis by (simp add: process_ep2_switch(2) [OF 1] ep2_tx_freq_def)
  next
    case 2
    then have "freq_rejected (frame_freq frame)" using two assms(2) by (auto simp: freq_rejected_def)
    then show ?thesis by (simp add: process_ep2_switch(3) [OF 2] ep2_rx1_freq_def)
  next
    case 3
    have "rx_sync_data s \<noteq> 0 \<or> freq_rejected (frame_freq frame)" using assms(2) by (auto simp: freq_rejected_def)
    then show ?thesis by (auto simp: process_ep2_switch(4) [OF 3] ep2_rx2_freq_def)
  next
    case 4
    then have "freq_rejected (frame_freq frame)" using two assms(2) by (auto simp: freq_rejected_def)
    then show ?thesis by (simp add: process_ep2_switch(5) [OF 4] ep2_rx3_freq_def)
  qed
qed

text \<open>C5: while the receivers are synchronised, the second receiver's phase
  increment equals the first's, whatever the host commands.\<close>

definition sync_ok :: "hpsdr \<Rightarrow> bool" where
  "sync_ok s \<longleftrightarrow> (rx_sync_data s \<noteq> 0 \<longrightarrow> rd32 (cfg s) (rx_freq 1) = rd32 (cfg s) (rx_freq 0))"

lemma sync_ok_frame [ok_simps]:
  "sync_ok (pene_store d s) = sync_ok s" "sync_ok (dac0_store d s) = sync_ok s" "sync_ok (ocant_store x s) = sync_ok s"
  "sync_ok (ftx_store d s) = sync_ok s" "sync_ok (frx1_store d s) = sync_ok s" "sync_ok (frx2_store d s) = sync_ok s"
  "sync_ok (alex_i2c_store d s) = sync_ok s" "sync_ok (level_store d s) = sync_ok s" "sync_ok (drive_store d s) = sync_ok s"
  "sync_ok (txatt_store x s) = sync_ok s" "sync_ok (rxatt_store d s) = sync_ok s" "sync_ok (boost_store b s) = sync_ok s"
  "sync_ok (alex0_store d s) = sync_ok s" "sync_ok (alex1_store d s) = sync_ok s" "sync_ok (misc0_store d s) = sync_ok s"
  "sync_ok (misc1_store d s) = sync_ok s" "sync_ok (misc2_store d s) = sync_ok s" "sync_ok (nucleo0_store d s) = sync_ok s"
  "sync_ok (nucleo1_store d s) = sync_ok s" "sync_ok (nucleo2_store d s) = sync_ok s" "sync_ok (nucleo3_store d s) = sync_ok s"
  "sync_ok (flag_updates s) = sync_ok s" "sync_ok (icom_write s) = sync_ok s"
  by (simp_all add: sync_ok_def frame_simps reg_simps)

lemma sync_ok_put [ok_simps]:
  "sync_ok s \<Longrightarrow> sync_ok (put16 tx_level w s)" "sync_ok s \<Longrightarrow> sync_ok (put16 dac_level w s)"
  "sync_ok s \<Longrightarrow> sync_ok (put32 dac_freq x s)" "sync_ok s \<Longrightarrow> sync_ok (put32 tx_freq x s)"
  "sync_ok s \<Longrightarrow> sync_ok (put8 gpio_out b s)" "sync_ok s \<Longrightarrow> sync_ok (put16 rx_rate w s)"
  "sync_ok s \<Longrightarrow> sync_ok (put32 (rx_freq 2) x s)" "sync_ok s \<Longrightarrow> sync_ok (pulse8 lo_rst b s)"
  by (simp_all add: sync_ok_def reg_simps frame_simps reg_addr)

lemma sync_ok_copy [ok_simps]:
  "sync_ok (put32 (rx_freq (Suc 0)) (rd32 (cfg s) (rx_freq 0)) s)"
  by (simp_all add: sync_ok_def reg_simps frame_simps reg_addr)

lemma sync_ok_fields [ok_simps]:
  "sync_ok (s\<lparr>rx_att_data := b\<rparr>) = sync_ok s" "sync_ok (s\<lparr>cw_hang := w\<rparr>) = sync_ok s"
  "sync_ok (s\<lparr>cw_int_data := b\<rparr>) = sync_ok s" "sync_ok (s\<lparr>dac_level_data := b\<rparr>) = sync_ok s"
  "sync_ok (s\<lparr>cw_delay := b\<rparr>) = sync_ok s" "sync_ok (s\<lparr>cw_reversed := b\<rparr>) = sync_ok s"
  "sync_ok (s\<lparr>cw_speed := b\<rparr>) = sync_ok s" "sync_ok (s\<lparr>cw_mode := b\<rparr>) = sync_ok s"
  "sync_ok (s\<lparr>cw_weight := b\<rparr>) = sync_ok s" "sync_ok (s\<lparr>cw_spacing := b\<rparr>) = sync_ok s"
  "sync_ok (s\<lparr>receivers := n\<rparr>) = sync_ok s" "sync_ok (s\<lparr>rate := n\<rparr>) = sync_ok s"
  "sync_ok (s\<lparr>freq_data := f\<rparr>) = sync_ok s" "sync_ok (s\<lparr>tx_eer_data := b\<rparr>) = sync_ok s"
  by (simp_all add: sync_ok_def)

lemma sync_ok_sync: "sync_ok s \<Longrightarrow> sync_ok (cfg_sync frame s)"
  by (simp add: cfg_sync_def Let_def ok_simps del: rx_sync_put) (simp add: sync_ok_def reg_simps frame_simps reg_addr)

lemma sync_ok_config: "sync_ok s \<Longrightarrow> sync_ok (ep2_config v frame s)"
  by (simp add: ep2_config_def cfg_gpio_def cfg_rate_def cfg_alex_def cfg_pene_def cfg_nucleo_def cfg_dac0_def
      cfg_arduino_def Let_def ok_simps sync_ok_sync)

lemma sync_ok_freq:
  assumes "sync_ok s"
  shows "sync_ok (ep2_tx_freq v frame s)" "sync_ok (ep2_rx1_freq v frame s)"
    "sync_ok (ep2_rx2_freq v frame s)" "sync_ok (ep2_rx3_freq v frame s)"
proof -
  have changed: "sync_ok t \<Longrightarrow> sync_ok (rx2_changed f t)" for f t
    by (simp add: rx2_changed_def Let_def ok_simps)
  have zero: "rx_sync_data t = 0 \<Longrightarrow> sync_ok (put32 a x t)" for a x t
    by (simp add: sync_ok_def frame_simps)
  show "sync_ok (ep2_tx_freq v frame s)" "sync_ok (ep2_rx3_freq v frame s)"
    using assms by (simp_all add: ep2_tx_freq_def ep2_rx3_freq_def Let_def ok_simps changed)
  show "sync_ok (ep2_rx2_freq v frame s)"
    using assms by (simp add: ep2_rx2_freq_def Let_def changed zero)
  show "sync_ok (ep2_rx1_freq v frame s)"
  proof (cases "rx_sync_data s = 0")
    case True
    with assms show ?thesis
      by (simp add: ep2_rx1_freq_def Let_def ok_simps frame_simps zero)
  next
    case False
    with assms show ?thesis
      by (simp add: ep2_rx1_freq_def Let_def ok_simps frame_simps del: One_nat_def) (simp add: ok_simps)
  qed
qed

lemma sync_ok_drive: "sync_ok s \<Longrightarrow> sync_ok (ep2_drive v frame s)"
  by (simp add: drive_defs Let_def ok_simps)

lemma sync_ok_settings:
  assumes "sync_ok s"
  shows "sync_ok (ep2_att1 frame s)" "sync_ok (ep2_att2 frame s)" "sync_ok (ep2_txrx_att frame s)"
    "sync_ok (ep2_keyer frame s)" "sync_ok (ep2_sidetone frame s)"
  using assms by (simp_all add: setting_defs Let_def ok_simps)

theorem receivers_synchronised:
  assumes "sync_ok s"
  shows "sync_ok (process_ep2 v frame s)"
  using assms
  by - (rule process_ep2_cases, simp_all add: sync_ok_config sync_ok_freq sync_ok_drive sync_ok_settings)

theorem receivers_synchronised_witness:
  "sync_ok (process_ep2 hpsdr_125 [4, 0, 0, 1, 0] (hpsdr_start\<lparr>rx_sync_data := 1\<rparr>))"
  using receivers_synchronised [of "hpsdr_start\<lparr>rx_sync_data := 1\<rparr>" hpsdr_125 "[4, 0, 0, 1, 0]"]
  by (simp add: sync_ok_def rd32_def hpsdr_start_def)

theorem frequency_rejected_witness:
  "process_ep2 hpsdr_125 [2, 0x04, 0, 0, 0] hpsdr_start = hpsdr_start"
  using frequency_rejected [of "[2, 0x04, 0, 0, 0]" hpsdr_start hpsdr_125]
  by (simp add: frame_freq_def of_be32_def of_le32_def freq_max_def)

section \<open>Output pins, sample rate and level\<close>

lemma gpio_word_fields:
  fixes f2 att preamp ptt :: u8
  assumes "unat att < 2 ^ 2" and "preamp = 0 \<or> preamp = 1" and "ptt = 0 \<or> ptt = 1"
  shows "let w = (ucast (push_bit 3 (promote f2 AND 0x1e) OR push_bit 2 (promote att) OR
                         push_bit 1 (promote preamp) OR promote ptt) :: u8) in
         bit w 0 = (ptt = 1) \<and> bit w 1 = (preamp = 1) \<and> drop_bit 2 w AND 3 = att \<and> drop_bit 4 w = drop_bit 1 f2 AND 15"
proof -
  have h: "2 \<le> n \<Longrightarrow> \<not> bit att n" for n using word_high_bits [OF assms(1)] .
  have "bit (ucast (push_bit 3 (promote f2 AND 0x1e) OR push_bit 2 (promote att) OR push_bit 1 (promote preamp) OR promote ptt) :: u8) 0 = (ptt = 1)"
    "bit (ucast (push_bit 3 (promote f2 AND 0x1e) OR push_bit 2 (promote att) OR push_bit 1 (promote preamp) OR promote ptt) :: u8) 1 = (preamp = 1)"
    using assms(2,3) by (auto simp: word_bits h)
  moreover have "drop_bit 2 (ucast (push_bit 3 (promote f2 AND 0x1e) OR push_bit 2 (promote att) OR push_bit 1 (promote preamp) OR promote ptt) :: u8) AND 3 = att"
    by (rule word8_eqI) (use assms(2,3) in \<open>auto simp: word_bits h\<close>)
  moreover have "drop_bit 4 (ucast (push_bit 3 (promote f2 AND 0x1e) OR push_bit 2 (promote att) OR push_bit 1 (promote preamp) OR promote ptt) :: u8) = drop_bit 1 f2 AND 15"
    by (rule word8_eqI) (use assms(2,3) in \<open>auto simp: word_bits h u8_high\<close>)
  ultimately show ?thesis by (simp only: Let_def)
qed

lemma cfg_config_tail [reg_simps]:
  "cfg (cfg_alex frame s) = cfg s" "cfg (cfg_pene frame s) = cfg s" "cfg (cfg_nucleo frame s) = cfg s"
  "cfg (cfg_dac0 frame s) = cfg s" "cfg (cfg_arduino frame s) = cfg s"
  by (simp_all add: cfg_alex_def cfg_pene_def cfg_nucleo_def cfg_dac0_def cfg_arduino_def reg_simps)

lemma cfg_sync_frame [frame_simps]:
  "gpio_in (cfg_sync frame s) = gpio_in s" "rx_att_data (cfg_sync frame s) = rx_att_data s"
  by (simp_all add: cfg_sync_def Let_def put32_def pulse8_def set8_def clr8_def put8_def)

lemma u8_bit0: "(x AND 1 :: u8) = 0 \<or> x AND 1 = 1" "(x AND 1 = 1) = bit x 0"
  by (simp_all add: and_one_eq mod_2_eq_odd bit_0)

lemma word_and_one_zero: "(x AND 1 = 0) = (\<not> bit (x :: 'a::len word) 0)"
  by (simp add: and_one_eq mod_2_eq_odd bit_0)

lemma preamp_value:
  "cfg_preamp frame s =
    of_bool (\<not> bit (frame ! 0) 0 \<and> \<not> bit (gpio_in s) 0 \<and> (bit (frame ! 3) 2 \<or> rx_att_data s = 0))"
proof -
  have "promote (frame ! 0 AND 0x01) OR (promote (gpio_in s) AND 1) \<noteq> 0 \<longleftrightarrow> bit (frame ! 0) 0 \<or> bit (gpio_in s) 0"
  proof -
    have "promote (frame ! 0 AND 0x01) OR (promote (gpio_in s) AND 1) = of_bool (bit (frame ! 0) 0 \<or> bit (gpio_in s) 0)"
      by (rule word32_eqI) (simp add: word_bits bit_1_iff)
    then show ?thesis by simp
  qed
  moreover have "ucast (drop_bit 2 (promote (frame ! 3) AND 0x04) OR cbool b) = (of_bool (bit (frame ! 3) 2 \<or> b) :: u8)" for b
    by (rule word8_eqI) (simp add: word_bits)
  ultimately show ?thesis by (simp add: cfg_preamp_def)
qed

text \<open>A configuration command drives the output pins and the decimation rate as
  the protocol asks: the transmit pin is the command's PTT bit, the preamplifier is off while the host
  or the PTT input transmits and otherwise on when the host asks for it or no attenuation is set, the
  two attenuator pins and the four open collector outputs are the command's, and the number of
  receivers and the decimation follow their fields.\<close>

theorem config_registers:
  assumes "frame ! 0 \<in> {0, 1}"
  shows "let s' = process_ep2 v frame s; pins = cfg s' gpio_out in
    bit pins 0 = bit (frame ! 0) 0 \<and>
    bit pins 1 = (\<not> bit (frame ! 0) 0 \<and> \<not> bit (gpio_in s) 0 \<and> (bit (frame ! 3) 2 \<or> rx_att_data s = 0)) \<and>
    drop_bit 2 pins AND 3 = frame ! 3 AND 3 \<and> drop_bit 4 pins = drop_bit 1 (frame ! 2) AND 15 \<and>
    rd16 (cfg s') rx_rate = v_rates v ! unat (frame ! 1 AND 3)"
proof -
  let ?s1 = "(cfg_sync frame s)\<lparr>tx_eer_data := ucast (promote (frame ! 2) AND 1)\<rparr>"
  have att: "unat (cfg_att frame) < 2 ^ 2"
  proof -
    have "cfg_att frame = frame ! 3 AND 3" unfolding cfg_att_def by (rule word8_eqI) (simp add: word_bits)
    then show ?thesis using and_mask_less [of 3 2 "frame ! 3"] by (simp add: mask_eq_exp_minus_1)
  qed
  have att3: "cfg_att frame = frame ! 3 AND 3" unfolding cfg_att_def by (rule word8_eqI) (simp add: word_bits)
  have r: "unat (promote (frame ! 1) AND 3) = unat (frame ! 1 AND 3)"
  proof -
    have "promote (frame ! 1) AND 3 = promote (frame ! 1 AND 3)" by (rule word32_eqI) (simp add: word_bits)
    then show ?thesis using unsigned_less [of "frame ! 1 AND 3", where ?'a = nat]
      by (simp add: unsigned_ucast_eq take_bit_nat_eq_self)
  qed
  have pre: "cfg_preamp frame ?s1 = 0 \<or> cfg_preamp frame ?s1 = 1" by (auto simp: preamp_value)
  have pins: "cfg (process_ep2 v frame s) gpio_out =
      ucast (push_bit 3 (promote (frame ! 2) AND 0x1e) OR push_bit 2 (promote (cfg_att frame)) OR
             push_bit 1 (promote (cfg_preamp frame ?s1)) OR promote (frame ! 0 AND 0x01))"
    by (simp add: process_ep2_switch(1) [OF assms] ep2_config_def reg_simps)
       (simp add: cfg_rate_def cfg_gpio_def Let_def reg_simps reg_addr)
  have rate: "rd16 (cfg (process_ep2 v frame s)) rx_rate = v_rates v ! unat (frame ! 1 AND 3)"
    by (simp add: process_ep2_switch(1) [OF assms] ep2_config_def reg_simps)
       (simp add: cfg_rate_def Let_def reg_simps r [simplified])
  show ?thesis
    using gpio_word_fields [OF att pre u8_bit0(1) [of "frame ! 0"], of "frame ! 2"]
    by (simp add: Let_def pins rate att3 u8_bit0(2) preamp_value frame_simps)
qed

theorem config_registers_witness:
  "let pins = cfg (process_ep2 hpsdr_125 [0, 2, 0x06, 0x05, 0] hpsdr_start) gpio_out in
   \<not> bit pins 0 \<and> drop_bit 2 pins AND 3 = (1 :: u8) \<and> drop_bit 4 pins = (3 :: u8) \<and>
   rd16 (cfg (process_ep2 hpsdr_125 [0, 2, 0x06, 0x05, 0] hpsdr_start)) rx_rate = 250"
  using config_registers [of "[0, 2, 0x06, 0x05, 0]" hpsdr_125 hpsdr_start] by (simp add: Let_def hpsdr_125_def)

lemma drive_flags [frame_simps]:
  "i2c_level (alex1_store w s) = i2c_level s" "i2c_level (misc2_store w s) = i2c_level s"
  "i2c_level (nucleo1_store w s) = i2c_level s" "i2c_level (alex_i2c_store w s) = i2c_level s"
  "i2c_drive (alex1_store w s) = i2c_drive s" "i2c_drive (misc2_store w s) = i2c_drive s"
  "i2c_drive (nucleo1_store w s) = i2c_drive s" "i2c_drive (alex_i2c_store w s) = i2c_drive s"
  "i2c_arduino (alex1_store w s) = i2c_arduino s" "i2c_arduino (misc2_store w s) = i2c_arduino s"
  "i2c_arduino (nucleo1_store w s) = i2c_arduino s" "i2c_arduino (alex_i2c_store w s) = i2c_arduino s"
  by (simp_all add: flag_store_defs alex_i2c_store_def emit_def)

lemma cfg_drive_boost [reg_simps]: "cfg (drive_boost frame s) = cfg s"
  by (simp add: drive_boost_def reg_simps)

lemma drive_head_flags [frame_simps]:
  "i2c_level (drive_i2c_alex frame (drive_nucleo frame (drive_misc frame (drive_alex frame s)))) = i2c_level s"
  "i2c_drive (drive_i2c_alex frame (drive_nucleo frame (drive_misc frame (drive_alex frame s)))) = i2c_drive s"
  "i2c_arduino (drive_i2c_alex frame (drive_nucleo frame (drive_misc frame (drive_alex frame s)))) = i2c_arduino s"
  by (simp_all add: drive_alex_def drive_misc_def drive_nucleo_def drive_i2c_alex_def frame_simps)

text \<open>The registers that belong to a command, in a state: the output pins and the decimation rate to the configuration, and
  with it the second receiver's increment and the reset of the oscillators when it turns synchronisation on; to each frequency its
  increment, to that of the first receiver also the second's while they are synchronised; to the drive the level, unless an I2C device
  sets it; to the keyer and the side tone the codec's level and frequency.\<close>

definition command_reg :: "hpsdr \<Rightarrow> u8 list \<Rightarrow> nat \<Rightarrow> bool" where
  "command_reg s frame a \<longleftrightarrow>
    (let c0 = frame ! 0; slaved = (a = lo_rst \<or> a \<in> {rx_freq 1 ..< rx_freq 2})
     in if c0 \<in> {0, 1} then a = gpio_out \<or> a \<in> {rx_rate ..< rx_rate + 2} \<or> bit (frame ! 4) 7 \<and> rx_sync_data s \<noteq> 1 \<and> slaved
        else if c0 \<in> {2, 3} then a \<in> {tx_freq ..< tx_freq + 4}
        else if c0 \<in> {4, 5} then a \<in> {rx_freq 0 ..< rx_freq 1} \<or> rx_sync_data s \<noteq> 0 \<and> slaved
        else if c0 \<in> {6, 7} then rx_sync_data s = 0 \<and> a \<in> {rx_freq 1 ..< rx_freq 2}
        else if c0 \<in> {8, 9} then a \<in> {rx_freq 2 ..< rx_freq 2 + 4}
        else if c0 \<in> {18, 19} then \<not> i2c_level s \<and> \<not> i2c_drive s \<and> \<not> i2c_arduino s \<and> a \<in> {tx_level ..< tx_level + 2}
        else if c0 \<in> {30, 31} then i2c_codec s \<and> a \<in> {dac_level ..< dac_level + 2}
        else if c0 \<in> {32, 33} then i2c_codec s \<and> a \<in> {dac_freq ..< dac_freq + 4}
        else False)"

lemma outside: "a \<notin> {lo ..< hi} \<Longrightarrow> a < lo \<or> hi \<le> (a :: nat)"
  by auto

lemma sync_value: "(ucast (drop_bit 7 (promote (b :: u8)) AND 1) :: u16) = of_bool (bit b 7)"
  by (rule word16_eqI) (auto simp: word_bits bit_1_iff)

lemma confined_sync: "\<not> (bit (frame ! 4) 7 \<and> rx_sync_data s \<noteq> 1) \<or> a \<noteq> lo_rst \<and> a \<notin> {rx_freq 1 ..< rx_freq 2} \<Longrightarrow> cfg (cfg_sync frame s) a = cfg s a"
  by (auto simp: cfg_sync_def sync_value Let_def reg_simps frame_simps reg_addr wr8_def dest!: outside)

lemma command_config: "frame ! 0 \<in> {0, 1} \<Longrightarrow> \<not> command_reg s frame a \<Longrightarrow> cfg (ep2_config v frame s) a = cfg s a"
proof -
  assume c: "frame ! 0 \<in> {0, 1}" and no: "\<not> command_reg s frame a"
  have "cfg (cfg_sync frame s) a = cfg s a" by (rule confined_sync) (use c no in \<open>auto simp: command_reg_def\<close>)
  moreover have "a \<noteq> gpio_out" "a < rx_rate \<or> rx_rate + 2 \<le> a" using c no by (auto simp: command_reg_def dest!: outside)
  ultimately show ?thesis
    by (simp add: ep2_config_def reg_simps) (simp add: cfg_rate_def cfg_gpio_def Let_def reg_simps)
qed

lemma command_freq:
  assumes "\<not> command_reg s frame a"
  shows "frame ! 0 \<in> {2, 3} \<Longrightarrow> cfg (ep2_tx_freq v frame s) a = cfg s a" "frame ! 0 \<in> {4, 5} \<Longrightarrow> cfg (ep2_rx1_freq v frame s) a = cfg s a"
    "frame ! 0 \<in> {6, 7} \<Longrightarrow> cfg (ep2_rx2_freq v frame s) a = cfg s a" "frame ! 0 \<in> {8, 9} \<Longrightarrow> cfg (ep2_rx3_freq v frame s) a = cfg s a"
  using assms
  by (auto simp: command_reg_def freq_defs Let_def reg_simps frame_simps reg_addr wr8_def)

lemma cfg_drive_head [reg_simps]: "cfg (drive_i2c_alex frame (drive_nucleo frame (drive_misc frame (drive_alex frame s)))) = cfg s"
  by (simp add: drive_alex_def drive_misc_def drive_nucleo_def drive_i2c_alex_def reg_simps)

lemma command_drive: "frame ! 0 \<in> {18, 19} \<Longrightarrow> \<not> command_reg s frame a \<Longrightarrow> cfg (ep2_drive v frame s) a = cfg s a"
  by (auto simp: command_reg_def ep2_drive_def drive_level_def Let_def cfg_drive_boost drive_head_flags reg_simps frame_simps)

lemma command_setting:
  assumes "\<not> command_reg s frame a"
  shows "cfg (ep2_att1 frame s) a = cfg s a" "cfg (ep2_att2 frame s) a = cfg s a" "cfg (ep2_txrx_att frame s) a = cfg s a"
    "frame ! 0 \<in> {30, 31} \<Longrightarrow> cfg (ep2_keyer frame s) a = cfg s a" "frame ! 0 \<in> {32, 33} \<Longrightarrow> cfg (ep2_sidetone frame s) a = cfg s a"
  using assms by (auto simp: command_reg_def setting_defs Let_def reg_simps reg_addr)

text \<open>C6: a command of the host changes no register but those that belong to it (\<open>command_reg\<close>); so none at all if it is none of the
  known ones, and never the reset and keying lines \<open>rx_rst\<close> and \<open>tx_rst\<close>, which the other two threads own, the input selectors or
  the ramp sizes that \<open>main\<close> sets.\<close>

theorem process_ep2_confined:
  assumes "\<not> command_reg s frame a"
  shows "cfg (process_ep2 v frame s) a = cfg s a"
proof -
  have other: "process_ep2 v frame s = s" if "frame ! 0 \<notin> {0, 1, 2, 3, 4, 5, 6, 7, 8, 9, 18, 19, 20, 21, 22, 23, 28, 29, 30, 31, 32, 33}"
  proof -
    have "unat (frame ! 0) \<noteq> k" if "of_nat k \<noteq> frame ! 0" for k using that by auto
    then show ?thesis using that by (simp add: process_ep2_def Let_def)
  qed
  consider "frame ! 0 \<in> {0, 1}" | "frame ! 0 \<in> {2, 3}" | "frame ! 0 \<in> {4, 5}" | "frame ! 0 \<in> {6, 7}" | "frame ! 0 \<in> {8, 9}" | "frame ! 0 \<in> {18, 19}"
    | "frame ! 0 \<in> {20, 21}" | "frame ! 0 \<in> {22, 23}" | "frame ! 0 \<in> {28, 29}" | "frame ! 0 \<in> {30, 31}" | "frame ! 0 \<in> {32, 33}"
    | "frame ! 0 \<notin> {0, 1, 2, 3, 4, 5, 6, 7, 8, 9, 18, 19, 20, 21, 22, 23, 28, 29, 30, 31, 32, 33}"
    by blast
  then show ?thesis
    by cases ((simp_all only: process_ep2_switch command_config [OF _ assms] command_freq [OF assms] command_drive [OF _ assms] command_setting [OF assms])[11], subst other, assumption, rule refl)
qed

theorem process_ep2_confined_witness:
  "cfg (process_ep2 hpsdr_125 [2, 0, 0x6c, 0x50, 0xe0] hpsdr_start) (rx_freq 0) = cfg hpsdr_start (rx_freq 0)"
  using process_ep2_confined [of hpsdr_start "[2, 0, 0x6c, 0x50, 0xe0]" "rx_freq 0" hpsdr_125] by (simp add: command_reg_def reg_addr)

lemma level_word_value:
  assumes "v_level100 v = 4 * p" and "0 \<le> p" and "p \<le> 3148"
  shows "uint (level_word v (ucast (b :: u8))) = round_half_up (uint b * p) 25"
    and "0 \<le> round_half_up (uint b * p) 25" and "round_half_up (uint b * p) 25 \<le> 32110"
proof -
  have b: "0 \<le> uint b" "uint b \<le> 255" using uint_lt2p [of b] by simp_all
  have u: "uint (ucast b :: u16) = uint b" using b by (simp add: unsigned_ucast_eq take_bit_int_eq_self)
  have "(of_int (v_level100 v) / 100 :: rat) = of_int p / 25" using assms(1) by simp
  then have w: "level_word v (ucast b) = word_of_int (round_half_up (uint b * p) 25)"
    using level_exact [OF b, of p] assms by (simp add: level_word_def u)
  have prod: "0 \<le> uint b * p" "uint b * p \<le> 255 * 3148"
    using mult_mono [OF b(2) assms(3)] b assms by simp_all
  show lo: "0 \<le> round_half_up (uint b * p) 25"
    using prod by (simp add: round_half_up_def pos_imp_zdiv_nonneg_iff)
  show hi: "round_half_up (uint b * p) 25 \<le> 32110"
    using zdiv_mono1 [of "2 * (uint b * p) + 25" "2 * (255 * 3148) + 25" 50] prod by (simp add: round_half_up_def)
  show "uint (level_word v (ucast b)) = round_half_up (uint b * p) 25"
    unfolding w using lo hi by (simp add: uint_word_of_int_eq take_bit_int_eq_self)
qed

text \<open>On a board without I2C level control the drive level of the host sets the
  transmit level to \<open>drive * 125.92\<close> (\<open>drive * 85.92\<close> on the 122.88 MHz board) rounded to the nearest
  integer, which is monotone in the drive, never negative as an \<open>int16_t\<close> and never above the default level.\<close>

theorem drive_level_register:
  assumes "frame ! 0 \<in> {18, 19}" and "v \<in> {hpsdr_125, hpsdr_122_88, thetis hpsdr_125, thetis hpsdr_122_88}"
    and "\<not> i2c_level s" and "\<not> i2c_drive s" and "\<not> i2c_arduino s"
  shows "sint (rd16 (cfg (process_ep2 v frame s)) tx_level) = round_half_up (uint (frame ! 1) * v_level100 v) 100 \<and>
         round_half_up (uint (frame ! 1) * v_level100 v) 100 \<le> uint (v_tx_level v)"
proof -
  define p where "p = v_level100 v div 4"
  have p: "v_level100 v = 4 * p" "0 \<le> p" "p \<le> 3148" "(255 * p * 2 + 25) div 50 = uint (v_tx_level v)"
    using assms(2) by (auto simp: p_def hpsdr_125_def hpsdr_122_88_def thetis_def)
  let ?b = "frame ! 1"
  let ?r = "round_half_up (uint ?b * p) 25"
  note lev = level_word_value [OF p(1-3), of ?b]
  have reg: "rd16 (cfg (process_ep2 v frame s)) tx_level = level_word v (ucast ?b)"
    using assms(3-5)
    by (simp add: process_ep2_switch(6) [OF assms(1)] ep2_drive_def drive_level_def [of v frame] Let_def reg_simps frame_simps)
  have "uint (level_word v (ucast ?b)) < 2 ^ 15" "0 \<le> uint (level_word v (ucast ?b))" using lev by simp_all
  then have sint: "sint (level_word v (ucast ?b)) = uint (level_word v (ucast ?b))"
    using signed_take_bit_int_eq_self [of 15 "uint (level_word v (ucast ?b))"] by (simp add: sint_uint order.trans [of _ 0])
  have scale: "round_half_up (uint ?b * v_level100 v) 100 = ?r"
    using round_half_up_scale [of 4 "uint ?b * p" 25] p(1) by (simp add: ac_simps)
  have "uint ?b * p \<le> 255 * p" using uint_lt2p [of ?b] p by (intro mult_right_mono) simp_all
  then have "?r \<le> uint (v_tx_level v)"
    using zdiv_mono1 [of "2 * (uint ?b * p) + 25" "255 * p * 2 + 25" 50] p(4) by (simp add: round_half_up_def)
  then show ?thesis unfolding reg sint scale lev(1) by simp
qed

theorem drive_level_register_witness:
  "sint (rd16 (cfg (process_ep2 hpsdr_125 [18, 100, 0, 0, 0] (hpsdr_start\<lparr>i2c_level := False, i2c_drive := False, i2c_arduino := False\<rparr>))) tx_level) = 12592"
  using drive_level_register [of "[18, 100, 0, 0, 0]" hpsdr_125 "hpsdr_start\<lparr>i2c_level := False, i2c_drive := False, i2c_arduino := False\<rparr>"]
  by (simp add: hpsdr_125_def round_half_up_def)

section \<open>Values for the I2C devices\<close>

text \<open>The gain control code sent to the MCP4725 falls in steps of 4095/61 from 4065
  as the total attenuation grows and stays a 12-bit value for every total attenuation the host can ask
  for but the largest, 61 dB, for which the 16-bit subtraction wraps around.\<close>

theorem gain_control:
  fixes rx_att att :: u8
  assumes "unat rx_att < 2 ^ 5" and "unat att < 2 ^ 2"
  shows "let t = unat rx_att + 10 * unat att in
    t \<le> 61 \<and>
    (t \<le> 60 \<longrightarrow> unat (dac0_word rx_att att) = 4065 - t * 4095 div 61 \<and> 38 \<le> unat (dac0_word rx_att att)) \<and>
    (t = 61 \<longrightarrow> dac0_word rx_att att = 0xffe2)"
proof -
  let ?t = "unat rx_att + 10 * unat att"
  have t: "?t \<le> 61" using assms by simp
  have sum: "promote rx_att + 10 * promote att = (of_nat ?t :: u32)"
    by simp
  have v: "(ucast (ucast (of_nat t :: u32) :: u16) :: u32) * 4095 div 61 = of_nat (t * 4095 div 61)" if "t \<le> 61" for t
  proof -
    have c: "(ucast (ucast (of_nat t :: u32) :: u16) :: u32) = of_nat t"
      using that by (simp add: word_unat_eq_iff unat_of_nat unsigned_ucast_eq unsigned_take_bit_eq take_bit_nat_eq_self)
    have "unat (of_nat (t * 4095) :: u32) = t * 4095" "unat (of_nat (t * 4095 div 61) :: u32) = t * 4095 div 61"
      using that by (simp_all add: unat_of_nat take_bit_nat_eq_self del: of_nat_mult)
    then show ?thesis unfolding c word_unat_eq_iff unat_div by simp
  qed
  have w: "dac0_word rx_att att = ucast (4065 - of_nat (?t * 4095 div 61) :: u32)"
    unfolding dac0_word_def sum Let_def v [OF t] ..
  have low: "unat (ucast (4065 - of_nat q :: u32) :: u16) = 4065 - q" if "q \<le> 4065" for q
  proof -
    have "(4065 - of_nat q :: u32) = of_nat (4065 - q)" using that by simp
    then show ?thesis by (simp add: unat_of_nat unsigned_ucast_eq take_bit_nat_eq_self del: of_nat_diff)
  qed
  show ?thesis
  proof (cases "?t \<le> 60")
    case True
    then have "?t * 4095 div 61 \<le> 4027" using div_le_mono [of "?t * 4095" "60 * 4095" 61] by simp
    with True t show ?thesis by (simp add: Let_def w low)
  next
    case False
    with t have "?t = 61" by simp
    then show ?thesis unfolding Let_def w by simp
  qed
qed

theorem gain_control_witness:
  "unat (dac0_word 31 2) = 642 \<and> dac0_word 31 3 = 0xffe2"
  using gain_control [of 31 2] gain_control [of 31 3] by (simp add: Let_def)

text \<open>The 24-bit antenna and open collector word of the Arduino keeps separate
  fields for transmission and reception: a command with PTT replaces the transmit fields and keeps
  the receive fields, a command without it the reverse; the fields are the command's, except that the
  lowest C2 bit (not an open collector bit) also lands in the bit below the receive field.\<close>

theorem ocant_fields:
  "let w = ocant_word frame old; c2 = frame ! 2 in
   (bit (frame ! 0) 0 \<longrightarrow> w AND 0x00fc7f00 = old AND 0x00fc7f00 \<and> w AND 0x7f = promote (drop_bit 1 c2) \<and>
      drop_bit 16 w AND 3 = promote (frame ! 4 AND 3)) \<and>
   (\<not> bit (frame ! 0) 0 \<longrightarrow> w AND 0x0003007f = old AND 0x0003007f \<and>
      drop_bit 8 w AND 0x7f = promote (drop_bit 1 c2) \<and> bit w 7 = bit c2 0)"
proof -
  have ptt: "promote (frame ! 0) AND 0x01 \<noteq> 0 \<longleftrightarrow> bit (frame ! 0) 0"
  proof -
    have "promote (frame ! 0) AND 0x01 = of_bool (bit (frame ! 0) 0)"
      by (rule word32_eqI) (simp add: word_bits bit_1_iff)
    then show ?thesis by simp
  qed
  show ?thesis
  proof (cases "bit (frame ! 0) 0")
    case True
    then have w: "ocant_word frame old = (old AND 0x00fc7f00) OR drop_bit 1 (promote (frame ! 2)) OR push_bit 16 (promote (frame ! 4) AND 0x03)"
      by (simp add: ocant_word_def ptt)
    have "ocant_word frame old AND 0x00fc7f00 = old AND 0x00fc7f00"
      "ocant_word frame old AND 0x7f = promote (drop_bit 1 (frame ! 2))"
      "drop_bit 16 (ocant_word frame old) AND 3 = promote (frame ! 4 AND 3)"
      unfolding w by (rule word32_eqI; simp add: word_bits u8_high)+
    with True show ?thesis by (simp only: Let_def) simp
  next
    case False
    define x where "x = (if ucast (drop_bit 5 (promote (frame ! 3) AND 0x60)) = (0 :: u8) then promote (frame ! 4) AND 0x03
                         else promote (ucast (drop_bit 5 (promote (frame ! 3) AND 0x60)) + 2 :: u8) AND 0x07)"
    have w: "ocant_word frame old = (old AND 0x0003007f) OR push_bit 7 (promote (frame ! 2)) OR push_bit 20 x"
      using False by (simp add: ocant_word_def ptt x_def Let_def or.assoc)
    have "ocant_word frame old AND 0x0003007f = old AND 0x0003007f"
      "drop_bit 8 (ocant_word frame old) AND 0x7f = promote (drop_bit 1 (frame ! 2))"
      unfolding w by (rule word32_eqI; simp add: word_bits u8_high)+
    moreover have "bit (ocant_word frame old) 7 = bit (frame ! 2) 0" unfolding w by (simp add: word_bits)
    ultimately show ?thesis using False by (simp only: Let_def) simp
  qed
qed

theorem ocant_fields_witness:
  "ocant_word [1, 0, 0x0e, 0, 2] 0x00300100 AND 0x00fc7f00 = 0x00300100 \<and>
   bit (ocant_word [0, 0, 0x0f, 0, 2] 0x00020005) 7"
  using ocant_fields [of "[1, 0, 0x0e, 0, 2]" "0x00300100"] ocant_fields [of "[0, 0, 0x0f, 0, 2]" "0x00020005"]
  by (simp add: Let_def)

text \<open>C7: the five bytes that \<open>nucleo_write\<close> sends to the NUCLEO board
  carry, each in a field of its own, the flag that transmit and receive bands differ, the antenna and
  output word, the three settings of the other commands and the two band codes, for every state that
  the commands can produce.\<close>

theorem nucleo_message_roundtrip:
  assumes "hpsdr_ok s"
  shows "let c = (\<lambda>i. band_code nucleo_freqs 22 (freq_data s i)); d = i2c_nucleo_data (nucleo_write s);
             m = i2c_write_data40 (fst d) (snd d); low = of_le32 (take 4 m) in
    bit low 0 = (c 0 \<noteq> c 1) \<and> drop_bit 1 low AND 0xffff = nucleo_data_0 s \<and>
    drop_bit 17 low AND 7 = nucleo_data_1 s \<and> drop_bit 20 low AND 0x1f = nucleo_data_2 s \<and>
    drop_bit 25 low = nucleo_data_3 s \<and> m ! 4 AND 15 = of_nat (c 1) \<and> drop_bit 4 (m ! 4) = of_nat (c 2)"
proof -
  have ok: "unat (nucleo_data_0 s) < 2 ^ 16" "unat (nucleo_data_1 s) < 2 ^ 3"
    "unat (nucleo_data_2 s) < 2 ^ 5" "unat (nucleo_data_3 s) < 2 ^ 5"
    using assms by (simp_all add: hpsdr_ok_def)
  have c: "band_code nucleo_freqs 22 (freq_data s i) < 16" for i using nucleo_code_le [of "freq_data s i"] by simp
  show ?thesis
    using nucleo_word0_fields [OF ok] nucleo_word1_fields [OF c c]
    by (simp add: Let_def nucleo_write_def nucleo.get_store data40_low data40_high)
qed

lemma hpsdr_ok_start: "hpsdr_ok hpsdr_start"
  by (simp add: hpsdr_ok_def hpsdr_start_def freq_max_def)

theorem nucleo_message_roundtrip_witness:
  "let d = i2c_nucleo_data (nucleo_write hpsdr_start) in drop_bit 4 (i2c_write_data40 (fst d) (snd d) ! 4) = (0 :: u8)"
  using nucleo_message_roundtrip [OF hpsdr_ok_start]
  by (simp add: Let_def hpsdr_start_def band_code_def lower_bound_def lower_bound_loop.simps nucleo_freqs_def)

end
