(* ===== verification/HpsdrKeyer.thy ===== *)
theory HpsdrKeyer imports HpsdrEp2Props "HOL-Library.Monad_Syntax" begin

text \<open>
  The keyer thread of sdr-transceiver-hpsdr.c: \<open>cw_input\<close>, \<open>cw_on\<close>, \<open>cw_off\<close>, \<open>cw_ptt_off\<close>,
  \<open>cw_signal_delay\<close>, \<open>cw_space_delay\<close> and \<open>handler_keyer\<close>.

  The thread shares the variables and registers of \<open>hpsdr\<close> with the rest of the server and sleeps
  between its polls of the paddles.  Time is counted in calls of \<open>usleep(1000)\<close>; while the thread
  sleeps through tick \<open>t\<close>, everything else (the host's commands, the paddles) happens to the shared
  state, which is the function \<open>env t\<close>.  \<open>trace\<close> records every store to \<open>tx_rst\<close> with its tick.
  An operation that never returns, or divides by zero, is \<open>None\<close>.
\<close>

record keyer =
  sh :: hpsdr
  cw_memory0 :: u32
  cw_memory1 :: u32
  cw_ptt_delay :: int
  now :: nat
  trace :: "(nat \<times> u8) list"

type_synonym env = "nat \<Rightarrow> hpsdr \<Rightarrow> hpsdr"

definition usleep1 :: "env \<Rightarrow> keyer \<Rightarrow> keyer" where
  "usleep1 env s = s\<lparr>sh := env (now s) (sh s), now := now s + 1\<rparr>"

text \<open>\<open>*tx_rst |= m\<close> and \<open>*tx_rst &= ~m\<close>.\<close>

definition line_on :: "u8 \<Rightarrow> keyer \<Rightarrow> keyer" where
  "line_on m s = (let h = set8 tx_rst m (sh s) in s\<lparr>sh := h, trace := trace s @ [(now s, cfg h tx_rst)]\<rparr>)"

definition line_off :: "u8 \<Rightarrow> keyer \<Rightarrow> keyer" where
  "line_off m s = (let h = clr8 tx_rst m (sh s) in s\<lparr>sh := h, trace := trace s @ [(now s, cfg h tx_rst)]\<rparr>)"

definition cw_input :: "hpsdr \<Rightarrow> u32" where
  "cw_input h =
    (if cw_int_data h = 0 then 0
     else let input = drop_bit 1 (promote (gpio_in h)) AND 3
          in if cw_reversed h \<noteq> 0 then push_bit 1 (input AND 1) OR drop_bit 1 input else input)"

text \<open>One pass of the loops \<open>while(delay--)\<close>: with the iambic mode A rule while a signal is sent,
  without it while the signal ends, and with the release of PTT during a space.\<close>

definition sample_on :: "env \<Rightarrow> keyer \<Rightarrow> keyer" where
  "sample_on env s =
    (let s1 = usleep1 env s; s2 = s1\<lparr>cw_memory0 := cw_input (sh s1)\<rparr>
     in if cw_mode (sh s2) = 1 \<and> cw_memory0 s2 = 0 then s2\<lparr>cw_memory1 := 0\<rparr>
        else s2\<lparr>cw_memory1 := cw_memory1 s2 OR cw_memory0 s2\<rparr>)"

definition sample_off :: "env \<Rightarrow> keyer \<Rightarrow> keyer" where
  "sample_off env s =
    (let s1 = usleep1 env s; s2 = s1\<lparr>cw_memory0 := cw_input (sh s1)\<rparr>
     in s2\<lparr>cw_memory1 := cw_memory1 s2 OR cw_memory0 s2\<rparr>)"

definition cw_ptt_off :: "keyer \<Rightarrow> keyer" where
  "cw_ptt_off s =
    (let s1 = s\<lparr>cw_ptt_delay := cw_ptt_delay s - 1\<rparr>
     in if cw_ptt_delay s1 > 0 then s1
        else let s2 = line_off 32 s1;
                 s3 = s2\<lparr>sh := (sh s2)\<lparr>cw_ptt := 0\<rparr>\<rparr>;
                 s4 = line_on 1 (line_off 1 s3);
                 s5 = line_off 16 s4
             in s5\<lparr>sh := (sh s5)\<lparr>tx_mux_data := 0\<rparr>\<rparr>)"

definition ptt_tail :: "keyer \<Rightarrow> keyer" where
  "ptt_tail s = (if cw_ptt (sh s) \<noteq> 0 then cw_ptt_off s else s)"

definition sample_space :: "env \<Rightarrow> keyer \<Rightarrow> keyer" where
  "sample_space env s =
    (let s1 = ptt_tail (usleep1 env s); s2 = s1\<lparr>cw_memory0 := cw_input (sh s1)\<rparr>
     in s2\<lparr>cw_memory1 := cw_memory1 s2 OR cw_memory0 s2\<rparr>)"

text \<open>\<open>1200 / cw_speed\<close> and the other durations, in milliseconds.\<close>

definition over_speed :: "int \<Rightarrow> int \<Rightarrow> hpsdr \<Rightarrow> int option" where
  "over_speed n k h = (if cw_speed h = 0 then None else Some (n div (k * uint (cw_speed h))))"

definition short_delay :: "hpsdr \<Rightarrow> int option" where
  "short_delay h =
    do { delay \<leftarrow> over_speed 1200 1 h;
         Some (if uint (cw_delay h) < delay then uint (cw_delay h) else delay) }"

definition cw_on :: "env \<Rightarrow> keyer \<Rightarrow> keyer option" where
  "cw_on env s =
    do { delay \<leftarrow> short_delay (sh s);
         let s1 = line_on 32 s;
         let s2 = s1\<lparr>sh := (sh s1)\<lparr>cw_ptt := 1\<rparr>\<rparr>;
         let s3 = line_on 16 s2;
         let s4 = s3\<lparr>sh := (sh s3)\<lparr>tx_mux_data := 1\<rparr>\<rparr>;
         let s5 = (if i2c_codec (sh s4) \<and> 0 < dac_level_data (sh s4) then line_on 8 s4 else s4);
         let s6 = (sample_on env ^^ nat delay) s5;
         Some (line_on 4 s6) }"

definition cw_off :: "env \<Rightarrow> keyer \<Rightarrow> keyer option" where
  "cw_off env s =
    do { delay \<leftarrow> short_delay (sh s);
         let s1 = (if i2c_codec (sh s) then line_off 8 s else s);
         let s2 = (sample_off env ^^ nat delay) s1;
         let s3 = line_off 4 s2;
         Some (s3\<lparr>cw_ptt_delay := (if 0 < cw_hang (sh s3) then uint (cw_hang (sh s3)) else 10)\<rparr>) }"

definition cw_signal_delay :: "env \<Rightarrow> bool \<Rightarrow> keyer \<Rightarrow> keyer option" where
  "cw_signal_delay env code s =
    do { d \<leftarrow> (if code then over_speed 1200 1 (sh s)
               else over_speed (3600 * uint (cw_weight (sh s))) 50 (sh s));
         let delay = d - uint (cw_delay (sh s));
         let delay = (if delay < 0 then 0 else delay);
         Some ((sample_on env ^^ nat delay) s) }"

definition cw_space_delay :: "env \<Rightarrow> bool \<Rightarrow> keyer \<Rightarrow> keyer option" where
  "cw_space_delay env code s =
    do { d \<leftarrow> (if code then over_speed 1200 1 (sh s) else over_speed 2400 1 (sh s));
         let delay = (if code then d - uint (cw_delay (sh s)) else d);
         let delay = (if delay < 0 then 0 else delay);
         Some ((sample_space env ^^ nat delay) s) }"

section \<open>handler_keyer\<close>

text \<open>The straight key: \<open>while(cw_memory[0] & 1)\<close>.\<close>

partial_function (option) key_down :: "env \<Rightarrow> keyer \<Rightarrow> keyer option" where
  "key_down env s =
    (if cw_memory0 s AND 1 \<noteq> 0
     then let s1 = usleep1 env s in key_down env (s1\<lparr>cw_memory0 := cw_input (sh s1)\<rparr>)
     else Some s)"

definition straight_key :: "env \<Rightarrow> keyer \<Rightarrow> keyer option" where
  "straight_key env s = do { s1 \<leftarrow> cw_on env s; s2 \<leftarrow> key_down env s1; cw_off env s2 }"

definition straight_dot :: "env \<Rightarrow> keyer \<Rightarrow> keyer option" where
  "straight_dot env s =
    do { s1 \<leftarrow> cw_on env s;
         d \<leftarrow> over_speed 1200 1 (sh s1);
         let delay = d - uint (cw_delay (sh s1));
         let s2 = (if 0 < delay then (usleep1 env ^^ nat delay) s1 else s1);
         s3 \<leftarrow> cw_off env s2;
         cw_space_delay env True s3 }"

text \<open>The iambic keyer; \<open>st\<close> is the variable \<open>state\<close>, \<open>True\<close> for 1 (the dot paddle).\<close>

definition paddle :: "bool \<Rightarrow> u32" where
  "paddle st = (if st then 2 else 1)"

definition element :: "env \<Rightarrow> bool \<Rightarrow> keyer \<Rightarrow> keyer option" where
  "element env st s =
    do { s1 \<leftarrow> cw_on env (s\<lparr>cw_memory1 := 0\<rparr>);
         s2 \<leftarrow> cw_signal_delay env st s1;
         s3 \<leftarrow> cw_off env s2;
         s4 \<leftarrow> cw_space_delay env True s3;
         Some (s4\<lparr>cw_memory1 := (cw_memory1 s4 AND NOT (paddle st)) OR cw_memory0 s4\<rparr>) }"

partial_function (option) iambic :: "env \<Rightarrow> bool \<Rightarrow> keyer \<Rightarrow> keyer option" where
  "iambic env st s =
    do { s1 \<leftarrow> (if cw_memory1 s AND paddle st \<noteq> 0 then element env st s else Some s);
         if cw_memory1 s1 \<noteq> 0 then iambic env (\<not> st) s1
         else if cw_spacing (sh s1) \<noteq> 0
         then do { s2 \<leftarrow> cw_space_delay env False s1;
                   if cw_memory1 s2 \<noteq> 0 then iambic env True s2 else Some s2 }
         else Some s1 }"

text \<open>One pass of the thread's outer loop.\<close>

definition keyer_pass :: "env \<Rightarrow> keyer \<Rightarrow> keyer option" where
  "keyer_pass env s =
    (let s1 = ptt_tail (usleep1 env s); s2 = s1\<lparr>cw_memory0 := cw_input (sh s1)\<rparr>
     in if cw_memory0 s2 = 0 then Some s2
        else if cw_mode (sh s2) = 0
        then if cw_memory0 s2 AND 1 \<noteq> 0 then straight_key env s2 else straight_dot env s2
        else iambic env True (s2\<lparr>cw_memory1 := cw_memory0 s2\<rparr>))"

text \<open>The first \<open>n\<close> passes of the thread.\<close>

fun handler_keyer :: "env \<Rightarrow> nat \<Rightarrow> keyer \<Rightarrow> keyer option" where
  "handler_keyer env 0 s = Some s"
| "handler_keyer env (Suc n) s = do { s1 \<leftarrow> keyer_pass env s; handler_keyer env n s1 }"

section \<open>The lines of the transmitter\<close>

text \<open>RF is bit 2 of \<open>tx_rst\<close>, the side tone bit 3, the transmit multiplexer bit 4, PTT bit 5.\<close>

definition line :: "nat \<Rightarrow> keyer \<Rightarrow> bool" where
  "line i s = bit (cfg (sh s) tx_rst) i"

definition rf_safe :: "(nat \<times> u8) list \<Rightarrow> bool" where
  "rf_safe tr = list_all (\<lambda>(t, w). bit w 2 \<longrightarrow> bit w 4 \<and> bit w 5) tr"

definition flags_match :: "keyer \<Rightarrow> bool" where
  "flags_match s \<longleftrightarrow> (cw_ptt (sh s) \<noteq> 0 \<longleftrightarrow> line 5 s) \<and> (tx_mux_data (sh s) \<noteq> 0 \<longleftrightarrow> line 4 s) \<and> line 4 s = line 5 s"

definition unkeyed :: "keyer \<Rightarrow> bool" where
  "unkeyed s \<longleftrightarrow> rf_safe (trace s) \<and> flags_match s \<and> \<not> line 2 s"

definition keyed :: "keyer \<Rightarrow> bool" where
  "keyed s \<longleftrightarrow> rf_safe (trace s) \<and> flags_match s \<and> line 2 s \<and> line 5 s"

definition same_lines :: "keyer \<Rightarrow> keyer \<Rightarrow> bool" where
  "same_lines s s' \<longleftrightarrow> trace s' = trace s \<and> cfg (sh s') tx_rst = cfg (sh s) tx_rst \<and>
     cw_ptt (sh s') = cw_ptt (sh s) \<and> tx_mux_data (sh s') = tx_mux_data (sh s)"

lemma same_lines_refl [simp]: "same_lines s s"
  by (simp add: same_lines_def)

lemma same_lines_trans: "same_lines s t \<Longrightarrow> same_lines t u \<Longrightarrow> same_lines s u"
  by (simp add: same_lines_def)

lemma same_lines_memory [simp]:
  "same_lines s (t\<lparr>cw_memory0 := x\<rparr>) = same_lines s t" "same_lines s (t\<lparr>cw_memory1 := x\<rparr>) = same_lines s t"
  "same_lines s (t\<lparr>cw_ptt_delay := d\<rparr>) = same_lines s t"
  "same_lines (s\<lparr>cw_memory0 := x\<rparr>) t = same_lines s t" "same_lines (s\<lparr>cw_memory1 := x\<rparr>) t = same_lines s t"
  by (simp_all add: same_lines_def)

lemma same_lines_keyed: "same_lines s s' \<Longrightarrow> keyed s' = keyed s"
  by (simp add: same_lines_def keyed_def flags_match_def line_def)

lemma same_lines_unkeyed: "same_lines s s' \<Longrightarrow> unkeyed s' = unkeyed s"
  by (simp add: same_lines_def unkeyed_def flags_match_def line_def)

lemma same_lines_pow: "(\<And>s. same_lines s (f s)) \<Longrightarrow> same_lines s ((f ^^ n) s)"
  by (induction n arbitrary: s) (auto intro: same_lines_trans simp: funpow_swap1)

lemma line_on_simps [simp]:
  "cfg (sh (line_on m s)) tx_rst = cfg (sh s) tx_rst OR m"
  "trace (line_on m s) = trace s @ [(now s, cfg (sh s) tx_rst OR m)]"
  "now (line_on m s) = now s" "cw_memory0 (line_on m s) = cw_memory0 s" "cw_memory1 (line_on m s) = cw_memory1 s"
  "cw_ptt_delay (line_on m s) = cw_ptt_delay s"
  by (simp_all add: line_on_def Let_def reg_simps)

lemma line_off_simps [simp]:
  "cfg (sh (line_off m s)) tx_rst = cfg (sh s) tx_rst AND NOT m"
  "trace (line_off m s) = trace s @ [(now s, cfg (sh s) tx_rst AND NOT m)]"
  "now (line_off m s) = now s" "cw_memory0 (line_off m s) = cw_memory0 s" "cw_memory1 (line_off m s) = cw_memory1 s"
  "cw_ptt_delay (line_off m s) = cw_ptt_delay s"
  by (simp_all add: line_off_def Let_def reg_simps)

lemma set8_frame [frame_simps]:
  "cw_ptt (set8 a m h) = cw_ptt h" "tx_mux_data (set8 a m h) = tx_mux_data h"
  "cw_ptt (clr8 a m h) = cw_ptt h" "tx_mux_data (clr8 a m h) = tx_mux_data h"
  "cw_speed (set8 a m h) = cw_speed h" "cw_delay (set8 a m h) = cw_delay h" "cw_weight (set8 a m h) = cw_weight h"
  "cw_speed (clr8 a m h) = cw_speed h" "cw_delay (clr8 a m h) = cw_delay h" "cw_weight (clr8 a m h) = cw_weight h"
  "cw_hang (set8 a m h) = cw_hang h" "cw_hang (clr8 a m h) = cw_hang h"
  "cw_mode (set8 a m h) = cw_mode h" "cw_mode (clr8 a m h) = cw_mode h"
  "cw_spacing (set8 a m h) = cw_spacing h" "cw_spacing (clr8 a m h) = cw_spacing h"
  by (simp_all add: set8_def clr8_def put8_def)

lemma sh_line: "sh (line_on m s) = set8 tx_rst m (sh s)" "sh (line_off m s) = clr8 tx_rst m (sh s)"
  by (simp_all add: line_on_def line_off_def Let_def)

lemma line_frame [simp]:
  "cw_ptt (sh (line_on m s)) = cw_ptt (sh s)" "tx_mux_data (sh (line_on m s)) = tx_mux_data (sh s)"
  "cw_ptt (sh (line_off m s)) = cw_ptt (sh s)" "tx_mux_data (sh (line_off m s)) = tx_mux_data (sh s)"
  "cw_speed (sh (line_on m s)) = cw_speed (sh s)" "cw_delay (sh (line_on m s)) = cw_delay (sh s)"
  "cw_weight (sh (line_on m s)) = cw_weight (sh s)" "cw_speed (sh (line_off m s)) = cw_speed (sh s)"
  "cw_delay (sh (line_off m s)) = cw_delay (sh s)" "cw_weight (sh (line_off m s)) = cw_weight (sh s)"
  "cw_hang (sh (line_on m s)) = cw_hang (sh s)" "cw_hang (sh (line_off m s)) = cw_hang (sh s)"
  "cw_mode (sh (line_on m s)) = cw_mode (sh s)" "cw_mode (sh (line_off m s)) = cw_mode (sh s)"
  "cw_spacing (sh (line_on m s)) = cw_spacing (sh s)" "cw_spacing (sh (line_off m s)) = cw_spacing (sh s)"
  by (simp_all only: sh_line set8_frame)

lemma rf_safe_append [simp]: "rf_safe (xs @ ys) \<longleftrightarrow> rf_safe xs \<and> rf_safe ys"
  by (simp add: rf_safe_def)

lemma rf_safe_Cons [simp]: "rf_safe ((t, w) # xs) \<longleftrightarrow> (bit w 2 \<longrightarrow> bit w 4 \<and> bit w 5) \<and> rf_safe xs" "rf_safe []"
  by (simp_all add: rf_safe_def)

lemma line_bits [simp]:
  "bit (32 :: u8) i = (i = 5)" "bit (16 :: u8) i = (i = 4)" "bit (8 :: u8) i = (i = 3)" "bit (4 :: u8) i = (i = 2)"
  "bit (1 :: u8) i = (i = 0)"
proof -
  have exp: "bit (2 ^ k :: u8) i = (i = k)" if "k < 8" for k
    using that by (auto simp: bit_exp_iff)
  show "bit (32 :: u8) i = (i = 5)" using exp [of 5] by simp
  show "bit (16 :: u8) i = (i = 4)" using exp [of 4] by simp
  show "bit (8 :: u8) i = (i = 3)" using exp [of 3] by simp
  show "bit (4 :: u8) i = (i = 2)" using exp [of 2] by simp
  show "bit (1 :: u8) i = (i = 0)" by (auto simp: bit_1_iff)
qed

section \<open>Surroundings that leave the lines to the keyer\<close>

locale quiet_env =
  fixes env :: "nat \<Rightarrow> hpsdr \<Rightarrow> hpsdr"
  assumes tx_rst_kept: "cfg (env t h) tx_rst = cfg h tx_rst"
    and ptt_kept: "cw_ptt (env t h) = cw_ptt h"
    and mux_kept: "tx_mux_data (env t h) = tx_mux_data h"
begin

lemma usleep1_lines: "same_lines s (usleep1 env s)"
  by (simp add: same_lines_def usleep1_def tx_rst_kept ptt_kept mux_kept)

lemma sample_lines: "same_lines s (sample_on env s)" "same_lines s (sample_off env s)"
  using usleep1_lines [of s] by (simp_all add: sample_on_def sample_off_def Let_def)

lemma cw_on_keyed: "unkeyed s \<Longrightarrow> cw_on env s = Some s' \<Longrightarrow> keyed s'"
proof -
  assume un: "unkeyed s" and "cw_on env s = Some s'"
  then obtain d where s': "s' = (let s1 = line_on 32 s; s2 = s1\<lparr>sh := (sh s1)\<lparr>cw_ptt := 1\<rparr>\<rparr>;
         s3 = line_on 16 s2; s4 = s3\<lparr>sh := (sh s3)\<lparr>tx_mux_data := 1\<rparr>\<rparr>;
         s5 = (if i2c_codec (sh s4) \<and> 0 < dac_level_data (sh s4) then line_on 8 s4 else s4);
         s6 = (sample_on env ^^ nat d) s5 in line_on 4 s6)"
    by (auto simp: cw_on_def Let_def split: bind_splits)
  define s3 where "s3 = line_on 16 ((line_on 32 s)\<lparr>sh := (sh (line_on 32 s))\<lparr>cw_ptt := 1\<rparr>\<rparr>)"
  define s4 where "s4 = s3\<lparr>sh := (sh s3)\<lparr>tx_mux_data := 1\<rparr>\<rparr>"
  define s5 where "s5 = (if i2c_codec (sh s4) \<and> 0 < dac_level_data (sh s4) then line_on 8 s4 else s4)"
  define s6 where "s6 = (sample_on env ^^ nat d) s5"
  have eq: "s' = line_on 4 s6" by (simp add: s' s6_def s5_def s4_def s3_def Let_def)
  have four: "rf_safe (trace s4) \<and> line 4 s4 \<and> line 5 s4 \<and> \<not> line 2 s4 \<and> cw_ptt (sh s4) = 1 \<and> tx_mux_data (sh s4) = 1"
    using un by (simp add: s4_def s3_def unkeyed_def line_def bit_or_iff)
  then have five: "rf_safe (trace s5) \<and> line 4 s5 \<and> line 5 s5 \<and> \<not> line 2 s5 \<and> cw_ptt (sh s5) = 1 \<and> tx_mux_data (sh s5) = 1"
    by (simp add: s5_def line_def bit_or_iff)
  have "same_lines s5 s6" unfolding s6_def by (rule same_lines_pow) (rule sample_lines)
  with five have "rf_safe (trace s6) \<and> line 4 s6 \<and> line 5 s6 \<and> cw_ptt (sh s6) = 1 \<and> tx_mux_data (sh s6) = 1"
    by (simp add: same_lines_def line_def)
  then show "keyed s'" by (simp add: eq keyed_def flags_match_def line_def bit_or_iff)
qed

lemma cw_off_unkeyed: "keyed s \<Longrightarrow> cw_off env s = Some s' \<Longrightarrow> unkeyed s'"
proof -
  assume k: "keyed s" and "cw_off env s = Some s'"
  then obtain d h where s': "s' = (line_off 4 ((sample_off env ^^ nat d) (if i2c_codec (sh s) then line_off 8 s else s)))
      \<lparr>cw_ptt_delay := h\<rparr>"
    by (auto simp: cw_off_def Let_def split: bind_splits)
  define s1 where "s1 = (if i2c_codec (sh s) then line_off 8 s else s)"
  define s2 where "s2 = (sample_off env ^^ nat d) s1"
  have one: "rf_safe (trace s1) \<and> flags_match s1 \<and> line 5 s1"
    using k by (simp add: s1_def keyed_def flags_match_def line_def bit_and_iff bit_not_iff)
  have "same_lines s1 s2" unfolding s2_def by (rule same_lines_pow) (rule sample_lines)
  with one have "rf_safe (trace s2) \<and> flags_match s2 \<and> line 5 s2"
    by (simp add: same_lines_def line_def flags_match_def)
  then show "unkeyed s'"
    by (simp add: s' flip: s1_def s2_def) (simp add: unkeyed_def flags_match_def line_def bit_and_iff bit_not_iff)
qed

lemma cw_off_ptt: "keyed s \<Longrightarrow> cw_off env s = Some s' \<Longrightarrow> line 5 s'"
proof -
  assume k: "keyed s" and "cw_off env s = Some s'"
  then obtain d h where s': "s' = (line_off 4 ((sample_off env ^^ nat d) (if i2c_codec (sh s) then line_off 8 s else s)))
      \<lparr>cw_ptt_delay := h\<rparr>"
    by (auto simp: cw_off_def Let_def split: bind_splits)
  define s1 where "s1 = (if i2c_codec (sh s) then line_off 8 s else s)"
  have "line 5 s1" using k by (simp add: s1_def keyed_def line_def bit_and_iff bit_not_iff)
  moreover have "same_lines s1 ((sample_off env ^^ nat d) s1)" by (rule same_lines_pow) (rule sample_lines)
  ultimately show "line 5 s'"
    by (simp add: s' flip: s1_def) (simp add: same_lines_def line_def bit_and_iff bit_not_iff)
qed

lemma cw_ptt_off_unkeyed: "unkeyed s \<Longrightarrow> unkeyed (cw_ptt_off s)"
  by (simp add: cw_ptt_off_def Let_def unkeyed_def flags_match_def line_def bit_and_iff bit_or_iff bit_not_iff)

lemma ptt_tail_unkeyed: "unkeyed s \<Longrightarrow> unkeyed (ptt_tail s)"
  by (simp add: ptt_tail_def cw_ptt_off_unkeyed)

lemma sample_space_unkeyed: "unkeyed s \<Longrightarrow> unkeyed (sample_space env s)"
proof -
  assume "unkeyed s"
  then have "unkeyed (ptt_tail (usleep1 env s))"
    by (simp add: ptt_tail_unkeyed same_lines_unkeyed [OF usleep1_lines])
  then show ?thesis by (simp add: sample_space_def Let_def unkeyed_def flags_match_def line_def)
qed

lemma cw_space_delay_unkeyed: "unkeyed s \<Longrightarrow> cw_space_delay env c s = Some s' \<Longrightarrow> unkeyed s'"
proof -
  assume un: "unkeyed s"
  then have "unkeyed ((sample_space env ^^ n) s)" for n
    by (induction n) (simp_all add: sample_space_unkeyed)
  with un show "cw_space_delay env c s = Some s' \<Longrightarrow> unkeyed s'"
    by (auto simp: cw_space_delay_def Let_def split: bind_splits if_splits)
qed

lemma cw_signal_delay_keyed: "keyed s \<Longrightarrow> cw_signal_delay env c s = Some s' \<Longrightarrow> keyed s'"
  using same_lines_keyed [OF same_lines_pow [of "sample_on env", OF sample_lines(1)]]
  by (auto simp: cw_signal_delay_def Let_def split: bind_splits if_splits)

lemma key_down_lines: "key_down env s = Some s' \<Longrightarrow> same_lines s s'"
proof -
  assume run: "key_down env s = Some s'"
  have "env = env \<longrightarrow> same_lines s s'"
  proof (rule key_down.raw_induct [where P = "\<lambda>e s s'. e = env \<longrightarrow> same_lines s s'", OF _ run], rule impI)
    fix kd e s s'
    assume IH: "\<And>e s y. kd e s = Some y \<Longrightarrow> e = env \<longrightarrow> same_lines s y"
      and body: "(if cw_memory0 s AND 1 \<noteq> 0
        then let s1 = usleep1 e s in kd e (s1\<lparr>cw_memory0 := cw_input (sh s1)\<rparr>) else Some s) = Some s'"
      and e: "e = env"
    show "same_lines s s'"
    proof (cases "cw_memory0 s AND 1 = 0")
      case True
      with body show ?thesis by simp
    next
      case False
      define s1 where "s1 = usleep1 env s"
      have "kd env (s1\<lparr>cw_memory0 := cw_input (sh s1)\<rparr>) = Some s'"
        using False body e by (simp add: s1_def Let_def)
      then have "same_lines s1 s'" using IH by fastforce
      with usleep1_lines [of s] show ?thesis unfolding s1_def by (rule same_lines_trans)
    qed
  qed
  then show ?thesis by simp
qed

lemma wait_lines: "same_lines s ((usleep1 env ^^ n) s)"
  by (rule same_lines_pow) (rule usleep1_lines)

lemma straight_key_unkeyed: "unkeyed s \<Longrightarrow> straight_key env s = Some s' \<Longrightarrow> unkeyed s'"
  by (auto simp: straight_key_def split: bind_splits)
    (meson cw_off_unkeyed cw_on_keyed key_down_lines same_lines_keyed)

lemma straight_dot_unkeyed: "unkeyed s \<Longrightarrow> straight_dot env s = Some s' \<Longrightarrow> unkeyed s'"
  unfolding straight_dot_def Let_def
  by (auto split: bind_splits if_splits)
    (meson cw_off_unkeyed cw_on_keyed cw_space_delay_unkeyed wait_lines same_lines_keyed)+

lemma unkeyed_memory [simp]:
  "unkeyed (s\<lparr>cw_memory0 := x\<rparr>) = unkeyed s" "unkeyed (s\<lparr>cw_memory1 := x\<rparr>) = unkeyed s"
  by (simp_all add: unkeyed_def flags_match_def line_def)

lemma element_unkeyed: "unkeyed s \<Longrightarrow> element env st s = Some s' \<Longrightarrow> unkeyed s'"
proof -
  assume un: "unkeyed s" and "element env st s = Some s'"
  then obtain s1 s2 s3 s4 where on: "cw_on env (s\<lparr>cw_memory1 := 0\<rparr>) = Some s1" and
    sig: "cw_signal_delay env st s1 = Some s2" and off: "cw_off env s2 = Some s3" and
    sp: "cw_space_delay env True s3 = Some s4" and s': "s' = s4\<lparr>cw_memory1 := (cw_memory1 s4 AND NOT (paddle st)) OR cw_memory0 s4\<rparr>"
    by (auto simp: element_def split: bind_splits)
  have "keyed s1" using un cw_on_keyed [OF _ on] by simp
  then have "keyed s2" using cw_signal_delay_keyed sig by blast
  then have "unkeyed s3" using cw_off_unkeyed off by blast
  then have "unkeyed s4" using cw_space_delay_unkeyed sp by blast
  then show ?thesis by (simp add: s')
qed

lemma iambic_unkeyed: "unkeyed s \<Longrightarrow> iambic env st s = Some s' \<Longrightarrow> unkeyed s'"
proof -
  assume start: "unkeyed s" and run: "iambic env st s = Some s'"
  have "env = env \<longrightarrow> unkeyed s \<longrightarrow> unkeyed s'"
  proof (rule iambic.raw_induct [where P = "\<lambda>e st s s'. e = env \<longrightarrow> unkeyed s \<longrightarrow> unkeyed s'", OF _ run], intro impI)
    fix ia e st s s'
    assume IH: "\<And>e st s y. ia e st s = Some y \<Longrightarrow> e = env \<longrightarrow> unkeyed s \<longrightarrow> unkeyed y"
      and body: "do { s1 \<leftarrow> (if cw_memory1 s AND paddle st \<noteq> 0 then element e st s else Some s);
         if cw_memory1 s1 \<noteq> 0 then ia e (\<not> st) s1
         else if cw_spacing (sh s1) \<noteq> 0
         then do { s2 \<leftarrow> cw_space_delay e False s1; if cw_memory1 s2 \<noteq> 0 then ia e True s2 else Some s2 }
         else Some s1 } = Some s'"
      and e: "e = env" and un: "unkeyed s"
    obtain s1 where s1: "(if cw_memory1 s AND paddle st \<noteq> 0 then element env st s else Some s) = Some s1"
      and rest: "(if cw_memory1 s1 \<noteq> 0 then ia env (\<not> st) s1
         else if cw_spacing (sh s1) \<noteq> 0
         then do { s2 \<leftarrow> cw_space_delay env False s1; if cw_memory1 s2 \<noteq> 0 then ia env True s2 else Some s2 }
         else Some s1) = Some s'"
      using body e by (auto simp: bind_eq_Some_conv)
    have un1: "unkeyed s1" using s1 un element_unkeyed by (auto split: if_splits)
    show "unkeyed s'"
      using rest un1 IH cw_space_delay_unkeyed [OF un1, of False]
      by (auto split: if_splits bind_splits)
  qed
  with start show ?thesis by simp
qed

lemma keyer_pass_unkeyed: "unkeyed s \<Longrightarrow> keyer_pass env s = Some s' \<Longrightarrow> unkeyed s'"
proof -
  assume "unkeyed s"
  then have "unkeyed (ptt_tail (usleep1 env s))"
    by (simp add: ptt_tail_unkeyed same_lines_unkeyed [OF usleep1_lines])
  then show "keyer_pass env s = Some s' \<Longrightarrow> unkeyed s'"
    by (auto simp: keyer_pass_def Let_def split: if_splits
        dest!: straight_key_unkeyed [rotated] straight_dot_unkeyed [rotated] iambic_unkeyed [rotated])
qed

lemma handler_unkeyed: "unkeyed s \<Longrightarrow> handler_keyer env n s = Some s' \<Longrightarrow> unkeyed s'"
  by (induction n arbitrary: s) (auto split: bind_splits dest: keyer_pass_unkeyed)

end

section \<open>Durations\<close>

text \<open>The settings the keyer's durations are computed from.\<close>

definition cw_settings :: "hpsdr \<Rightarrow> u8 \<times> u8 \<times> u8 \<times> u16 \<times> u8 \<times> u8" where
  "cw_settings h = (cw_speed h, cw_delay h, cw_weight h, cw_hang h, cw_mode h, cw_spacing h)"

lemma cw_settings_line [simp]:
  "cw_settings (sh (line_on m s)) = cw_settings (sh s)" "cw_settings (sh (line_off m s)) = cw_settings (sh s)"
  "cw_settings (h\<lparr>cw_ptt := b\<rparr>) = cw_settings h" "cw_settings (h\<lparr>tx_mux_data := b\<rparr>) = cw_settings h"
  by (simp_all add: cw_settings_def)

lemma cw_ptt_off_settings [simp]: "cw_settings (sh (ptt_tail s)) = cw_settings (sh s)"
  by (simp add: ptt_tail_def cw_ptt_off_def Let_def)

lemma now_ptt_tail [simp]: "now (ptt_tail s) = now s"
  by (simp add: ptt_tail_def cw_ptt_off_def Let_def)

definition dot_ms :: "hpsdr \<Rightarrow> nat" where
  "dot_ms h = 1200 div unat (cw_speed h)"

definition dash_ms :: "hpsdr \<Rightarrow> nat" where
  "dash_ms h = 3600 * unat (cw_weight h) div (50 * unat (cw_speed h))"

definition lead_ms :: "hpsdr \<Rightarrow> nat" where
  "lead_ms h = min (unat (cw_delay h)) (dot_ms h)"

lemma over_speed_nat:
  "cw_speed h \<noteq> 0 \<Longrightarrow> over_speed (int n) (int k) h = Some (int (n div (k * unat (cw_speed h))))"
  by (simp add: over_speed_def zdiv_int flip: uint_nat)

lemma clamp_nat: "nat (if int a - uint w < 0 then 0 else int a - uint w) = a - unat w"
proof -
  have "nat (if int a - int b < 0 then 0 else int a - int b) = a - b" for b by auto
  from this [of "unat w"] show ?thesis by (simp only: of_nat_unat)
qed

lemma short_delay_nat: "cw_speed h \<noteq> 0 \<Longrightarrow> short_delay h = Some (int (lead_ms h))"
proof -
  assume "cw_speed h \<noteq> 0"
  then have "over_speed 1200 1 h = Some (int (dot_ms h))" using over_speed_nat [of h 1200 1] by (simp add: dot_ms_def)
  moreover have "uint (cw_delay h) = int (unat (cw_delay h))" by simp
  ultimately show ?thesis unfolding short_delay_def lead_ms_def by (simp only: bind.bind_lunit min_def of_nat_less_iff) auto
qed

lemma settings_ms:
  "cw_settings h' = cw_settings h \<Longrightarrow> dot_ms h' = dot_ms h" "cw_settings h' = cw_settings h \<Longrightarrow> dash_ms h' = dash_ms h"
  "cw_settings h' = cw_settings h \<Longrightarrow> lead_ms h' = lead_ms h" "cw_settings h' = cw_settings h \<Longrightarrow> cw_speed h' = cw_speed h"
  "cw_settings h' = cw_settings h \<Longrightarrow> cw_delay h' = cw_delay h"
  by (simp_all add: cw_settings_def dot_ms_def dash_ms_def lead_ms_def)

text \<open>The milliseconds for which a trace keeps RF on; \<open>since\<close> is the tick at which it was turned on.\<close>

fun rf_ms :: "nat option \<Rightarrow> (nat \<times> u8) list \<Rightarrow> nat" where
  "rf_ms since [] = 0"
| "rf_ms None ((t, w) # tr) = rf_ms (if bit w 2 then Some t else None) tr"
| "rf_ms (Some t0) ((t, w) # tr) = (if bit w 2 then rf_ms (Some t0) tr else (t - t0) + rf_ms None tr)"

lemma rf_ms_off: "list_all (\<lambda>(t, w). \<not> bit w 2) es \<Longrightarrow> rf_ms None (es @ tr) = rf_ms None tr"
  by (induction es) auto

lemma rf_ms_on: "list_all (\<lambda>(t, w). bit w 2) es \<Longrightarrow> rf_ms (Some t) (es @ tr) = rf_ms (Some t) tr"
  by (induction es) auto

lemma rf_ms_pulse:
  assumes "list_all (\<lambda>(t, w). \<not> bit w 2) es1" "bit w1 2" "list_all (\<lambda>(t, w). bit w 2) es2" "\<not> bit w2 2"
    "list_all (\<lambda>(t, w). \<not> bit w 2) es3"
  shows "rf_ms None (es1 @ [(t1, w1)] @ es2 @ [(t2, w2)] @ es3) = t2 - t1"
proof -
  have "rf_ms None es3 = 0" using rf_ms_off [OF assms(5), of "[]"] by simp
  then show ?thesis using assms(2,4) by (simp add: rf_ms_off [OF assms(1)] rf_ms_on [OF assms(3)])
qed

locale steady_env = quiet_env +
  assumes settings_kept: "cw_settings (env t h) = cw_settings h"
begin

lemma usleep1_settings [simp]: "cw_settings (sh (usleep1 env s)) = cw_settings (sh s)" "now (usleep1 env s) = now s + 1"
  by (simp_all add: usleep1_def settings_kept)

lemma sample_settings [simp]:
  "cw_settings (sh (sample_on env s)) = cw_settings (sh s)" "now (sample_on env s) = now s + 1"
  "cw_settings (sh (sample_off env s)) = cw_settings (sh s)" "now (sample_off env s) = now s + 1"
  "cw_settings (sh (sample_space env s)) = cw_settings (sh s)" "now (sample_space env s) = now s + 1"
  by (simp_all add: sample_on_def sample_off_def sample_space_def Let_def)

lemma pow_settings [simp]:
  "cw_settings (sh ((sample_on env ^^ n) s)) = cw_settings (sh s)" "now ((sample_on env ^^ n) s) = now s + n"
  "cw_settings (sh ((sample_off env ^^ n) s)) = cw_settings (sh s)" "now ((sample_off env ^^ n) s) = now s + n"
  "cw_settings (sh ((sample_space env ^^ n) s)) = cw_settings (sh s)" "now ((sample_space env ^^ n) s) = now s + n"
  by (induction n) simp_all

lemma pow_lines:
  "trace ((sample_on env ^^ n) s) = trace s" "cfg (sh ((sample_on env ^^ n) s)) tx_rst = cfg (sh s) tx_rst"
  "trace ((sample_off env ^^ n) s) = trace s" "cfg (sh ((sample_off env ^^ n) s)) tx_rst = cfg (sh s) tx_rst"
  using same_lines_pow [of "sample_on env" s n, OF sample_lines(1)] same_lines_pow [of "sample_off env" s n, OF sample_lines(2)]
  by (simp_all add: same_lines_def)

lemma cw_on_trace:
  assumes "\<not> line 2 s" and "cw_speed (sh s) \<noteq> 0"
  shows "\<exists>s' es w. cw_on env s = Some s' \<and> trace s' = trace s @ es @ [(now s', w)] \<and> list_all (\<lambda>(t, w). \<not> bit w 2) es \<and>
    bit w 2 \<and> line 2 s' \<and> now s' = now s + lead_ms (sh s) \<and> cw_settings (sh s') = cw_settings (sh s)"
proof -
  define s3 where "s3 = line_on 16 ((line_on 32 s)\<lparr>sh := (sh (line_on 32 s))\<lparr>cw_ptt := 1\<rparr>\<rparr>)"
  define s4 where "s4 = s3\<lparr>sh := (sh s3)\<lparr>tx_mux_data := 1\<rparr>\<rparr>"
  define s5 where "s5 = (if i2c_codec (sh s4) \<and> 0 < dac_level_data (sh s4) then line_on 8 s4 else s4)"
  define s6 where "s6 = (sample_on env ^^ lead_ms (sh s)) s5"
  have run: "cw_on env s = Some (line_on 4 s6)"
    using assms(2) by (simp add: cw_on_def short_delay_nat s6_def s5_def s4_def s3_def Let_def)
  have s4: "\<exists>es. trace s4 = trace s @ es \<and> list_all (\<lambda>(t, w). \<not> bit w 2) es" "\<not> line 2 s4" "now s4 = now s"
    "cw_settings (sh s4) = cw_settings (sh s)"
    using assms(1) by (simp_all add: s4_def s3_def line_def bit_or_iff)
  then have s5: "\<exists>es. trace s5 = trace s @ es \<and> list_all (\<lambda>(t, w). \<not> bit w 2) es" "now s5 = now s"
    "cw_settings (sh s5) = cw_settings (sh s)"
    by (auto simp: s5_def line_def bit_or_iff)
  then obtain es where "trace s5 = trace s @ es" "list_all (\<lambda>(t, w). \<not> bit w 2) es" by blast
  with s5 show ?thesis unfolding run
    by (simp add: s6_def pow_lines line_def bit_or_iff)
qed

lemma cw_off_trace:
  assumes "line 2 s" and "cw_speed (sh s) \<noteq> 0"
  shows "\<exists>s' es w. cw_off env s = Some s' \<and> trace s' = trace s @ es @ [(now s', w)] \<and> list_all (\<lambda>(t, w). bit w 2) es \<and>
    \<not> bit w 2 \<and> \<not> line 2 s' \<and> now s' = now s + lead_ms (sh s) \<and> cw_settings (sh s') = cw_settings (sh s) \<and>
    cw_ptt_delay s' = (if 0 < cw_hang (sh s) then uint (cw_hang (sh s)) else 10)"
proof -
  define s1 where "s1 = (if i2c_codec (sh s) then line_off 8 s else s)"
  define s2 where "s2 = (sample_off env ^^ lead_ms (sh s)) s1"
  have s1: "\<exists>es. trace s1 = trace s @ es \<and> list_all (\<lambda>(t, w). bit w 2) es" "now s1 = now s"
    "cw_settings (sh s1) = cw_settings (sh s)"
    using assms(1) by (auto simp: s1_def line_def bit_and_iff bit_not_iff)
  then have s2: "now s2 = now s + lead_ms (sh s)" "cw_settings (sh s2) = cw_settings (sh s)" "trace s2 = trace s1"
    by (simp_all add: s2_def pow_lines)
  then have hang: "cw_hang (sh s2) = cw_hang (sh s)" by (simp add: cw_settings_def)
  have run: "cw_off env s = Some ((line_off 4 s2)\<lparr>cw_ptt_delay := (if 0 < cw_hang (sh s) then uint (cw_hang (sh s)) else 10)\<rparr>)"
    using assms(2) hang by (simp add: cw_off_def short_delay_nat s2_def s1_def Let_def)
  obtain es where "trace s1 = trace s @ es" "list_all (\<lambda>(t, w). bit w 2) es" using s1 by blast
  with s2 show ?thesis unfolding run by (simp add: line_def bit_and_iff bit_not_iff)
qed

lemma sample_space_trace:
  assumes "\<not> line 2 s"
  shows "\<exists>es. trace (sample_space env s) = trace s @ es \<and> list_all (\<lambda>(t, w). \<not> bit w 2) es \<and> \<not> line 2 (sample_space env s)"
proof -
  have "\<not> line 2 (usleep1 env s)" "trace (usleep1 env s) = trace s"
    using assms usleep1_lines [of s] by (simp_all add: line_def same_lines_def)
  then show ?thesis
    by (simp add: sample_space_def ptt_tail_def cw_ptt_off_def Let_def line_def bit_and_iff bit_or_iff bit_not_iff)
qed

lemma pow_space_trace:
  "\<not> line 2 s \<Longrightarrow> \<exists>es. trace ((sample_space env ^^ n) s) = trace s @ es \<and> list_all (\<lambda>(t, w). \<not> bit w 2) es \<and>
     \<not> line 2 ((sample_space env ^^ n) s)"
proof (induction n)
  case (Suc n)
  then obtain es where es: "trace ((sample_space env ^^ n) s) = trace s @ es" "list_all (\<lambda>(t, w). \<not> bit w 2) es"
    "\<not> line 2 ((sample_space env ^^ n) s)" by blast
  from sample_space_trace [OF es(3)] obtain fs where
    "trace (sample_space env ((sample_space env ^^ n) s)) = trace ((sample_space env ^^ n) s) @ fs"
    "list_all (\<lambda>(t, w). \<not> bit w 2) fs" "\<not> line 2 (sample_space env ((sample_space env ^^ n) s))" by blast
  with es show ?case by simp
qed simp

lemma cw_space_delay_some:
  assumes "cw_speed (sh s) \<noteq> 0"
  shows "\<exists>n. cw_space_delay env c s = Some ((sample_space env ^^ n) s) \<and>
    (c \<longrightarrow> n = dot_ms (sh s) - unat (cw_delay (sh s))) \<and> (\<not> c \<longrightarrow> dot_ms (sh s) \<le> n)"
proof -
  have "over_speed 1200 1 (sh s) = Some (int (dot_ms (sh s)))" "over_speed 2400 1 (sh s) = Some (int (2400 div unat (cw_speed (sh s))))"
    using over_speed_nat [OF assms, of 1200 1] over_speed_nat [OF assms, of 2400 1] by (simp_all add: dot_ms_def)
  moreover have "dot_ms (sh s) \<le> 2400 div unat (cw_speed (sh s))" by (simp add: dot_ms_def div_le_mono)
  ultimately show ?thesis
    by (cases c) (simp_all only: cw_space_delay_def Let_def if_True if_False bind.bind_lunit clamp_nat, blast, auto)
qed

lemma cw_signal_delay_some:
  assumes "cw_speed (sh s) \<noteq> 0"
  shows "cw_signal_delay env c s =
    Some ((sample_on env ^^ ((if c then dot_ms (sh s) else dash_ms (sh s)) - unat (cw_delay (sh s)))) s)"
proof -
  have w: "3600 * uint (cw_weight (sh s)) = int (3600 * unat (cw_weight (sh s)))" by simp
  have "over_speed 1200 1 (sh s) = Some (int (dot_ms (sh s)))"
    "over_speed (3600 * uint (cw_weight (sh s))) 50 (sh s) = Some (int (dash_ms (sh s)))"
    using over_speed_nat [OF assms, of 1200 1] over_speed_nat [OF assms, of "3600 * unat (cw_weight (sh s))" 50]
    unfolding w by (simp_all add: dot_ms_def dash_ms_def)
  then show ?thesis
    by (cases c) (simp_all only: cw_signal_delay_def Let_def if_True if_False bind.bind_lunit clamp_nat)
qed

lemma settings_speed: "cw_settings h = cw_settings h' \<Longrightarrow> cw_speed h' \<noteq> 0 \<Longrightarrow> cw_speed h \<noteq> 0"
  by (simp add: cw_settings_def)

text \<open>An element keys the transmitter once, for its length.\<close>

lemma element_trace:
  assumes "\<not> line 2 s" and "cw_speed (sh s) \<noteq> 0"
  shows "\<exists>s' es. element env st s = Some s' \<and> trace s' = trace s @ es \<and>
    rf_ms None es = ((if st then dot_ms (sh s) else dash_ms (sh s)) - unat (cw_delay (sh s))) + lead_ms (sh s) \<and>
    \<not> line 2 s' \<and> now s + dot_ms (sh s) \<le> now s' \<and> cw_settings (sh s') = cw_settings (sh s)"
proof -
  let ?m = "s\<lparr>cw_memory1 := 0\<rparr>"
  let ?n = "(if st then dot_ms (sh s) else dash_ms (sh s)) - unat (cw_delay (sh s))"
  have "\<not> line 2 ?m" "cw_speed (sh ?m) \<noteq> 0" using assms by (simp_all add: line_def)
  from cw_on_trace [OF this] obtain s1 es1 w1 where
    on: "cw_on env ?m = Some s1" "trace s1 = trace s @ es1 @ [(now s1, w1)]" "list_all (\<lambda>(t, w). \<not> bit w 2) es1" "bit w1 2"
      "line 2 s1" "now s1 = now s + lead_ms (sh s)" "cw_settings (sh s1) = cw_settings (sh s)" by auto
  note ms1 = settings_ms [OF on(7)]
  define s2 where "s2 = (sample_on env ^^ ?n) s1"
  have sig: "cw_signal_delay env st s1 = Some s2"
    using cw_signal_delay_some [of s1 st] assms(2) by (simp add: ms1 s2_def)
  have two: "line 2 s2" "trace s2 = trace s1" "now s2 = now s1 + ?n" "cw_settings (sh s2) = cw_settings (sh s)"
    using on by (simp_all add: s2_def pow_lines line_def)
  note ms2 = settings_ms [OF two(4)]
  from cw_off_trace [OF two(1)] assms(2) obtain s3 es2 w2 where
    off: "cw_off env s2 = Some s3" "trace s3 = trace s2 @ es2 @ [(now s3, w2)]" "list_all (\<lambda>(t, w). bit w 2) es2" "\<not> bit w2 2"
      "\<not> line 2 s3" "now s3 = now s2 + lead_ms (sh s2)" "cw_settings (sh s3) = cw_settings (sh s2)" by (auto simp: ms2)
  have set3: "cw_settings (sh s3) = cw_settings (sh s)" using off(7) two(4) by simp
  note ms3 = settings_ms [OF set3]
  obtain k where sp: "cw_space_delay env True s3 = Some ((sample_space env ^^ k) s3)" "k = dot_ms (sh s) - unat (cw_delay (sh s))"
    using cw_space_delay_some [of s3 True] assms(2) by (auto simp: ms3)
  define s4 where "s4 = (sample_space env ^^ k) s3"
  from pow_space_trace [OF off(5), of k] obtain es3 where
    four: "trace s4 = trace s3 @ es3" "list_all (\<lambda>(t, w). \<not> bit w 2) es3" "\<not> line 2 s4" by (auto simp: s4_def)
  define s' where "s' = s4\<lparr>cw_memory1 := (cw_memory1 s4 AND NOT (paddle st)) OR cw_memory0 s4\<rparr>"
  have run: "element env st s = Some s'"
    by (simp add: element_def on(1) sig off(1) sp(1) s4_def s'_def)
  have tr: "trace s' = trace s @ (es1 @ [(now s1, w1)] @ es2 @ [(now s3, w2)] @ es3)"
    by (simp add: s'_def four off(2) two(2) on(2))
  have len: "now s3 - now s1 = ?n + lead_ms (sh s)"
    using off(6) two(3) on(6) ms2 by simp
  have "dot_ms (sh s) \<le> lead_ms (sh s) + k" by (simp add: lead_ms_def sp(2))
  then have prog: "now s + dot_ms (sh s) \<le> now s'"
    using off(6) two(3) on(6) by (simp add: s'_def s4_def)
  show ?thesis
    by (intro exI [of _ s'] exI [of _ "es1 @ [(now s1, w1)] @ es2 @ [(now s3, w2)] @ es3"])
      (use run tr rf_ms_pulse [OF on(3,4) off(3,4) four(2)] len prog four(3) set3 in \<open>simp add: s'_def s4_def line_def\<close>)
qed

text \<open>What the two memories of the paddles hold; \<open>b = 3\<close> for any paddle, \<open>b = 0\<close> after they are released.\<close>

lemma dot_ms_pos: "cw_speed h \<noteq> 0 \<Longrightarrow> 0 < dot_ms h"
proof -
  assume "cw_speed h \<noteq> 0"
  then have "0 < unat (cw_speed h)" "unat (cw_speed h) \<le> 255"
    using unsigned_less [of "cw_speed h", where ?'a = nat] by (auto simp: unat_gt_0)
  then show ?thesis by (simp add: dot_ms_def div_greater_zero_iff)
qed

end

definition small :: "u32 \<Rightarrow> bool" where
  "small w \<longleftrightarrow> w AND 3 = w"

lemma small_simps [simp]: "small 0" "small x \<Longrightarrow> small y \<Longrightarrow> small (x OR y)" "small x \<Longrightarrow> small (x AND y)"
proof -
  show "small 0" by (simp add: small_def)
  show "small x \<Longrightarrow> small y \<Longrightarrow> small (x OR y)" by (simp add: small_def bit.conj_disj_distrib2)
  show "small x \<Longrightarrow> small (x AND y)" by (simp add: small_def) (metis and.assoc and.commute)
qed

lemma small_input [simp]: "small (cw_input h)"
  unfolding small_def cw_input_def Let_def
  by (auto intro!: word32_eqI simp: word_bits bit_1_iff)

lemma small_paddles: "small w \<Longrightarrow> w \<noteq> 0 \<Longrightarrow> w AND paddle st = 0 \<Longrightarrow> w AND paddle (\<not> st) \<noteq> 0"
proof -
  assume sm: "small w" and nz: "w \<noteq> 0" and no: "w AND paddle st = 0"
  have "w AND 3 = (w AND paddle st) OR (w AND paddle (\<not> st))"
    by (rule word32_eqI) (simp add: word_bits paddle_def)
  with sm nz no show ?thesis by (auto simp: small_def)
qed

definition mem_small :: "keyer \<Rightarrow> bool" where
  "mem_small s \<longleftrightarrow> small (cw_memory0 s) \<and> small (cw_memory1 s)"

text \<open>After the paddles are released at tick \<open>T\<close>: no sample sets a memory, and the last sample clears the other.\<close>

definition released :: "nat \<Rightarrow> nat \<Rightarrow> keyer \<Rightarrow> bool" where
  "released T t0 s \<longleftrightarrow> T \<le> now s \<and> t0 \<le> now s \<and> cw_memory1 s = 0 \<and> (cw_memory0 s \<noteq> 0 \<longrightarrow> now s = t0)"

lemma memory_cw_ptt_off [simp]:
  "cw_memory0 (ptt_tail s) = cw_memory0 s" "cw_memory1 (ptt_tail s) = cw_memory1 s"
  by (simp_all add: ptt_tail_def cw_ptt_off_def Let_def)

lemma ptt_tail_input [simp]: "cw_input (sh (ptt_tail s)) = cw_input (sh s)"
  by (simp add: ptt_tail_def cw_ptt_off_def Let_def cw_input_def line_on_def line_off_def set8_def clr8_def put8_def)

lemma released_frame [simp]:
  "released T t0 (line_on m s) = released T t0 s" "released T t0 (line_off m s) = released T t0 s"
  "released T t0 (s\<lparr>sh := h\<rparr>) = released T t0 s" "released T t0 (s\<lparr>cw_ptt_delay := d\<rparr>) = released T t0 s"
  "mem_small (line_on m s) = mem_small s" "mem_small (line_off m s) = mem_small s"
  "mem_small (s\<lparr>sh := h\<rparr>) = mem_small s" "mem_small (s\<lparr>cw_ptt_delay := d\<rparr>) = mem_small s"
  by (simp_all add: released_def mem_small_def)

context steady_env
begin

lemma mem_small_sample:
  assumes "mem_small s"
  shows "mem_small (sample_on env s)" "mem_small (sample_off env s)" "mem_small (sample_space env s)"
  using assms by (simp_all add: mem_small_def sample_on_def sample_off_def sample_space_def usleep1_def Let_def)

lemma mem_small_pow [simp]:
  assumes "mem_small s"
  shows "mem_small ((sample_on env ^^ n) s)" "mem_small ((sample_off env ^^ n) s)" "mem_small ((sample_space env ^^ n) s)"
  by (induction n) (simp_all add: assms mem_small_sample)

lemma op_small:
  assumes "mem_small s"
  shows "cw_on env s = Some s' \<Longrightarrow> mem_small s'" "cw_off env s = Some s' \<Longrightarrow> mem_small s'"
    "cw_signal_delay env c s = Some s' \<Longrightarrow> mem_small s'" "cw_space_delay env c s = Some s' \<Longrightarrow> mem_small s'"
  subgoal using assms by (cases "short_delay (sh s)") (auto simp: cw_on_def Let_def)
  subgoal using assms by (cases "short_delay (sh s)") (auto simp: cw_off_def Let_def)
  subgoal using assms by (auto simp: cw_signal_delay_def Let_def bind_eq_Some_conv)
  subgoal using assms by (auto simp: cw_space_delay_def Let_def bind_eq_Some_conv)
  done

lemma element_small: "mem_small s \<Longrightarrow> element env st s = Some s' \<Longrightarrow> mem_small s'"
proof -
  assume m: "mem_small s" and "element env st s = Some s'"
  then obtain s1 s2 s3 s4 where run: "cw_on env (s\<lparr>cw_memory1 := 0\<rparr>) = Some s1" "cw_signal_delay env st s1 = Some s2"
    "cw_off env s2 = Some s3" "cw_space_delay env True s3 = Some s4"
    and s': "s' = s4\<lparr>cw_memory1 := (cw_memory1 s4 AND NOT (paddle st)) OR cw_memory0 s4\<rparr>"
    by (auto simp: element_def bind_eq_Some_conv)
  have "mem_small (s\<lparr>cw_memory1 := 0\<rparr>)" using m by (simp add: mem_small_def)
  then have "mem_small s4" using run op_small by metis
  then show ?thesis by (simp add: s' mem_small_def)
qed

end

text \<open>Surroundings in which the paddles are released for good at tick \<open>T\<close>.\<close>

locale released_env = steady_env +
  fixes T :: nat
  assumes no_input: "T \<le> t \<Longrightarrow> cw_input (env t h) = 0"
begin

lemma released_sample:
  assumes "released T t0 s"
  shows "released T t0 (sample_on env s)" "released T t0 (sample_off env s)" "released T t0 (sample_space env s)"
  using assms by (auto simp: released_def sample_on_def sample_off_def sample_space_def usleep1_def Let_def no_input)

lemma released_pow [simp]:
  assumes "released T t0 s"
  shows "released T t0 ((sample_on env ^^ n) s)" "released T t0 ((sample_off env ^^ n) s)" "released T t0 ((sample_space env ^^ n) s)"
  by (induction n) (simp_all add: assms released_sample)

lemma op_released:
  assumes "released T t0 s"
  shows "cw_on env s = Some s' \<Longrightarrow> released T t0 s'" "cw_off env s = Some s' \<Longrightarrow> released T t0 s'"
    "cw_signal_delay env c s = Some s' \<Longrightarrow> released T t0 s'" "cw_space_delay env c s = Some s' \<Longrightarrow> released T t0 s'"
  subgoal using assms by (cases "short_delay (sh s)") (auto simp: cw_on_def Let_def)
  subgoal using assms by (cases "short_delay (sh s)") (auto simp: cw_off_def Let_def)
  subgoal using assms by (auto simp: cw_signal_delay_def Let_def bind_eq_Some_conv)
  subgoal using assms by (auto simp: cw_space_delay_def Let_def bind_eq_Some_conv)
  done

lemma element_released:
  assumes "T \<le> now s" and "element env st s = Some s'" and "now s < now s'"
  shows "cw_memory1 s' = 0"
proof -
  from assms(2) obtain s1 s2 s3 s4 where run: "cw_on env (s\<lparr>cw_memory1 := 0\<rparr>) = Some s1" "cw_signal_delay env st s1 = Some s2"
    "cw_off env s2 = Some s3" "cw_space_delay env True s3 = Some s4"
    and s': "s' = s4\<lparr>cw_memory1 := (cw_memory1 s4 AND NOT (paddle st)) OR cw_memory0 s4\<rparr>"
    by (auto simp: element_def bind_eq_Some_conv)
  have "released T (now s) (s\<lparr>cw_memory1 := 0\<rparr>)" using assms(1) by (simp add: released_def)
  then have "released T (now s) s4" using run op_released by metis
  then show ?thesis using assms(3) by (auto simp: s' released_def)
qed

lemma space_released: "T \<le> now s \<Longrightarrow> cw_memory1 s = 0 \<Longrightarrow> cw_memory1 ((sample_space env ^^ n) s) = 0"
proof -
  assume T: "T \<le> now s" and z: "cw_memory1 s = 0"
  have one: "cw_memory1 (sample_space env u) = 0" if "T \<le> now u" "cw_memory1 u = 0" for u
    using that by (simp add: sample_space_def Let_def usleep1_def no_input)
  show ?thesis using T z by (induction n) (simp_all add: one)
qed

text \<open>What an iambic run keeps.\<close>

definition ready :: "keyer \<Rightarrow> bool" where
  "ready s \<longleftrightarrow> \<not> line 2 s \<and> cw_speed (sh s) \<noteq> 0 \<and> mem_small s"

lemma element_ready:
  assumes "ready s"
  obtains s' where "element env st s = Some s'" "ready s'" "now s < now s'"
proof -
  obtain s' where s': "element env st s = Some s'" "\<not> line 2 s'" "now s + dot_ms (sh s) \<le> now s'"
    "cw_settings (sh s') = cw_settings (sh s)"
    using element_trace [of s st] assms by (auto simp: ready_def)
  moreover have "ready s'"
    using s' assms element_small [OF _ s'(1)] settings_ms(4) [OF s'(4)] by (simp add: ready_def)
  ultimately show ?thesis using that dot_ms_pos [of "sh s"] assms by (auto simp: ready_def)
qed

lemma space_ready:
  assumes "ready s"
  obtains n where "cw_space_delay env False s = Some ((sample_space env ^^ n) s)" "ready ((sample_space env ^^ n) s)" "0 < n"
proof -
  have sp: "cw_speed (sh s) \<noteq> 0" using assms by (simp add: ready_def)
  obtain n where n: "cw_space_delay env False s = Some ((sample_space env ^^ n) s)" "dot_ms (sh s) \<le> n"
    using cw_space_delay_some [OF sp, of False] by auto
  moreover have "ready ((sample_space env ^^ n) s)"
    using assms pow_space_trace [of s n] settings_ms(4) [OF pow_settings(5) [of n s]] by (auto simp: ready_def)
  ultimately show ?thesis using that dot_ms_pos [OF sp] by auto
qed

lemma iambic_step:
  "iambic env st s = do { s1 \<leftarrow> (if cw_memory1 s AND paddle st \<noteq> 0 then element env st s else Some s);
     if cw_memory1 s1 \<noteq> 0 then iambic env (\<not> st) s1
     else if cw_spacing (sh s1) \<noteq> 0
     then do { s2 \<leftarrow> cw_space_delay env False s1; if cw_memory1 s2 \<noteq> 0 then iambic env True s2 else Some s2 }
     else Some s1 }"
  by (subst iambic.simps) simp

lemma iambic_returns: "ready s \<Longrightarrow> \<exists>s'. iambic env st s = Some s'"
proof (induction "T - now s" arbitrary: s st rule: less_induct)
  case less
  text \<open>Once no memory is set, the word space ends the run or lets time pass.\<close>
  have tail: "\<exists>s'. (if cw_memory1 u \<noteq> 0 then iambic env st' u
       else if cw_spacing (sh u) \<noteq> 0
       then do { s2 \<leftarrow> cw_space_delay env False u; if cw_memory1 s2 \<noteq> 0 then iambic env True s2 else Some s2 }
       else Some u) = Some s'"
    if u: "ready u" "now s \<le> now u" and m: "cw_memory1 u = 0 \<or> now s < now u \<and> now s < T" for u st'
  proof (cases "cw_memory1 u = 0")
    case False
    with m u show ?thesis using less.hyps [of u st'] by auto
  next
    case True
    obtain n where n: "cw_space_delay env False u = Some ((sample_space env ^^ n) u)"
      "ready ((sample_space env ^^ n) u)" "0 < n" using space_ready [OF u(1)] .
    show ?thesis
    proof (cases "T \<le> now u")
      case True
      then have "cw_memory1 ((sample_space env ^^ n) u) = 0" using \<open>cw_memory1 u = 0\<close> by (rule space_released)
      with n \<open>cw_memory1 u = 0\<close> show ?thesis by simp
    next
      case False
      then have "\<exists>s'. iambic env True ((sample_space env ^^ n) u) = Some s'"
        using n u by (intro less.hyps) simp_all
      with n \<open>cw_memory1 u = 0\<close> show ?thesis by simp
    qed
  qed
  have elem: "\<exists>s'. iambic env st' s = Some s'" if "cw_memory1 s AND paddle st' \<noteq> 0" for st'
  proof -
    obtain u where u: "element env st' s = Some u" "ready u" "now s < now u" using element_ready [OF less.prems] .
    have "cw_memory1 u = 0 \<or> now s < T" using element_released [OF _ u(1,3)] by (cases "now s < T") auto
    then show ?thesis
      using tail [OF u(2), of "\<not> st'"] u that by (subst iambic_step) auto
  qed
  show ?case
  proof (cases "cw_memory1 s AND paddle st = 0")
    case False
    then show ?thesis by (rule elem)
  next
    case True
    show ?thesis
    proof (cases "cw_memory1 s = 0")
      case zero: True
      then show ?thesis using tail [OF less.prems, of "\<not> st"] True by (subst iambic_step) simp
    next
      case False
      then have "cw_memory1 s AND paddle (\<not> st) \<noteq> 0"
        using True less.prems small_paddles by (simp add: ready_def mem_small_def)
      from elem [OF this] show ?thesis using True False by (subst iambic_step) simp
    qed
  qed
qed

lemma key_down_step:
  "key_down env s = (if cw_memory0 s AND 1 \<noteq> 0
     then key_down env ((usleep1 env s)\<lparr>cw_memory0 := cw_input (sh (usleep1 env s))\<rparr>) else Some s)"
  by (subst key_down.simps) (simp add: Let_def)

lemma key_down_returns: "\<exists>s'. key_down env s = Some s' \<and> cw_settings (sh s') = cw_settings (sh s)"
proof (induction "T - now s" arbitrary: s rule: less_induct)
  case less
  let ?u = "(usleep1 env s)\<lparr>cw_memory0 := cw_input (sh (usleep1 env s))\<rparr>"
  have "\<exists>s'. key_down env ?u = Some s' \<and> cw_settings (sh s') = cw_settings (sh s)"
  proof (cases "T \<le> now s")
    case True
    then have "cw_memory0 ?u = 0" by (simp add: usleep1_def no_input)
    then have "key_down env ?u = Some ?u" by (subst key_down_step) simp
    then show ?thesis by simp
  next
    case False
    then show ?thesis using less.hyps [of ?u] by simp
  qed
  then show ?case by (subst key_down_step) auto
qed

lemma straight_key_returns:
  assumes "\<not> line 2 s" and "cw_speed (sh s) \<noteq> 0"
  shows "\<exists>s'. straight_key env s = Some s'"
proof -
  obtain s1 where on: "cw_on env s = Some s1" "line 2 s1" "cw_settings (sh s1) = cw_settings (sh s)"
    using cw_on_trace [OF assms] by blast
  obtain s2 where kd: "key_down env s1 = Some s2" "cw_settings (sh s2) = cw_settings (sh s1)"
    using key_down_returns by blast
  have "line 2 s2" using key_down_lines [OF kd(1)] on(2) by (simp add: same_lines_def line_def)
  moreover have "cw_speed (sh s2) \<noteq> 0" using assms(2) settings_ms(4) kd(2) on(3) by metis
  ultimately show ?thesis using cw_off_trace [of s2] on kd by (auto simp: straight_key_def)
qed

lemma straight_dot_returns:
  assumes "\<not> line 2 s" and "cw_speed (sh s) \<noteq> 0"
  shows "\<exists>s'. straight_dot env s = Some s'"
proof -
  obtain s1 where on: "cw_on env s = Some s1" "line 2 s1" "cw_settings (sh s1) = cw_settings (sh s)"
    using cw_on_trace [OF assms] by blast
  have sp1: "cw_speed (sh s1) \<noteq> 0" using assms(2) settings_ms(4) [OF on(3)] by simp
  define d where "d = 1200 div (1 * uint (cw_speed (sh s1))) - uint (cw_delay (sh s1))"
  define s2 where "s2 = (if 0 < d then (usleep1 env ^^ nat d) s1 else s1)"
  have pow: "cw_settings (sh ((usleep1 env ^^ n) s1)) = cw_settings (sh s1)" for n by (induction n) simp_all
  have "same_lines s1 s2" using wait_lines by (simp add: s2_def)
  then have l2: "line 2 s2" using on(2) by (simp add: same_lines_def line_def)
  have set2: "cw_settings (sh s2) = cw_settings (sh s1)" by (simp add: s2_def pow)
  have "cw_speed (sh s2) \<noteq> 0" using sp1 settings_ms(4) [OF set2] by simp
  from cw_off_trace [OF l2 this] obtain s3 where
    off: "cw_off env s2 = Some s3" "cw_settings (sh s3) = cw_settings (sh s2)" by blast
  have "cw_speed (sh s3) \<noteq> 0" using sp1 settings_ms(4) off(2) set2 by metis
  from cw_space_delay_some [OF this, of True] obtain s4 where sp: "cw_space_delay env True s3 = Some s4" by blast
  have od: "over_speed 1200 1 (sh s1) = Some (1200 div (1 * uint (cw_speed (sh s1))))" using sp1 by (simp add: over_speed_def)
  have "straight_dot env s = Some s4"
    unfolding straight_dot_def Let_def on(1) od bind.bind_lunit d_def [symmetric] s2_def [symmetric] off(1) by (rule sp)
  then show ?thesis by blast
qed

lemma keyer_pass_returns:
  assumes "ready s"
  shows "\<exists>s'. keyer_pass env s = Some s'"
proof -
  let ?u = "ptt_tail (usleep1 env s)"
  let ?m = "?u\<lparr>cw_memory0 := cw_input (sh ?u)\<rparr>"
  have "\<not> line 2 (usleep1 env s)" using assms usleep1_lines [of s] by (simp add: ready_def same_lines_def line_def)
  then have l: "\<not> line 2 ?m" "\<not> line 2 (?m\<lparr>cw_memory1 := x\<rparr>)" for x
    by (simp_all add: ptt_tail_def cw_ptt_off_def Let_def line_def bit_and_iff bit_or_iff bit_not_iff)
  have sp: "cw_speed (sh ?m) \<noteq> 0" using assms settings_ms(4) [of "sh ?u" "sh s"] by (simp add: ready_def)
  have "ready (?m\<lparr>cw_memory1 := cw_memory0 ?m\<rparr>)" using l sp by (simp add: ready_def mem_small_def)
  from iambic_returns [OF this, of True] straight_key_returns [OF l(1) sp] straight_dot_returns [OF l(1) sp]
  show ?thesis by (simp add: keyer_pass_def Let_def)
qed

text \<open>PTT is held for the hang time.\<close>

lemma idle_pass: "T \<le> now s \<Longrightarrow> keyer_pass env s = Some ((ptt_tail (usleep1 env s))\<lparr>cw_memory0 := 0\<rparr>)"
  by (simp add: keyer_pass_def Let_def usleep1_def no_input)

lemma ptt_held:
  "T \<le> now s \<Longrightarrow> flags_match s \<Longrightarrow> (cw_ptt (sh s) \<noteq> 0 \<longrightarrow> 0 < cw_ptt_delay s) \<Longrightarrow>
   \<exists>s'. handler_keyer env n s = Some s' \<and> line 5 s' = (line 5 s \<and> int n < cw_ptt_delay s)"
proof (induction n arbitrary: s)
  case 0
  then show ?case by (auto simp: flags_match_def)
next
  case (Suc n)
  define u where "u = usleep1 env s"
  have u: "line i u = line i s" "cw_ptt (sh u) = cw_ptt (sh s)" "tx_mux_data (sh u) = tx_mux_data (sh s)" "cw_ptt_delay u = cw_ptt_delay s" for i
    using usleep1_lines [of s] by (simp_all add: u_def same_lines_def line_def usleep1_def)
  define v where "v = (ptt_tail u)\<lparr>cw_memory0 := 0\<rparr>"
  have pass: "keyer_pass env s = Some v" using idle_pass [OF Suc.prems(1)] by (simp add: v_def u_def)
  have T: "T \<le> now v" using Suc.prems(1) by (simp add: v_def u_def)
  have fm: "flags_match u" using Suc.prems(2) by (simp add: flags_match_def u)
  have v: "flags_match v \<and> (cw_ptt (sh v) \<noteq> 0 \<longrightarrow> 0 < cw_ptt_delay v) \<and>
      (line 5 v \<and> int n < cw_ptt_delay v) = (line 5 s \<and> int (Suc n) < cw_ptt_delay s)"
  proof (cases "cw_ptt (sh s) = 0")
    case True
    then have "v = u\<lparr>cw_memory0 := 0\<rparr>" by (simp add: v_def ptt_tail_def u)
    then show ?thesis using True fm Suc.prems(2) by (simp add: flags_match_def line_def u [unfolded line_def])
  next
    case False
    show ?thesis
    proof (cases "1 < cw_ptt_delay s")
      case True
      then have v_eq: "v = u\<lparr>cw_ptt_delay := cw_ptt_delay s - 1, cw_memory0 := 0\<rparr>"
        using False by (simp add: v_def ptt_tail_def cw_ptt_off_def u Let_def)
      then show ?thesis using True fm Suc.prems(2) by (auto simp: v_eq flags_match_def line_def u [unfolded line_def])
    next
      case le: False
      have "\<not> line 5 v" "flags_match v" "cw_ptt (sh v) = 0"
        using False le fm
        by (simp_all add: v_def ptt_tail_def cw_ptt_off_def u Let_def flags_match_def line_def bit_and_iff bit_or_iff bit_not_iff)
      then show ?thesis using le by simp
    qed
  qed
  from Suc.IH [OF T] v show ?case by (simp add: pass)
qed

end

section \<open>The host and the paddles\<close>

text \<open>While the thread sleeps the host's commands are processed and the input pins change.\<close>

definition host_env :: "variant \<Rightarrow> (nat \<Rightarrow> u8) \<Rightarrow> (nat \<Rightarrow> u8 list list) \<Rightarrow> env" where
  "host_env v pins frames t h = foldl (\<lambda>h frame. process_ep2 v frame h) (h\<lparr>gpio_in := pins t\<rparr>) (frames t)"

definition paddle_env :: "(nat \<Rightarrow> u8) \<Rightarrow> env" where
  "paddle_env pins t h = h\<lparr>gpio_in := pins t\<rparr>"

interpretation paddles: steady_env "paddle_env pins" for pins
  by unfold_locales (simp_all add: paddle_env_def cw_settings_def)

interpretation let_go: released_env "paddle_env (\<lambda>t. if t < T then pins t else 0)" T for pins T
  by unfold_locales (simp_all add: paddle_env_def cw_input_def)

text \<open>No command of the host touches the variables of the keyer.\<close>

definition keyer_view :: "hpsdr \<Rightarrow> u8 \<times> u8" where
  "keyer_view h = (cw_ptt h, tx_mux_data h)"

named_theorems view_simps \<open>operations that leave the keyer's variables alone\<close>

lemma keyer_view_store [view_simps]:
  "keyer_view (pene_store d s) = keyer_view s" "keyer_view (dac0_store d s) = keyer_view s"
  "keyer_view (ocant_store x s) = keyer_view s" "keyer_view (ftx_store d s) = keyer_view s"
  "keyer_view (frx1_store d s) = keyer_view s" "keyer_view (frx2_store d s) = keyer_view s"
  "keyer_view (alex_i2c_store d s) = keyer_view s" "keyer_view (level_store d s) = keyer_view s"
  "keyer_view (drive_store d s) = keyer_view s" "keyer_view (txatt_store x s) = keyer_view s"
  "keyer_view (rxatt_store d s) = keyer_view s" "keyer_view (boost_store b s) = keyer_view s"
  "keyer_view (alex0_store d s) = keyer_view s" "keyer_view (alex1_store d s) = keyer_view s"
  "keyer_view (misc0_store d s) = keyer_view s" "keyer_view (misc1_store d s) = keyer_view s"
  "keyer_view (misc2_store d s) = keyer_view s" "keyer_view (nucleo0_store d s) = keyer_view s"
  "keyer_view (nucleo1_store d s) = keyer_view s" "keyer_view (nucleo2_store d s) = keyer_view s"
  "keyer_view (nucleo3_store d s) = keyer_view s" "keyer_view (flag_updates s) = keyer_view s"
  "keyer_view (icom_write s) = keyer_view s"
  by (simp_all add: keyer_view_def i2c_store_defs flag_store_defs icom_write_def Let_def emit_def)

lemma keyer_view_put [view_simps]:
  "keyer_view (put8 a b s) = keyer_view s" "keyer_view (put16 a w s) = keyer_view s"
  "keyer_view (put32 a x s) = keyer_view s" "keyer_view (pulse8 a b s) = keyer_view s"
  by (simp_all add: keyer_view_def put8_def put16_def put32_def pulse8_def set8_def clr8_def)

lemma keyer_view_fields [view_simps]:
  "keyer_view (s\<lparr>receivers := n\<rparr>) = keyer_view s" "keyer_view (s\<lparr>rate := n\<rparr>) = keyer_view s"
  "keyer_view (s\<lparr>rx_sync_data := w\<rparr>) = keyer_view s" "keyer_view (s\<lparr>tx_eer_data := b\<rparr>) = keyer_view s"
  "keyer_view (s\<lparr>freq_data := f\<rparr>) = keyer_view s" "keyer_view (s\<lparr>rx_att_data := b\<rparr>) = keyer_view s"
  "keyer_view (s\<lparr>cw_hang := w\<rparr>) = keyer_view s" "keyer_view (s\<lparr>cw_int_data := b\<rparr>) = keyer_view s"
  "keyer_view (s\<lparr>dac_level_data := b\<rparr>) = keyer_view s" "keyer_view (s\<lparr>cw_delay := b\<rparr>) = keyer_view s"
  "keyer_view (s\<lparr>cw_reversed := b\<rparr>) = keyer_view s" "keyer_view (s\<lparr>cw_speed := b\<rparr>) = keyer_view s"
  "keyer_view (s\<lparr>cw_mode := b\<rparr>) = keyer_view s" "keyer_view (s\<lparr>cw_weight := b\<rparr>) = keyer_view s"
  "keyer_view (s\<lparr>cw_spacing := b\<rparr>) = keyer_view s" "keyer_view (s\<lparr>gpio_in := b\<rparr>) = keyer_view s"
  by (simp_all add: keyer_view_def)

lemma keyer_view_ep2 [view_simps]: "keyer_view (process_ep2 v frame s) = keyer_view s"
  by (rule process_ep2_cases) (simp_all add: ep2_defs Let_def view_simps)

lemma host_env_keeps:
  "cfg (host_env v pins frames t h) tx_rst = cfg h tx_rst \<and> keyer_view (host_env v pins frames t h) = keyer_view h"
  unfolding host_env_def
  by (rule foldl_invariant [where I = "\<lambda>s. cfg s tx_rst = cfg h tx_rst \<and> keyer_view s = keyer_view h"])
    (simp_all add: view_simps process_ep2_keeps host_reg_def tx_rst_def)

interpretation host: quiet_env "host_env v pins frames" for v pins frames
  using host_env_keeps [of v pins frames] by unfold_locales (simp_all add: keyer_view_def)

section \<open>Properties\<close>

text \<open>C1: whatever the paddles and the commands of the host do meanwhile, the keyer never
  turns RF on unless PTT and the transmit multiplexer are on, it ends each pass of its loop with RF off, and
  its flags \<open>cw_ptt\<close> and \<open>tx_mux_data\<close> then say what the lines are.\<close>

theorem keyer_rf_needs_ptt:
  assumes "unkeyed s" and "handler_keyer (host_env v pins frames) n s = Some s'"
  shows "rf_safe (trace s') \<and> \<not> line 2 s' \<and> flags_match s'"
  using host.handler_unkeyed [OF assms] by (simp add: unkeyed_def)

lemma unkeyed_start:
  "unkeyed \<lparr>sh = hpsdr_start, cw_memory0 = 0, cw_memory1 = 0, cw_ptt_delay = 0, now = 0, trace = []\<rparr>"
  by (simp add: unkeyed_def flags_match_def line_def hpsdr_start_def)

definition keyer_start :: keyer where
  "keyer_start = \<lparr>sh = hpsdr_start, cw_memory0 = 0, cw_memory1 = 0, cw_ptt_delay = 0, now = 0, trace = []\<rparr>"

theorem keyer_rf_needs_ptt_witness:
  "\<exists>s'. handler_keyer (host_env hpsdr_125 (\<lambda>_. 0) (\<lambda>_. [])) 1 keyer_start = Some s' \<and> \<not> line 2 s'"
proof -
  have "keyer_pass (host_env hpsdr_125 (\<lambda>_. 0) (\<lambda>_. [])) keyer_start =
      Some ((usleep1 (host_env hpsdr_125 (\<lambda>_. 0) (\<lambda>_. [])) keyer_start)\<lparr>cw_memory0 := 0\<rparr>)"
    by (simp add: keyer_pass_def Let_def ptt_tail_def usleep1_def host_env_def cw_input_def keyer_start_def hpsdr_start_def)
  then show ?thesis
    using keyer_rf_needs_ptt [OF unkeyed_start, of hpsdr_125 "\<lambda>_. 0" "\<lambda>_. []" 1]
    by (simp add: keyer_start_def)
qed

text \<open>C3: each element of the iambic keyer turns RF on once, for \<open>1200 / cw_speed\<close>
  milliseconds for a dot whatever the key-on delay is; a dash lasts \<open>3600 * cw_weight / (50 * cw_speed)\<close>
  milliseconds (three dots at the standard weight) when the delay is not longer than a dot, and is
  shortened by the excess of the delay over a dot otherwise.\<close>

theorem element_duration:
  assumes "\<not> line 2 s" and "cw_speed (sh s) \<noteq> 0"
  shows "\<exists>s' es. element (paddle_env pins) st s = Some s' \<and> trace s' = trace s @ es \<and>
    (let dot = 1200 div unat (cw_speed (sh s)); delay = unat (cw_delay (sh s));
         dash = 3600 * unat (cw_weight (sh s)) div (50 * unat (cw_speed (sh s)))
     in rf_ms None es = (if st then dot else if delay \<le> dot \<and> delay \<le> dash then dash else (dash - delay) + min delay dot))"
proof -
  obtain s' es where e: "element (paddle_env pins) st s = Some s'" "trace s' = trace s @ es"
    "rf_ms None es = ((if st then dot_ms (sh s) else dash_ms (sh s)) - unat (cw_delay (sh s))) + lead_ms (sh s)"
    using paddles.element_trace [OF assms, where pins = pins and st = st] by blast
  then have "let dot = 1200 div unat (cw_speed (sh s)); delay = unat (cw_delay (sh s));
         dash = 3600 * unat (cw_weight (sh s)) div (50 * unat (cw_speed (sh s)))
     in rf_ms None es = (if st then dot else if delay \<le> dot \<and> delay \<le> dash then dash else (dash - delay) + min delay dot)"
    by (cases st) (auto simp add: Let_def lead_ms_def dot_ms_def dash_ms_def min_def)
  with e show ?thesis by blast
qed

theorem element_duration_witness:
  "\<exists>s' es. element (paddle_env (\<lambda>_. 2)) False keyer_start = Some s' \<and> trace s' = es \<and> rf_ms None es = 144"
  using element_duration [of keyer_start "\<lambda>_. 2" False]
  by (simp add: Let_def keyer_start_def hpsdr_start_def line_def)

text \<open>C2: with a speed other than 0, if the paddles are released at some time, a
  pass of the keyer (a straight key, a dot of the second contact, or a whole iambic run) comes to an
  end with RF off, whatever was keyed before.\<close>

theorem keyer_pass_returns_when_released:
  assumes "unkeyed s" and "cw_speed (sh s) \<noteq> 0" and "small (cw_memory0 s)" and "small (cw_memory1 s)"
  shows "\<exists>s'. keyer_pass (paddle_env (\<lambda>t. if t < T then pins t else 0)) s = Some s' \<and> unkeyed s'"
proof -
  have "let_go.ready s" using assms by (simp add: let_go.ready_def unkeyed_def mem_small_def)
  then obtain s' where "keyer_pass (paddle_env (\<lambda>t. if t < T then pins t else 0)) s = Some s'"
    using let_go.keyer_pass_returns by blast
  with paddles.keyer_pass_unkeyed [OF assms(1)] show ?thesis by blast
qed

theorem keyer_pass_returns_when_released_witness:
  "\<exists>s'. keyer_pass (paddle_env (\<lambda>t. if t < 500 then 6 else 0)) (keyer_start\<lparr>sh := hpsdr_start\<lparr>cw_int_data := 1, cw_mode := 2\<rparr>\<rparr>) = Some s' \<and> unkeyed s'"
  using keyer_pass_returns_when_released [of "keyer_start\<lparr>sh := hpsdr_start\<lparr>cw_int_data := 1, cw_mode := 2\<rparr>\<rparr>" 500 "\<lambda>_. 6"]
  by (simp add: unkeyed_def flags_match_def line_def keyer_start_def hpsdr_start_def)

text \<open>After the end of a signal, with the paddles released, PTT stays on for exactly the
  hang time that the host set, in milliseconds (10 if it is 0), and then goes off.\<close>

theorem ptt_hang_time:
  assumes "keyed s" and "cw_off (paddle_env (\<lambda>t. if t < T then pins t else 0)) s = Some s1"
    and "cw_speed (sh s) \<noteq> 0" and "T \<le> now s1"
  shows "\<exists>s'. handler_keyer (paddle_env (\<lambda>t. if t < T then pins t else 0)) n s1 = Some s' \<and>
    line 5 s' = (n < (if cw_hang (sh s) = 0 then 10 else unat (cw_hang (sh s))))"
proof -
  let ?env = "paddle_env (\<lambda>t. if t < T then pins t else 0)"
  have k: "line 2 s" using assms(1) by (simp add: keyed_def)
  have off: "\<not> line 2 s1" "cw_ptt_delay s1 = (if 0 < cw_hang (sh s) then uint (cw_hang (sh s)) else 10)"
    using paddles.cw_off_trace [OF k assms(3), where pins = "\<lambda>t. if t < T then pins t else 0"] assms(2) by auto
  have un: "unkeyed s1" using paddles.cw_off_unkeyed [OF assms(1,2)] .
  have ptt: "line 5 s1" using paddles.cw_off_ptt [OF assms(1,2)] .
  have "0 < cw_ptt_delay s1" using off(2) by (simp add: word_less_def)
  then obtain s' where "handler_keyer ?env n s1 = Some s'" "line 5 s' = (line 5 s1 \<and> int n < cw_ptt_delay s1)"
    using let_go.ptt_held [OF assms(4), where n = n and pins = pins] un by (auto simp: unkeyed_def)
  moreover have "int n < uint (cw_hang (sh s)) \<longleftrightarrow> n < unat (cw_hang (sh s))"
    by (metis of_nat_less_iff of_nat_unat)
  ultimately show ?thesis
    using ptt off(2) by (auto simp: word_gt_0)
qed

definition keyer_sending :: keyer where
  "keyer_sending = keyer_start\<lparr>sh := hpsdr_start\<lparr>cfg := (\<lambda>_. 0)(2 := 0x34), cw_ptt := 1, tx_mux_data := 1, cw_hang := 300\<rparr>\<rparr>"

theorem ptt_hang_time_witness:
  "\<exists>s1 s2 s3. cw_off (paddle_env (\<lambda>t. if t < 0 then 0 else 0)) keyer_sending = Some s1 \<and>
     handler_keyer (paddle_env (\<lambda>t. if t < 0 then 0 else 0)) 299 s1 = Some s2 \<and> line 5 s2 \<and>
     handler_keyer (paddle_env (\<lambda>t. if t < 0 then 0 else 0)) 300 s1 = Some s3 \<and> \<not> line 5 s3"
proof -
  have k: "keyed keyer_sending"
    by (simp add: keyed_def flags_match_def line_def keyer_sending_def keyer_start_def hpsdr_start_def tx_rst_def word_bits)
  have sp: "cw_speed (sh keyer_sending) \<noteq> 0" "line 2 keyer_sending"
    using k by (simp_all add: keyer_sending_def keyed_def hpsdr_start_def)
  obtain s1 where off: "cw_off (paddle_env (\<lambda>t. if t < 0 then 0 else 0)) keyer_sending = Some s1"
    using paddles.cw_off_trace [OF sp(2,1)] by blast
  show ?thesis
    using ptt_hang_time [OF k off sp(1), of 299] ptt_hang_time [OF k off sp(1), of 300] off
    by (simp add: keyer_sending_def)
qed

lemma speed_zero:
  assumes "cw_speed (sh s) = 0"
  shows "cw_on env s = None" "straight_key env s = None" "straight_dot env s = None" "element env st s = None"
  using assms by (simp_all add: cw_on_def straight_key_def straight_dot_def element_def short_delay_def over_speed_def)

lemma iambic_speed_zero:
  assumes "cw_speed (sh s) = 0" and "small (cw_memory1 s)" and "cw_memory1 s \<noteq> 0"
  shows "iambic env st s = None"
proof -
  have hit: "iambic env st' s = None" if "cw_memory1 s AND paddle st' \<noteq> 0" for st'
    by (subst iambic.simps) (simp add: that speed_zero(4) [OF assms(1)])
  show ?thesis
  proof (cases "cw_memory1 s AND paddle st = 0")
    case True
    then have "iambic env (\<not> st) s = None" using hit small_paddles assms by blast
    with True assms(3) show ?thesis by (subst iambic.simps) simp
  qed (rule hit)
qed

lemma ep2_att2_speed: "cw_speed (ep2_att2 frame s) = frame ! 3 AND 63"
  by (simp add: ep2_att2_def Let_def rxatt_store_def emit_def)

text \<open>The host can set the keyer's speed to 0, and with that speed the next press of
  a paddle divides by zero in \<open>cw_on\<close>: the keyer thread does not complete the pass.\<close>

theorem keyer_speed_zero:
  assumes "frame ! 0 \<in> {22, 23}" and "frame ! 3 AND 63 = 0" and "sh s = process_ep2 v frame h"
    and "cw_input ((sh s)\<lparr>gpio_in := pins (now s)\<rparr>) \<noteq> 0"
  shows "keyer_pass (paddle_env pins) s = None"
proof -
  let ?u = "ptt_tail (usleep1 (paddle_env pins) s)"
  have "cw_speed (sh s) = 0" using assms(1-3) by (simp add: process_ep2_switch ep2_att2_speed)
  moreover have "cw_settings (sh ?u) = cw_settings (sh s)" by (simp add: usleep1_def paddle_env_def cw_settings_def [of "sh s"]) (simp add: cw_settings_def)
  ultimately have z: "cw_speed (sh ?u) = 0" by (simp add: cw_settings_def)
  have inp: "cw_input (sh ?u) \<noteq> 0" using assms(4) by (simp add: usleep1_def paddle_env_def)
  let ?m = "?u\<lparr>cw_memory0 := cw_input (sh ?u)\<rparr>"
  have "straight_key (paddle_env pins) ?m = None" "straight_dot (paddle_env pins) ?m = None"
    using z by (simp_all add: speed_zero)
  moreover have "iambic (paddle_env pins) True (?m\<lparr>cw_memory1 := cw_memory0 ?m\<rparr>) = None"
    using z inp by (intro iambic_speed_zero) simp_all
  ultimately show ?thesis using inp by (simp add: keyer_pass_def Let_def)
qed

theorem keyer_speed_zero_witness:
  "keyer_pass (paddle_env (\<lambda>_. 2)) (keyer_start\<lparr>sh := process_ep2 hpsdr_125 [22, 0, 0, 0x80, 50] (hpsdr_start\<lparr>cw_int_data := 1\<rparr>)\<rparr>) = None"
  using keyer_speed_zero [of "[22, 0, 0, 0x80, 50]" "keyer_start\<lparr>sh := process_ep2 hpsdr_125 [22, 0, 0, 0x80, 50] (hpsdr_start\<lparr>cw_int_data := 1\<rparr>)\<rparr>"
      hpsdr_125 "hpsdr_start\<lparr>cw_int_data := 1\<rparr>" "\<lambda>_. 2"]
  by (simp add: process_ep2_switch ep2_att2_def hpsdr_start_def cw_input_def keyer_start_def)

end
