(* ===== verification/Loops.thy ===== *)
theory Loops imports Prelude "HOL-Library.Monad_Syntax" begin

text \<open>
  Loops of the servers as functions: waiting for a counter of the FPGA, and handling a sequence of
  inputs (datagrams, commands) one after the other.  \<open>None\<close> is a loop that never ends, or a session
  that ends with an error.  The locales state what a step of a sequence has to promise so that the
  whole sequence keeps an invariant, and so that it never gets stuck.
\<close>

section \<open>Waiting\<close>

text \<open>\<open>while(*cntr < need) usleep(\<dots>);\<close>, \<open>while(*cntr > limit) usleep(\<dots>);\<close> and
  \<open>while(flag) usleep(\<dots>);\<close> over the successive values that are read; the result is the number of the
  first reading that ends the loop.\<close>

partial_function (option) await :: "(nat \<Rightarrow> u16) \<Rightarrow> nat \<Rightarrow> nat \<Rightarrow> nat option" where
  "await cntr need t = (if unat (cntr t) < need then await cntr need (t + 1) else Some t)"

partial_function (option) await_below :: "(nat \<Rightarrow> u16) \<Rightarrow> nat \<Rightarrow> nat \<Rightarrow> nat option" where
  "await_below cntr limit t = (if unat (cntr t) > limit then await_below cntr limit (t + 1) else Some t)"

partial_function (option) await_clear :: "(nat \<Rightarrow> bool) \<Rightarrow> nat \<Rightarrow> nat option" where
  "await_clear flag t = (if flag t then await_clear flag (t + 1) else Some t)"

lemma await_returns: "need \<le> unat (cntr (t + d)) \<Longrightarrow> \<exists>t'. await cntr need t = Some t'"
proof (induction d arbitrary: t)
  case 0
  then show ?case by (subst await.simps) simp
next
  case (Suc d)
  then show ?case using Suc.IH [of "Suc t"] by (subst await.simps) simp
qed

lemma await_below_returns: "unat (cntr (t + d)) \<le> limit \<Longrightarrow> \<exists>t'. await_below cntr limit t = Some t'"
proof (induction d arbitrary: t)
  case 0
  then show ?case by (subst await_below.simps) simp
next
  case (Suc d)
  then show ?case using Suc.IH [of "Suc t"] by (subst await_below.simps) simp
qed

lemma await_clear_returns: "\<not> flag (t + d) \<Longrightarrow> \<exists>t'. await_clear flag t = Some t'"
proof (induction d arbitrary: t)
  case 0
  then show ?case by (subst await_clear.simps) simp
next
  case (Suc d)
  then show ?case using Suc.IH [of "Suc t"] by (subst await_clear.simps) simp
qed

lemma await_reached: "await cntr need t = Some t' \<Longrightarrow> need \<le> unat (cntr t')"
  by (rule await.raw_induct [of "\<lambda>cntr need t t'. need \<le> unat (cntr t')"]) (auto split: if_splits simp: not_less)

lemma await_below_reached: "await_below cntr limit t = Some t' \<Longrightarrow> unat (cntr t') \<le> limit"
  by (rule await_below.raw_induct [of "\<lambda>cntr limit t t'. unat (cntr t') \<le> limit"]) (auto split: if_splits simp: not_less)

lemma await_clear_reached: "await_clear flag t = Some t' \<Longrightarrow> \<not> flag t'"
  by (rule await_clear.raw_induct [of "\<lambda>flag t t'. \<not> flag t'"]) (auto split: if_splits)

section \<open>Sequences of inputs\<close>

fun run_all :: "('i \<Rightarrow> 's \<Rightarrow> 's option) \<Rightarrow> 'i list \<Rightarrow> 's \<Rightarrow> 's option" where
  "run_all step [] s = Some s"
| "run_all step (i # is) s = do { s1 \<leftarrow> step i s; run_all step is s1 }"

lemma run_all_append: "run_all step (is @ js) s = do { s1 \<leftarrow> run_all step is s; run_all step js s1 }"
  by (induction "is" arbitrary: s) (simp_all split: bind_split)

text \<open>Steps that keep an invariant, on the inputs that \<open>guard\<close> admits.\<close>

locale stepwise =
  fixes step :: "'i \<Rightarrow> 's \<Rightarrow> 's option" and inv :: "'s \<Rightarrow> bool" and guard :: "'i \<Rightarrow> bool"
  assumes step_inv: "inv s \<Longrightarrow> guard i \<Longrightarrow> step i s = Some t \<Longrightarrow> inv t"
begin

lemma run_inv: "inv s \<Longrightarrow> \<forall>i \<in> set is. guard i \<Longrightarrow> run_all step is s = Some t \<Longrightarrow> inv t"
  by (induction "is" arbitrary: s) (auto simp: bind_eq_Some_conv dest: step_inv)

end

text \<open>Steps that besides never get stuck.\<close>

locale progressing = stepwise +
  assumes step_some: "inv s \<Longrightarrow> guard i \<Longrightarrow> step i s \<noteq> None"
begin

lemma run_some: "inv s \<Longrightarrow> \<forall>i \<in> set is. guard i \<Longrightarrow> \<exists>t. run_all step is s = Some t \<and> inv t"
proof (induction "is" arbitrary: s)
  case (Cons i "is")
  then obtain s1 where s1: "step i s = Some s1" using step_some [of s i] by auto
  with Cons show ?case using step_inv [of s i s1] by auto
qed simp

end

end
