(* ===== verification/Datagrams.thy ===== *)
theory Datagrams imports Prelude begin

text \<open>
  The layout of the UDP datagrams that the two servers with the HPSDR protocol send: 1032 bytes, of
  which the first eight hold a magic number and the sequence number; then two halves of 512 bytes, each
  with one of five headers of 8 bytes in turn.
\<close>

definition half_pos :: "nat \<Rightarrow> nat" where
  "half_pos i = i * 516 - i mod 2 * 4 + 8"

definition next_header :: "nat \<Rightarrow> nat" where
  "next_header ho = (if ho \<ge> 32 then 0 else ho + 8)"

definition header_ok :: "nat \<Rightarrow> bool" where
  "header_ok ho \<longleftrightarrow> ho \<in> {0, 8, 16, 24, 32}"

lemma next_header_ok: "header_ok ho \<Longrightarrow> header_ok (next_header ho)"
  by (auto simp: header_ok_def next_header_def)

lemma half_pos_even: "half_pos (2 * d) = d * 1032 + 8" "half_pos (2 * d + 1) = d * 1032 + 520"
  by (simp_all add: half_pos_def)

lemma half_pos_inside: "i < 2 * m \<Longrightarrow> half_pos i + 512 \<le> m * 1032"
proof -
  assume i: "i < 2 * m"
  define d where "d = i div 2"
  have d: "d + 1 \<le> m" using i by (simp add: d_def)
  then have "(d + 1) * 1032 \<le> m * 1032" by (rule mult_right_mono) simp
  moreover have "half_pos i \<le> d * 1032 + 520"
  proof (cases "even i")
    case True
    then have "i = 2 * d" by (simp add: d_def)
    then show ?thesis by (simp only: half_pos_even)
  next
    case False
    then have "i = 2 * d + 1" by (simp add: d_def)
    then show ?thesis by (simp only: half_pos_even)
  qed
  ultimately show ?thesis by simp
qed

lemma half_pos_step: "half_pos i + 512 \<le> half_pos (i + 1)"
proof (cases "even i")
  case True
  then obtain d where "i = 2 * d" by blast
  then show ?thesis using half_pos_even [of d] by simp
next
  case False
  then obtain d where "i = 2 * d + 1" by (blast elim: oddE)
  then show ?thesis using half_pos_even(2) [of d] half_pos_even(1) [of "d + 1"] by simp
qed

lemma half_pos_mono: "i < i' \<Longrightarrow> half_pos i + 512 \<le> half_pos i'"
proof (induction i')
  case (Suc i')
  then show ?case using half_pos_step [of i'] by (cases "i = i'") auto
qed simp

lemma receivers_cases: "1 \<le> r \<Longrightarrow> r \<le> (8::nat) \<Longrightarrow> r \<in> {1, 2, 3, 4, 5, 6, 7, 8}"
  by auto

lemma chunk_0 [simp]: "chunk a 0 xs = []"
  by (simp add: chunk_def)

lemma blit_Nil [simp]: "blit dst a [] = dst"
  by (simp add: blit_def)

end
