(* ===== verification/HpsdrEp6.thy ===== *)
theory HpsdrEp6 imports HpsdrEp2Props Loops Datagrams begin

text \<open>
  The stream thread \<open>handler_ep6\<close> of sdr-transceiver-hpsdr.c, which packs the samples of the
  receivers and of the codec into UDP datagrams.  One round of its loop is a function of the local
  variables, the shared state and what the round reads from outside (counters, FIFOs, pins, and the sample rate setting, which
  the main loop may change meanwhile); it is \<open>None\<close> if it waits for ever or a copy leaves one of its arrays.
\<close>

record ep6 =
  header_offset :: nat
  counter :: u32
  rate_counter :: int
  k_audio :: nat
  audio :: "u32 list"
  buffer :: "u8 list"

record ep6_io =
  io_adc_cntr :: u16
  io_rx_cntr :: "nat \<Rightarrow> u16"
  io_codec :: "u32 list"
  io_fifo :: "u8 list"
  io_gpio :: "nat \<Rightarrow> u8"
  io_ptt :: "nat \<Rightarrow> u8"
  io_xadc :: "nat \<Rightarrow> u32"
  io_rate :: "nat \<Rightarrow> nat"

definition ep6_header :: "u8 list" where
  "ep6_header =
    [127, 127, 127, 0, 0, 33, 17, 21,
     127, 127, 127, 8, 0, 0, 0, 0,
     127, 127, 127, 16, 0, 0, 0, 0,
     127, 127, 127, 24, 0, 0, 0, 0,
     127, 127, 127, 32, 66, 66, 66, 66]"

section \<open>Geometry of a datagram\<close>

definition ep6_size :: "nat \<Rightarrow> nat" where "ep6_size rcvrs = rcvrs * 6 + 2"
definition ep6_n :: "nat \<Rightarrow> nat" where "ep6_n sz = 504 div sz"
definition ep6_m :: "nat \<Rightarrow> nat" where "ep6_m n = 256 div n"

section \<open>Filling a half datagram\<close>

text \<open>\<open>memcpy(dst + p, src + q, n)\<close>, \<open>None\<close> when it would leave one of the arrays.\<close>

definition checked_copy :: "'a list \<Rightarrow> nat \<Rightarrow> 'a list \<Rightarrow> nat \<Rightarrow> nat \<Rightarrow> 'a list option" where
  "checked_copy dst p src q n = (if q + n \<le> length src \<and> p + n \<le> length dst then Some (blit dst p (chunk q n src)) else None)"

definition ep6_frame :: "variant \<Rightarrow> nat \<Rightarrow> u8 list \<Rightarrow> nat \<Rightarrow> nat \<Rightarrow> u8 list \<Rightarrow> u8 list option" where
  "ep6_frame v sz data data_offset p payload =
    do { p1 \<leftarrow> checked_copy payload p data data_offset (if sz > 14 then 12 else sz - 2);
         if sz > 14
         then if v_thetis v then checked_copy p1 (p + 12) data (12 + data_offset) (if sz > 32 then 18 else sz - 14)
              else checked_copy p1 (p + 12) data (18 + data_offset) (if sz > 26 then 12 else sz - 14)
         else Some p1 }"

text \<open>\<open>n\<close> passes of the loop over \<open>j\<close>; \<open>codec\<close> is \<open>i2c_codec\<close>, and \<open>rt\<close> are the values of \<open>rate\<close> at its readings.\<close>

fun ep6_frames :: "variant \<Rightarrow> bool \<Rightarrow> (nat \<Rightarrow> nat) \<Rightarrow> u32 list \<Rightarrow> nat \<Rightarrow> u8 list \<Rightarrow> nat \<Rightarrow> nat \<Rightarrow> nat \<Rightarrow> nat \<Rightarrow> u8 list \<Rightarrow>
    (nat \<times> u8 list) option" where
  "ep6_frames v codec rt aud sz data 0 data_offset p k payload = Some (k, payload)"
| "ep6_frames v codec rt aud sz data (Suc n) data_offset p k payload =
    do { payload1 \<leftarrow> ep6_frame v sz data data_offset p payload;
         if codec
         then if k div 2 ^ rt 0 < 512
              then do { payload2 \<leftarrow> checked_copy payload1 (p + sz - 2) (le16 (ucast (aud ! (k div 2 ^ rt 0)))) 0 2;
                        ep6_frames v codec (\<lambda>j. rt (Suc j)) aud sz data n (data_offset + 32) (p + sz) (k + 1) payload2 }
              else None
         else ep6_frames v codec (\<lambda>j. rt (Suc j)) aud sz data n (data_offset + 32) (p + sz) k payload1 }"

definition ep6_head :: "nat \<Rightarrow> u8 \<Rightarrow> u8 \<Rightarrow> (nat \<Rightarrow> u32) \<Rightarrow> u8 list" where
  "ep6_head ho gpio ptt xadc =
    (let h = chunk ho 8 ep6_header;
         h = h[3 := h ! 3 OR ((gpio AND 7) OR ptt)];
         value = (\<lambda>i. ucast (drop_bit 3 (xadc i)) :: u16);
         hi = (\<lambda>w :: u16. ucast (drop_bit 8 w AND 0xff) :: u8);
         lo = (\<lambda>w :: u16. ucast (w AND 0xff) :: u8)
     in if ho = 8 then h[6 := hi (value 24), 7 := lo (value 24)]
        else if ho = 16 then h[4 := hi (value 16), 5 := lo (value 16), 6 := hi (value 17), 7 := lo (value 17)]
        else if ho = 24 then h[4 := hi (value 25), 5 := lo (value 25)]
        else h)"

text \<open>The loop over the half datagrams \<open>i, i + 1, \<dots>\<close>, \<open>q\<close> of them.\<close>

fun ep6_halves :: "variant \<Rightarrow> ep6_io \<Rightarrow> bool \<Rightarrow> nat \<Rightarrow> nat \<Rightarrow> u8 list \<Rightarrow> nat \<Rightarrow> nat \<Rightarrow> nat \<Rightarrow> ep6 \<Rightarrow> ep6 option" where
  "ep6_halves v io codec sz n data 0 i data_offset s = Some s"
| "ep6_halves v io codec sz n data (Suc q) i data_offset s =
    do { (k, payload) \<leftarrow> ep6_frames v codec (\<lambda>j. io_rate io (i * n + j)) (audio s) sz data n data_offset 0 (k_audio s) (replicate 504 0);
         b \<leftarrow> (if header_offset s + 8 \<le> length ep6_header
               then checked_copy (buffer s) (half_pos i) (ep6_head (header_offset s) (io_gpio io i) (io_ptt io i) (io_xadc io)) 0 8 else None);
         b1 \<leftarrow> checked_copy b (half_pos i + 8) payload 0 504;
         ep6_halves v io codec sz n data q (i + 1) (data_offset + n * 32)
           (s\<lparr>header_offset := next_header (header_offset s), k_audio := k, buffer := b1\<rparr>) }"

section \<open>A round\<close>

fun put_counters :: "nat \<Rightarrow> nat \<Rightarrow> ep6 \<Rightarrow> ep6 option" where
  "put_counters 0 i s = Some s"
| "put_counters (Suc m) i s =
    do { b \<leftarrow> checked_copy (buffer s) (i * 1032 + 4) (be32 (counter s)) 0 4;
         put_counters m (i + 1) (s\<lparr>buffer := b, counter := counter s + 1\<rparr>) }"

definition fifo_resets :: "hpsdr \<Rightarrow> hpsdr" where
  "fifo_resets h = pulse8 rx_rst 1 (if i2c_codec h then pulse8 rx_rst 2 h else h)"

definition ep6_init :: "hpsdr \<Rightarrow> hpsdr \<times> ep6" where
  "ep6_init h =
    (fifo_resets h,
     \<lparr>header_offset = 0, counter = 0, rate_counter = 2 ^ rate h, k_audio = 0, audio = replicate 512 0,
      buffer = concat (replicate 25 ([0xef, 0xfe, 1, 6] @ replicate 1028 0))\<rparr>)"

definition ep6_audio :: "ep6_io \<Rightarrow> bool \<Rightarrow> nat \<Rightarrow> nat \<Rightarrow> ep6 \<Rightarrow> ep6 option" where
  "ep6_audio io codec r mn s =
    (if codec
     then let s1 = s\<lparr>rate_counter := rate_counter s - 1\<rparr>
          in if rate_counter s1 = 0
             then if mn * 2 \<le> length (audio s1)
                  then Some (s1\<lparr>audio := blit (audio s1) 0 (take (mn * 2) (io_codec io)), rate_counter := 2 ^ r, k_audio := 0\<rparr>)
                  else None
             else Some s1
     else Some s)"

text \<open>The array \<open>data\<close> has 16384 bytes.\<close>

definition ep6_round :: "variant \<Rightarrow> ep6_io \<Rightarrow> hpsdr \<Rightarrow> ep6 \<Rightarrow> (hpsdr \<times> ep6 \<times> u8 list list) option" where
  "ep6_round v io h s =
    (let sz = ep6_size (receivers h); n = ep6_n sz; m = ep6_m n;
         h1 = (if (i2c_codec h \<and> unat (io_adc_cntr io) \<ge> 1024) \<or> unat (io_rx_cntr io 0) \<ge> 8192 then fifo_resets h else h)
     in do { t \<leftarrow> await (io_rx_cntr io) (m * n * 16) 1;
             s1 \<leftarrow> ep6_audio io (i2c_codec h1) (rate h1) (m * n) s;
             data \<leftarrow> (if m * n * 64 \<le> 16384 then Some (take (m * n * 64) (io_fifo io)) else None);
             s2 \<leftarrow> put_counters m 0 s1;
             s3 \<leftarrow> ep6_halves v io (i2c_codec h1) sz n data (m * 2) 0 0 s2;
             Some (h1, s3, map (\<lambda>i. chunk (i * 1032) 1032 (buffer s3)) [0..<m]) })"

section \<open>Bounds\<close>

text \<open>For 1 to 8 receivers everything the round writes and reads is inside its arrays.\<close>

lemma ep6_geometry:
  assumes "1 \<le> r" and "r \<le> 8"
  defines "sz \<equiv> ep6_size r" and "n \<equiv> ep6_n (ep6_size r)" and "m \<equiv> ep6_m (ep6_n (ep6_size r))"
  shows "8 \<le> sz" "sz \<le> 50" "10 \<le> n" "n * sz \<le> 504" "4 \<le> m" "m \<le> 25" "m * n \<le> 256" "m * n * 16 \<le> 4096"
  using receivers_cases [OF assms(1,2)]
  by (auto simp: sz_def n_def m_def ep6_size_def ep6_n_def ep6_m_def)

section \<open>Contents of a half datagram\<close>

text \<open>The first copy of a frame takes \<open>w1\<close> bytes of the group; the second takes \<open>w2\<close> bytes from \<open>o2\<close>.\<close>

definition copy1 :: "nat \<Rightarrow> nat" where "copy1 sz = (if sz > 14 then 12 else sz - 2)"
definition copy2 :: "variant \<Rightarrow> nat \<Rightarrow> nat" where
  "copy2 v sz = (if sz > 14 then (if v_thetis v then (if sz > 32 then 18 else sz - 14) else (if sz > 26 then 12 else sz - 14)) else 0)"
definition copy2_from :: "variant \<Rightarrow> nat" where "copy2_from v = (if v_thetis v then 12 else 18)"

definition frame_byte :: "variant \<Rightarrow> nat \<Rightarrow> u8 list \<Rightarrow> nat \<Rightarrow> nat \<Rightarrow> u8 \<Rightarrow> u8" where
  "frame_byte v sz data off b old =
    (if b < copy1 sz then data ! (off + b)
     else if 12 \<le> b \<and> b < 12 + copy2 v sz then data ! (off + copy2_from v + (b - 12))
     else old)"

lemma copy_bounds: "8 \<le> sz \<Longrightarrow> copy1 sz \<le> 12 \<and> copy1 sz \<le> sz - 2"
  "8 \<le> sz \<Longrightarrow> copy2 v sz = 0 \<or> 14 < sz \<and> copy2 v sz + copy2_from v \<le> 32 \<and> copy2 v sz + 14 \<le> sz"
  by (auto simp: copy1_def copy2_def copy2_from_def)

text \<open>A frame as a value, for copies that stay inside.\<close>

definition framed :: "variant \<Rightarrow> nat \<Rightarrow> u8 list \<Rightarrow> nat \<Rightarrow> nat \<Rightarrow> u8 list \<Rightarrow> u8 list" where
  "framed v sz data off p pl =
    (let p1 = blit pl p (chunk off (copy1 sz) data)
     in if sz > 14 then blit p1 (p + 12) (chunk (copy2_from v + off) (copy2 v sz) data) else p1)"

lemma ep6_frame_framed:
  assumes "8 \<le> sz" and "off + 32 \<le> length data" and "p + sz \<le> length pl"
  shows "ep6_frame v sz data off p pl = Some (framed v sz data off p pl)"
proof -
  note c = copy_bounds(1) [OF assms(1)] copy_bounds(2) [OF assms(1), of v]
  have one: "off + copy1 sz \<le> length data" "p + copy1 sz \<le> length pl" using assms c(1) by linarith+
  have two: "14 < sz \<Longrightarrow> copy2_from v + off + copy2 v sz \<le> length data \<and> p + 12 + copy2 v sz \<le> length pl"
    using assms c(2) by (auto simp: copy2_from_def split: if_splits)
  have "ep6_frame v sz data off p pl = do { p1 \<leftarrow> checked_copy pl p data off (copy1 sz);
      if sz > 14 then checked_copy p1 (p + 12) data (copy2_from v + off) (copy2 v sz) else Some p1 }"
    by (simp add: ep6_frame_def copy1_def copy2_def copy2_from_def cong: if_cong)
  then show ?thesis using one two by (simp add: checked_copy_def framed_def Let_def)
qed

lemma ep6_frame_nth:
  assumes "8 \<le> sz" and "off + 32 \<le> length data" and "p + sz \<le> length pl"
  shows "length (framed v sz data off p pl) = length pl"
    and "i < length pl \<Longrightarrow> framed v sz data off p pl ! i =
       (if p \<le> i then frame_byte v sz data off (i - p) (pl ! i) else pl ! i)"
proof -
  note c = copy_bounds(1) [OF assms(1)] copy_bounds(2) [OF assms(1), of v]
  define p1 where "p1 = blit pl p (chunk off (copy1 sz) data)"
  have fit: "off + copy1 sz \<le> length data" "p + copy1 sz \<le> length pl" using assms c(1) by linarith+
  have l1: "length p1 = length pl" using fit by (simp add: p1_def)
  have n1: "i < length pl \<Longrightarrow> p1 ! i = (if p \<le> i \<and> i < p + copy1 sz then data ! (off + (i - p)) else pl ! i)" for i
    using fit by (auto simp: p1_def nth_blit)
  show "length (framed v sz data off p pl) = length pl"
    using assms c l1 by (auto simp: framed_def Let_def p1_def [symmetric])
  show "framed v sz data off p pl ! i =
       (if p \<le> i then frame_byte v sz data off (i - p) (pl ! i) else pl ! i)" if "i < length pl"
  proof (cases "sz > 14")
    case True
    have fit2: "copy2_from v + off + copy2 v sz \<le> length data" "p + 12 + copy2 v sz \<le> length p1"
      using assms c l1 True by (auto simp: copy2_from_def split: if_splits)
    have l2: "length (chunk (copy2_from v + off) (copy2 v sz) data) = copy2 v sz" using fit2 by simp
    then have len: "p + 12 + length (chunk (copy2_from v + off) (copy2 v sz) data) \<le> length p1" using fit2 by simp
    have n2: "x < copy2 v sz \<Longrightarrow> chunk (copy2_from v + off) (copy2 v sz) data ! x = data ! (off + copy2_from v + x)" for x
      using fit2 by (simp add: algebra_simps)
    have "framed v sz data off p pl ! i = blit p1 (p + 12) (chunk (copy2_from v + off) (copy2 v sz) data) ! i"
      using True by (simp add: framed_def Let_def p1_def)
    also have "\<dots> = (if p + 12 \<le> i \<and> i < p + 12 + copy2 v sz then data ! (off + copy2_from v + (i - p - 12)) else p1 ! i)"
      using nth_blit [OF len, of i] that l1 l2 n2 [of "i - p - 12"] by (auto simp: diff_diff_eq)
    finally show ?thesis
      using n1 [OF that] c True by (auto simp: frame_byte_def copy1_def)
  next
    case False
    then have "copy2 v sz = 0" by (simp add: copy2_def)
    then show ?thesis using False n1 [OF that] by (auto simp: framed_def Let_def p1_def [symmetric] frame_byte_def)
  qed
qed

text \<open>The index of the microphone sample of frame \<open>j\<close>, and the byte at offset \<open>b\<close> of that frame.\<close>

definition half_byte :: "variant \<Rightarrow> bool \<Rightarrow> nat \<Rightarrow> u32 list \<Rightarrow> nat \<Rightarrow> u8 list \<Rightarrow> nat \<Rightarrow> nat \<Rightarrow> nat \<Rightarrow> u8 \<Rightarrow> u8" where
  "half_byte v codec r aud sz data off k b old =
    (if codec \<and> sz - 2 \<le> b then le16 (ucast (aud ! (k div 2 ^ r))) ! (b - (sz - 2))
     else frame_byte v sz data off b old)"

text \<open>A frame with the microphone sample of the codec.\<close>

lemma ep6_frame_codec_nth:
  fixes pl data :: "u8 list" and v :: variant and aud :: "u32 list" and codec :: bool and k r off p sz :: nat
  assumes sz: "8 \<le> sz" and fit: "off + 32 \<le> length data" "p + sz \<le> length pl"
  defines "p1 \<equiv> framed v sz data off p pl"
  defines "p2 \<equiv> (if codec then blit p1 (p + sz - 2) (le16 (ucast (aud ! (k div 2 ^ r)))) else p1)"
  shows "length p2 = length pl"
    and "i < length pl \<Longrightarrow> p2 ! i = (if i < p \<or> p + sz \<le> i then pl ! i else half_byte v codec r aud sz data off k (i - p) (pl ! i))"
proof -
  note fr = ep6_frame_nth [OF sz fit, where v = v]
  have l1: "length p1 = length pl" by (simp add: p1_def fr)
  then show "length p2 = length pl" using fit sz by (simp add: p2_def)
  assume i: "i < length pl"
  have out: "p + sz \<le> i \<Longrightarrow> frame_byte v sz data off (i - p) (pl ! i) = pl ! i"
    using copy_bounds(1) [OF sz] copy_bounds(2) [OF sz, of v] sz by (auto simp: frame_byte_def)
  show "p2 ! i = (if i < p \<or> p + sz \<le> i then pl ! i else half_byte v codec r aud sz data off k (i - p) (pl ! i))"
  proof (cases codec)
    case True
    have "p + sz - 2 + 2 = p + sz" using sz by simp
    with True fit l1 i have "p2 ! i = (if p + sz - 2 \<le> i \<and> i < p + sz then le16 (ucast (aud ! (k div 2 ^ r))) ! (i - (p + sz - 2)) else p1 ! i)"
      using nth_blit [of "p + sz - 2" "le16 (ucast (aud ! (k div 2 ^ r)))" p1 i] by (simp add: p2_def)
    then show ?thesis using True i fr(2) [OF i] out sz by (auto simp: p1_def half_byte_def diff_diff_eq)
  next
    case False
    then show ?thesis using i fr(2) [OF i] out by (auto simp: p2_def p1_def half_byte_def)
  qed
qed

lemma ep6_frames_some:
  assumes "8 \<le> sz" and "off + 32 * n \<le> length data" and "p + n * sz \<le> length pl"
    and "codec \<longrightarrow> (\<forall>j < n. (k + j) div 2 ^ rt j < 512)"
  shows "\<exists>pl'. ep6_frames v codec rt aud sz data n off p k pl = Some (if codec then k + n else k, pl') \<and>
    length pl' = length pl \<and> (\<forall>i < length pl. i < p \<or> p + n * sz \<le> i \<longrightarrow> pl' ! i = pl ! i) \<and>
    (\<forall>j < n. \<forall>b < sz. pl' ! (p + j * sz + b) = half_byte v codec (rt j) aud sz data (off + 32 * j) (k + j) b (pl ! (p + j * sz + b)))"
  using assms(2-)
proof (induction n arbitrary: off p k pl rt)
  case 0
  then show ?case by simp
next
  case (Suc n)
  define p1 where "p1 = framed v sz data off p pl"
  define p2 where "p2 = (if codec then blit p1 (p + sz - 2) (le16 (ucast (aud ! (k div 2 ^ rt 0)))) else p1)"
  have fit: "off + 32 \<le> length data" "p + sz \<le> length pl" using Suc.prems by simp_all
  note frame = ep6_frame_codec_nth [OF assms(1) fit, where v = v and codec = codec and aud = aud and k = k and r = "rt 0", folded p1_def, folded p2_def]
  note l2 = frame(1) and n2 = frame(2)
  let ?k = "if codec then k + 1 else k" and ?rt = "\<lambda>j. rt (Suc j)"
  have idx: "codec \<longrightarrow> k div 2 ^ rt 0 < 512" "codec \<longrightarrow> (\<forall>j < n. (?k + j) div 2 ^ ?rt j < 512)"
    using Suc.prems(3) by (auto dest: spec [where x = 0])
  have "\<exists>pl'. ep6_frames v codec ?rt aud sz data n (off + 32) (p + sz) ?k p2 = Some (if codec then ?k + n else ?k, pl') \<and>
    length pl' = length p2 \<and> (\<forall>i < length p2. i < p + sz \<or> p + sz + n * sz \<le> i \<longrightarrow> pl' ! i = p2 ! i) \<and>
    (\<forall>j < n. \<forall>b < sz. pl' ! (p + sz + j * sz + b) =
       half_byte v codec (?rt j) aud sz data (off + 32 + 32 * j) (?k + j) b (p2 ! (p + sz + j * sz + b)))"
    using Suc.prems idx(2) l2 by (intro Suc.IH) (simp_all add: algebra_simps)
  then obtain pl' where pl': "ep6_frames v codec ?rt aud sz data n (off + 32) (p + sz) ?k p2 = Some (if codec then k + Suc n else k, pl')"
    "length pl' = length pl" "\<And>i. i < length pl \<Longrightarrow> i < p + sz \<or> p + sz + n * sz \<le> i \<Longrightarrow> pl' ! i = p2 ! i"
    "\<And>j b. j < n \<Longrightarrow> b < sz \<Longrightarrow> pl' ! (p + sz + j * sz + b) =
       half_byte v codec (?rt j) aud sz data (off + 32 + 32 * j) (?k + j) b (p2 ! (p + sz + j * sz + b))"
    using l2 by (cases codec) auto
  have mic: "checked_copy p1 (p + sz - 2) (le16 w) 0 2 = Some (blit p1 (p + sz - 2) (le16 w))" for w
    using fit assms(1) ep6_frame_nth(1) [OF assms(1) fit, of v] by (simp add: checked_copy_def p1_def chunk_def)
  have run: "ep6_frames v codec rt aud sz data (Suc n) off p k pl = Some (if codec then k + Suc n else k, pl')"
    using pl'(1) idx(1) mic by (cases codec) (simp_all add: ep6_frame_framed [OF assms(1) fit] p1_def [symmetric] p2_def)
  have inside: "p + j * sz + b < length pl" if "j < Suc n" "b < sz" for j b
  proof -
    have "j * sz + sz \<le> Suc n * sz" using mult_le_mono1 [of "Suc j" "Suc n" sz] that by simp
    then show ?thesis using that Suc.prems(2) by linarith
  qed
  have rest: "\<forall>i < length pl. i < p \<or> p + Suc n * sz \<le> i \<longrightarrow> pl' ! i = pl ! i"
    using pl'(3) n2 by (auto simp: algebra_simps)
  have bytes: "pl' ! (p + j * sz + b) = half_byte v codec (rt j) aud sz data (off + 32 * j) (k + j) b (pl ! (p + j * sz + b))"
    if j: "j < Suc n" and b: "b < sz" for j b
  proof (cases j)
    case 0
    then show ?thesis using inside [OF j b] b pl'(3) n2 by auto
  next
    case (Suc j')
    have same: "p2 ! (p + sz + j' * sz + b) = pl ! (p + sz + j' * sz + b)"
      using n2 inside [OF j b] Suc by (auto simp: algebra_simps)
    have "half_byte v codec r aud sz data o' (?k + j') b x = half_byte v codec r aud sz data o' (k + Suc j') b x" for r o' x
      by (simp add: half_byte_def)
    then show ?thesis using pl'(4) [of j' b] same j b Suc by (simp add: algebra_simps)
  qed
  show ?case using run pl'(2) rest bytes by blast
qed

section \<open>Contents of the buffer\<close>

lemma length_head: "header_ok ho \<Longrightarrow> length (ep6_head ho g t x) = 8"
  by (auto simp: ep6_head_def header_ok_def Let_def ep6_header_def)

text \<open>Byte \<open>b\<close> of half datagram number \<open>e\<close> of a run that starts at \<open>s\<close>.\<close>

definition in_halves :: "nat \<Rightarrow> nat \<Rightarrow> nat \<Rightarrow> bool" where
  "in_halves i q x \<longleftrightarrow> (\<exists>e < q. half_pos (i + e) \<le> x \<and> x < half_pos (i + e) + 512)"

text \<open>The state after \<open>q\<close> halves, the first of them number \<open>i\<close> with its data at \<open>off\<close>.\<close>

definition halves_done :: "variant \<Rightarrow> ep6_io \<Rightarrow> bool \<Rightarrow> nat \<Rightarrow> nat \<Rightarrow> u8 list \<Rightarrow> nat \<Rightarrow> nat \<Rightarrow> nat \<Rightarrow> ep6 \<Rightarrow> ep6 \<Rightarrow> bool" where
  "halves_done v io codec sz n data q i off s s' \<longleftrightarrow>
    length (buffer s') = length (buffer s) \<and>
    audio s' = audio s \<and> rate_counter s' = rate_counter s \<and> counter s' = counter s \<and> header_ok (header_offset s') \<and>
    k_audio s' = (if codec then k_audio s + q * n else k_audio s) \<and>
    header_offset s' = (next_header ^^ q) (header_offset s) \<and>
    (\<forall>x < length (buffer s). \<not> in_halves i q x \<longrightarrow> buffer s' ! x = buffer s ! x) \<and>
    (\<forall>e < q. \<forall>b < 8. buffer s' ! (half_pos (i + e) + b) =
       ep6_head ((next_header ^^ e) (header_offset s)) (io_gpio io (i + e)) (io_ptt io (i + e)) (io_xadc io) ! b) \<and>
    (\<forall>e < q. \<forall>j < n. \<forall>b < sz. buffer s' ! (half_pos (i + e) + 8 + j * sz + b) =
       half_byte v codec (io_rate io ((i + e) * n + j)) (audio s) sz data (off + e * (n * 32) + 32 * j) (k_audio s + e * n + j) b 0)"

lemma frame_slot: "j < n \<Longrightarrow> b < sz \<Longrightarrow> n * sz \<le> 504 \<Longrightarrow> j * sz + b < (504 :: nat)"
  using mult_le_mono1 [of "Suc j" n sz] by simp

text \<open>One half.\<close>

lemma half_done:
  assumes sz: "8 \<le> sz" "n * sz \<le> 504" and data: "off + n * 32 \<le> length data" and fit: "half_pos i + 512 \<le> length (buffer s)"
    and aud: "codec \<longrightarrow> (\<forall>j < n. (k_audio s + j) div 2 ^ io_rate io (i * n + j) < 512)" and ho: "header_ok (header_offset s)"
  shows "\<exists>s1. halves_done v io codec sz n data 1 i off s s1 \<and>
    (\<forall>q. ep6_halves v io codec sz n data (Suc q) i off s = ep6_halves v io codec sz n data q (i + 1) (off + n * 32) s1)"
proof -
  let ?hp = "half_pos i" and ?rt = "\<lambda>j. io_rate io (i * n + j)"
  obtain pl where pl: "ep6_frames v codec ?rt (audio s) sz data n off 0 (k_audio s) (replicate 504 0) =
      Some (if codec then k_audio s + n else k_audio s, pl)" "length pl = 504"
    "\<forall>j < n. \<forall>b < sz. pl ! (j * sz + b) = half_byte v codec (io_rate io (i * n + j)) (audio s) sz data (off + 32 * j) (k_audio s + j) b (replicate 504 0 ! (j * sz + b))"
    using ep6_frames_some [OF sz(1), of off n data 0 "replicate 504 0" codec "k_audio s" ?rt v "audio s"] data sz(2) aud
    by (auto simp: algebra_simps)
  define hd where "hd = ep6_head (header_offset s) (io_gpio io i) (io_ptt io i) (io_xadc io)"
  have lhd: "length hd = 8" using length_head [OF ho] by (simp add: hd_def)
  define b1 where "b1 = blit (buffer s) ?hp hd"
  define b2 where "b2 = blit b1 (?hp + 8) pl"
  have lb: "length b1 = length (buffer s)" "length b2 = length (buffer s)" using fit lhd pl(2) by (simp_all add: b1_def b2_def)
  have nb: "b2 ! x = (if ?hp \<le> x \<and> x < ?hp + 8 then hd ! (x - ?hp) else if ?hp + 8 \<le> x \<and> x < ?hp + 512 then pl ! (x - (?hp + 8)) else buffer s ! x)"
    if "x < length (buffer s)" for x
    using that fit lhd pl(2) lb by (simp add: b2_def nth_blit) (simp add: b1_def nth_blit)
  define s1 where "s1 = s\<lparr>header_offset := next_header (header_offset s), k_audio := (if codec then k_audio s + n else k_audio s), buffer := b2\<rparr>"
  have "halves_done v io codec sz n data 1 i off s s1"
    unfolding halves_done_def
  proof (intro conjI allI impI)
    fix e j b :: nat assume e: "e < 1" and jb: "j < n" "b < sz"
    show "buffer s1 ! (half_pos (i + e) + 8 + j * sz + b) =
        half_byte v codec (io_rate io ((i + e) * n + j)) (audio s) sz data (off + e * (n * 32) + 32 * j) (k_audio s + e * n + j) b 0"
      using e nb [of "?hp + 8 + j * sz + b"] frame_slot [OF jb sz(2)] fit pl(3) jb by (simp add: s1_def)
  qed (use lb nb fit next_header_ok [OF ho] in \<open>auto simp: s1_def in_halves_def hd_def\<close>)
  moreover have "ep6_halves v io codec sz n data (Suc q) i off s = ep6_halves v io codec sz n data q (i + 1) (off + n * 32) s1" for q
  proof -
    have "header_offset s + 8 \<le> length ep6_header" using ho by (auto simp: header_ok_def ep6_header_def)
    moreover have "checked_copy (buffer s) ?hp hd 0 8 = Some b1" "checked_copy b1 (?hp + 8) pl 0 504 = Some b2"
      using fit lhd pl(2) lb by (simp_all add: checked_copy_def b1_def [symmetric] b2_def chunk_def)
    ultimately show ?thesis by (simp add: pl(1) s1_def hd_def [symmetric])
  qed
  ultimately show ?thesis by blast
qed

text \<open>One half and then \<open>q\<close> more.\<close>

lemma halves_done_Suc:
  assumes one: "halves_done v io codec sz n data 1 i off s s1" and more: "halves_done v io codec sz n data q (i + 1) (off + n * 32) s1 s'"
    and fit: "half_pos i + 512 \<le> length (buffer s)" and sz: "n * sz \<le> 504"
  shows "halves_done v io codec sz n data (Suc q) i off s s'"
proof -
  have s1: "length (buffer s1) = length (buffer s)" "audio s1 = audio s" "rate_counter s1 = rate_counter s" "counter s1 = counter s"
    "k_audio s1 = (if codec then k_audio s + n else k_audio s)" "header_offset s1 = next_header (header_offset s)"
    and s1b: "\<And>x. x < length (buffer s) \<Longrightarrow> \<not> in_halves i 1 x \<Longrightarrow> buffer s1 ! x = buffer s ! x"
      "\<And>b. b < 8 \<Longrightarrow> buffer s1 ! (half_pos i + b) = ep6_head (header_offset s) (io_gpio io i) (io_ptt io i) (io_xadc io) ! b"
      "\<And>j b. j < n \<Longrightarrow> b < sz \<Longrightarrow> buffer s1 ! (half_pos i + 8 + j * sz + b) = half_byte v codec (io_rate io (i * n + j)) (audio s) sz data (off + 32 * j) (k_audio s + j) b 0"
    using one by (auto simp: halves_done_def)
  note m = more [unfolded halves_done_def s1]
  have here: "\<not> in_halves (i + 1) q x" if "x < half_pos i + 512" for x
  proof -
    have "half_pos i + 512 \<le> half_pos (i + 1 + e)" for e using half_pos_mono [of i "i + 1 + e"] by simp
    then show ?thesis using that unfolding in_halves_def by (metis leD le_trans)
  qed
  have first: "buffer s' ! (half_pos i + x) = buffer s1 ! (half_pos i + x)" if "x < 512" for x
    using m here [of "half_pos i + x"] that fit by auto
  have split: "in_halves i (Suc q) x \<longleftrightarrow> in_halves i 1 x \<or> in_halves (i + 1) q x" for x
    unfolding in_halves_def by (auto simp: Ex_less_Suc2)
  show ?thesis
    unfolding halves_done_def
  proof (intro conjI allI impI)
    fix e b :: nat assume "e < Suc q" "b < 8"
    then show "buffer s' ! (half_pos (i + e) + b) =
        ep6_head ((next_header ^^ e) (header_offset s)) (io_gpio io (i + e)) (io_ptt io (i + e)) (io_xadc io) ! b"
      using first [of b] s1b(2) m by (cases e) (auto simp: funpow_swap1)
  next
    fix e j b assume e: "e < Suc q" and jb: "j < n" "b < sz"
    show "buffer s' ! (half_pos (i + e) + 8 + j * sz + b) =
        half_byte v codec (io_rate io ((i + e) * n + j)) (audio s) sz data (off + e * (n * 32) + 32 * j) (k_audio s + e * n + j) b 0"
    proof (cases e)
      case 0
      then show ?thesis using first [of "8 + j * sz + b"] frame_slot [OF jb sz] s1b(3) [OF jb] by (simp add: add.assoc)
    next
      case (Suc e')
      have "half_byte v codec r aud sz data o' ((if codec then k_audio s + n else k_audio s) + e' * n + j) b x =
          half_byte v codec r aud sz data o' (k_audio s + Suc e' * n + j) b x" for r aud o' x by (simp add: half_byte_def add.assoc)
      then show ?thesis using m e jb Suc by (simp add: algebra_simps)
    qed
  qed (use m s1b(1) in \<open>auto simp: split s1 funpow_swap1\<close>)
qed

lemma ep6_halves_some:
  assumes "8 \<le> sz" and "n * sz \<le> 504"
    and "off + q * (n * 32) \<le> length data" and "\<forall>e < q. half_pos (i + e) + 512 \<le> length (buffer s)"
    and "codec \<longrightarrow> (\<forall>x < q * n. (k_audio s + x) div 2 ^ io_rate io (i * n + x) < 512)" and "header_ok (header_offset s)"
  shows "\<exists>s'. ep6_halves v io codec sz n data q i off s = Some s' \<and> halves_done v io codec sz n data q i off s s'"
  using assms(3-)
proof (induction q arbitrary: i off s)
  case (Suc q)
  have fit: "half_pos i + 512 \<le> length (buffer s)" using Suc.prems(2) by (metis add_0_right zero_less_Suc)
  have "codec \<longrightarrow> (\<forall>j < n. (k_audio s + j) div 2 ^ io_rate io (i * n + j) < 512)" using Suc.prems(3) by simp
  with half_done [OF assms(1,2) _ fit _ Suc.prems(4), of off data codec io v] Suc.prems(1)
  obtain s1 where one: "halves_done v io codec sz n data 1 i off s s1"
    and run: "ep6_halves v io codec sz n data (Suc q) i off s = ep6_halves v io codec sz n data q (i + 1) (off + n * 32) s1"
    by auto
  have "\<exists>s'. ep6_halves v io codec sz n data q (i + 1) (off + n * 32) s1 = Some s' \<and> halves_done v io codec sz n data q (i + 1) (off + n * 32) s1 s'"
  proof (rule Suc.IH)
    show "codec \<longrightarrow> (\<forall>x < q * n. (k_audio s1 + x) div 2 ^ io_rate io ((i + 1) * n + x) < 512)"
    proof (intro impI allI)
      fix x assume c: codec and x: "x < q * n"
      have "(k_audio s + (n + x)) div 2 ^ io_rate io (i * n + (n + x)) < 512" using Suc.prems(3) c x by simp
      then show "(k_audio s1 + x) div 2 ^ io_rate io ((i + 1) * n + x) < 512" using one c by (simp add: halves_done_def algebra_simps)
    qed
  qed (use Suc.prems one in \<open>auto simp: halves_done_def algebra_simps\<close>)
  then show ?case using run halves_done_Suc [OF one _ fit assms(2)] by auto
qed (simp add: halves_done_def in_halves_def)

section \<open>A round\<close>

text \<open>The counters and the refill of \<open>audio\<close> as values.\<close>

fun counted :: "nat \<Rightarrow> nat \<Rightarrow> ep6 \<Rightarrow> ep6" where
  "counted 0 i s = s"
| "counted (Suc m) i s =
    counted m (i + 1) (s\<lparr>buffer := blit (buffer s) (i * 1032 + 4) (be32 (counter s)), counter := counter s + 1\<rparr>)"

lemma put_counters_some: "(i + m) * 1032 \<le> length (buffer s) \<Longrightarrow> put_counters m i s = Some (counted m i s)"
proof (induction m arbitrary: i s)
  case (Suc m)
  then show ?case using Suc.IH [of "i + 1"] by (simp add: checked_copy_def chunk_def)
qed simp

lemma put_counters_index: "put_counters m i s = Some s' \<Longrightarrow> k_audio s' = k_audio s"
  by (induction m arbitrary: i s) (auto simp: bind_eq_Some_conv)

definition audio_step :: "ep6_io \<Rightarrow> bool \<Rightarrow> nat \<Rightarrow> nat \<Rightarrow> ep6 \<Rightarrow> ep6" where
  "audio_step io codec r mn s =
    (if codec
     then let s1 = s\<lparr>rate_counter := rate_counter s - 1\<rparr>
          in if rate_counter s1 = 0
             then s1\<lparr>audio := blit (audio s1) 0 (take (mn * 2) (io_codec io)), rate_counter := 2 ^ r, k_audio := 0\<rparr>
             else s1
     else s)"

lemma ep6_audio_step: "length (audio s) = 512 \<Longrightarrow> mn \<le> 256 \<Longrightarrow> ep6_audio io codec r mn s = Some (audio_step io codec r mn s)"
  by (simp add: ep6_audio_def audio_step_def Let_def)

lemma put_counters_fields [simp]:
  "header_offset (counted m i s) = header_offset s" "rate_counter (counted m i s) = rate_counter s"
  "k_audio (counted m i s) = k_audio s" "audio (counted m i s) = audio s"
  "counter (counted m i s) = counter s + of_nat m"
  by (induction m arbitrary: i s) simp_all

lemma put_counters_buffer:
  "(i + m) * 1032 \<le> length (buffer s) \<Longrightarrow>
    length (buffer (counted m i s)) = length (buffer s) \<and>
    (\<forall>x < length (buffer s). (\<forall>d < m. x < (i + d) * 1032 + 4 \<or> (i + d) * 1032 + 8 \<le> x) \<longrightarrow> buffer (counted m i s) ! x = buffer s ! x) \<and>
    (\<forall>d < m. \<forall>b < 4. buffer (counted m i s) ! ((i + d) * 1032 + 4 + b) = be32 (counter s + of_nat d) ! b)"
proof (induction m arbitrary: i s)
  case 0
  then show ?case by simp
next
  case (Suc m)
  define s1 where "s1 = s\<lparr>buffer := blit (buffer s) (i * 1032 + 4) (be32 (counter s)), counter := counter s + 1\<rparr>"
  have l1: "length (buffer s1) = length (buffer s)" using Suc.prems by (simp add: s1_def)
  have n1: "x < length (buffer s) \<Longrightarrow> buffer s1 ! x = (if i * 1032 + 4 \<le> x \<and> x < i * 1032 + 8 then be32 (counter s) ! (x - (i * 1032 + 4)) else buffer s ! x)" for x
    using Suc.prems by (simp add: s1_def nth_blit)
  have "(i + 1 + m) * 1032 \<le> length (buffer s1)" using Suc.prems l1 by simp
  note IH = Suc.IH [OF this]
  have run: "counted (Suc m) i s = counted m (i + 1) s1" by (simp add: s1_def)
  have keep: "\<forall>x < length (buffer s). (\<forall>d < Suc m. x < (i + d) * 1032 + 4 \<or> (i + d) * 1032 + 8 \<le> x) \<longrightarrow>
      buffer (counted (Suc m) i s) ! x = buffer s ! x"
  proof (intro allI impI)
    fix x assume x: "x < length (buffer s)" and no: "\<forall>d < Suc m. x < (i + d) * 1032 + 4 \<or> (i + d) * 1032 + 8 \<le> x"
    have "\<forall>d < m. x < (i + 1 + d) * 1032 + 4 \<or> (i + 1 + d) * 1032 + 8 \<le> x"
      using no by (metis Suc_less_eq add.assoc plus_1_eq_Suc)
    moreover have "x < i * 1032 + 4 \<or> i * 1032 + 8 \<le> x" using no by (metis add_0_right zero_less_Suc)
    ultimately show "buffer (counted (Suc m) i s) ! x = buffer s ! x"
      using IH x l1 n1 [OF x] run by auto
  qed
  have set: "\<forall>d < Suc m. \<forall>b < 4. buffer (counted (Suc m) i s) ! ((i + d) * 1032 + 4 + b) = be32 (counter s + of_nat d) ! b"
  proof (intro allI impI)
    fix d b :: nat assume d: "d < Suc m" and b: "b < 4"
    show "buffer (counted (Suc m) i s) ! ((i + d) * 1032 + 4 + b) = be32 (counter s + of_nat d) ! b"
    proof (cases d)
      case 0
      have x: "i * 1032 + 4 + b < length (buffer s)" using Suc.prems b by simp
      have "\<forall>d < m. i * 1032 + 4 + b < (i + 1 + d) * 1032 + 4 \<or> (i + 1 + d) * 1032 + 8 \<le> i * 1032 + 4 + b" using b by auto
      then have "buffer (counted m (i + 1) s1) ! (i * 1032 + 4 + b) = buffer s1 ! (i * 1032 + 4 + b)" using IH x l1 by auto
      then show ?thesis using 0 n1 [OF x] b run by simp
    next
      case (Suc d')
      then have "buffer (counted m (i + 1) s1) ! ((i + 1 + d') * 1032 + 4 + b) = be32 (counter s1 + of_nat d') ! b" using IH d b by auto
      then show ?thesis using Suc run by (simp add: s1_def algebra_simps)
    qed
  qed
  show ?case using IH l1 run keep set by simp
qed

text \<open>What the rounds keep while the sample rate setting is \<open>r\<close>.\<close>

definition ep6_ok :: "nat \<Rightarrow> ep6 \<Rightarrow> bool" where
  "ep6_ok r s \<longleftrightarrow> header_ok (header_offset s) \<and> 1 \<le> rate_counter s \<and> rate_counter s \<le> 2 ^ r \<and>
     int (k_audio s) \<le> (2 ^ r - rate_counter s + 1) * 512 \<and> length (audio s) = 512 \<and> length (buffer s) = 25800 \<and>
     (\<forall>d < 25. \<forall>b < 4. buffer s ! (d * 1032 + b) = [0xef, 0xfe, 1, 6] ! b)"

lemma ep6_audio_ok:
  assumes "ep6_ok r s" and "mn \<le> 256"
  shows "header_offset (audio_step io codec r mn s) = header_offset s \<and> counter (audio_step io codec r mn s) = counter s \<and>
    buffer (audio_step io codec r mn s) = buffer s \<and> length (audio (audio_step io codec r mn s)) = 512 \<and>
    1 \<le> rate_counter (audio_step io codec r mn s) \<and> rate_counter (audio_step io codec r mn s) \<le> 2 ^ r \<and>
    (codec \<longrightarrow> int (k_audio (audio_step io codec r mn s)) \<le> (2 ^ r - rate_counter (audio_step io codec r mn s)) * 512) \<and>
    (\<not> codec \<longrightarrow> audio_step io codec r mn s = s)"
proof (cases "codec \<and> rate_counter s - 1 = 0")
  case True
  have "length (take (mn * 2) (io_codec io)) \<le> 512" using assms(2) by simp
  then have "length (blit (audio s) 0 (take (mn * 2) (io_codec io))) = 512" using assms(1) by (simp add: ep6_ok_def)
  with True assms(1) show ?thesis by (simp add: audio_step_def Let_def)
next
  case False
  with assms(1) show ?thesis by (auto simp: audio_step_def ep6_ok_def Let_def)
qed

lemma outside_halves: "b < 8 \<Longrightarrow> \<not> in_halves 0 q (d * 1032 + b)"
proof
  assume b: "b < 8" and "in_halves 0 q (d * 1032 + b)"
  then obtain e where e: "half_pos e \<le> d * 1032 + b" "d * 1032 + b < half_pos e + 512" by (auto simp: in_halves_def)
  show False
  proof (cases "even e")
    case True
    then obtain c where "e = 2 * c" by blast
    with e have p: "c * 1032 + 8 \<le> d * 1032 + b" "d * 1032 + b < c * 1032 + 520" by (simp_all only: half_pos_even)
    then have "c < d" using b by linarith
    then have "c + 1 \<le> d" by simp
    with p show False by linarith
  next
    case False
    then obtain c where "e = 2 * c + 1" by (blast elim: oddE)
    with e have p: "c * 1032 + 520 \<le> d * 1032 + b" "d * 1032 + b < c * 1032 + 1032" by (simp_all only: half_pos_even)
    then have "c < d" using b by linarith
    then have "c + 1 \<le> d" by simp
    with p show False by linarith
  qed
qed

lemma half_pos_num: "e < 2 \<Longrightarrow> half_pos (2 * d + e) = d * 1032 + 8 + 512 * e" for d e :: nat
  using half_pos_even [of d] by (cases e) auto

lemma datagram_inside: "d < 25 \<Longrightarrow> b < 1032 \<Longrightarrow> d * 1032 + b < 25800" for d b :: nat
  using mult_le_mono1 [of "Suc d" 25 1032] by simp

lemma half_byte_take:
  "8 \<le> sz \<Longrightarrow> off + 32 \<le> n \<Longrightarrow> half_byte v c r aud sz (take n xs) off k b 0 = half_byte v c r aud sz xs off k b 0"
  using copy_bounds(1) [of sz] copy_bounds(2) [of sz v] by (auto simp: half_byte_def frame_byte_def)

text \<open>The codec index stays below 512: it counts the frames since the last refill, which comes after
  \<open>2 ^ r\<close> rounds of at most 512 frames each.\<close>

lemma ep6_index_bound:
  assumes "ep6_ok r s" and "mn \<le> 256" and "s1 = audio_step io codec r mn s"
  shows "codec \<longrightarrow> (k_audio s1 + 2 * mn - 1) div 2 ^ r < 512"
    and "int (if codec then k_audio s1 + 2 * mn else k_audio s1) \<le> (2 ^ r - rate_counter s1 + 1) * 512"
proof -
  note au = ep6_audio_ok [OF assms(1,2), of io codec, folded assms(3)]
  show "codec \<longrightarrow> (k_audio s1 + 2 * mn - 1) div 2 ^ r < 512"
  proof
    assume codec
    then have k: "int (k_audio s1) \<le> (2 ^ r - rate_counter s1) * 512" "1 \<le> rate_counter s1" using au by auto
    then have "int (k_audio s1) \<le> 2 ^ r * 512 - 512" by (simp add: left_diff_distrib)
    moreover have "(512 :: nat) \<le> 2 ^ r * 512" by simp
    ultimately have "k_audio s1 + 512 \<le> 2 ^ r * 512" by (simp flip: of_nat_le_iff [where ?'a = int])
    moreover have "k_audio s1 + 2 * mn - 1 < k_audio s1 + 512" using assms(2) by linarith
    ultimately have "k_audio s1 + 2 * mn - 1 < 512 * 2 ^ r" by linarith
    then show "(k_audio s1 + 2 * mn - 1) div 2 ^ r < 512" by (simp add: less_mult_imp_div_less)
  qed
  show "int (if codec then k_audio s1 + 2 * mn else k_audio s1) \<le> (2 ^ r - rate_counter s1 + 1) * 512"
  proof (cases codec)
    case True
    then have "int (k_audio s1) \<le> (2 ^ r - rate_counter s1) * 512" using au by blast
    moreover have "int (2 * mn) \<le> 512" using assms(2) by linarith
    ultimately show ?thesis using True by (simp add: algebra_simps)
  next
    case False
    then show ?thesis using au assms(1) by (simp add: ep6_ok_def)
  qed
qed

text \<open>The sample rate setting is not lowered while the round runs.\<close>

definition rate_kept :: "hpsdr \<Rightarrow> ep6_io \<Rightarrow> bool" where
  "rate_kept h io \<longleftrightarrow> (\<forall>f. rate h \<le> io_rate io f)"

lemma index_at:
  assumes "(k + q - 1) div 2 ^ r < (512 :: nat)" and "x < q" and "r \<le> r'"
  shows "(k + x) div 2 ^ r' < 512"
proof -
  have "(k + x) div 2 ^ r' \<le> (k + x) div 2 ^ r" using assms(3) by (intro div_le_mono2) simp_all
  moreover have "(k + x) div 2 ^ r \<le> (k + q - 1) div 2 ^ r" using assms(2) by (intro div_le_mono) simp
  ultimately show ?thesis using assms(1) by linarith
qed

text \<open>The parts of the buffer that a round does not fill with samples.\<close>

lemma fixed_bytes:
  assumes "(0 + m) * 1032 \<le> length (buffer s)" and "length (buffer s) = 25800"
    and "\<forall>d < 25. \<forall>b < 4. buffer s ! (d * 1032 + b) = [0xef, 0xfe, 1, 6] ! b"
    and out: "\<And>x. x < 25800 \<Longrightarrow> \<not> in_halves 0 q x \<Longrightarrow> buffer s' ! x = buffer (counted m 0 s) ! x"
  shows "d < 25 \<Longrightarrow> b < 4 \<Longrightarrow> buffer s' ! (d * 1032 + b) = [0xef, 0xfe, 1, 6] ! b"
    and "d < m \<Longrightarrow> b < 4 \<Longrightarrow> buffer s' ! (d * 1032 + 4 + b) = be32 (counter s + of_nat d) ! b"
proof -
  note pc = put_counters_buffer [OF assms(1)]
  show "buffer s' ! (d * 1032 + b) = [0xef, 0xfe, 1, 6] ! b" if "d < 25" "b < 4"
  proof -
    have "\<forall>d' < m. d * 1032 + b < (0 + d') * 1032 + 4 \<or> (0 + d') * 1032 + 8 \<le> d * 1032 + b"
    proof (intro allI impI)
      fix d' assume "d' < m"
      show "d * 1032 + b < (0 + d') * 1032 + 4 \<or> (0 + d') * 1032 + 8 \<le> d * 1032 + b"
        using that by (cases "d \<le> d'") auto
    qed
    then have "buffer (counted m 0 s) ! (d * 1032 + b) = buffer s ! (d * 1032 + b)"
      using pc assms(2) datagram_inside [of d b] that by simp
    then show ?thesis
      using out [of "d * 1032 + b"] outside_halves [of b q d] datagram_inside [of d b] assms(3) that by simp
  qed
  show "buffer s' ! (d * 1032 + 4 + b) = be32 (counter s + of_nat d) ! b" if "d < m" "b < 4"
  proof -
    have "buffer (counted m 0 s) ! (d * 1032 + 4 + b) = be32 (counter s + of_nat d) ! b" using pc that by simp
    moreover have "d < 25" using that assms(1,2) by simp
    ultimately show ?thesis
      using out [of "d * 1032 + (4 + b)"] outside_halves [of "4 + b" q d] datagram_inside [of d "4 + b"] that
      by (simp add: add.assoc)
  qed
qed

text \<open>A round, in terms of the buffer.\<close>

lemma ep6_round_buffer:
  fixes v io h s
  defines "sz \<equiv> ep6_size (receivers h)"
  defines "n \<equiv> ep6_n sz"
  defines "m \<equiv> ep6_m n"
  defines "s1 \<equiv> audio_step io (i2c_codec h) (rate h) (m * n) s"
  assumes rc: "1 \<le> receivers h" "receivers h \<le> 8" and ok: "ep6_ok (rate h) s" and kept: "rate_kept h io"
    and fifo: "m * n * 64 \<le> length (io_fifo io)" and fills: "\<exists>t. m * n * 16 \<le> unat (io_rx_cntr io (1 + t))"
  shows "\<exists>h' s'. ep6_round v io h s = Some (h', s', map (\<lambda>i. chunk (i * 1032) 1032 (buffer s')) [0..<m]) \<and>
    ep6_ok (rate h) s' \<and> counter s' = counter s + of_nat m \<and>
    rate_counter s' = rate_counter s1 \<and> k_audio s' = (if i2c_codec h then k_audio s1 + 2 * (m * n) else k_audio s1) \<and>
    header_offset s' = (next_header ^^ (2 * m)) (header_offset s) \<and>
    (\<forall>d < m. \<forall>b < 4. buffer s' ! (d * 1032 + 4 + b) = be32 (counter s + of_nat d) ! b) \<and>
    (\<forall>e < 2 * m. \<forall>b < 8. buffer s' ! (half_pos e + b) =
       ep6_head ((next_header ^^ e) (header_offset s)) (io_gpio io e) (io_ptt io e) (io_xadc io) ! b) \<and>
    (\<forall>e < 2 * m. \<forall>j < n. \<forall>b < sz. buffer s' ! (half_pos e + 8 + j * sz + b) =
       half_byte v (i2c_codec h) (io_rate io (e * n + j)) (audio s1) sz (take (m * n * 64) (io_fifo io)) ((e * n + j) * 32) (k_audio s1 + e * n + j) b 0)"
proof -
  have geo: "8 \<le> sz" "n * sz \<le> 504" "m \<le> 25" "m * n \<le> 256"
    using ep6_geometry [OF rc] by (simp_all only: sz_def n_def m_def)
  define h1 where "h1 = (if (i2c_codec h \<and> unat (io_adc_cntr io) \<ge> 1024) \<or> unat (io_rx_cntr io 0) \<ge> 8192 then fifo_resets h else h)"
  have h1: "i2c_codec h1 = i2c_codec h" "rate h1 = rate h"
    by (simp_all add: h1_def fifo_resets_def pulse8_def set8_def clr8_def put8_def)
  obtain t where t: "await (io_rx_cntr io) (m * n * 16) 1 = Some t"
    using fills await_returns [of "m * n * 16" "io_rx_cntr io" 1] by blast
  define data where "data = take (m * n * 64) (io_fifo io)"
  note au = ep6_audio_ok [OF ok geo(4), of io "i2c_codec h", folded s1_def]
  have aud: "ep6_audio io (i2c_codec h) (rate h) (m * n) s = Some s1"
    using ok geo(4) by (simp add: ep6_audio_step ep6_ok_def s1_def)
  have cap: "m * n * 64 \<le> 16384" "n * m \<le> 256" using geo(4) by (simp_all add: mult.commute)
  have s1: "s1 = audio_step io (i2c_codec h) (rate h) (m * n) s" by (simp add: s1_def)
  note ib = ep6_index_bound [OF ok geo(4) s1]
  define s2 where "s2 = counted m 0 s1"
  have l1: "length (buffer s1) = 25800" and room: "(0 + m) * 1032 \<le> length (buffer s1)"
    using au ok geo(3) by (simp_all add: ep6_ok_def)
  note pc = put_counters_buffer [OF room, folded s2_def]
  have s2: "header_offset s2 = header_offset s" "rate_counter s2 = rate_counter s1" "k_audio s2 = k_audio s1"
    "audio s2 = audio s1" "counter s2 = counter s + of_nat m" using au by (simp_all add: s2_def)
  have halves: "\<forall>e < 2 * m. half_pos (0 + e) + 512 \<le> length (buffer s2)"
    using half_pos_inside pc l1 room by fastforce
  have fit: "0 + 2 * m * (n * 32) \<le> length data" using fifo by (simp add: data_def)
  have idx: "i2c_codec h \<longrightarrow> (\<forall>x < 2 * m * n. (k_audio s2 + x) div 2 ^ io_rate io (0 * n + x) < 512)"
    using ib(1) index_at [of "k_audio s1" "2 * m * n" "rate h"] kept unfolding s2(3) rate_kept_def by (auto simp: mult.assoc)
  have ho: "header_ok (header_offset s2)" using ok s2 by (simp add: ep6_ok_def)
  obtain s3 where s3: "ep6_halves v io (i2c_codec h) sz n data (2 * m) 0 0 s2 = Some s3"
    and len: "length (buffer s3) = 25800" and same: "audio s3 = audio s1" "rate_counter s3 = rate_counter s1"
      "counter s3 = counter s + of_nat m" "header_ok (header_offset s3)"
      "k_audio s3 = (if i2c_codec h then k_audio s1 + 2 * m * n else k_audio s1)"
      "header_offset s3 = (next_header ^^ (2 * m)) (header_offset s)"
    and out: "\<And>x. x < 25800 \<Longrightarrow> \<not> in_halves 0 (2 * m) x \<Longrightarrow> buffer s3 ! x = buffer s2 ! x"
    and hds: "\<And>e b. e < 2 * m \<Longrightarrow> b < 8 \<Longrightarrow> buffer s3 ! (half_pos e + b) =
       ep6_head ((next_header ^^ e) (header_offset s)) (io_gpio io e) (io_ptt io e) (io_xadc io) ! b"
    and pls: "\<And>e j b. e < 2 * m \<Longrightarrow> j < n \<Longrightarrow> b < sz \<Longrightarrow> buffer s3 ! (half_pos e + 8 + j * sz + b) =
       half_byte v (i2c_codec h) (io_rate io (e * n + j)) (audio s1) sz data ((e * n + j) * 32) (k_audio s1 + e * n + j) b 0"
    using ep6_halves_some [OF geo(1,2) fit halves idx ho, of v] s2 pc l1 by (auto simp: halves_done_def algebra_simps)
  have ids0: "\<forall>d < 25. \<forall>b < 4. buffer s1 ! (d * 1032 + b) = [0xef, 0xfe, 1, 6] ! b" using au ok by (simp add: ep6_ok_def)
  note fx = fixed_bytes [OF room l1 ids0 out [unfolded s2_def]]
  have "int (k_audio s3) \<le> (2 ^ rate h - rate_counter s3 + 1) * 512"
    using ib(2) unfolding same(2,5) by (simp only: mult.assoc)
  then have "ep6_ok (rate h) s3"
    using same au len fx(1) by (simp add: ep6_ok_def)
  moreover have "ep6_round v io h s = Some (h1, s3, map (\<lambda>i. chunk (i * 1032) 1032 (buffer s3)) [0..<m])"
    using t s3 aud put_counters_some [OF room] cap by (simp add: ep6_round_def Let_def sz_def [symmetric] n_def [symmetric] m_def [symmetric] h1_def [symmetric]
        h1 s1_def [symmetric] s2_def [symmetric] data_def [symmetric] mult.commute [of m 2])
  ultimately show ?thesis
    using same(2,3,5,6) fx(2) hds pls au unfolding data_def by (intro exI [of _ h1] exI [of _ s3]) (simp add: mult.assoc)
qed

lemma ep6_round_some:
  fixes v io h s
  defines "sz \<equiv> ep6_size (receivers h)"
  defines "n \<equiv> ep6_n sz"
  defines "m \<equiv> ep6_m n"
  defines "s1 \<equiv> audio_step io (i2c_codec h) (rate h) (m * n) s"
  assumes rc: "1 \<le> receivers h" "receivers h \<le> 8" and ok: "ep6_ok (rate h) s" and kept: "rate_kept h io"
    and fifo: "m * n * 64 \<le> length (io_fifo io)" and fills: "\<exists>t. m * n * 16 \<le> unat (io_rx_cntr io (1 + t))"
  shows "\<exists>h' s' dgs. ep6_round v io h s = Some (h', s', dgs) \<and> ep6_ok (rate h) s' \<and> counter s' = counter s + of_nat m \<and>
    rate_counter s' = rate_counter s1 \<and> k_audio s' = (if i2c_codec h then k_audio s1 + 2 * (m * n) else k_audio s1) \<and>
    header_offset s' = (next_header ^^ (2 * m)) (header_offset s) \<and> length dgs = m \<and>
    (\<forall>d < m. length (dgs ! d) = 1032 \<and> (\<forall>b < 4. dgs ! d ! b = [0xef, 0xfe, 1, 6] ! b) \<and>
       (\<forall>b < 4. dgs ! d ! (4 + b) = be32 (counter s + of_nat d) ! b)) \<and>
    (\<forall>d < m. \<forall>e < 2. \<forall>b < 8. dgs ! d ! (8 + 512 * e + b) =
       ep6_head ((next_header ^^ (2 * d + e)) (header_offset s)) (io_gpio io (2 * d + e)) (io_ptt io (2 * d + e)) (io_xadc io) ! b) \<and>
    (\<forall>d < m. \<forall>e < 2. \<forall>j < n. \<forall>b < sz. dgs ! d ! (16 + 512 * e + j * sz + b) =
       half_byte v (i2c_codec h) (io_rate io ((2 * d + e) * n + j)) (audio s1) sz (io_fifo io) (((2 * d + e) * n + j) * 32) (k_audio s1 + (2 * d + e) * n + j) b 0)"
proof -
  have geo: "8 \<le> sz" "n * sz \<le> 504" "m \<le> 25" using ep6_geometry [OF rc] by (simp_all only: sz_def n_def m_def)
  obtain h' s3 where run: "ep6_round v io h s = Some (h', s3, map (\<lambda>i. chunk (i * 1032) 1032 (buffer s3)) [0..<m])"
    and ok3: "ep6_ok (rate h) s3" and cnt: "counter s3 = counter s + of_nat m"
    and au: "rate_counter s3 = rate_counter s1" "k_audio s3 = (if i2c_codec h then k_audio s1 + 2 * (m * n) else k_audio s1)"
    and ho: "header_offset s3 = (next_header ^^ (2 * m)) (header_offset s)"
    and counts: "\<And>d b. d < m \<Longrightarrow> b < 4 \<Longrightarrow> buffer s3 ! (d * 1032 + 4 + b) = be32 (counter s + of_nat d) ! b"
    and hds: "\<And>e b. e < 2 * m \<Longrightarrow> b < 8 \<Longrightarrow> buffer s3 ! (half_pos e + b) =
       ep6_head ((next_header ^^ e) (header_offset s)) (io_gpio io e) (io_ptt io e) (io_xadc io) ! b"
    and pls: "\<And>e j b. e < 2 * m \<Longrightarrow> j < n \<Longrightarrow> b < sz \<Longrightarrow> buffer s3 ! (half_pos e + 8 + j * sz + b) =
       half_byte v (i2c_codec h) (io_rate io (e * n + j)) (audio s1) sz (take (m * n * 64) (io_fifo io)) ((e * n + j) * 32) (k_audio s1 + e * n + j) b 0"
    using ep6_round_buffer [of h s io v] assms unfolding sz_def n_def m_def s1_def by blast
  define dgs where "dgs = map (\<lambda>i. chunk (i * 1032) 1032 (buffer s3)) [0..<m]"
  have dg: "dgs ! d ! x = buffer s3 ! (d * 1032 + x)" "length (dgs ! d) = 1032" if "d < m" "x < 1032" for d x
    using that geo(3) mult_le_mono1 [of "Suc d" 25 1032] ok3 by (simp_all add: dgs_def ep6_ok_def)
  have heads: "dgs ! d ! (8 + 512 * e + b) =
       ep6_head ((next_header ^^ (2 * d + e)) (header_offset s)) (io_gpio io (2 * d + e)) (io_ptt io (2 * d + e)) (io_xadc io) ! b"
    if "d < m" "e < 2" "b < 8" for d e b
    using dg(1) [of d "8 + 512 * e + b"] hds [of "2 * d + e" b] half_pos_num [of e d] that by (simp add: add.assoc)
  have bytes: "dgs ! d ! (16 + 512 * e + j * sz + b) =
       half_byte v (i2c_codec h) (io_rate io ((2 * d + e) * n + j)) (audio s1) sz (io_fifo io) (((2 * d + e) * n + j) * 32) (k_audio s1 + (2 * d + e) * n + j) b 0"
    if "d < m" "e < 2" "j < n" "b < sz" for d e j b
  proof -
    have x: "16 + 512 * e + j * sz + b < 1032" using mult_le_mono1 [of "Suc j" n sz] that geo(2) by simp
    have e2: "2 * d + e < 2 * m" using that by simp
    then have "((2 * d + e) * n + j) * 32 + 32 \<le> m * n * 64"
      using mult_le_mono1 [of "Suc (2 * d + e)" "2 * m" n] that(3) by simp
    note half_byte_take [OF geo(1) this]
    then show ?thesis
      using dg(1) [OF that(1) x] pls [OF e2 that(3,4)] half_pos_num [OF that(2), of d] by (simp add: add.assoc)
  qed
  have fixed: "\<forall>d < m. length (dgs ! d) = 1032 \<and> (\<forall>b < 4. dgs ! d ! b = [0xef, 0xfe, 1, 6] ! b) \<and>
       (\<forall>b < 4. dgs ! d ! (4 + b) = be32 (counter s + of_nat d) ! b)"
  proof (intro allI impI conjI)
    fix d assume d: "d < m"
    then show "length (dgs ! d) = 1032" using dg(2) [of d 0] by simp
    fix b :: nat assume b: "b < 4"
    show "dgs ! d ! b = [0xef, 0xfe, 1, 6] ! b" using dg(1) [of d b] ok3 d b geo(3) by (simp add: ep6_ok_def)
    show "dgs ! d ! (4 + b) = be32 (counter s + of_nat d) ! b" using dg(1) [of d "4 + b"] counts [OF d b] d b by (simp add: add.assoc)
  qed
  have "length dgs = m" by (simp add: dgs_def)
  with run [folded dgs_def] ok3 cnt au ho heads bytes fixed show ?thesis by blast
qed

section \<open>Properties\<close>

text \<open>What a round relies on: 1 to 8 receivers, and a FIFO that fills up to the samples of one round
  (the FPGA) and then delivers them.\<close>

definition ep6_fed :: "hpsdr \<Rightarrow> ep6_io \<Rightarrow> bool" where
  "ep6_fed h io \<longleftrightarrow> 1 \<le> receivers h \<and> receivers h \<le> 8 \<and>
     (let n = ep6_n (ep6_size (receivers h)); m = ep6_m n
      in m * n * 64 \<le> length (io_fifo io) \<and> (\<exists>t. m * n * 16 \<le> unat (io_rx_cntr io (1 + t))))"

text \<open>The place of receiver \<open>c\<close> in a group of the FIFO: the THETIS build sends the first five
  receivers, the other build leaves out the third of the five.\<close>

definition ep6_slot :: "variant \<Rightarrow> nat \<Rightarrow> nat" where
  "ep6_slot v c = (if v_thetis v \<or> c < 2 then c else c + 1)"

definition ep6_sent :: "variant \<Rightarrow> nat \<Rightarrow> nat" where
  "ep6_sent v rcvrs = min rcvrs (if v_thetis v then 5 else 4)"

lemma frame_byte_slot:
  assumes "1 \<le> rcvrs" and "c < ep6_sent v rcvrs" and "b < 6"
  shows "half_byte v codec r aud (ep6_size rcvrs) data off k (6 * c + b) 0 = data ! (off + 6 * ep6_slot v c + b)"
proof -
  have c: "c < rcvrs" "c < (if v_thetis v then 5 else 4)" using assms(2) by (simp_all add: ep6_sent_def)
  have in_frame: "6 * c + b < ep6_size rcvrs - 2" using c assms(3) by (simp add: ep6_size_def)
  show ?thesis
  proof (cases "c < 2")
    case True
    then have "6 * c + b < copy1 (ep6_size rcvrs)" using c assms(3) by (auto simp: copy1_def ep6_size_def)
    with True in_frame show ?thesis by (simp add: half_byte_def frame_byte_def ep6_slot_def add.assoc)
  next
    case False
    then have "copy1 (ep6_size rcvrs) = 12" "12 \<le> 6 * c + b" "6 * c + b < 12 + copy2 v (ep6_size rcvrs)"
      using c assms(3) by (auto simp: copy1_def copy2_def ep6_size_def split: if_splits)
    moreover have "off + copy2_from v + (6 * c + b - 12) = off + 6 * ep6_slot v c + b"
      using False by (auto simp: copy2_from_def ep6_slot_def)
    ultimately show ?thesis using in_frame by (simp add: half_byte_def frame_byte_def)
  qed
qed

lemma frame_byte_unused:
  assumes "1 \<le> rcvrs" "rcvrs \<le> 8" and "6 * ep6_sent v rcvrs \<le> b" and "b < ep6_size rcvrs - 2"
  shows "half_byte v codec r aud (ep6_size rcvrs) data off k b 0 = 0"
  using receivers_cases [OF assms(1,2)] assms(3,4)
  by (auto simp: half_byte_def frame_byte_def copy1_def copy2_def ep6_sent_def ep6_size_def)

text \<open>C10: a round of the stream thread sends, for every number of receivers from 1 to 8 and in both builds, each group of 32 bytes of
  the FIFO in one frame, in order: the frame holds the six bytes of each receiver that the build sends (\<open>ep6_sent\<close>: at most four, and
  five in the THETIS build; \<open>ep6_slot\<close>: the third place of the group is left out without THETIS), and zeros for the other receivers.
  No copy leaves its array: the round is defined, and it is not as soon as one does.\<close>

theorem ep6_samples:
  assumes "ep6_fed h io" and "ep6_ok (rate h) s" and "rate_kept h io"
  shows "let sz = ep6_size (receivers h); n = ep6_n sz; m = ep6_m n; c' = ep6_sent v (receivers h) in
    \<exists>h' s' dgs. ep6_round v io h s = Some (h', s', dgs) \<and> length dgs = m \<and>
      (\<forall>d < m. \<forall>e < 2. \<forall>j < n.
        (\<forall>c < c'. \<forall>b < 6. dgs ! d ! (16 + 512 * e + j * sz + 6 * c + b) = io_fifo io ! (((2 * d + e) * n + j) * 32 + 6 * ep6_slot v c + b)) \<and>
        (\<forall>b. 6 * c' \<le> b \<and> b < sz - 2 \<longrightarrow> dgs ! d ! (16 + 512 * e + j * sz + b) = 0))"
proof -
  let ?sz = "ep6_size (receivers h)"
  let ?n = "ep6_n ?sz"
  let ?m = "ep6_m ?n"
  let ?s1 = "audio_step io (i2c_codec h) (rate h) (?m * ?n) s"
  have fed: "1 \<le> receivers h" "receivers h \<le> 8" "?m * ?n * 64 \<le> length (io_fifo io)" "\<exists>t. ?m * ?n * 16 \<le> unat (io_rx_cntr io (1 + t))"
    using assms(1) unfolding ep6_fed_def Let_def by blast+
  obtain h' s' dgs where run: "ep6_round v io h s = Some (h', s', dgs)" "length dgs = ?m"
    and bytes: "\<And>d e j b. d < ?m \<Longrightarrow> e < 2 \<Longrightarrow> j < ?n \<Longrightarrow> b < ?sz \<Longrightarrow> dgs ! d ! (16 + 512 * e + j * ?sz + b) =
       half_byte v (i2c_codec h) (io_rate io ((2 * d + e) * ?n + j)) (audio ?s1) ?sz (io_fifo io)
         (((2 * d + e) * ?n + j) * 32) (k_audio ?s1 + (2 * d + e) * ?n + j) b 0"
    using ep6_round_some [OF fed(1,2) assms(2,3) fed(3,4), of v] by blast
  have "dgs ! d ! (16 + 512 * e + j * ?sz + 6 * c + b) = io_fifo io ! (((2 * d + e) * ?n + j) * 32 + 6 * ep6_slot v c + b)"
    if "d < ?m" "e < 2" "j < ?n" "c < ep6_sent v (receivers h)" "b < 6" for d e j c b
  proof -
    have "6 * c + b < ?sz" using that by (simp add: ep6_sent_def ep6_size_def)
    from bytes [OF that(1-3) this] show ?thesis
      using frame_byte_slot [OF fed(1) that(4,5)] by (simp add: add.assoc)
  qed
  moreover have "dgs ! d ! (16 + 512 * e + j * ?sz + b) = 0"
    if "d < ?m" "e < 2" "j < ?n" "6 * ep6_sent v (receivers h) \<le> b \<and> b < ?sz - 2" for d e j b
  proof -
    have b: "b < ?sz" using that(4) by linarith
    show ?thesis using that(4) unfolding bytes [OF that(1-3) b] by (intro frame_byte_unused [OF fed(1,2)]) simp_all
  qed
  ultimately show ?thesis using run by (auto simp: Let_def)
qed

text \<open>The rounds of a session: the shared state as each round finds it, and what the round reads.\<close>

fun ep6_run :: "variant \<Rightarrow> (hpsdr \<times> ep6_io) list \<Rightarrow> ep6 \<Rightarrow> (ep6 \<times> u8 list list) option" where
  "ep6_run v [] s = Some (s, [])"
| "ep6_run v ((h, io) # rounds) s =
    do { (h', s1, dgs) \<leftarrow> ep6_round v io h s; (s2, rest) \<leftarrow> ep6_run v rounds s1; Some (s2, dgs @ rest) }"

lemma ep6_ok_mono: "ep6_ok r s \<Longrightarrow> r \<le> r' \<Longrightarrow> ep6_ok r' s"
proof -
  assume ok: "ep6_ok r s" and le: "r \<le> r'"
  define p p' where "p = (2 :: int) ^ r" and "p' = (2 :: int) ^ r'"
  have "p \<le> p'" using le by (simp add: p_def p'_def)
  moreover have "rate_counter s \<le> p" "int (k_audio s) \<le> (p - rate_counter s + 1) * 512"
    using ok by (simp_all add: ep6_ok_def p_def)
  ultimately have "rate_counter s \<le> p'" "int (k_audio s) \<le> (p' - rate_counter s + 1) * 512" by simp_all
  with ok show ?thesis by (simp add: ep6_ok_def p'_def)
qed

lemma ep6_ok_init: "ep6_ok (rate h) (snd (ep6_init h))"
proof -
  have "\<forall>d < 25. \<forall>b < 4. concat (replicate 25 ([0xef, 0xfe, 1, 6] @ replicate 1028 (0 :: u8))) ! (d * 1032 + b) = [0xef, 0xfe, 1, 6] ! b"
  proof (intro allI impI)
    fix d b :: nat assume d: "d < 25" and b: "b < 4"
    have "concat (replicate k ([0xef, 0xfe, 1, 6] @ replicate 1028 (0 :: u8))) ! (d * 1032 + b) = [0xef, 0xfe, 1, 6] ! b" if "d < k" for k
      using that
    proof (induction k arbitrary: d)
      case (Suc k)
      show ?case
      proof (cases d)
        case 0
        moreover have "b = 0 \<or> b = 1 \<or> b = 2 \<or> b = 3" using b by auto
        ultimately show ?thesis by (elim disjE) simp_all
      next
        case (Suc d')
        then show ?thesis using Suc.IH [of d'] Suc.prems b by (simp add: nth_append)
      qed
    qed simp
    then show "concat (replicate 25 ([0xef, 0xfe, 1, 6] @ replicate 1028 (0 :: u8))) ! (d * 1032 + b) = [0xef, 0xfe, 1, 6] ! b" using d by blast
  qed
  then show ?thesis
    by (simp add: ep6_ok_def ep6_init_def header_ok_def length_concat sum_list_replicate)
qed

lemma ep6_run_numbering:
  assumes "\<forall>(h, io) \<in> set rounds. ep6_fed h io \<and> rate_kept h io \<and> r \<le> rate h" and "sorted (map (rate \<circ> fst) rounds)" and "ep6_ok r s"
  shows "\<exists>s' dgs. ep6_run v rounds s = Some (s', dgs) \<and> counter s' = counter s + of_nat (length dgs) \<and>
    (\<forall>i < length dgs. \<forall>b < 4. length (dgs ! i) = 1032 \<and> dgs ! i ! (4 + b) = be32 (counter s + of_nat i) ! b)"
  using assms
proof (induction rounds arbitrary: r s)
  case Nil
  then show ?case by simp
next
  case (Cons hio rounds)
  obtain h io where hio: "hio = (h, io)" by (cases hio)
  let ?n = "ep6_n (ep6_size (receivers h))"
  let ?m = "ep6_m ?n"
  have fed: "1 \<le> receivers h" "receivers h \<le> 8" "?m * ?n * 64 \<le> length (io_fifo io)" "\<exists>t. ?m * ?n * 16 \<le> unat (io_rx_cntr io (1 + t))"
    using Cons.prems(1) unfolding hio ep6_fed_def Let_def by auto
  have ok: "ep6_ok (rate h) s" and kept: "rate_kept h io" using Cons.prems(1,3) ep6_ok_mono unfolding hio by auto
  obtain h' s1 dgs where run: "ep6_round v io h s = Some (h', s1, dgs)" "ep6_ok (rate h) s1"
    "counter s1 = counter s + of_nat ?m" "length dgs = ?m"
    "\<And>d b. d < ?m \<Longrightarrow> b < 4 \<Longrightarrow> length (dgs ! d) = 1032 \<and> dgs ! d ! (4 + b) = be32 (counter s + of_nat d) ! b"
    using ep6_round_some [OF fed(1,2) ok kept fed(3,4), of v] by (elim exE conjE) (rule that, assumption+, blast)
  have later: "\<forall>(h', io) \<in> set rounds. ep6_fed h' io \<and> rate_kept h' io \<and> rate h \<le> rate h'" using Cons.prems(1,2) unfolding hio by fastforce
  have sorted: "sorted (map (rate \<circ> fst) rounds)" using Cons.prems(2) by (simp add: o_def)
  obtain s2 rest where rest: "ep6_run v rounds s1 = Some (s2, rest)" "counter s2 = counter s1 + of_nat (length rest)"
    "\<forall>i < length rest. \<forall>b < 4. length (rest ! i) = 1032 \<and> rest ! i ! (4 + b) = be32 (counter s1 + of_nat i) ! b"
    using Cons.IH [OF later sorted run(2)] by blast
  have "\<forall>i < length (dgs @ rest). \<forall>b < 4. length ((dgs @ rest) ! i) = 1032 \<and> (dgs @ rest) ! i ! (4 + b) = be32 (counter s + of_nat i) ! b"
  proof (intro allI impI)
    fix i b :: nat assume i: "i < length (dgs @ rest)" and b: "b < 4"
    show "length ((dgs @ rest) ! i) = 1032 \<and> (dgs @ rest) ! i ! (4 + b) = be32 (counter s + of_nat i) ! b"
    proof (cases "i < ?m")
      case True
      then show ?thesis using run(4,5) b by (simp add: nth_append)
    next
      case False
      then have eq: "counter s1 + of_nat (i - ?m) = counter s + of_nat i" using run(3) by (simp add: algebra_simps)
      have "i - ?m < length rest" using False i run(4) by simp
      then have "length (rest ! (i - ?m)) = 1032 \<and> rest ! (i - ?m) ! (4 + b) = be32 (counter s1 + of_nat (i - ?m)) ! b"
        using rest(3) b by blast
      then show ?thesis unfolding eq using False run(4) by (simp add: nth_append)
    qed
  qed
  then show ?case using run rest by (simp add: hio algebra_simps)
qed

text \<open>C11: however many receivers the host selects meanwhile, as long as the FIFO is filled and the host does not lower the
  sample rate setting, neither between the rounds nor during one, the stream thread never leaves its arrays and never stalls, and the datagrams
  of a session carry the consecutive sequence numbers 0, 1, 2 and so on.\<close>

theorem ep6_numbering:
  assumes "\<forall>(h, io) \<in> set rounds. ep6_fed h io \<and> rate_kept h io \<and> rate h0 \<le> rate h" and "sorted (map (rate \<circ> fst) rounds)"
  shows "\<exists>s' dgs. ep6_run v rounds (snd (ep6_init h0)) = Some (s', dgs) \<and>
    (\<forall>i < length dgs. \<forall>b < 4. dgs ! i ! (4 + b) = be32 (of_nat i) ! b)"
  using ep6_run_numbering [OF assms ep6_ok_init, of v] by (auto simp: ep6_init_def)

definition io_example :: ep6_io where
  "io_example = \<lparr>io_adc_cntr = 0, io_rx_cntr = (\<lambda>_. 5000), io_codec = replicate 512 0, io_fifo = replicate 16384 7,
                 io_gpio = (\<lambda>_. 0), io_ptt = (\<lambda>_. 0), io_xadc = (\<lambda>_. 0), io_rate = (\<lambda>_. 0)\<rparr>"

lemma fed_example: "ep6_fed hpsdr_start io_example"
  by (simp add: ep6_fed_def hpsdr_start_def io_example_def Let_def ep6_n_def ep6_m_def ep6_size_def)

lemma kept_example: "rate_kept hpsdr_start io_example"
  by (simp add: rate_kept_def hpsdr_start_def)

theorem ep6_numbering_witness:
  "\<exists>s' dgs. ep6_run hpsdr_125 [(hpsdr_start, io_example), (hpsdr_start, io_example)] (snd (ep6_init hpsdr_start)) = Some (s', dgs)"
  using ep6_numbering [of "[(hpsdr_start, io_example), (hpsdr_start, io_example)]" hpsdr_start hpsdr_125] fed_example kept_example
  by auto

theorem ep6_samples_witness:
  "\<exists>h' s' dgs. ep6_round hpsdr_125 io_example hpsdr_start (snd (ep6_init hpsdr_start)) = Some (h', s', dgs) \<and>
     dgs ! 3 ! (16 + 512 + 62 * 8) = 7"
proof -
  have g: "ep6_size (receivers hpsdr_start) = 8" "ep6_n 8 = 63" "ep6_m 63 = 4" "ep6_sent hpsdr_125 (receivers hpsdr_start) = 1"
    by (simp_all add: hpsdr_start_def ep6_size_def ep6_n_def ep6_m_def ep6_sent_def)
  obtain h' s' dgs where run: "ep6_round hpsdr_125 io_example hpsdr_start (snd (ep6_init hpsdr_start)) = Some (h', s', dgs)"
    and b: "\<forall>d < 4. \<forall>e < 2. \<forall>j < 63.
      (\<forall>c < 1. \<forall>b < 6. dgs ! d ! (16 + 512 * e + j * 8 + 6 * c + b) = io_fifo io_example ! (((2 * d + e) * 63 + j) * 32 + 6 * ep6_slot hpsdr_125 c + b)) \<and>
      (\<forall>b. 6 * 1 \<le> b \<and> b < 8 - 2 \<longrightarrow> dgs ! d ! (16 + 512 * e + j * 8 + b) = 0)"
    using ep6_samples [OF fed_example ep6_ok_init kept_example, of hpsdr_125] unfolding Let_def g
    by (elim exE conjE) (rule that)
  have "dgs ! 3 ! (16 + 512 * 1 + 62 * 8 + 6 * 0 + 0) = io_fifo io_example ! (((2 * 3 + 1) * 63 + 62) * 32 + 6 * ep6_slot hpsdr_125 0 + 0)"
    using b [rule_format, of 3 1 62, THEN conjunct1, rule_format, of 0 0] by simp
  with run show ?thesis by (simp add: io_example_def ep6_slot_def)
qed

section \<open>A lower sample rate setting\<close>

lemma ep6_frames_index: "ep6_frames v codec rt aud sz data n off p k pl = Some (k', pl') \<Longrightarrow> k' = (if codec then k + n else k)"
proof (induction n arbitrary: codec rt off p k pl)
  case (Suc n)
  then show ?case by (cases codec) (auto simp: bind_eq_Some_conv split: if_splits dest: Suc.IH)
qed simp

lemma ep6_frames_outside:
  "j < n \<Longrightarrow> 512 \<le> (k + j) div 2 ^ rt j \<Longrightarrow> ep6_frames v True rt aud sz data n off p k pl = None"
proof (induction n arbitrary: rt off p k pl j)
  case (Suc n)
  show ?case
  proof (cases j)
    case 0
    then show ?thesis using Suc.prems(2) by (simp add: bind_eq_None_conv not_less)
  next
    case (Suc j')
    then have "ep6_frames v True (\<lambda>j. rt (Suc j)) aud sz data n o' p' (k + 1) pl' = None" for o' p' pl'
      using Suc.prems by (intro Suc.IH [of j']) simp_all
    then show ?thesis by (simp add: bind_eq_None_conv)
  qed
qed simp

text \<open>One of the frames of the round has an index beyond the array.\<close>

lemma ep6_halves_outside:
  "x < q * n \<Longrightarrow> 512 \<le> (k_audio s + x) div 2 ^ io_rate io (i * n + x) \<Longrightarrow> ep6_halves v io True sz n data q i off s = None"
proof (induction q arbitrary: i off s x)
  case (Suc q)
  show ?case
  proof (cases "x < n")
    case True
    then show ?thesis
      using ep6_frames_outside [of x n "k_audio s" "\<lambda>j. io_rate io (i * n + j)"] Suc.prems(2) by (simp add: bind_eq_None_conv)
  next
    case False
    then obtain y where y: "x = n + y" by (metis le_Suc_ex not_less)
    have "ep6_halves v io True sz n data q (i + 1) o' t = None" if "k_audio t = k_audio s + n" for o' t
      using Suc.prems that by (intro Suc.IH [of y]) (simp_all add: y algebra_simps)
    moreover have "k' = k_audio s + n" if "ep6_frames v True (\<lambda>j. io_rate io (i * n + j)) (audio s) sz data n off 0 (k_audio s) (replicate 504 0) = Some (k', pl)" for k' pl
      using ep6_frames_index [OF that] by simp
    ultimately show ?thesis
      by (cases "ep6_frames v True (\<lambda>j. io_rate io (i * n + j)) (audio s) sz data n off 0 (k_audio s) (replicate 504 0)")
        (auto simp: bind_eq_None_conv)
  qed
qed simp

lemma round_frames: "1 \<le> r \<Longrightarrow> r \<le> 8 \<Longrightarrow> 494 \<le> 2 * (ep6_m (ep6_n (ep6_size r)) * ep6_n (ep6_size r))"
  using receivers_cases [of r] by (auto simp: ep6_size_def ep6_n_def ep6_m_def)

lemma fifo_resets_keep: "i2c_codec (fifo_resets h) = i2c_codec h" "rate (fifo_resets h) = rate h"
  by (simp_all add: fifo_resets_def pulse8_def set8_def clr8_def put8_def)

lemma ep6_round_outside:
  assumes "1 \<le> receivers h" "receivers h \<le> 8" "i2c_codec h" and "rate_counter s \<noteq> 1" and "\<forall>f. io_rate io f = r"
    and "512 * 2 ^ r \<le> k_audio s + 493"
  shows "ep6_round v io h s = None"
proof -
  have "512 \<le> (k_audio s + 493) div 2 ^ io_rate io (0 * n + 493)" for n
    using div_le_mono [OF assms(6), of "2 ^ r"] assms(5) by simp
  moreover have "493 < ep6_m (ep6_n (ep6_size (receivers h))) * 2 * ep6_n (ep6_size (receivers h))"
  proof -
    have "m * 2 * n = 2 * (m * n)" for m n :: nat by simp
    then show ?thesis using round_frames [OF assms(1,2)] by (simp only:)
  qed
  ultimately have "ep6_halves v io True sz (ep6_n (ep6_size (receivers h))) data (ep6_m (ep6_n (ep6_size (receivers h))) * 2) 0 0 t = None"
    if "k_audio t = k_audio s" for sz data t
    using that by (intro ep6_halves_outside) simp_all
  moreover have "k_audio s1 = k_audio s" if "ep6_audio io True r' mn s = Some s1" for r' mn s1
    using that assms(4) by (auto simp: ep6_audio_def Let_def)
  ultimately have none: False if "ep6_audio io True r' mn s = Some s1" "put_counters q 0 s1 = Some s2"
    "ep6_halves v io True sz (ep6_n (ep6_size (receivers h))) data (ep6_m (ep6_n (ep6_size (receivers h))) * 2) 0 0 s2 = Some s3"
    for sz data r' mn q s1 s2 s3
    using that put_counters_index by (metis option.distinct(1))
  show ?thesis
  proof (rule ccontr)
    assume "ep6_round v io h s \<noteq> None"
    then obtain res where "ep6_round v io h s = Some res" by blast
    then show False
      using assms(3) by (auto simp: ep6_round_def Let_def bind_eq_Some_conv fifo_resets_keep split: if_splits dest: none)
  qed
qed

lemma ep6_run_append: "ep6_run v (xs @ ys) s = do { (s1, d1) \<leftarrow> ep6_run v xs s; (s2, d2) \<leftarrow> ep6_run v ys s1; Some (s2, d1 @ d2) }"
proof (induction xs arbitrary: s)
  case (Cons x xs)
  then show ?case by (cases x; cases "ep6_round v (snd x) (fst x) s") (auto simp: split_def split: bind_split)
qed (auto simp: split_def)

text \<open>Rounds between two refills: the counter falls and the index grows.\<close>

lemma ep6_run_index:
  assumes "\<forall>(h, io) \<in> set rounds. ep6_fed h io \<and> i2c_codec h \<and> rate h = r \<and> (\<forall>f. io_rate io f = r)" and "ep6_ok r s"
    and "int (length rounds) < rate_counter s"
  shows "\<exists>s' dgs. ep6_run v rounds s = Some (s', dgs) \<and> ep6_ok r s' \<and> rate_counter s' = rate_counter s - int (length rounds) \<and>
    k_audio s + 494 * length rounds \<le> k_audio s'"
  using assms
proof (induction rounds arbitrary: s)
  case (Cons hio rounds)
  obtain h io where hio: "hio = (h, io)" by (cases hio)
  let ?n = "ep6_n (ep6_size (receivers h))"
  let ?m = "ep6_m ?n"
  have fed: "1 \<le> receivers h" "receivers h \<le> 8" "?m * ?n * 64 \<le> length (io_fifo io)" "\<exists>t. ?m * ?n * 16 \<le> unat (io_rx_cntr io (1 + t))"
    and here: "i2c_codec h" "rate h = r" "rate_kept h io"
    using Cons.prems(1) unfolding hio ep6_fed_def rate_kept_def Let_def by auto
  have ok: "ep6_ok (rate h) s" using Cons.prems(2) here(2) by simp
  obtain h' s1 dgs where run: "ep6_round v io h s = Some (h', s1, dgs)" "ep6_ok (rate h) s1"
    "rate_counter s1 = rate_counter (audio_step io (i2c_codec h) (rate h) (?m * ?n) s)"
    "k_audio s1 = (if i2c_codec h then k_audio (audio_step io (i2c_codec h) (rate h) (?m * ?n) s) + 2 * (?m * ?n)
       else k_audio (audio_step io (i2c_codec h) (rate h) (?m * ?n) s))"
    using ep6_round_some [OF fed(1,2) ok here(3) fed(3,4), of v] by blast
  have "rate_counter s - 1 \<noteq> 0" using Cons.prems(3) by simp
  then have s1: "rate_counter s1 = rate_counter s - 1" "k_audio s + 494 \<le> k_audio s1"
    using run(3,4) here(1) round_frames [OF fed(1,2)] by (simp_all add: audio_step_def Let_def)
  obtain s2 rest where "ep6_run v rounds s1 = Some (s2, rest)" "ep6_ok r s2" "rate_counter s2 = rate_counter s1 - int (length rounds)"
    "k_audio s1 + 494 * length rounds \<le> k_audio s2"
    using Cons.IH [of s1] Cons.prems(1,3) run(2) here(2) s1 by auto
  then show ?case using run(1) s1 by (simp add: hio)
qed simp

lemma config_rate: "frame ! 0 \<in> {0, 1} \<Longrightarrow> rate (process_ep2 v frame s) = unat (frame ! 1 AND 3)"
proof -
  assume c: "frame ! 0 \<in> {0, 1}"
  have "promote (frame ! 1) AND 3 = promote (frame ! 1 AND 3)" by (rule word32_eqI) (simp add: word_bits)
  then have "unat (promote (frame ! 1) AND 3) = unat (frame ! 1 AND 3)"
    using unsigned_less [of "frame ! 1 AND 3", where ?'a = nat] by (simp add: unsigned_ucast_eq take_bit_nat_eq_self)
  moreover have "rate (ep2_config v frame s) = unat (promote (frame ! 1) AND 3)"
  proof -
    have "rate (ocant_store d1 t) = rate t" "rate (dac0_store d2 t) = rate t" "rate (nucleo0_store d2 t) = rate t"
      "rate (pene_store d2 t) = rate t" "rate (alex0_store d2 t) = rate t" for d1 d2 t
      by (simp_all add: i2c_store_defs flag_store_defs emit_def)
    then show ?thesis
      by (simp add: ep2_config_def cfg_arduino_def cfg_dac0_def cfg_nucleo_def cfg_pene_def cfg_alex_def cfg_rate_def Let_def put16_def)
  qed
  ultimately show ?thesis by (simp add: process_ep2_switch(1) [OF c])
qed

text \<open>C12: with a codec, the stream thread is started with the sample rate setting 2 or 3 (a refill of the codec's samples for 4 or 8
  rounds) and runs \<open>2 ^ r'\<close> rounds, all of which succeed.  When the host now sends a configuration command that lowers the
  setting to \<open>r'\<close>, the next round reads outside the array \<open>audio\<close>, whatever the numbers of receivers.\<close>

theorem ep6_rate_lowered:
  assumes "2 \<le> r" and "rate h0 = r" and "length rounds = 2 ^ r'"
    and "\<forall>(h, io) \<in> set rounds. ep6_fed h io \<and> i2c_codec h \<and> rate h = r \<and> (\<forall>f. io_rate io f = r)"
    and "h' = process_ep2 v frame h" and "frame ! 0 \<in> {0, 1}" and "unat (frame ! 1 AND 3) = r'" and "r' < r"
    and "ep6_fed h' io'" and "i2c_codec h'" and "\<forall>f. io_rate io' f = rate h'"
  shows "ep6_run v rounds (snd (ep6_init h0)) \<noteq> None \<and> ep6_run v (rounds @ [(h', io')]) (snd (ep6_init h0)) = None"
proof -
  let ?s0 = "snd (ep6_init h0)"
  have init: "ep6_ok r ?s0" "rate_counter ?s0 = 2 ^ r" using ep6_ok_init [of h0] assms(2) by (simp_all add: ep6_init_def)
  have double: "2 * 2 ^ r' \<le> (2 :: int) ^ r" using power_increasing [of "Suc r'" r "2 :: int"] assms(8) by simp
  have four: "(4 :: int) \<le> 2 ^ r" using power_increasing [of 2 r "2 :: int"] assms(1) by simp
  have "int (length rounds) < rate_counter ?s0" using assms(3,8) init(2) by simp
  from ep6_run_index [OF assms(4) init(1) this, of v] obtain s1 dgs where run: "ep6_run v rounds ?s0 = Some (s1, dgs)"
    "rate_counter s1 = 2 ^ r - 2 ^ r'" "494 * 2 ^ r' \<le> k_audio s1"
    using init(2) assms(3) by (auto simp: ep6_init_def)
  have rate': "rate h' = r'" using config_rate [OF assms(6)] assms(5,7) by simp
  have "r' < 4" using assms(7) and_mask_less [of 3 2 "frame ! 1"] unsigned_less by (simp add: mask_eq_exp_minus_1)
  then have "(2 :: nat) ^ r' \<le> 8" using power_increasing [of r' 3 "2 :: nat"] by simp
  then have beyond: "512 * 2 ^ r' \<le> k_audio s1 + 493" using run(3) by linarith
  have "rate_counter s1 \<noteq> 1" using run(2) double four by linarith
  then have "ep6_round v io' h' s1 = None"
    using assms(9-11) beyond by (intro ep6_round_outside [where r = r']) (auto simp: ep6_fed_def rate')
  with run(1) show ?thesis by (simp add: ep6_run_append)
qed

text \<open>One round with the setting 2, then a command that sets it to 0.\<close>

theorem ep6_rate_lowered_witness:
  "let h = hpsdr_start\<lparr>i2c_codec := True, rate := 2\<rparr>; io = io_example\<lparr>io_rate := (\<lambda>_. 2)\<rparr>; h' = process_ep2 hpsdr_125 [0, 0, 0, 0, 0] h
   in ep6_run hpsdr_125 [(h, io)] (snd (ep6_init h)) \<noteq> None \<and> ep6_run hpsdr_125 [(h, io), (h', io_example)] (snd (ep6_init h)) = None"
proof -
  let ?h = "hpsdr_start\<lparr>i2c_codec := True, rate := 2\<rparr>" and ?io = "io_example\<lparr>io_rate := (\<lambda>_. 2)\<rparr>"
  let ?h' = "process_ep2 hpsdr_125 [0, 0, 0, 0, 0] ?h"
  have h': "receivers ?h' = 1" "i2c_codec ?h'" "rate ?h' = 0"
    by (simp_all add: process_ep2_switch(1) ep2_config_def config_defs Let_def hpsdr_start_def reg_addr put8_def put16_def
        ocant_store_def dac0_store_def nucleo0_store_def pene_store_def alex0_store_def emit_def)
  have fed: "ep6_fed ?h ?io" "ep6_fed ?h' io_example" using fed_example h' by (simp_all add: ep6_fed_def io_example_def hpsdr_start_def)
  show ?thesis
    using ep6_rate_lowered [of 2 ?h "[(?h, ?io)]" 0 ?h' hpsdr_125 "[0, 0, 0, 0, 0]" ?h io_example] fed h'
    by (simp add: io_example_def Let_def)
qed

end
