(* ===== verification/Cargs.thy ===== *)
theory Cargs imports Prelude begin

text \<open>
  The part of the C library that the servers use on their command lines: \<open>strtol(s, &end, 10)\<close> with
  a 32-bit \<open>long\<close> (the target is a 32-bit ARM), as the triple of \<open>errno\<close> being set, the number of
  characters consumed and the value.
\<close>

definition is_space :: "char \<Rightarrow> bool" where
  "is_space c = (of_char c \<in> {32 :: nat, 9, 10, 11, 12, 13})"

definition is_digit :: "char \<Rightarrow> bool" where
  "is_digit c = (48 \<le> (of_char c :: nat) \<and> (of_char c :: nat) \<le> 57)"

definition digit_value :: "char \<Rightarrow> int" where
  "digit_value c = int (of_char c) - 48"

definition digits_value :: "string \<Rightarrow> int" where
  "digits_value ds = foldl (\<lambda>acc c. acc * 10 + digit_value c) 0 ds"

definition long_max :: int where "long_max = 2147483647"
definition long_min :: int where "long_min = -2147483648"

definition strtol :: "string \<Rightarrow> bool \<times> nat \<times> int" where
  "strtol s =
    (let blanks = takeWhile is_space s;
         rest = drop (length blanks) s;
         minus = (rest \<noteq> [] \<and> hd rest = CHR ''-'');
         plus = (rest \<noteq> [] \<and> hd rest = CHR ''+'');
         body = (if minus \<or> plus then tl rest else rest);
         ds = takeWhile is_digit body;
         value = (if minus then - digits_value ds else digits_value ds)
     in if ds = [] then (False, 0, 0)
        else (value < long_min \<or> long_max < value,
              length blanks + (if minus \<or> plus then 1 else 0) + length ds,
              max long_min (min long_max value)))"

text \<open>The check that the servers make of an argument: \<open>errno = 0; number = strtol(arg, &end, 10);
  if(errno != 0 || end == arg || number < lo || number > hi)\<close> fail.\<close>

definition number_arg :: "int \<Rightarrow> int \<Rightarrow> string \<Rightarrow> int option" where
  "number_arg lo hi arg =
    (let (range, consumed, number) = strtol arg
     in if range \<or> consumed = 0 \<or> number < lo \<or> number > hi then None else Some number)"

lemma number_arg_range: "number_arg lo hi arg = Some n \<Longrightarrow> lo \<le> n \<and> n \<le> hi"
  by (auto simp: number_arg_def Let_def split: prod.splits if_splits)

lemma number_arg_examples:
  "number_arg 1 2 ''2'' = Some 2" "number_arg 1 2 '' 1x'' = Some 1" "number_arg 1 2 ''x'' = None"
  "number_arg 1 2 ''-1'' = None" "number_arg 1 2 ''99999999999999999999'' = None" "number_arg 1 2 '''' = None"
  by code_simp+

end
