(* ===== verification/HpsdrMain.thy ===== *)
theory HpsdrMain imports HpsdrEp6 Cargs begin

text \<open>
  \<open>main\<close> of sdr-transceiver-hpsdr.c: the command line, the probing of the I2C devices, the initial
  registers, the dispatch of the host's datagrams and the updates of the filters at the end of every
  pass of the main loop.
\<close>

section \<open>Command line\<close>

fun chan_args :: "nat \<Rightarrow> string list \<Rightarrow> u8 \<Rightarrow> u8 option" where
  "chan_args i [] chan = Some chan"
| "chan_args i (arg # args) chan =
    (case number_arg 1 2 arg of
       None \<Rightarrow> None
     | Some number \<Rightarrow> chan_args (i + 1) args (chan OR push_bit i (word_of_int (number - 1))))"

text \<open>\<open>args\<close> are the arguments after the program's name; \<open>None\<close> is the usage message.\<close>

definition hpsdr_args :: "string list \<Rightarrow> u8 option" where
  "hpsdr_args args = (if length args = 6 then chan_args 0 args 0 else None)"

section \<open>Probing the I2C devices\<close>

text \<open>\<open>if(ioctl(i2c_fd, I2C_SLAVE, addr) >= 0) if(write(\<dots>) > 0) { found; other writes }\<close>.  Whether the
  call selects the address and whether a device acknowledges are arguments: \<open>slave\<close> and \<open>ack\<close>.\<close>

definition probe :: "(u8 \<Rightarrow> bool) \<Rightarrow> (u8 \<Rightarrow> bool) \<Rightarrow> u8 \<Rightarrow> u8 list \<Rightarrow> (hpsdr \<Rightarrow> hpsdr) \<Rightarrow> u8 list list \<Rightarrow> hpsdr \<Rightarrow> hpsdr" where
  "probe slave ack addr msg found rest s =
    (if slave addr
     then let s1 = emit [Slave addr, I2c msg] s
          in if ack addr then emit (map I2c rest) (found s1) else s1
     else s)"

definition probe_expander :: "(u8 \<Rightarrow> bool) \<Rightarrow> (u8 \<Rightarrow> bool) \<Rightarrow> u8 \<Rightarrow> (hpsdr \<Rightarrow> hpsdr) \<Rightarrow> hpsdr \<Rightarrow> hpsdr" where
  "probe_expander slave ack addr found =
    probe slave ack addr (i2c_write_addr_data16 0x02 0) found [i2c_write_addr_data16 0x06 0]"

definition codec_setup :: "u8 list list" where
  "codec_setup =
    [i2c_write_addr_data8 0x0c 0x51, i2c_write_addr_data8 0x12 0x00, i2c_write_addr_data8 0x04 0x6f,
     i2c_write_addr_data8 0x06 0x6f, i2c_write_addr_data8 0x08 0x14, i2c_write_addr_data8 0x0a 0x00,
     i2c_write_addr_data8 0x0e 0x42, i2c_write_addr_data8 0x12 0x01, i2c_write_addr_data8 0x0c 0x41]"

definition hpsdr_probe :: "bool \<Rightarrow> (u8 \<Rightarrow> bool) \<Rightarrow> (u8 \<Rightarrow> bool) \<Rightarrow> hpsdr \<Rightarrow> hpsdr" where
  "hpsdr_probe i2c_open slave ack s =
    (if i2c_open
     then let s = probe_expander slave ack 0x20 (\<lambda>s. s\<lparr>i2c_pene := True\<rparr>) s;
              s = probe_expander slave ack 0x21 (\<lambda>s. s\<lparr>i2c_alex := True\<rparr>) s;
              s = probe_expander slave ack 0x22 (\<lambda>s. s\<lparr>i2c_level := True\<rparr>) s;
              s = probe_expander slave ack 0x23 (\<lambda>s. s\<lparr>i2c_misc := True\<rparr>) s;
              s = probe slave ack 0x28 (i2c_write_addr_data16 0xa9 0) (\<lambda>s. s\<lparr>i2c_drive := True\<rparr>) [] s;
              s = probe slave ack 0x60 (i2c_write_data16 (i2c_dac0_data s)) (\<lambda>s. s\<lparr>i2c_dac0 := True\<rparr>) [] s;
              s = probe slave ack 0x61 (i2c_write_data16 (i2c_dac1_data s)) (\<lambda>s. s\<lparr>i2c_dac1 := True\<rparr>) [] s;
              s = probe slave ack 0x40 (i2c_write_addr_data16 0x1 (i2c_ard_frx1_data s)) (\<lambda>s. s\<lparr>i2c_arduino := True\<rparr>) [] s;
              s = probe slave ack 0x55 (i2c_write_data40 0x02100000 0) (\<lambda>s. s\<lparr>i2c_nucleo := True\<rparr>) [] s
          in probe slave ack 0x1A (i2c_write_addr_data8 0x1e 0x00) (\<lambda>s. s\<lparr>i2c_codec := True\<rparr>) codec_setup s
     else s)"

section \<open>Initial registers\<close>

text \<open>The two ramp tables, which \<open>main\<close> computes with \<open>cos\<close> and stores in memory windows of their
  own, and \<open>calc_log_lookup\<close>, which uses \<open>log10\<close>, are in \<open>HpsdrTables\<close>; \<open>lut\<close> is the table of the latter.\<close>

definition hpsdr_registers :: "variant \<Rightarrow> u8 \<Rightarrow> (nat \<Rightarrow> u8) \<Rightarrow> hpsdr \<Rightarrow> hpsdr" where
  "hpsdr_registers v chan lut s =
    (let s = put8 rx_sel (chan AND 15) s;
         s = put8 tx_sel (drop_bit 4 chan AND 3) s;
         s = put8 gpio_out 0 s;
         s = put32 (rx_freq 0) (phase_inc v 600000) s;
         s = put32 (rx_freq 1) (phase_inc v 600000) s;
         s = put32 (rx_freq 2) (phase_inc v 600000) s;
         s = put16 rx_rate (v_rates v ! 0) s;
         s = put32 tx_freq (phase_inc v 600000) s;
         s = put16 tx_size 1001 s;
         s = put16 tx_level (v_tx_level v) s;
         s = put16 ps_level (v_ps_level v) s;
         s = clr8 tx_rst 16 s;
         s = pulse8 tx_rst 3 s;
         s = pulse8 lo_rst 4 s;
         s = (if i2c_codec s
              then let s = pulse8 rx_rst 2 s;
                       s = clr8 rx_rst 4 s;
                       s = put32 dac_freq (dds_word 48000 600) s;
                       s = put16 dac_size 481 s
                   in put16 dac_level 3200 s
              else set8 rx_rst 4 s)
     in s\<lparr>log_table_lookup := lut\<rparr>)"

definition hpsdr_init :: "variant \<Rightarrow> u8 \<Rightarrow> bool \<Rightarrow> (u8 \<Rightarrow> bool) \<Rightarrow> (u8 \<Rightarrow> bool) \<Rightarrow> (nat \<Rightarrow> u8) \<Rightarrow> hpsdr \<Rightarrow> hpsdr" where
  "hpsdr_init v chan i2c_open slave ack lut s = hpsdr_registers v chan lut (hpsdr_probe i2c_open slave ack s)"

section \<open>Datagrams of the host\<close>

text \<open>What a pass reads from outside while it handles one datagram: the successive values of the two
  FIFO counters; the milliseconds at which the stream thread comes to the head of its loop; and the pins, the keyer's PTT and its
  transmit multiplexer as they are then.\<close>

record main_io =
  io_tx_cntr :: "nat \<Rightarrow> u16"
  io_dac_cntr :: "nat \<Rightarrow> u16"
  io_stream :: "nat \<Rightarrow> bool"
  io_pins :: u8
  io_cw_ptt :: u8
  io_tx_mux :: u8

definition word_at :: "u8 list \<Rightarrow> nat \<Rightarrow> u32" where
  "word_at buf i = of_le32 (chunk i 4 buf)"

text \<open>\<open>for(j = 0; j < 504; j += 8)\<close>\<close>

definition strides :: "nat list" where
  "strides = map (\<lambda>j. 8 * j) [0..<63]"

text \<open>The words of one half datagram: envelope (or 0) and sample, for each of its 63 samples.\<close>

definition tx_words :: "bool \<Rightarrow> nat \<Rightarrow> u8 list \<Rightarrow> u32 list" where
  "tx_words eer start buf = concat (map (\<lambda>j. [if eer then word_at buf (start + j) else 0, word_at buf (start + 4 + j)]) strides)"

definition tx_feed :: "main_io \<Rightarrow> u8 list \<Rightarrow> hpsdr \<Rightarrow> hpsdr option" where
  "tx_feed io buf s =
    (if tx_mux_data s = 0
     then do { t \<leftarrow> await_below (io_tx_cntr io) 3844 0;
               let s1 = (if io_tx_cntr io (t + 1) = 0 then emit (map Fifo (replicate 2520 0)) s else s);
               Some (if (cfg s1 gpio_out AND 1) OR (gpio_in s1 AND 1) \<noteq> 0
                     then emit (map Fifo (tx_words (tx_eer_data s1 \<noteq> 0) 16 buf @ tx_words (tx_eer_data s1 \<noteq> 0) 528 buf)) s1
                     else emit (map Fifo (replicate 252 0)) s1) }
     else Some s)"

definition codec_feed :: "main_io \<Rightarrow> u8 list \<Rightarrow> hpsdr \<Rightarrow> hpsdr option" where
  "codec_feed io buf s =
    (if i2c_codec s
     then do { t \<leftarrow> await_below (io_dac_cntr io) 1922 0;
               let s1 = (if io_dac_cntr io (t + 1) = 0 then emit (map Codec (replicate 1260 0)) s else s);
               Some (emit (map Codec (map (\<lambda>j. word_at buf (16 + j)) strides @ map (\<lambda>j. word_at buf (528 + j)) strides)) s1) }
     else Some s)"

definition data_packet :: "variant \<Rightarrow> main_io \<Rightarrow> u8 list \<Rightarrow> hpsdr \<Rightarrow> hpsdr option" where
  "data_packet v io buf s =
    do { s1 \<leftarrow> tx_feed io buf s;
         s2 \<leftarrow> codec_feed io buf s1;
         Some (process_ep2 v (drop 523 buf) (process_ep2 v (drop 11 buf) s2)) }"

text \<open>The answer to a discovery: 60 bytes, \<open>mac\<close> the hardware address of the interface.\<close>

definition discovery_reply :: "u8 list \<Rightarrow> hpsdr \<Rightarrow> u8 list" where
  "discovery_reply mac s = [0xef, 0xfe, 2 + of_bool (active_thread s)] @ mac @ [32, 1] @ replicate 49 0"

definition discovery :: "u8 list \<Rightarrow> hpsdr \<Rightarrow> hpsdr" where
  "discovery mac s = emit [Send (discovery_reply mac s)] s"

text \<open>The head of the stream thread's loop: \<open>if(!enable_thread) break;\<close>, after which it clears \<open>active_thread\<close>.\<close>

definition stream_test :: "hpsdr \<Rightarrow> hpsdr" where
  "stream_test s = (if enable_thread s then s else s\<lparr>active_thread := False\<rparr>)"

text \<open>\<open>while(active_thread) usleep(1000);\<close>, with the stream thread running meanwhile.\<close>

partial_function (option) await_stopped :: "(nat \<Rightarrow> bool) \<Rightarrow> nat \<Rightarrow> hpsdr \<Rightarrow> hpsdr option" where
  "await_stopped runs t s =
    (if active_thread s then await_stopped runs (t + 1) (if runs t then stream_test s else s) else Some s)"

definition stop_stream :: "main_io \<Rightarrow> hpsdr \<Rightarrow> hpsdr option" where
  "stop_stream io s = await_stopped (io_stream io) 0 (s\<lparr>enable_thread := False\<rparr>)"

definition start_stream :: "main_io \<Rightarrow> hpsdr \<Rightarrow> hpsdr option" where
  "start_stream io s =
    do { s1 \<leftarrow> stop_stream io s;
         Some (pulse8 lo_rst 3 (s1\<lparr>enable_thread := True, active_thread := True, rx_sync_data := 0\<rparr>)) }"

definition dispatch :: "variant \<Rightarrow> u8 list \<Rightarrow> main_io \<Rightarrow> u8 list \<Rightarrow> hpsdr \<Rightarrow> hpsdr option" where
  "dispatch v mac io buf s =
    (let code = word_at buf 0
     in if code = 0x0201feef then data_packet v io buf s
        else if code = 0x0002feef then Some (discovery mac s)
        else if code = 0x0004feef then stop_stream io s
        else if code = 0x0104feef \<or> code = 0x0204feef \<or> code = 0x0304feef then start_stream io s
        else Some s)"

section \<open>Filter updates\<close>

text \<open>\<open>p\<close> and \<open>q\<close> are the values of \<open>cw_ptt\<close> at its two readings.\<close>

definition alex_flush :: "hpsdr \<Rightarrow> hpsdr" where
  "alex_flush s = (if alex_update s then alex_write (s\<lparr>alex_update := False\<rparr>) else s)"

definition misc_flush :: "hpsdr \<Rightarrow> hpsdr" where
  "misc_flush s = (if misc_update s then misc_write (s\<lparr>misc_update := False\<rparr>) else s)"

definition nucleo_flush :: "hpsdr \<Rightarrow> hpsdr" where
  "nucleo_flush s = (if nucleo_update s then nucleo_write (s\<lparr>nucleo_update := False\<rparr>) else s)"

definition updates :: "u8 \<Rightarrow> u8 \<Rightarrow> hpsdr \<Rightarrow> hpsdr" where
  "updates p q s =
    (let s1 = alex_flush (alex0_store (alex_data_0 s OR ucast p) s);
         s2 = misc_flush s1
     in nucleo_flush (nucleo0_store (ucast (nucleo_data_0 s2 OR promote q)) s2))"

section \<open>A pass of the main loop\<close>

text \<open>\<open>recvmmsg\<close> stores a datagram at the start of its buffer, in which \<open>id\<close> has been put before; what the
  datagram does not fill keeps the bytes of an earlier one.\<close>

definition receive :: "u8 list \<Rightarrow> u8 list \<Rightarrow> u8 list" where
  "receive buf d = blit (blit buf 0 [0xef, 0xfe, 1, 6]) 0 (take 1032 d)"

definition dispatch_in :: "variant \<Rightarrow> u8 list \<Rightarrow> main_io \<times> u8 list \<Rightarrow> hpsdr \<Rightarrow> hpsdr option" where
  "dispatch_in v mac msg s =
    dispatch v mac (fst msg) (snd msg)
      (s\<lparr>gpio_in := io_pins (fst msg), cw_ptt := io_cw_ptt (fst msg), tx_mux_data := io_tx_mux (fst msg)\<rparr>)"

text \<open>The answer to a discovery is put together in the buffer of the datagram.\<close>

definition buffer_after :: "u8 list \<Rightarrow> u8 list \<Rightarrow> hpsdr \<Rightarrow> u8 list" where
  "buffer_after mac buf s = (if word_at buf 0 = 0x0002feef then blit buf 0 (discovery_reply mac s) else buf)"

fun dispatch_all :: "variant \<Rightarrow> u8 list \<Rightarrow> (main_io \<times> u8 list) list \<Rightarrow> hpsdr \<Rightarrow> (u8 list list \<times> hpsdr) option" where
  "dispatch_all v mac [] s = Some ([], s)"
| "dispatch_all v mac (msg # msgs) s =
    do { s1 \<leftarrow> dispatch_in v mac msg s; (bufs, s2) \<leftarrow> dispatch_all v mac msgs s1; Some (buffer_after mac (snd msg) s # bufs, s2) }"

text \<open>A pass: the datagrams received with what is read meanwhile, at most 8 of them, and the two final readings of \<open>cw_ptt\<close>.\<close>

type_synonym main_pass = "(main_io \<times> u8 list) list \<times> u8 \<times> u8"

definition main_loop_pass :: "variant \<Rightarrow> u8 list \<Rightarrow> main_pass \<Rightarrow> u8 list list \<times> hpsdr \<Rightarrow> (u8 list list \<times> hpsdr) option" where
  "main_loop_pass v mac pass st =
    (let (ins, p, q) = pass; (bufs, s) = st;
         n = min 8 (length ins);
         bufs1 = map2 receive (take n bufs) (map snd ins) @ map (\<lambda>b. blit b 0 [0xef, 0xfe, 1, 6]) (drop n bufs)
     in do { (done, s1) \<leftarrow> dispatch_all v mac (zip (map fst ins) (take n bufs1)) s;
             Some (done @ drop n bufs1, updates p q s1) })"

definition main_loop :: "variant \<Rightarrow> u8 list \<Rightarrow> main_pass list \<Rightarrow> u8 list list \<times> hpsdr \<Rightarrow> (u8 list list \<times> hpsdr) option" where
  "main_loop v mac = run_all (main_loop_pass v mac)"

section \<open>The datagrams of a pass and the wait for the stream thread\<close>

lemma dispatch_all_run: "map_option snd (dispatch_all v mac msgs s) = run_all (dispatch_in v mac) msgs s"
proof (induction msgs arbitrary: s)
  case (Cons msg msgs)
  then show ?case
  proof (cases "dispatch_in v mac msg s")
    case (Some s1)
    with Cons [of s1] show ?thesis by (cases "dispatch_all v mac msgs s1") auto
  qed simp
qed simp

lemma await_stopped_result: "await_stopped runs t s = Some s' \<Longrightarrow> \<not> enable_thread s \<Longrightarrow> s' = s\<lparr>active_thread := False\<rparr>"
proof -
  assume run: "await_stopped runs t s = Some s'" and off: "\<not> enable_thread s"
  have "\<not> enable_thread s \<longrightarrow> s' = s\<lparr>active_thread := False\<rparr>"
  proof (rule await_stopped.raw_induct [of "\<lambda>runs t s s'. \<not> enable_thread s \<longrightarrow> s' = s\<lparr>active_thread := False\<rparr>", OF _ run], rule impI)
    fix aw runs t s s'
    assume IH: "\<And>runs t s s'. aw runs t s = Some s' \<Longrightarrow> \<not> enable_thread s \<longrightarrow> s' = s\<lparr>active_thread := False\<rparr>"
      and body: "(if active_thread s then aw runs (t + 1) (if runs t then stream_test s else s) else Some s) = Some s'"
      and off: "\<not> enable_thread (s :: hpsdr)"
    show "s' = s\<lparr>active_thread := False\<rparr>"
    proof (cases "active_thread s")
      case True
      with body off have "aw runs (t + 1) (if runs t then s\<lparr>active_thread := False\<rparr> else s) = Some s'" by (auto simp: stream_test_def)
      then show ?thesis using off by (cases "runs t") (auto dest: IH)
    next
      case False
      then have "s\<lparr>active_thread := False\<rparr> = s" by simp
      with False body show ?thesis by simp
    qed
  qed
  with off show ?thesis by blast
qed

lemma stop_stream_result: "stop_stream io s = Some s' \<Longrightarrow> s' = s\<lparr>enable_thread := False, active_thread := False\<rparr>"
  unfolding stop_stream_def by (drule await_stopped_result) simp_all

lemma await_stopped_returns: "runs (t + d) \<Longrightarrow> \<not> enable_thread s \<Longrightarrow> \<exists>s'. await_stopped runs t s = Some s'"
proof (induction d arbitrary: t)
  case 0
  have "await_stopped runs (Suc t) (s\<lparr>active_thread := False\<rparr>) = Some (s\<lparr>active_thread := False\<rparr>)" by (subst await_stopped.simps) simp
  with 0 show ?case by (subst await_stopped.simps) (simp add: stream_test_def)
next
  case (Suc d)
  have stopped: "await_stopped runs (Suc t) (s\<lparr>active_thread := False\<rparr>) = Some (s\<lparr>active_thread := False\<rparr>)" by (subst await_stopped.simps) simp
  from Suc.IH [of "Suc t"] Suc.prems obtain s' where "await_stopped runs (Suc t) s = Some s'" by auto
  with stopped Suc.prems(2) show ?case by (subst await_stopped.simps) (simp add: stream_test_def)
qed

end
