(* ===== verification/HpsdrMainInv.thy ===== *)
theory HpsdrMainInv imports HpsdrMain begin

text \<open>
  What the main loop of the transceiver server keeps over a session: the ranges of the settings and
  the agreement of the I2C devices with their shadows, from the probing on.
\<close>

section \<open>Settings and devices\<close>

lemma ok_shadow_fields [ok_simps]:
  "hpsdr_ok (s\<lparr>alex_data_rx := w\<rparr>) = hpsdr_ok s" "hpsdr_ok (s\<lparr>alex_data_tx := w\<rparr>) = hpsdr_ok s"
  "hpsdr_ok (s\<lparr>i2c_misc_data := w\<rparr>) = hpsdr_ok s" "hpsdr_ok (s\<lparr>i2c_nucleo_data := d\<rparr>) = hpsdr_ok s"
  by (simp_all add: hpsdr_ok_def)

lemma ok_filters [ok_simps]:
  "hpsdr_ok (alex_write s) = hpsdr_ok s" "hpsdr_ok (misc_write s) = hpsdr_ok s" "hpsdr_ok (nucleo_write s) = hpsdr_ok s"
  by (simp_all add: alex_write_def alex_store_rx_def alex_store_tx_def misc_write_def misc_store_def
      nucleo_write_def nucleo_store_def Let_def ok_simps)

lemma ok_main_fields [ok_simps]:
  "hpsdr_ok (s\<lparr>gpio_in := a\<rparr>) = hpsdr_ok s" "hpsdr_ok (s\<lparr>cw_ptt := a\<rparr>) = hpsdr_ok s"
  "hpsdr_ok (s\<lparr>enable_thread := b\<rparr>) = hpsdr_ok s" "hpsdr_ok (s\<lparr>active_thread := b\<rparr>) = hpsdr_ok s"
  "hpsdr_ok (s\<lparr>alex_update := b\<rparr>) = hpsdr_ok s" "hpsdr_ok (s\<lparr>misc_update := b\<rparr>) = hpsdr_ok s"
  "hpsdr_ok (s\<lparr>nucleo_update := b\<rparr>) = hpsdr_ok s" "hpsdr_ok (s\<lparr>tx_mux_data := a\<rparr>) = hpsdr_ok s"
  "hpsdr_ok s \<Longrightarrow> hpsdr_ok (s\<lparr>rx_sync_data := 0\<rparr>)"
  by (simp_all add: hpsdr_ok_def)

lemma bus_main_fields [ok_simps]:
  "bus_ok (s\<lparr>gpio_in := a\<rparr>) = bus_ok s" "bus_ok (s\<lparr>cw_ptt := a\<rparr>) = bus_ok s"
  "bus_ok (s\<lparr>enable_thread := b\<rparr>) = bus_ok s" "bus_ok (s\<lparr>active_thread := b\<rparr>) = bus_ok s"
  "bus_ok (s\<lparr>alex_update := b\<rparr>) = bus_ok s" "bus_ok (s\<lparr>misc_update := b\<rparr>) = bus_ok s"
  "bus_ok (s\<lparr>nucleo_update := b\<rparr>) = bus_ok s" "bus_ok (s\<lparr>tx_mux_data := a\<rparr>) = bus_ok s"
  by (simp_all add: bus_ok_def nucleo_agrees_def shadows_def)

lemma bus_ok_emit: "bus_ok s \<Longrightarrow> \<forall>e \<in> set es. off_bus e \<Longrightarrow> bus_ok (emit es s)"
  by (erule bus_ok_off_bus [where es = es]) (simp_all add: emit_def shadows_def)

lemma bus_filters [ok_simps]:
  "bus_ok s \<Longrightarrow> bus_ok (alex_write s)" "bus_ok s \<Longrightarrow> bus_ok (misc_write s)" "bus_ok s \<Longrightarrow> bus_ok (nucleo_write s)"
proof -
  assume ok: "bus_ok s"
  have rx: "bus_ok (t\<lparr>alex_data_rx := d\<rparr>) = bus_ok t" "bus_ok (t\<lparr>alex_data_tx := d\<rparr>) = bus_ok t" for t d
    by (simp_all add: bus_ok_def nucleo_agrees_def shadows_def)
  show "bus_ok (alex_write s)"
    using ok by (simp add: alex_write_def alex_store_rx_def alex_store_tx_def Let_def bus_ok_emit rx)
  show "bus_ok (misc_write s)" using ok by (simp add: misc_write_def ok_simps)
  show "bus_ok (nucleo_write s)" using ok by (simp add: nucleo_write_def Let_def bus_ok_nucleo_store)
qed

text \<open>What every part of the main loop keeps.\<close>

definition main_ok :: "hpsdr \<Rightarrow> bool" where
  "main_ok s \<longleftrightarrow> hpsdr_ok s \<and> bus_ok s"

lemma main_ok_updates: "main_ok s \<Longrightarrow> main_ok (updates p q s)"
  by (simp add: main_ok_def updates_def nucleo_flush_def misc_flush_def alex_flush_def Let_def ok_simps)

lemma main_ok_emit: "main_ok s \<Longrightarrow> \<forall>e \<in> set es. off_bus e \<Longrightarrow> main_ok (emit es s)"
  by (simp add: main_ok_def bus_ok_emit ok_simps)

lemma main_ok_ep2: "main_ok s \<Longrightarrow> main_ok (process_ep2 v frame s)"
  by (simp add: main_ok_def hpsdr_ok_ep2 bus_ok_ep2)

lemma main_ok_tx_feed: "main_ok s \<Longrightarrow> tx_feed io buf s = Some t \<Longrightarrow> main_ok t"
  by (auto simp: tx_feed_def bind_eq_Some_conv Let_def split: if_splits intro!: main_ok_emit)

lemma main_ok_codec_feed: "main_ok s \<Longrightarrow> codec_feed io buf s = Some t \<Longrightarrow> main_ok t"
  by (auto simp: codec_feed_def bind_eq_Some_conv Let_def split: if_splits intro!: main_ok_emit)

lemma main_ok_stop: "main_ok s \<Longrightarrow> stop_stream io s = Some t \<Longrightarrow> main_ok t"
  by (auto simp: main_ok_def ok_simps dest!: stop_stream_result)

lemma main_ok_start: "main_ok s \<Longrightarrow> start_stream io s = Some t \<Longrightarrow> main_ok t"
proof -
  assume ok: "main_ok s" and t: "start_stream io s = Some t"
  from t obtain s1 where s1: "stop_stream io s = Some s1"
    "t = pulse8 lo_rst 3 (s1\<lparr>enable_thread := True, active_thread := True, rx_sync_data := 0\<rparr>)"
    unfolding start_stream_def bind_eq_Some_conv by blast
  have "bus_ok (x\<lparr>rx_sync_data := w\<rparr>) = bus_ok x" for x w by (rule bus_ok_fields)
  with main_ok_stop [OF ok s1(1)] show "main_ok t"
    unfolding s1(2) main_ok_def by (simp add: ok_simps)
qed

lemma main_ok_dispatch: "main_ok s \<Longrightarrow> dispatch v mac io buf s = Some t \<Longrightarrow> main_ok t"
  by (auto simp: dispatch_def data_packet_def discovery_def Let_def bind_eq_Some_conv
      split: if_splits intro!: main_ok_ep2 main_ok_emit intro: main_ok_tx_feed main_ok_codec_feed main_ok_stop main_ok_start)

section \<open>The probing leaves the devices as their shadows say\<close>

lemma seen_messages:
  "seen (es @ Slave a # map I2c ms) k =
    (case find (\<lambda>m. i2c_key a m = k) (rev ms) of None \<Rightarrow> seen es k | Some m \<Rightarrow> Some m)"
proof (induction ms rule: rev_induct)
  case Nil
  obtain c m where "fold bus_step es (0, Map.empty) = (c, m)" by (cases "fold bus_step es (0, Map.empty)")
  then show ?case by (simp add: seen_def)
next
  case (snoc msg ms)
  have cur: "fst (fold bus_step (es @ Slave a # map I2c ms) (0, Map.empty)) = a" for ms
  proof (induction ms rule: rev_induct)
    case Nil
    obtain c m where "fold bus_step es (0, Map.empty) = (c, m)" by (cases "fold bus_step es (0, Map.empty)")
    then show ?case by simp
  next
    case (snoc x xs)
    then show ?case by (cases "fold bus_step (es @ Slave a # map I2c xs) (0, Map.empty)") simp
  qed
  obtain m where "fold bus_step (es @ Slave a # map I2c ms) (0, Map.empty) = (a, m)"
    using cur [of ms] by (cases "fold bus_step (es @ Slave a # map I2c ms) (0, Map.empty)") simp
  then have "seen (es @ Slave a # map I2c (ms @ [msg])) = (seen (es @ Slave a # map I2c ms))(i2c_key a msg \<mapsto> msg)"
    by (simp add: seen_def)
  with snoc show ?case by auto
qed

lemma agrees_messages:
  assumes "agrees es T" and "\<forall>m \<in> set ms. \<forall>m'. (i2c_key a m, m') \<in> set T \<longrightarrow> m' = m"
  shows "agrees (es @ Slave a # map I2c ms) T"
  unfolding agrees_iff
proof (intro allI impI)
  fix k m'
  assume T: "(k, m') \<in> set T"
  show "seen (es @ Slave a # map I2c ms) k = None \<or> seen (es @ Slave a # map I2c ms) k = Some m'"
  proof (cases "find (\<lambda>m. i2c_key a m = k) (rev ms)")
    case None
    with T assms(1) show ?thesis by (simp add: seen_messages agrees_iff del: split_paired_All)
  next
    case (Some m)
    then obtain i where "i < length (rev ms)" "i2c_key a (rev ms ! i) = k" "m = rev ms ! i"
      unfolding find_Some_iff by blast
    then have "m \<in> set ms \<and> i2c_key a m = k" using nth_mem [of i "rev ms"] by simp
    with Some T assms(2) show ?thesis by (auto simp: seen_messages)
  qed
qed

lemma bus_ok_messages:
  assumes "bus_ok s" and "\<forall>m \<in> set ms. \<forall>m'. (i2c_key a m, m') \<in> set (shadows s) \<longrightarrow> m' = m" and "a \<noteq> 0x55"
  shows "bus_ok (emit (Slave a # map I2c ms) s)"
proof (rule bus_ok_step [OF assms(1)])
  have "find (\<lambda>m. i2c_key a m = (0x55, 0)) (rev ms) = None"
    using assms(3) by (auto simp: find_None_iff i2c_key_def)
  then show "seen (log (emit (Slave a # map I2c ms) s)) (0x55, 0) = seen (log s) (0x55, 0)"
    by (simp add: emit_def seen_messages)
qed (use assms(2) in \<open>simp_all add: emit_def shadows_def [of "log_update _ s"] shadows_def agrees_messages\<close>)

text \<open>The shadows that the probing relies on have their initial values.\<close>

definition unprobed :: "hpsdr \<Rightarrow> bool" where
  "unprobed s \<longleftrightarrow> main_ok s \<and> i2c_pene_data s = 0 \<and> i2c_alex_data s = 0 \<and> i2c_level_data s = 0 \<and>
    i2c_misc_data s = 0 \<and> i2c_drive_data s = 0 \<and> i2c_boost_data s = 0 \<and> i2c_nucleo_data s = (0, 0)"

lemma unprobed_probe:
  assumes "unprobed s" and "\<forall>m \<in> set (msg # rest). \<forall>m'. (i2c_key a m, m') \<in> set (shadows s) \<longrightarrow> m' = m"
    and "a \<noteq> 0x55" and "\<And>t. unprobed t \<Longrightarrow> unprobed (found t)" and "\<And>t es. found (emit es t) = emit es (found t)"
  shows "unprobed (probe slave ack a msg found rest s)"
proof -
  have u: "unprobed (emit (Slave a # map I2c ms) s)" if "set ms \<subseteq> set (msg # rest)" for ms
  proof -
    have "bus_ok (emit (Slave a # map I2c ms) s)"
      using assms(1-3) that by (intro bus_ok_messages) (auto simp: unprobed_def main_ok_def)
    then show ?thesis using assms(1) by (simp add: unprobed_def main_ok_def ok_simps) (simp add: emit_def)
  qed
  have "emit (map I2c rest) (emit [Slave a, I2c msg] s) = emit (Slave a # map I2c (msg # rest)) s"
    by (simp add: emit_def)
  with u [of "[msg]"] u [of "msg # rest"] assms(1,4,5) show ?thesis
    by (simp add: probe_def Let_def) (metis assms(5))
qed

lemma shadows_mem_dac1: "((0x61, 0), m) \<in> set (shadows s) \<longleftrightarrow> m = i2c_write_data16 (i2c_dac1_data s)"
  by (simp add: shadows_def)

lemma shadow_keys:
  "((a, r), m) \<in> set (shadows s) \<Longrightarrow> (a, r) \<in> {(0x20, 0x02), (0x21, 0x02), (0x22, 0x02), (0x23, 0x02), (0x28, 0xa9),
     (0x60, 0), (0x61, 0), (0x1A, 0x08), (0x40, 0x01), (0x40, 0x02), (0x40, 0x03), (0x40, 0x04), (0x40, 0x05), (0x40, 0x06)}"
  by (auto simp: shadows_def)

lemma main_ok_found [ok_simps]:
  "main_ok (s\<lparr>i2c_pene := b\<rparr>) = main_ok s" "main_ok (s\<lparr>i2c_alex := b\<rparr>) = main_ok s"
  "main_ok (s\<lparr>i2c_level := b\<rparr>) = main_ok s" "main_ok (s\<lparr>i2c_misc := b\<rparr>) = main_ok s"
  "main_ok (s\<lparr>i2c_drive := b\<rparr>) = main_ok s" "main_ok (s\<lparr>i2c_dac0 := b\<rparr>) = main_ok s"
  "main_ok (s\<lparr>i2c_dac1 := b\<rparr>) = main_ok s" "main_ok (s\<lparr>i2c_arduino := b\<rparr>) = main_ok s"
  "main_ok (s\<lparr>i2c_nucleo := b\<rparr>) = main_ok s" "main_ok (s\<lparr>i2c_codec := b\<rparr>) = main_ok s"
  "main_ok (s\<lparr>log_table_lookup := f\<rparr>) = main_ok s"
  by (simp_all add: main_ok_def hpsdr_ok_def bus_ok_def nucleo_agrees_def shadows_def)

lemma unprobed_expander:
  assumes "unprobed s" and "a = 0x20 \<or> a = 0x21 \<or> a = 0x22 \<or> a = 0x23"
    and "\<And>t. unprobed t \<Longrightarrow> unprobed (found t)" and "\<And>t es. found (emit es t) = emit es (found t)"
  shows "unprobed (probe_expander slave ack a found s)"
  unfolding probe_expander_def
  by (rule unprobed_probe) (use assms in \<open>auto simp: i2c_key_def i2c_raw_def shadows_mem unprobed_def dest!: shadow_keys [where r = 6]\<close>)

lemma unprobed_nucleo:
  assumes "unprobed s"
  shows "unprobed (probe slave ack 0x55 nucleo_probe (\<lambda>s. s\<lparr>i2c_nucleo := True\<rparr>) [] s)"
proof -
  let ?t = "emit [Slave 0x55, I2c nucleo_probe] s"
  have key: "i2c_key 0x55 nucleo_probe = (0x55, 0)" by (simp add: i2c_key_def i2c_raw_def)
  have "agrees (log s @ Slave 0x55 # map I2c [nucleo_probe]) (shadows s)"
    using assms by (intro agrees_messages) (auto simp: unprobed_def main_ok_def bus_ok_def key dest: shadow_keys)
  then have "agrees (log ?t) (shadows ?t)" by (simp add: emit_def shadows_def)
  moreover have "nucleo_agrees ?t"
    using assms by (simp add: nucleo_agrees_def unprobed_def emit_def seen_message key)
  ultimately have "unprobed ?t"
    using assms by (simp add: unprobed_def main_ok_def bus_ok_def ok_simps) (simp add: emit_def)
  moreover have "unprobed t \<Longrightarrow> unprobed (t\<lparr>i2c_nucleo := True\<rparr>)" for t by (simp add: unprobed_def ok_simps)
  moreover have "emit [] t = t" for t :: hpsdr by (simp add: emit_def)
  ultimately show ?thesis using assms by (simp add: probe_def Let_def)
qed

lemma unprobed_device:
  assumes "unprobed s" and "\<forall>m'. (i2c_key a msg, m') \<in> set (shadows s) \<longrightarrow> m' = msg" and "a \<noteq> 0x55"
    and "\<And>t. unprobed t \<Longrightarrow> unprobed (found t)" and "\<And>t es. found (emit es t) = emit es (found t)"
  shows "unprobed (probe slave ack a msg found [] s)"
  using unprobed_probe [of s msg "[]" a found] assms by simp

lemma main_ok_probe:
  assumes "unprobed s"
  shows "main_ok (hpsdr_probe i2c_open slave ack s)"
proof -
  note conds = i2c_key_def i2c_raw_def shadows_mem shadows_mem_dac1 unprobed_def ok_simps drive_message_def
  have expanders:
    "unprobed t \<Longrightarrow> unprobed (probe_expander slave ack 0x20 (\<lambda>s. s\<lparr>i2c_pene := True\<rparr>) t)"
    "unprobed t \<Longrightarrow> unprobed (probe_expander slave ack 0x21 (\<lambda>s. s\<lparr>i2c_alex := True\<rparr>) t)"
    "unprobed t \<Longrightarrow> unprobed (probe_expander slave ack 0x22 (\<lambda>s. s\<lparr>i2c_level := True\<rparr>) t)"
    "unprobed t \<Longrightarrow> unprobed (probe_expander slave ack 0x23 (\<lambda>s. s\<lparr>i2c_misc := True\<rparr>) t)" for t
    by (rule unprobed_expander; simp add: unprobed_def ok_simps emit_def)+
  have devices:
    "unprobed t \<Longrightarrow> unprobed (probe slave ack 0x28 (i2c_write_addr_data16 0xa9 0) (\<lambda>s. s\<lparr>i2c_drive := True\<rparr>) [] t)"
    "unprobed t \<Longrightarrow> unprobed (probe slave ack 0x60 (i2c_write_data16 (i2c_dac0_data t)) (\<lambda>s. s\<lparr>i2c_dac0 := True\<rparr>) [] t)"
    "unprobed t \<Longrightarrow> unprobed (probe slave ack 0x61 (i2c_write_data16 (i2c_dac1_data t)) (\<lambda>s. s\<lparr>i2c_dac1 := True\<rparr>) [] t)"
    "unprobed t \<Longrightarrow> unprobed (probe slave ack 0x40 (i2c_write_addr_data16 0x1 (i2c_ard_frx1_data t)) (\<lambda>s. s\<lparr>i2c_arduino := True\<rparr>) [] t)" for t
    by (rule unprobed_device; simp add: conds emit_def)+
  have codec: "unprobed t \<Longrightarrow>
      unprobed (probe slave ack 0x1A (i2c_write_addr_data8 0x1e 0x00) (\<lambda>s. s\<lparr>i2c_codec := True\<rparr>) codec_setup t)" for t
    by (rule unprobed_probe) (auto simp: conds codec_setup_def emit_def dest: shadow_keys)
  show ?thesis
    using codec [OF unprobed_nucleo [unfolded nucleo_probe_def, OF devices(4) [OF devices(3) [OF devices(2) [OF devices(1)
      [OF expanders(4) [OF expanders(3) [OF expanders(2) [OF expanders(1) [OF assms]]]]]]]]]] assms
    by (simp add: hpsdr_probe_def Let_def unprobed_def)
qed

lemma main_ok_put [ok_simps]:
  "main_ok s \<Longrightarrow> main_ok (put8 a v s)" "main_ok s \<Longrightarrow> main_ok (put16 a w s)" "main_ok s \<Longrightarrow> main_ok (put32 a x s)"
  "main_ok s \<Longrightarrow> main_ok (pulse8 a v s)" "main_ok s \<Longrightarrow> main_ok (set8 a v s)" "main_ok s \<Longrightarrow> main_ok (clr8 a v s)"
  by (simp_all add: main_ok_def ok_simps set8_def clr8_def)

lemma main_ok_init: "main_ok (hpsdr_init v chan i2c_open slave ack lut hpsdr_start)"
proof -
  have "seen [] k = None" for k by (simp add: seen_def)
  then have "unprobed hpsdr_start"
    by (simp add: unprobed_def main_ok_def hpsdr_ok_start bus_ok_def agrees_iff nucleo_agrees_def coherent_def) (simp add: hpsdr_start_def seen_def)
  then have "main_ok (hpsdr_probe i2c_open slave ack hpsdr_start)" by (rule main_ok_probe)
  then show ?thesis by (simp add: hpsdr_init_def hpsdr_registers_def Let_def ok_simps)
qed

section \<open>A session\<close>

interpretation packets: stepwise "dispatch_in v mac" main_ok "\<lambda>_. True" for v mac
proof
  fix s i t
  assume "main_ok s" and "dispatch_in v mac i s = Some t"
  then show "main_ok t"
    unfolding dispatch_in_def by (elim main_ok_dispatch [rotated]) (simp add: main_ok_def ok_simps)
qed

lemma pass_run:
  assumes "main_loop_pass v mac pass (bufs, s) = Some (bufs', t)"
  obtains msgs s1 where "run_all (dispatch_in v mac) msgs s = Some s1" and "t = updates (fst (snd pass)) (snd (snd pass)) s1"
proof -
  obtain ins p q where pass: "pass = (ins, p, q)" by (cases pass)
  from assms obtain msgs out s1 where "dispatch_all v mac msgs s = Some (out, s1)" and t: "t = updates p q s1"
    by (auto simp: pass main_loop_pass_def Let_def bind_eq_Some_conv)
  then have "run_all (dispatch_in v mac) msgs s = Some s1" by (simp flip: dispatch_all_run)
  with t show ?thesis using that by (simp add: pass)
qed

interpretation passes: stepwise "main_loop_pass v mac" "\<lambda>st. main_ok (snd st)" "\<lambda>_. True" for v mac
  by unfold_locales
    (auto elim!: pass_run intro!: main_ok_updates dest: packets.run_inv [rotated 2])

lemma main_loop_ok:
  assumes "main_loop v mac passes (bufs, hpsdr_init v chan i2c_open slave ack lut hpsdr_start) = Some (bufs', s)"
  shows "main_ok s"
  using passes.run_inv [of "(bufs, hpsdr_init v chan i2c_open slave ack lut hpsdr_start)" passes v mac "(bufs', s)"] assms
  by (simp add: main_loop_def main_ok_init)

end
