(* ===== verification/HpsdrUpdates.thy ===== *)
theory HpsdrUpdates imports HpsdrMainInv begin

text \<open>
  The filters follow the host.  Commands only mark the filter boards as out of date; the end of a pass
  of the main loop sends the words.  The locale \<open>deferred\<close> states that contract, and the Alexiares
  boards, the MISC expander and the NUCLEO board interpret it.
\<close>

section \<open>The contract of a deferred output\<close>

text \<open>\<open>dirty\<close> is the update flag, \<open>settings\<close> what the output depends on, \<open>sent\<close> what was sent last,
  \<open>present\<close> whether the device is driven at all.\<close>

definition touches :: "('s \<Rightarrow> bool) \<Rightarrow> ('s \<Rightarrow> 'v) \<Rightarrow> ('s \<Rightarrow> 'w) \<Rightarrow> ('s \<Rightarrow> bool) \<Rightarrow> 's \<Rightarrow> 's \<Rightarrow> bool" where
  "touches dirty settings sent present s t \<longleftrightarrow>
    sent t = sent s \<and> present t = present s \<and> (dirty s \<longrightarrow> dirty t) \<and>
    (settings t = settings s \<or> dirty t \<or> \<not> present t)"

definition up_to_date :: "('s \<Rightarrow> bool) \<Rightarrow> ('s \<Rightarrow> 'v) \<Rightarrow> ('s \<Rightarrow> 'w) \<Rightarrow> ('s \<Rightarrow> bool) \<Rightarrow> ('s \<Rightarrow> 'w) \<Rightarrow> 'v \<Rightarrow> 's \<Rightarrow> bool" where
  "up_to_date dirty settings sent present wanted v0 s \<longleftrightarrow>
    \<not> present s \<or> dirty s \<or> settings s = v0 \<or> sent s = wanted s"

lemma touches_refl [simp]: "touches d v w p s s"
  by (simp add: touches_def)

lemma touches_trans: "touches d v w p s t \<Longrightarrow> touches d v w p t u \<Longrightarrow> touches d v w p s u"
  by (auto simp: touches_def)

locale deferred =
  fixes dirty :: "'s \<Rightarrow> bool" and settings :: "'s \<Rightarrow> 'v" and sent :: "'s \<Rightarrow> 'w" and present :: "'s \<Rightarrow> bool"
    and wanted :: "'s \<Rightarrow> 'w" and flush :: "'s \<Rightarrow> 's"
  assumes wanted_cong: "settings s = settings t \<Longrightarrow> wanted s = wanted t"
    and flush_settings: "settings (flush s) = settings s"
    and flush_present: "present (flush s) = present s"
    and flush_clean: "\<not> dirty (flush s)"
    and flush_idle: "\<not> dirty s \<Longrightarrow> flush s = s"
    and flush_sends: "dirty s \<Longrightarrow> present s \<Longrightarrow> sent (flush s) = wanted s"
begin

lemma up_to_date_touches:
  "up_to_date dirty settings sent present wanted v0 s \<Longrightarrow> touches dirty settings sent present s t \<Longrightarrow>
   up_to_date dirty settings sent present wanted v0 t"
  by (auto simp: up_to_date_def touches_def dest: wanted_cong)

lemma up_to_date_flush:
  assumes "up_to_date dirty settings sent present wanted v0 s"
  shows "present (flush s) \<Longrightarrow> settings (flush s) = v0 \<or> sent (flush s) = wanted (flush s)"
    and "up_to_date dirty settings sent present wanted v0 (flush s)"
proof -
  have w: "wanted (flush s) = wanted s" by (rule wanted_cong) (rule flush_settings)
  show *: "settings (flush s) = v0 \<or> sent (flush s) = wanted (flush s)" if "present (flush s)"
    using assms that w flush_idle [of s] flush_sends [of s] flush_present [of s] flush_settings [of s]
    by (cases "dirty s") (auto simp: up_to_date_def)
  show "up_to_date dirty settings sent present wanted v0 (flush s)"
    unfolding up_to_date_def using * by blast
qed

end

section \<open>The three outputs\<close>

definition alex_settings :: "hpsdr \<Rightarrow> (nat \<Rightarrow> u32) \<times> u16 \<times> u16" where
  "alex_settings s = (freq_data s, alex_data_0 s, alex_data_1 s)"

definition alex_sent :: "hpsdr \<Rightarrow> u16 \<times> u16" where
  "alex_sent s = (alex_data_rx s, alex_data_tx s)"

definition alex_wanted :: "hpsdr \<Rightarrow> u16 \<times> u16" where
  "alex_wanted s = (alex_rx_data s, alex_tx_data s)"

definition misc_settings :: "hpsdr \<Rightarrow> (nat \<Rightarrow> u32) \<times> u16 \<times> u16 \<times> u16" where
  "misc_settings s = (freq_data s, misc_data_0 s, misc_data_1 s, misc_data_2 s)"

definition misc_wanted :: "hpsdr \<Rightarrow> u16" where
  "misc_wanted s =
    misc_word (band_code misc_freqs 20 (freq_data s 0)) (band_code misc_freqs 20 (freq_data s 1))
      (band_code misc_freqs 20 (freq_data s 2)) (misc_data_0 s) (misc_data_1 s) (misc_data_2 s)"

definition nucleo_settings :: "hpsdr \<Rightarrow> (nat \<Rightarrow> u32) \<times> u32 \<times> u32 \<times> u32 \<times> u32" where
  "nucleo_settings s = (freq_data s, nucleo_data_0 s, nucleo_data_1 s, nucleo_data_2 s, nucleo_data_3 s)"

definition nucleo_wanted :: "hpsdr \<Rightarrow> u32 \<times> u32" where
  "nucleo_wanted s =
    (let c0 = band_code nucleo_freqs 22 (freq_data s 0);
         c1 = band_code nucleo_freqs 22 (freq_data s 1);
         c2 = band_code nucleo_freqs 22 (freq_data s 2)
     in (nucleo_word0 c0 c1 (nucleo_data_0 s) (nucleo_data_1 s) (nucleo_data_2 s) (nucleo_data_3 s), nucleo_word1 c1 c2))"

lemmas alex_view_defs = alex_settings_def alex_sent_def alex_wanted_def
lemmas flush_defs = alex_flush_def misc_flush_def nucleo_flush_def

lemma alex_words_cong:
  "alex_settings s = alex_settings t \<Longrightarrow> alex_rx_data s = alex_rx_data t \<and> alex_tx_data s = alex_tx_data t"
  by (simp add: alex_settings_def alex_rx_data_def alex_tx_data_def alex_inputs)

lemma alex_write_fields:
  "alex_settings (s\<lparr>alex_update := b\<rparr>) = alex_settings s"
  "alex_settings (alex_write s) = alex_settings s" "alex_update (alex_write s) = alex_update s"
  "i2c_codec (alex_write s) = i2c_codec s"
  "\<not> i2c_codec s \<Longrightarrow> alex_sent (alex_write s) = alex_wanted s"
  by (simp_all add: alex_view_defs alex_write_def alex_store_rx_def alex_store_tx_def emit_def Let_def
        alex_rx_data_def alex_tx_data_def alex_inputs)

interpretation alex_out: deferred alex_update alex_settings alex_sent "\<lambda>s. \<not> i2c_codec s" alex_wanted alex_flush
proof
  fix s
  show "alex_sent (alex_flush s) = alex_wanted s" if "alex_update s" "\<not> i2c_codec s"
  proof -
    have "alex_settings (s\<lparr>alex_update := False\<rparr>) = alex_settings s" by (simp add: alex_settings_def)
    from alex_words_cong [OF this] show ?thesis
      using that by (simp add: alex_flush_def alex_write_fields) (simp add: alex_wanted_def)
  qed
qed (auto simp: alex_flush_def alex_write_fields alex_wanted_def dest: alex_words_cong)

interpretation misc_out: deferred misc_update misc_settings i2c_misc_data i2c_misc misc_wanted misc_flush
  by unfold_locales
    (auto simp: misc_flush_def misc_write_def misc_store_def misc_settings_def misc_wanted_def emit_def)

interpretation nucleo_out: deferred nucleo_update nucleo_settings i2c_nucleo_data i2c_nucleo nucleo_wanted nucleo_flush
  by unfold_locales
    (auto simp: nucleo_flush_def nucleo_write_def nucleo_store_def nucleo_settings_def nucleo_wanted_def emit_def Let_def)

section \<open>Commands only mark\<close>

definition quiet :: "ev \<Rightarrow> bool" where
  "quiet e \<longleftrightarrow> (case e of Fifo x \<Rightarrow> False | Codec x \<Rightarrow> False | Alex x \<Rightarrow> False | Gen x \<Rightarrow> False | Win k i x \<Rightarrow> False | Send bs \<Rightarrow> False | _ \<Rightarrow> True)"

definition extends :: "(ev \<Rightarrow> bool) \<Rightarrow> hpsdr \<Rightarrow> hpsdr \<Rightarrow> bool" where
  "extends P s t \<longleftrightarrow> (\<exists>es. log t = log s @ es \<and> list_all P es)"

text \<open>\<open>marks\<close>: a command that may have changed a setting has marked the outputs that depend on it.
  \<open>pending\<close>: the same before the marks are made.\<close>

definition marks :: "hpsdr \<Rightarrow> hpsdr \<Rightarrow> bool" where
  "marks s t \<longleftrightarrow> extends quiet s t \<and>
    touches alex_update alex_settings alex_sent (\<lambda>s. \<not> i2c_codec s) s t \<and>
    touches misc_update misc_settings i2c_misc_data i2c_misc s t \<and>
    touches nucleo_update nucleo_settings i2c_nucleo_data i2c_nucleo s t"

definition pending :: "hpsdr \<Rightarrow> hpsdr \<Rightarrow> bool" where
  "pending s t \<longleftrightarrow> extends quiet s t \<and> alex_sent t = alex_sent s \<and> i2c_misc_data t = i2c_misc_data s \<and>
    i2c_nucleo_data t = i2c_nucleo_data s \<and> i2c_codec t = i2c_codec s \<and> i2c_misc t = i2c_misc s \<and>
    i2c_nucleo t = i2c_nucleo s \<and> (alex_update s \<longrightarrow> alex_update t) \<and> (misc_update s \<longrightarrow> misc_update t) \<and>
    (nucleo_update s \<longrightarrow> nucleo_update t)"

named_theorems marks_simps \<open>what keeps the relations \<open>marks\<close> and \<open>pending\<close>\<close>

lemma marks_refl [simp]: "marks s s"
  by (auto simp: marks_def extends_def intro: exI [of _ "[]"])

lemma marks_pending: "marks s t \<Longrightarrow> pending s t"
  by (simp add: marks_def pending_def touches_def)

lemma extends_more: "extends P s t \<Longrightarrow> log u = log t @ es \<Longrightarrow> list_all P es \<Longrightarrow> extends P s u"
  by (auto simp: extends_def)

lemma quiet_simps [simp]:
  "quiet (Cfg8 a v)" "quiet (Cfg16 a w)" "quiet (Cfg32 a x)" "quiet (Slave d)" "quiet (I2c bs)" "quiet (Uart bs)"
  "\<not> quiet (Fifo x)" "\<not> quiet (Codec x)" "\<not> quiet (Alex x)" "\<not> quiet (Gen x)" "\<not> quiet (Win k i x)" "\<not> quiet (Send bs)"
  by (simp_all add: quiet_def)

text \<open>An operation that touches neither the settings nor the flags, and writes quiet events.\<close>

definition aside :: "hpsdr \<Rightarrow> hpsdr \<Rightarrow> bool" where
  "aside t u \<longleftrightarrow> (\<exists>es. log u = log t @ es \<and> list_all quiet es) \<and>
    freq_data u = freq_data t \<and>
    (alex_data_0 u, alex_data_1 u, alex_update u, alex_data_rx u, alex_data_tx u, i2c_codec u) =
      (alex_data_0 t, alex_data_1 t, alex_update t, alex_data_rx t, alex_data_tx t, i2c_codec t) \<and>
    (misc_data_0 u, misc_data_1 u, misc_data_2 u, misc_update u, i2c_misc_data u, i2c_misc u) =
      (misc_data_0 t, misc_data_1 t, misc_data_2 t, misc_update t, i2c_misc_data t, i2c_misc t) \<and>
    (nucleo_data_0 u, nucleo_data_1 u, nucleo_data_2 u, nucleo_data_3 u, nucleo_update u, i2c_nucleo_data u, i2c_nucleo u) =
      (nucleo_data_0 t, nucleo_data_1 t, nucleo_data_2 t, nucleo_data_3 t, nucleo_update t, i2c_nucleo_data t, i2c_nucleo t)"

lemma extends_trans: "extends P s t \<Longrightarrow> extends P t u \<Longrightarrow> extends P s u"
  by (auto simp: extends_def)

lemma marks_trans: "marks s t \<Longrightarrow> marks t u \<Longrightarrow> marks s u"
  unfolding marks_def by (blast intro: extends_trans touches_trans)

lemma aside_marks: "aside t u \<Longrightarrow> marks s t \<Longrightarrow> marks s u"
  by (erule marks_trans)
    (simp add: aside_def marks_def touches_def extends_def alex_settings_def alex_sent_def misc_settings_def nucleo_settings_def)

lemma aside_pending: "aside t u \<Longrightarrow> pending s t \<Longrightarrow> pending s u"
  by (auto simp: aside_def pending_def extends_def alex_sent_def)

lemma aside_store:
  "aside t (pene_store d t)" "aside t (alex_i2c_store d t)" "aside t (level_store d t)" "aside t (drive_store d t)"
  "aside t (dac0_store d t)" "aside t (boost_store b t)" "aside t (frx1_store d t)" "aside t (frx2_store d t)"
  "aside t (ftx_store d t)" "aside t (ocant_store x t)" "aside t (txatt_store x t)" "aside t (rxatt_store d t)"
  "aside t (icom_write t)"
  by (simp_all add: aside_def i2c_store_defs icom_write_def emit_def Let_def)

lemma aside_put:
  "aside t (put8 a v t)" "aside t (put16 a w t)" "aside t (put32 a x t)" "aside t (pulse8 a v t)"
  by (simp_all add: aside_def put8_def put16_def put32_def pulse8_def set8_def clr8_def)

lemma aside_fields:
  "aside t (t\<lparr>receivers := n\<rparr>)" "aside t (t\<lparr>rate := n\<rparr>)" "aside t (t\<lparr>rx_sync_data := w\<rparr>)" "aside t (t\<lparr>tx_eer_data := b\<rparr>)"
  "aside t (t\<lparr>rx_att_data := b\<rparr>)" "aside t (t\<lparr>cw_hang := w\<rparr>)" "aside t (t\<lparr>cw_int_data := b\<rparr>)"
  "aside t (t\<lparr>dac_level_data := b\<rparr>)" "aside t (t\<lparr>cw_delay := b\<rparr>)" "aside t (t\<lparr>cw_reversed := b\<rparr>)"
  "aside t (t\<lparr>cw_speed := b\<rparr>)" "aside t (t\<lparr>cw_mode := b\<rparr>)" "aside t (t\<lparr>cw_weight := b\<rparr>)" "aside t (t\<lparr>cw_spacing := b\<rparr>)"
  "aside t (t\<lparr>gpio_in := b\<rparr>)" "aside t (t\<lparr>cw_ptt := b\<rparr>)" "aside t (t\<lparr>enable_thread := c\<rparr>)" "aside t (t\<lparr>active_thread := c\<rparr>)"
  "aside t (t\<lparr>tx_mux_data := b\<rparr>)"
  by (simp_all add: aside_def)

lemmas aside_ops = aside_store aside_put aside_fields
lemmas [marks_simps] = aside_ops [THEN aside_marks] aside_ops [THEN aside_pending] marks_pending

lemma marks_flag:
  "marks t (alex0_store w t)" "marks t (alex1_store w t)"
  "marks t (misc0_store w t)" "marks t (misc1_store w t)" "marks t (misc2_store w t)"
  "marks t (nucleo0_store w t)" "marks t (nucleo1_store w t)" "marks t (nucleo2_store w t)" "marks t (nucleo3_store w t)"
  by (simp_all add: marks_def touches_def extends_def flag_store_defs alex_settings_def alex_sent_def misc_settings_def nucleo_settings_def)

lemmas [marks_simps] = marks_flag [THEN marks_trans [rotated]]

lemma pending_freq [marks_simps]: "pending s t \<Longrightarrow> pending s (t\<lparr>freq_data := f\<rparr>)"
  by (auto simp: pending_def extends_def alex_sent_def)

lemma pending_flags [marks_simps]: "pending s t \<Longrightarrow> marks s (flag_updates t)"
  by (auto simp: pending_def marks_def touches_def extends_def flag_updates_def alex_sent_def)

lemma marks_ep2: "marks s t \<Longrightarrow> marks s (process_ep2 v frame t)"
  by (rule process_ep2_cases) (simp_all add: ep2_defs Let_def marks_simps)

section \<open>What the Alexiares boards have been told\<close>

text \<open>The window of the boards takes the register number in the upper half word: 1 is the receive word,
  2 the transmit word.\<close>

definition alex_told :: "u32 \<Rightarrow> ev list \<Rightarrow> u16 option" where
  "alex_told k es = foldl (\<lambda>acc e. case e of Alex x \<Rightarrow> if drop_bit 16 x = k then Some (ucast x) else acc | _ \<Rightarrow> acc) None es"

definition silent :: "ev \<Rightarrow> bool" where
  "silent e \<longleftrightarrow> (\<forall>x. e \<noteq> Alex x)"

definition board_ok :: "hpsdr \<Rightarrow> bool" where
  "board_ok s \<longleftrightarrow>
    (alex_data_rx s = 0 \<and> alex_told 1 (log s) = None \<or> alex_told 1 (log s) = Some (alex_data_rx s)) \<and>
    (alex_data_tx s = 0 \<and> alex_told 2 (log s) = None \<or> alex_told 2 (log s) = Some (alex_data_tx s))"

lemma alex_told_silent: "list_all silent fs \<Longrightarrow> alex_told k (es @ fs) = alex_told k es"
proof (induction fs rule: rev_induct)
  case (snoc f fs)
  then have "alex_told k (es @ fs) = alex_told k es" "silent f" by simp_all
  then show ?case by (cases f) (simp_all add: alex_told_def silent_def)
qed simp

lemma alex_word_tag:
  "drop_bit 16 (push_bit 16 1 OR promote (d :: u16)) = (1 :: u32)" "drop_bit 16 (push_bit 17 1 OR promote d) = (2 :: u32)"
  "ucast (push_bit 16 1 OR promote d :: u32) = d" "ucast (push_bit 17 1 OR promote d :: u32) = d"
  by (rule word32_eqI word16_eqI; simp add: word_bits u16_high)+

lemma alex_told_store:
  "alex_told 1 (es @ [Alex (push_bit 16 1 OR promote d)]) = Some d"
  "alex_told 2 (es @ [Alex (push_bit 16 1 OR promote d)]) = alex_told 2 es"
  "alex_told 1 (es @ [Alex (push_bit 17 1 OR promote d)]) = alex_told 1 es"
  "alex_told 2 (es @ [Alex (push_bit 17 1 OR promote d)]) = Some d"
  using alex_word_tag [of d] by (simp_all add: alex_told_def)

lemma board_ok_store:
  "board_ok s \<Longrightarrow> board_ok (alex_store_rx d s)" "board_ok s \<Longrightarrow> board_ok (alex_store_tx d s)"
  unfolding board_ok_def alex_store_rx_def alex_store_tx_def emit_def
  using alex_told_store by (auto simp del: push_bit_of_1)

lemma board_ok_flush: "board_ok s \<Longrightarrow> board_ok (alex_flush s)"
proof -
  assume "board_ok s"
  then have "board_ok (s\<lparr>alex_update := False\<rparr>)" by (simp add: board_ok_def)
  then show ?thesis using \<open>board_ok s\<close> by (simp add: alex_flush_def alex_write_def Let_def board_ok_store)
qed

lemma board_ok_extends: "board_ok s \<Longrightarrow> extends silent s t \<Longrightarrow> alex_sent t = alex_sent s \<Longrightarrow> board_ok t"
  by (auto simp: board_ok_def extends_def alex_sent_def alex_told_silent)

section \<open>A pass\<close>

definition reaches :: "hpsdr \<Rightarrow> hpsdr \<Rightarrow> bool" where
  "reaches s t \<longleftrightarrow> extends silent s t \<and>
    touches alex_update alex_settings alex_sent (\<lambda>s. \<not> i2c_codec s) s t \<and>
    touches misc_update misc_settings i2c_misc_data i2c_misc s t \<and>
    touches nucleo_update nucleo_settings i2c_nucleo_data i2c_nucleo s t"

lemma marks_reaches: "marks s t \<Longrightarrow> reaches s t"
proof -
  have "list_all quiet es \<Longrightarrow> list_all silent es" for es
    by (erule list.pred_mono_strong) (auto simp: silent_def quiet_def)
  then show "marks s t \<Longrightarrow> reaches s t" unfolding marks_def reaches_def extends_def by blast
qed

lemma reaches_trans: "reaches s t \<Longrightarrow> reaches t u \<Longrightarrow> reaches s u"
  unfolding reaches_def by (blast intro: extends_trans touches_trans)

lemma reaches_refl [simp]: "reaches s s"
  by (simp add: marks_reaches)

lemma reaches_emit: "list_all silent es \<Longrightarrow> reaches s (emit es s)"
  by (simp add: reaches_def extends_def touches_def emit_def alex_settings_def alex_sent_def misc_settings_def nucleo_settings_def)

lemma silent_map: "list_all silent (map Fifo xs)" "list_all silent (map Codec xs)" "silent (Send bs)"
  by (simp_all add: list_all_iff silent_def)

lemma reaches_feed:
  "tx_feed io buf s = Some t \<Longrightarrow> reaches s t" "codec_feed io buf s = Some t \<Longrightarrow> reaches s t"
proof -
  have two: "reaches s (emit es (if b then emit fs s else s))" if "list_all silent es" "list_all silent fs" for b es fs
    using reaches_trans [OF reaches_emit reaches_emit] reaches_emit that by (cases b) simp_all
  show "tx_feed io buf s = Some t \<Longrightarrow> reaches s t" "codec_feed io buf s = Some t \<Longrightarrow> reaches s t"
    unfolding tx_feed_def codec_feed_def Let_def
    by (auto simp only: bind_eq_Some_conv option.inject split: if_splits
        intro!: two [where b = True, simplified] reaches_emit reaches_refl silent_map reaches_trans [OF reaches_emit reaches_emit])
qed

lemma reaches_stream:
  "stop_stream io s = Some t \<Longrightarrow> reaches s t" "start_stream io s = Some t \<Longrightarrow> reaches s t"
proof -
  have stop: "stop_stream io s = Some t \<Longrightarrow> reaches s t" for s t
    by (auto simp: marks_simps intro!: marks_reaches dest!: stop_stream_result)
  then show "stop_stream io s = Some t \<Longrightarrow> reaches s t" .
  show "start_stream io s = Some t \<Longrightarrow> reaches s t"
    by (auto simp: start_stream_def bind_eq_Some_conv marks_simps intro!: reaches_trans [OF stop marks_reaches])
qed

lemma reaches_packet: "data_packet v io buf s = Some t \<Longrightarrow> reaches s t"
proof -
  assume "data_packet v io buf s = Some t"
  then obtain s1 s2 where s1: "tx_feed io buf s = Some s1" and s2: "codec_feed io buf s1 = Some s2"
    and t: "t = process_ep2 v (drop 523 buf) (process_ep2 v (drop 11 buf) s2)"
    unfolding data_packet_def by (auto simp only: bind_eq_Some_conv option.inject)
  have "reaches s2 t" by (simp add: t marks_reaches marks_ep2)
  with reaches_feed(1) [OF s1] reaches_feed(2) [OF s2] show ?thesis by (blast intro: reaches_trans)
qed

lemma reaches_dispatch: "dispatch v mac io buf s = Some t \<Longrightarrow> reaches s t"
  by (auto simp: dispatch_def Let_def discovery_def silent_map reaches_emit
      split: if_splits dest: reaches_stream reaches_packet)

lemma reaches_dispatch_in: "dispatch_in v mac msg s = Some t \<Longrightarrow> reaches s t"
  unfolding dispatch_in_def by (rule reaches_trans [OF marks_reaches reaches_dispatch]) (simp_all add: marks_simps)

text \<open>The invariant: what every output was told is up to date, unless it is marked.\<close>

definition filters_ok :: "hpsdr \<Rightarrow> bool" where
  "filters_ok s \<longleftrightarrow> board_ok s \<and>
    up_to_date alex_update alex_settings alex_sent (\<lambda>s. \<not> i2c_codec s) alex_wanted (\<lambda>_. 0, 0, 0) s \<and>
    up_to_date misc_update misc_settings i2c_misc_data i2c_misc misc_wanted (\<lambda>_. 0, 0, 0, 0) s \<and>
    up_to_date nucleo_update nucleo_settings i2c_nucleo_data i2c_nucleo nucleo_wanted (\<lambda>_. 0, 0, 0, 0, 0) s"

lemma filters_ok_reaches: "filters_ok s \<Longrightarrow> reaches s t \<Longrightarrow> filters_ok t"
proof -
  assume f: "filters_ok s" and r: "reaches s t"
  then have "alex_sent t = alex_sent s" by (simp add: reaches_def touches_def)
  with f r show "filters_ok t" unfolding filters_ok_def reaches_def
    by (elim conjE) (intro conjI; erule (1) board_ok_extends alex_out.up_to_date_touches misc_out.up_to_date_touches nucleo_out.up_to_date_touches; assumption?)
qed

lemma alex_flush_frame [frame_simps]:
  "misc_settings (alex_flush s) = misc_settings s" "i2c_misc_data (alex_flush s) = i2c_misc_data s"
  "misc_update (alex_flush s) = misc_update s" "i2c_misc (alex_flush s) = i2c_misc s"
  "nucleo_settings (alex_flush s) = nucleo_settings s" "i2c_nucleo_data (alex_flush s) = i2c_nucleo_data s"
  "nucleo_update (alex_flush s) = nucleo_update s" "i2c_nucleo (alex_flush s) = i2c_nucleo s"
  "alex_data_0 (alex_flush s) = alex_data_0 s"
  by (simp_all add: alex_flush_def alex_write_def alex_store_rx_def alex_store_tx_def emit_def Let_def misc_settings_def nucleo_settings_def)

lemma misc_flush_frame [frame_simps]:
  "alex_settings (misc_flush s) = alex_settings s" "alex_sent (misc_flush s) = alex_sent s"
  "alex_update (misc_flush s) = alex_update s" "i2c_codec (misc_flush s) = i2c_codec s"
  "nucleo_settings (misc_flush s) = nucleo_settings s" "i2c_nucleo_data (misc_flush s) = i2c_nucleo_data s"
  "nucleo_update (misc_flush s) = nucleo_update s" "i2c_nucleo (misc_flush s) = i2c_nucleo s"
  "alex_data_0 (misc_flush s) = alex_data_0 s"
  by (simp_all add: misc_flush_def misc_write_def misc_store_def emit_def alex_settings_def alex_sent_def nucleo_settings_def)

lemma nucleo_flush_frame [frame_simps]:
  "alex_settings (nucleo_flush s) = alex_settings s" "alex_sent (nucleo_flush s) = alex_sent s"
  "alex_update (nucleo_flush s) = alex_update s" "i2c_codec (nucleo_flush s) = i2c_codec s"
  "misc_settings (nucleo_flush s) = misc_settings s" "i2c_misc_data (nucleo_flush s) = i2c_misc_data s"
  "misc_update (nucleo_flush s) = misc_update s" "i2c_misc (nucleo_flush s) = i2c_misc s"
  "alex_data_0 (nucleo_flush s) = alex_data_0 s"
  by (simp_all add: nucleo_flush_def nucleo_write_def nucleo_store_def emit_def Let_def alex_settings_def alex_sent_def misc_settings_def)

end
