(* ===== verification/Regs.thy ===== *)
theory Regs imports Mmio Loops begin

text \<open>
  Accesses that the measurement servers share: read-modify-write of 16-bit registers, 64-bit stores
  (two 32-bit stores on the 32-bit target, the low word first), and the reply to a client as bytes.
\<close>

definition clr16 :: "nat \<Rightarrow> u16 \<Rightarrow> 'a dev_scheme \<Rightarrow> 'a dev_scheme" where
  "clr16 a m s = put16 a (rd16 (cfg s) a AND NOT m) s"

definition set16 :: "nat \<Rightarrow> u16 \<Rightarrow> 'a dev_scheme \<Rightarrow> 'a dev_scheme" where
  "set16 a m s = put16 a (rd16 (cfg s) a OR m) s"

definition pulse16 :: "nat \<Rightarrow> u16 \<Rightarrow> 'a dev_scheme \<Rightarrow> 'a dev_scheme" where
  "pulse16 a m s = set16 a m (clr16 a m s)"

definition put64 :: "nat \<Rightarrow> u64 \<Rightarrow> 'a dev_scheme \<Rightarrow> 'a dev_scheme" where
  "put64 a v s = put32 (a + 4) (ucast (drop_bit 32 v)) (put32 a (ucast v) s)"

text \<open>A mode that a 64-bit argument of 0 switches off and of 1 switches on; other values do nothing.\<close>

definition switch16 :: "nat \<Rightarrow> u16 \<Rightarrow> u64 \<Rightarrow> 'a dev_scheme \<Rightarrow> 'a dev_scheme" where
  "switch16 a m data s = (if data = 0 then clr16 a m s else if data = 1 then set16 a m s else s)"

definition switch8 :: "nat \<Rightarrow> u8 \<Rightarrow> u64 \<Rightarrow> 'a dev_scheme \<Rightarrow> 'a dev_scheme" where
  "switch8 a m data s = (if data = 0 then clr8 a m s else if data = 1 then set8 a m s else s)"

lemma cfg_bits16 [reg_simps]:
  "cfg (clr16 a m s) = wr16 a (rd16 (cfg s) a AND NOT m) (cfg s)"
  "cfg (set16 a m s) = wr16 a (rd16 (cfg s) a OR m) (cfg s)"
  by (simp_all add: clr16_def set16_def cfg_put)

lemma wr16_wr16 [reg_simps]: "wr16 a v (wr16 a w m) = wr16 a v m"
  by (auto simp: wr16_def)

lemma cfg_pulse16 [reg_simps]: "cfg (pulse16 a m s) = wr16 a (rd16 (cfg s) a OR m) (cfg s)"
  by (simp add: pulse16_def reg_simps and_not_or_mask)

lemma cfg_put64 [reg_simps]: "cfg (put64 a v s) = wr32 (a + 4) (ucast (drop_bit 32 v)) (wr32 a (ucast v) (cfg s))"
  by (simp add: put64_def cfg_put)

lemma cfg_switch16 [reg_simps]:
  "cfg (switch16 a m data s) =
     (if data = 0 then wr16 a (rd16 (cfg s) a AND NOT m) (cfg s) else if data = 1 then wr16 a (rd16 (cfg s) a OR m) (cfg s) else cfg s)"
  by (simp add: switch16_def reg_simps)

lemma bytes_of_rd16: "ucast (rd16 m a) = m a" "ucast (drop_bit 8 (rd16 m a)) = m (a + 1)"
  by (rule word8_eqI; simp add: rd16_def word_bits u8_high)+

lemma log_bits16 [log_simps]:
  "log (clr16 a m s) = log s @ [Cfg16 a (rd16 (cfg s) a AND NOT m)]"
  "log (set16 a m s) = log s @ [Cfg16 a (rd16 (cfg s) a OR m)]"
  "log (pulse16 a m s) = log s @ [Cfg16 a (rd16 (cfg s) a AND NOT m), Cfg16 a (rd16 (cfg s) a OR m)]"
  by (simp_all add: clr16_def set16_def pulse16_def log_simps reg_simps and_not_or_mask)

text \<open>The state of a server behind its registers.\<close>

lemma more_bits16 [frame_simps]:
  "dev.more (clr16 a m s) = dev.more s" "dev.more (set16 a m s) = dev.more s" "dev.more (pulse16 a m s) = dev.more s"
  "dev.more (put64 a v s) = dev.more s" "dev.more (switch16 a m d s) = dev.more s" "dev.more (switch8 a k d s) = dev.more s"
  by (simp_all add: clr16_def set16_def pulse16_def put64_def switch16_def switch8_def frame_simps)

text \<open>Words as the bytes of a reply.\<close>

definition bytes32 :: "u32 list \<Rightarrow> u8 list" where
  "bytes32 ws = concat (map le32 ws)"

definition bytes16 :: "u16 list \<Rightarrow> u8 list" where
  "bytes16 ws = concat (map le16 ws)"

lemma length_bytes32 [simp]: "length (bytes32 ws) = 4 * length ws"
  by (induction ws) (simp_all add: bytes32_def)

lemma bytes32_append [simp]: "bytes32 (xs @ ys) = bytes32 xs @ bytes32 ys"
  by (simp add: bytes32_def)

text \<open>The words in bytes that a client has sent.\<close>

definition words32 :: "u8 list \<Rightarrow> u32 list" where
  "words32 bs = map (\<lambda>i. of_le32 (take 4 (drop (4 * i) bs))) [0..<length bs div 4]"

section \<open>What a log contains\<close>

definition fifo_word :: "ev \<Rightarrow> u32 option" where
  "fifo_word e = (case e of Fifo x \<Rightarrow> Some x | _ \<Rightarrow> None)"

definition codec_word :: "ev \<Rightarrow> u32 option" where
  "codec_word e = (case e of Codec x \<Rightarrow> Some x | _ \<Rightarrow> None)"

definition fifo_words :: "ev list \<Rightarrow> u32 list" where
  "fifo_words es = List.map_filter fifo_word es"

definition codec_words :: "ev list \<Rightarrow> u32 list" where
  "codec_words es = List.map_filter codec_word es"

lemma words_append:
  "fifo_words (es @ fs) = fifo_words es @ fifo_words fs" "codec_words (es @ fs) = codec_words es @ codec_words fs"
  by (simp_all add: fifo_words_def codec_words_def map_filter_def)

lemma words_map:
  "fifo_words (map Fifo xs) = xs" "codec_words (map Fifo xs) = []" "fifo_words (map Codec xs) = []" "codec_words (map Codec xs) = xs"
  by (induction xs) (simp_all add: fifo_words_def codec_words_def fifo_word_def codec_word_def map_filter_simps)

definition sent_bytes :: "ev list \<Rightarrow> u8 list" where
  "sent_bytes es = concat (List.map_filter (\<lambda>e. case e of Send bs \<Rightarrow> Some bs | _ \<Rightarrow> None) es)"

lemma sent_bytes_simps [simp]:
  "sent_bytes [] = []" "sent_bytes (es @ fs) = sent_bytes es @ sent_bytes fs"
  "sent_bytes (Send bs # es) = bs @ sent_bytes es" "sent_bytes (Fifo x # es) = sent_bytes es"
  "sent_bytes (Cfg8 a v # es) = sent_bytes es" "sent_bytes (map Fifo xs) = []"
  by (simp_all add: sent_bytes_def map_filter_simps map_filter_def)

lemma fifo_words_simps [simp]:
  "fifo_words [] = []" "fifo_words (Fifo x # es) = x # fifo_words es" "fifo_words (Send bs # es) = fifo_words es"
  "fifo_words (Cfg8 a v # es) = fifo_words es" "fifo_words (Cfg16 a w # es) = fifo_words es" "fifo_words (Cfg32 a y # es) = fifo_words es"
  by (simp_all add: fifo_words_def fifo_word_def map_filter_simps)

end
