(* ===== verification/HpsdrMainProps.thy ===== *)
theory HpsdrMainProps imports HpsdrUpdates Regs begin

text \<open>
  Properties of the transceiver server's main loop over whole sessions, from the command line to any
  sequence of passes.
\<close>

section \<open>The updates at the end of a pass\<close>




lemma alex_wanted_cong: "alex_settings t = alex_settings s \<Longrightarrow> alex_wanted t = alex_wanted s"
  using alex_words_cong [of t s] by (simp add: alex_wanted_def)



section \<open>The start\<close>

definition inert :: "hpsdr \<Rightarrow> hpsdr \<Rightarrow> bool" where
  "inert s t \<longleftrightarrow> extends silent s t \<and> alex_settings t = alex_settings s \<and> alex_sent t = alex_sent s \<and>
    misc_settings t = misc_settings s \<and> nucleo_settings t = nucleo_settings s"

lemma inert_refl [simp]: "inert s s"
  by (auto simp: inert_def extends_def intro: exI [of _ "[]"])








section \<open>Sessions\<close>






section \<open>Properties\<close>



section \<open>FIFOs\<close>

lemma words_quiet: "list_all quiet es \<Longrightarrow> fifo_words es = [] \<and> codec_words es = []"
proof (induction es)
  case (Cons e es)
  then show ?case
    by (cases e) (simp_all add: fifo_words_def codec_words_def fifo_word_def codec_word_def map_filter_simps)
qed (simp add: fifo_words_def codec_words_def map_filter_simps)

lemma length_tx_words: "length (tx_words eer start buf) = 126"
  by (simp add: tx_words_def strides_def length_concat o_def sum_list_triv)

definition tx_body :: "u8 list \<Rightarrow> hpsdr \<Rightarrow> u32 list" where
  "tx_body buf s =
    (if (cfg s gpio_out AND 1) OR (gpio_in s AND 1) \<noteq> 0
     then tx_words (tx_eer_data s \<noteq> 0) 16 buf @ tx_words (tx_eer_data s \<noteq> 0) 528 buf else replicate 252 0)"

definition codec_body :: "u8 list \<Rightarrow> u32 list" where
  "codec_body buf = map (\<lambda>j. word_at buf (16 + j)) strides @ map (\<lambda>j. word_at buf (528 + j)) strides"

definition gap :: "(nat \<Rightarrow> u16) \<Rightarrow> nat \<Rightarrow> nat \<Rightarrow> u32 list" where
  "gap cntr n t = (if cntr (t + 1) = 0 then replicate n 0 else [])"

lemma length_bodies [simp]: "length (tx_body buf s) = 252" "length (codec_body buf) = 126"
  by (simp_all add: tx_body_def codec_body_def length_tx_words strides_def)

lemma emit_emit: "emit fs (emit es s) = emit (es @ fs) s"
  by (simp add: emit_def)

lemma tx_feed_words:
  "tx_feed io buf s = (if tx_mux_data s = 0
     then do { t \<leftarrow> await_below (io_tx_cntr io) 3844 0; Some (emit (map Fifo (gap (io_tx_cntr io) 2520 t @ tx_body buf s)) s) }
     else Some s)"
proof -
  have "(let s1 = (if c then emit (map Fifo zs) s else s)
         in Some (if (cfg s1 gpio_out AND 1) OR (gpio_in s1 AND 1) \<noteq> 0
                  then emit (map Fifo (tx_words (tx_eer_data s1 \<noteq> 0) 16 buf @ tx_words (tx_eer_data s1 \<noteq> 0) 528 buf)) s1
                  else emit (map Fifo (replicate 252 0)) s1)) =
        Some (emit (map Fifo ((if c then zs else []) @ tx_body buf s)) s)" for c zs
    by (cases c) (simp_all add: tx_body_def Let_def emit_def)
  then show ?thesis by (simp add: tx_feed_def gap_def)
qed

lemma codec_feed_words:
  "codec_feed io buf s = (if i2c_codec s
     then do { t \<leftarrow> await_below (io_dac_cntr io) 1922 0; Some (emit (map Codec (gap (io_dac_cntr io) 1260 t @ codec_body buf)) s) }
     else Some s)"
proof -
  have "(let s1 = (if c then emit (map Codec zs) s else s) in Some (emit (map Codec body) s1)) =
        Some (emit (map Codec ((if c then zs else []) @ body)) s)" for c zs body
    by (cases c) (simp_all add: Let_def emit_def)
  then show ?thesis by (simp add: codec_feed_def gap_def codec_body_def del: map_append)
qed

lemma data_packet_words:
  assumes "data_packet v io buf s = Some s'"
  shows "\<exists>es. log s' = log s @ es \<and>
    (if tx_mux_data s = 0 then \<exists>t. await_below (io_tx_cntr io) 3844 0 = Some t \<and> fifo_words es = gap (io_tx_cntr io) 2520 t @ tx_body buf s
     else fifo_words es = []) \<and>
    (if i2c_codec s then \<exists>t. await_below (io_dac_cntr io) 1922 0 = Some t \<and> codec_words es = gap (io_dac_cntr io) 1260 t @ codec_body buf
     else codec_words es = [])"
proof -
  from assms obtain s1 s2 where s1: "tx_feed io buf s = Some s1" and s2: "codec_feed io buf s1 = Some s2"
    and s': "s' = process_ep2 v (drop 523 buf) (process_ep2 v (drop 11 buf) s2)"
    unfolding data_packet_def by (auto simp only: bind_eq_Some_conv option.inject)
  obtain e1 where e1: "s1 = emit e1 s" "codec_words e1 = []"
    "if tx_mux_data s = 0 then \<exists>t. await_below (io_tx_cntr io) 3844 0 = Some t \<and> fifo_words e1 = gap (io_tx_cntr io) 2520 t @ tx_body buf s
     else fifo_words e1 = []"
  proof (cases "tx_mux_data s = 0")
    case True
    then obtain t where "await_below (io_tx_cntr io) 3844 0 = Some t" "s1 = emit (map Fifo (gap (io_tx_cntr io) 2520 t @ tx_body buf s)) s"
      using s1 by (auto simp: tx_feed_words bind_eq_Some_conv)
    with True that show ?thesis by (metis words_map(1,2))
  next
    case False
    then have "s1 = emit [] s" using s1 by (simp add: tx_feed_words emit_def)
    with False that [of "[]"] words_quiet [of "[]"] show ?thesis by simp
  qed
  have codec: "i2c_codec s1 = i2c_codec s" by (simp add: e1 emit_def)
  obtain e2 where e2: "s2 = emit e2 s1" "fifo_words e2 = []"
    "if i2c_codec s then \<exists>t. await_below (io_dac_cntr io) 1922 0 = Some t \<and> codec_words e2 = gap (io_dac_cntr io) 1260 t @ codec_body buf
     else codec_words e2 = []"
  proof (cases "i2c_codec s")
    case True
    then obtain t where "await_below (io_dac_cntr io) 1922 0 = Some t" "s2 = emit (map Codec (gap (io_dac_cntr io) 1260 t @ codec_body buf)) s1"
      using s2 by (auto simp: codec codec_feed_words bind_eq_Some_conv)
    with True that show ?thesis by (metis words_map(3,4))
  next
    case False
    then have "s2 = emit [] s1" using s2 by (simp add: codec codec_feed_words emit_def)
    with False that [of "[]"] words_quiet [of "[]"] show ?thesis by simp
  qed
  have "marks s2 s'" by (simp add: s' marks_ep2)
  then obtain e3 where e3: "log s' = log s2 @ e3" "list_all quiet e3" by (auto simp: marks_def extends_def)
  have "log s' = log s @ (e1 @ e2 @ e3)" using e3 by (simp add: e1(1) e2(1) emit_def)
  moreover have "fifo_words (e1 @ e2 @ e3) = fifo_words e1" "codec_words (e1 @ e2 @ e3) = codec_words e2"
    using e1(2) e2(2) words_quiet [OF e3(2)] by (simp_all add: words_append)
  ultimately show ?thesis using e1(3) e2(3) by metis
qed

lemma dispatch_data: "word_at buf 0 = 0x0201feef \<Longrightarrow> dispatch v mac io buf s = data_packet v io buf s"
  by (simp add: dispatch_def)

text \<open>The words of a half datagram: envelope and sample alternate.\<close>

lemma nth_tx_words:
  assumes "i < 63"
  shows "tx_words eer start buf ! (2 * i) = (if eer then word_at buf (start + 8 * i) else 0)"
    and "tx_words eer start buf ! (2 * i + 1) = word_at buf (start + 4 + 8 * i)"
proof -
  have pairs: "concat (map (\<lambda>j. [f j, g j]) xs) ! (2 * i) = f (xs ! i) \<and> concat (map (\<lambda>j. [f j, g j]) xs) ! (2 * i + 1) = g (xs ! i)"
    if "i < length xs" for f g :: "nat \<Rightarrow> u32" and xs i using that
  proof (induction xs arbitrary: i)
    case (Cons x xs)
    then show ?case by (cases i) simp_all
  qed simp
  have "strides ! i = 8 * i" "length strides = 63" using assms by (simp_all add: strides_def)
  with pairs [of i strides] assms
  show "tx_words eer start buf ! (2 * i) = (if eer then word_at buf (start + 8 * i) else 0)"
    "tx_words eer start buf ! (2 * i + 1) = word_at buf (start + 4 + 8 * i)"
    unfolding tx_words_def by simp_all
qed

text \<open>A data packet puts exactly 252 words into the transmit FIFO (after zeros that bridge a
  gap if the FIFO has run empty): while the host or the pin has PTT on, the envelope and the sample of each of the
  126 samples in order, envelopes only in EER mode; otherwise zeros, so that nothing is transmitted.\<close>

theorem tx_samples:
  assumes "word_at buf 0 = 0x0201feef" and "dispatch v mac io buf s = Some s'" and "tx_mux_data s = 0"
  shows "\<exists>es bridge body. log s' = log s @ es \<and> fifo_words es = bridge @ body \<and> set bridge \<subseteq> {0} \<and> length body = 252 \<and>
    (if bit (cfg s gpio_out) 0 \<or> bit (gpio_in s) 0
     then \<forall>h < 2. \<forall>i < 63. body ! (126 * h + 2 * i + 1) = word_at buf (20 + 512 * h + 8 * i) \<and>
            body ! (126 * h + 2 * i) = (if tx_eer_data s \<noteq> 0 then word_at buf (16 + 512 * h + 8 * i) else 0)
     else set body = {0})"
proof -
  from assms obtain es t where es: "log s' = log s @ es" "fifo_words es = gap (io_tx_cntr io) 2520 t @ tx_body buf s"
    using data_packet_words [of v io buf s s'] by (auto simp: dispatch_data)
  have ptt: "(cfg s gpio_out AND 1) OR (gpio_in s AND 1) \<noteq> 0 \<longleftrightarrow> bit (cfg s gpio_out) 0 \<or> bit (gpio_in s) 0"
  proof -
    have "(cfg s gpio_out AND 1) OR (gpio_in s AND 1) = (cfg s gpio_out OR gpio_in s) AND 1"
      by (rule word8_eqI) (simp add: word_bits)
    then show ?thesis using word_and_one_zero [of "cfg s gpio_out OR gpio_in s"] by (simp add: bit_or_iff)
  qed
  have "if bit (cfg s gpio_out) 0 \<or> bit (gpio_in s) 0
     then \<forall>h < 2. \<forall>i < 63. tx_body buf s ! (126 * h + 2 * i + 1) = word_at buf (20 + 512 * h + 8 * i) \<and>
            tx_body buf s ! (126 * h + 2 * i) = (if tx_eer_data s \<noteq> 0 then word_at buf (16 + 512 * h + 8 * i) else 0)
     else set (tx_body buf s) = {0}"
  proof (cases "bit (cfg s gpio_out) 0 \<or> bit (gpio_in s) 0")
    case True
    then have body: "tx_body buf s = tx_words (tx_eer_data s \<noteq> 0) 16 buf @ tx_words (tx_eer_data s \<noteq> 0) 528 buf"
      unfolding tx_body_def ptt by simp
    have "tx_body buf s ! (126 * h + 2 * i + 1) = word_at buf (20 + 512 * h + 8 * i) \<and>
            tx_body buf s ! (126 * h + 2 * i) = (if tx_eer_data s \<noteq> 0 then word_at buf (16 + 512 * h + 8 * i) else 0)"
      if "h < 2" "i < 63" for h i :: nat
    proof -
      have "h = 0 \<or> h = 1" using that(1) by auto
      then show ?thesis
        using nth_tx_words [OF that(2), of "tx_eer_data s \<noteq> 0" _ buf] that(2)
        by (auto simp: body nth_append length_tx_words)
    qed
    with True show ?thesis by simp
  next
    case False
    then have "tx_body buf s = replicate 252 0" unfolding tx_body_def ptt by simp
    with False show ?thesis by simp
  qed
  moreover have "set (gap (io_tx_cntr io) 2520 t) \<subseteq> {0}" by (auto simp: gap_def)
  ultimately show ?thesis using es length_bodies(1) by blast
qed

text \<open>C15: what is written for one datagram never exceeds the space of the FIFOs (4096
  words for the transmitter, 2048 for the codec), measured at the last reading of their counters, if
  the counters only fall while the server reads them.\<close>

theorem fifo_never_overfilled:
  assumes "word_at buf 0 = 0x0201feef" and "dispatch v mac io buf s = Some s'"
    and "\<forall>t. unat (io_tx_cntr io (t + 1)) \<le> unat (io_tx_cntr io t)" and "\<forall>t. unat (io_dac_cntr io (t + 1)) \<le> unat (io_dac_cntr io t)"
  shows "\<exists>es. log s' = log s @ es \<and>
    (fifo_words es = [] \<or> (\<exists>t. await_below (io_tx_cntr io) 3844 0 = Some t \<and>
       unat (io_tx_cntr io (t + 1)) + length (fifo_words es) \<le> 4096)) \<and>
    (codec_words es = [] \<or> (\<exists>t. await_below (io_dac_cntr io) 1922 0 = Some t \<and>
       unat (io_dac_cntr io (t + 1)) + length (codec_words es) \<le> 2048))"
proof -
  have fits: "unat (cntr (t + 1)) + (length (gap cntr n t) + k) \<le> limit + k"
    if "await_below cntr limit 0 = Some t" "\<forall>t. unat (cntr (t + 1)) \<le> unat (cntr t)" "n \<le> limit" for cntr limit n t k
    using await_below_reached [OF that(1)] that(2) [rule_format, of t] that(3) by (simp add: gap_def)
  from assms(1,2) obtain es where es: "log s' = log s @ es"
    "if tx_mux_data s = 0 then \<exists>t. await_below (io_tx_cntr io) 3844 0 = Some t \<and> fifo_words es = gap (io_tx_cntr io) 2520 t @ tx_body buf s
     else fifo_words es = []"
    "if i2c_codec s then \<exists>t. await_below (io_dac_cntr io) 1922 0 = Some t \<and> codec_words es = gap (io_dac_cntr io) 1260 t @ codec_body buf
     else codec_words es = []"
    using data_packet_words [of v io buf s s'] by (auto simp: dispatch_data simp del: not_gr_zero)
  have "fifo_words es = [] \<or> (\<exists>t. await_below (io_tx_cntr io) 3844 0 = Some t \<and> unat (io_tx_cntr io (t + 1)) + length (fifo_words es) \<le> 4096)"
    using es(2) fits [OF _ assms(3), of 3844 _ 2520 252] by (cases "tx_mux_data s = 0") auto
  moreover have "codec_words es = [] \<or> (\<exists>t. await_below (io_dac_cntr io) 1922 0 = Some t \<and> unat (io_dac_cntr io (t + 1)) + length (codec_words es) \<le> 2048)"
    using es(3) fits [OF _ assms(4), of 1922 _ 1260 126] by (cases "i2c_codec s") auto
  ultimately show ?thesis using es(1) by blast
qed

section \<open>Progress\<close>

text \<open>A FIFO that nobody writes falls until it is empty; a thread that runs comes to the head of its loop again and again, which
  the stream thread does as long as its own FIFO is filled (\<open>ep6_numbering\<close>).\<close>

definition drains :: "(nat \<Rightarrow> u16) \<Rightarrow> bool" where
  "drains cntr \<longleftrightarrow> (\<forall>t. 0 < unat (cntr t) \<longrightarrow> (\<exists>d. unat (cntr (t + d)) < unat (cntr t)))"

definition lively :: "(nat \<Rightarrow> bool) \<Rightarrow> bool" where
  "lively runs \<longleftrightarrow> (\<forall>t. \<exists>d. runs (t + d))"

definition serviced :: "main_io \<Rightarrow> bool" where
  "serviced io \<longleftrightarrow> drains (io_tx_cntr io) \<and> drains (io_dac_cntr io) \<and> lively (io_stream io)"

lemma drains_empty: "drains cntr \<Longrightarrow> \<exists>d. cntr (t + d) = 0"
proof (induction "unat (cntr t)" arbitrary: t rule: less_induct)
  case less
  show ?case
  proof (cases "cntr t = 0")
    case True
    then show ?thesis by (intro exI [of _ 0]) simp
  next
    case False
    then obtain d where "unat (cntr (t + d)) < unat (cntr t)" using less.prems by (auto simp: drains_def unat_gt_0)
    from less.hyps [OF this less.prems] show ?thesis by (metis add.assoc)
  qed
qed

lemma drains_below: "drains cntr \<Longrightarrow> \<exists>t'. await_below cntr limit t = Some t'"
proof -
  assume "drains cntr"
  then obtain d where "cntr (t + d) = 0" using drains_empty by blast
  then show ?thesis using await_below_returns [of cntr t d limit] by simp
qed

lemma stop_stream_returns: "lively (io_stream io) \<Longrightarrow> \<exists>s'. stop_stream io s = Some s'"
proof -
  assume "lively (io_stream io)"
  then obtain d where "io_stream io (0 + d)" unfolding lively_def by blast
  with await_stopped_returns [of "io_stream io" 0 d "s\<lparr>enable_thread := False\<rparr>"] show ?thesis by (simp add: stop_stream_def)
qed

lemma dispatch_returns: "serviced io \<Longrightarrow> dispatch v mac io buf s \<noteq> None"
proof -
  assume a: "serviced io"
  obtain t1 t2 where "await_below (io_tx_cntr io) 3844 0 = Some t1" "await_below (io_dac_cntr io) 1922 0 = Some t2"
    using a drains_below unfolding serviced_def by metis
  moreover obtain s' where "stop_stream io s = Some s'" using a stop_stream_returns unfolding serviced_def by blast
  ultimately show ?thesis
    by (simp add: dispatch_def Let_def data_packet_def tx_feed_words codec_feed_words start_stream_def)
qed

interpretation packets_progress: progressing "dispatch_in v mac" "\<lambda>_. True" "\<lambda>msg. serviced (fst msg)" for v mac
  by unfold_locales (use dispatch_returns in \<open>auto simp: dispatch_in_def\<close>)

lemma dispatch_all_returns: "\<forall>msg \<in> set msgs. serviced (fst msg) \<Longrightarrow> \<exists>out t. dispatch_all v mac msgs s = Some (out, t)"
  using packets_progress.run_some [OF TrueI, of msgs v mac s] by (auto simp flip: dispatch_all_run)

interpretation passes_progress: progressing "main_loop_pass v mac" "\<lambda>_. True" "\<lambda>pass. \<forall>io \<in> set (map fst (fst pass)). serviced io" for v mac
proof
  fix st :: "u8 list list \<times> hpsdr" and pass :: main_pass
  assume a: "\<forall>io \<in> set (map fst (fst pass)). serviced io"
  obtain ins p q bufs s where e: "pass = (ins, p, q)" "st = (bufs, s)" by (cases pass; cases st)
  have "\<exists>out t. dispatch_all v mac (zip (map fst ins) xs) s = Some (out, t)" for xs
    using a by (intro dispatch_all_returns) (auto simp: e dest!: set_zip_leftD)
  then obtain f g where "dispatch_all v mac (zip (map fst ins) xs) s = Some (f xs, g xs)" for xs by metis
  then show "main_loop_pass v mac pass st \<noteq> None" by (simp add: main_loop_pass_def Let_def e)
qed simp

text \<open>C16: the main loop never hangs: if the FIFOs drain while nothing is written and the stream thread keeps coming to the head of its
  loop, every pass comes to its end, whatever the host sends.  The wait for the end of the stream thread ends because \<open>enable_thread\<close>
  has been cleared before it: the thread then leaves its loop at the head and clears \<open>active_thread\<close>.\<close>

theorem main_loop_returns:
  assumes "\<forall>pass \<in> set passes. \<forall>io \<in> set (map fst (fst pass)). serviced io"
  shows "\<exists>st'. main_loop v mac passes st = Some st'"
  using passes_progress.run_some [OF TrueI assms] by (auto simp: main_loop_def)

section \<open>Command line and short datagrams\<close>

lemma chan_args_bits:
  "chan_args i args chan = Some c \<longleftrightarrow>
    (\<forall>a \<in> set args. number_arg 1 2 a \<noteq> None) \<and>
    c = foldl (\<lambda>ch (j, a). ch OR push_bit j (word_of_int (the (number_arg 1 2 a) - 1))) chan (zip [i..<i + length args] args)"
proof (induction args arbitrary: i chan)
  case (Cons a args)
  have "[i..<i + length (a # args)] = i # [i + 1..<(i + 1) + length args]" by (simp add: upt_rec)
  then show ?case using Cons [of "i + 1"] by (cases "number_arg 1 2 a") simp_all
qed auto

lemma number_bit: "number_arg 1 2 a = Some n \<Longrightarrow> word_of_int (n - 1) = (of_bool (n = 2) :: u8)"
proof -
  assume "number_arg 1 2 a = Some n"
  then have "n = 1 \<or> n = 2" using number_arg_range [of 1 2 a n] by auto
  then show ?thesis by auto
qed

lemma six_cases: "length xs = 6 \<Longrightarrow> \<exists>a b c d e f. xs = [a, b, c, d, e, f]"
  by (auto simp: length_Suc_conv eval_nat_numeral)

lemma nat_less_6: "i < 6 \<Longrightarrow> i = 0 \<or> i = 1 \<or> i = 2 \<or> i = 3 \<or> i = 4 \<or> i = (5 :: nat)"
  by auto

lemma hpsdr_args_bits:
  assumes "hpsdr_args args = Some chan" and "i < 6"
  shows "bit chan i \<longleftrightarrow> number_arg 1 2 (args ! i) = Some 2"
proof -
  have len: "length args = 6" and c: "chan_args 0 args 0 = Some chan" using assms(1) by (auto simp: hpsdr_args_def split: if_splits)
  obtain a0 a1 a2 a3 a4 a5 where args: "args = [a0, a1, a2, a3, a4, a5]" using six_cases [OF len] by blast
  have ex: "\<forall>a \<in> set args. \<exists>n. number_arg 1 2 a = Some n" using c by (auto simp: chan_args_bits)
  define w where "w a = (of_bool (number_arg 1 2 a = Some 2) :: u8)" for a
  have w: "word_of_int (the (number_arg 1 2 a) - 1) = w a" if "a \<in> set args" for a
    using ex that number_bit by (auto simp: w_def)
  have "chan = ((((w a0 OR push_bit 1 (w a1)) OR push_bit 2 (w a2)) OR push_bit 3 (w a3)) OR push_bit 4 (w a4)) OR push_bit 5 (w a5)"
  proof -
    have "chan = foldl (\<lambda>ch (j, a). ch OR push_bit j (word_of_int (the (number_arg 1 2 a) - 1))) 0 (zip [0..<0 + length args] args)"
      using c unfolding chan_args_bits by blast
    also have "\<dots> = foldl (\<lambda>ch (j, a). ch OR push_bit j (w a)) 0 (zip [0..<0 + length args] args)"
      by (rule foldl_cong) (use w in \<open>auto dest: set_zip_rightD\<close>)
    finally show ?thesis by (simp add: args upt_rec push_bit_eq_mult mult.commute)
  qed
  then show ?thesis
    using nat_less_6 [OF assms(2)] by (elim disjE) (simp_all add: args word_bits w_def bit_1_iff)
qed

text \<open>The program starts only with six arguments that are 1 or 2 each, and then connects the
  four receivers and the two transmitters to the inputs and outputs the arguments name.\<close>

theorem input_selectors:
  assumes "hpsdr_args args = Some chan" and s_def: "s = hpsdr_init v chan i2c_open slave ack lut hpsdr_start"
  shows "length args = 6 \<and> (\<forall>a \<in> set args. number_arg 1 2 a = Some 1 \<or> number_arg 1 2 a = Some 2) \<and>
    (\<forall>i < 4. bit (cfg s rx_sel) i \<longleftrightarrow> number_arg 1 2 (args ! i) = Some 2) \<and>
    (\<forall>i < 2. bit (cfg s tx_sel) i \<longleftrightarrow> number_arg 1 2 (args ! (4 + i)) = Some 2)"
proof -
  have sel: "cfg s rx_sel = chan AND 15" "cfg s tx_sel = drop_bit 4 chan AND 3"
    by (simp_all add: s_def hpsdr_init_def hpsdr_registers_def Let_def reg_simps reg_addr)
  have bits: "bit (chan AND 15) i = bit chan i" if "i < 4" for i
  proof -
    have "bit (15 :: u8) i" using that by (simp add: less_Suc_eq eval_nat_numeral) (auto simp: bit_simps)
    then show ?thesis by (simp add: bit_and_iff)
  qed
  have bits2: "bit (drop_bit 4 chan AND 3) i = bit chan (4 + i)" if "i < 2" for i
  proof -
    have "i = 0 \<or> i = 1" using that by auto
    then show ?thesis by (auto simp: bit_and_iff bit_drop_bit_eq)
  qed
  have "number_arg 1 2 a = Some 1 \<or> number_arg 1 2 a = Some 2" if "a \<in> set args" for a
  proof -
    have "number_arg 1 2 a \<noteq> None" using assms(1) that by (auto simp: hpsdr_args_def chan_args_bits split: if_splits)
    then obtain n where "number_arg 1 2 a = Some n" by blast
    with number_arg_range [OF this] show ?thesis by (cases "n = 1") auto
  qed
  moreover have "length args = 6" using assms(1) by (simp add: hpsdr_args_def split: if_splits)
  ultimately show ?thesis using hpsdr_args_bits [OF assms(1)] bits bits2 by (auto simp: sel)
qed

text \<open>A datagram of fewer than 4 bytes does nothing, whatever an earlier one has left in
  the buffer: that is what the identification is copied into the buffers for.\<close>

theorem short_datagram_ignored:
  assumes "length d < 4" and "length buf = 1032"
  shows "dispatch v mac io (receive buf d) s = Some s"
proof -
  have "receive buf d ! 3 = 6" using assms by (simp add: receive_def nth_blit min_def)
  then have "chunk 0 4 (receive buf d) ! 3 = 6" using assms by (simp add: receive_def)
  then have "drop_bit 24 (word_at (receive buf d) 0) = 6"
    by (intro word32_eqI) (simp add: word_at_def of_le32_def word_bits u8_high)
  then have "word_at (receive buf d) 0 \<notin> {0x0201feef, 0x0002feef, 0x0004feef, 0x0104feef, 0x0204feef, 0x0304feef}"
    by auto
  then show ?thesis by (simp add: dispatch_def Let_def)
qed

section \<open>Examples\<close>

definition io_ready :: main_io where
  "io_ready = \<lparr>io_tx_cntr = (\<lambda>_. 0), io_dac_cntr = (\<lambda>_. 0), io_stream = even, io_pins = 1, io_cw_ptt = 0, io_tx_mux = 0\<rparr>"

definition packet_example :: "u8 list" where
  "packet_example = [0xef, 0xfe, 1, 2] @ replicate 1028 7"

definition started :: hpsdr where
  "started = hpsdr_init hpsdr_125 0 True (\<lambda>_. False) (\<lambda>_. False) (\<lambda>_. 0) hpsdr_start"

lemma serviced_ready: "serviced io_ready"
proof -
  have "\<exists>d. even (t + d)" for t :: nat by (rule exI [of _ t]) simp
  then show ?thesis by (simp add: serviced_def io_ready_def drains_def lively_def)
qed

lemma packet_code: "word_at packet_example 0 = 0x0201feef"
  by (simp add: packet_example_def word_at_def chunk_def of_le32_def)







lemma dispatch_example: "\<exists>s'. dispatch hpsdr_125 [] io_ready packet_example (hpsdr_start\<lparr>gpio_in := 1\<rparr>) = Some s'"
  using dispatch_returns [OF serviced_ready] by blast

theorem tx_samples_witness:
  "\<exists>s' es. dispatch hpsdr_125 [] io_ready packet_example (hpsdr_start\<lparr>gpio_in := 1\<rparr>) = Some s' \<and> log s' = es \<and> 252 \<le> length (fifo_words es)"
proof -
  obtain s' where s': "dispatch hpsdr_125 [] io_ready packet_example (hpsdr_start\<lparr>gpio_in := 1\<rparr>) = Some s'"
    using dispatch_example by blast
  moreover have "tx_mux_data (hpsdr_start\<lparr>gpio_in := 1\<rparr>) = 0" "log (hpsdr_start\<lparr>gpio_in := 1\<rparr>) = []" by (simp_all add: hpsdr_start_def)
  ultimately show ?thesis using tx_samples [OF packet_code s'] by auto
qed

theorem fifo_never_overfilled_witness:
  "\<exists>s' es. dispatch hpsdr_125 [] io_ready packet_example (hpsdr_start\<lparr>gpio_in := 1\<rparr>) = Some s' \<and> log s' = es \<and> length (fifo_words es) \<le> 4096"
proof -
  obtain s' where s': "dispatch hpsdr_125 [] io_ready packet_example (hpsdr_start\<lparr>gpio_in := 1\<rparr>) = Some s'"
    using dispatch_example by blast
  have "log (hpsdr_start\<lparr>gpio_in := 1\<rparr>) = []" by (simp add: hpsdr_start_def)
  with s' show ?thesis
    using fifo_never_overfilled [OF packet_code s'] by (auto simp: io_ready_def)
qed

text \<open>The host starts the stream and stops it again.\<close>

theorem main_loop_returns_witness:
  "\<exists>st'. main_loop hpsdr_125 [] [([(io_ready, [0xef, 0xfe, 4, 1] @ replicate 1028 0)], 0, 0), ([(io_ready, [0xef, 0xfe, 4, 0] @ replicate 1028 0)], 0, 0)]
     ([replicate 1032 0], started) = Some st'"
  using main_loop_returns [of "[([(io_ready, [0xef, 0xfe, 4, 1] @ replicate 1028 0)], 0, 0), ([(io_ready, [0xef, 0xfe, 4, 0] @ replicate 1028 0)], 0, 0)]"
      hpsdr_125 "[]" "([replicate 1032 0], started)"]
  by (simp add: serviced_ready)

theorem input_selectors_witness: "bit (cfg (hpsdr_init hpsdr_125 0x21 False (\<lambda>_. False) (\<lambda>_. False) (\<lambda>_. 0) hpsdr_start) tx_sel) 1"
proof -
  have a: "hpsdr_args [''2'', ''1'', ''1'', ''1'', ''1'', ''2''] = Some 0x21" by code_simp
  have n: "number_arg 1 2 ''2'' = Some 2" by code_simp
  have "i < 2 \<Longrightarrow> bit (cfg (hpsdr_init hpsdr_125 0x21 False (\<lambda>_. False) (\<lambda>_. False) (\<lambda>_. 0) hpsdr_start) tx_sel) i \<longleftrightarrow>
      number_arg 1 2 ([''2'', ''1'', ''1'', ''1'', ''1'', ''2''] ! (4 + i)) = Some 2" for i
    using input_selectors [OF a refl] by blast
  from this [of 1] n show ?thesis by simp
qed

theorem short_datagram_ignored_witness:
  "dispatch hpsdr_125 [] io_ready (receive (replicate 1032 0) [0xef, 0xfe, 4]) hpsdr_start = Some hpsdr_start"
  by (rule short_datagram_ignored) simp_all

end
