(* ===== verification/Mcpha.thy ===== *)
theory Mcpha imports Regs LowerBound Doubles "HOL-Library.Signed_Division" begin

text \<open>
  mcpha-server.c, the server of the multichannel pulse height analyser: commands of 8 bytes that set
  the two histogram channels, the oscilloscope and the pulse generator, and the thread that feeds the
  generator with random pulses.
\<close>

section \<open>State\<close>

record mcpha = dev +
  pulse_rate :: u32
  pulse_dist :: u32
  hist :: "int list"
  pulser_enabled :: bool
  pulser_active :: bool
  fall :: u16
  rise :: u16
  spectrum :: "u32 list"
  keep_pulsing :: bool

text \<open>What a command reads from outside: the status page, the histogram memories, the sample memory, whether
  the \<open>send\<close> calls succeed, when the pulser thread stops, and the two coefficients that \<open>main\<close>
  computes with \<open>expf\<close> from the fall and rise times.\<close>

record mcpha_io =
  io_sts :: "u8 list"
  io_hst :: "nat \<Rightarrow> u32 list"
  io_ram :: "nat \<Rightarrow> u32"
  io_writer :: u32
  io_sent :: bool
  io_sent2 :: bool
  io_stopping :: "nat \<Rightarrow> bool"
  io_fall_coef :: "u16 \<Rightarrow> u16"
  io_rise_coef :: "u16 \<Rightarrow> u16"

definition RAND_MAX :: int where "RAND_MAX = 2147483647"

text \<open>64-bit signed arithmetic of the target.\<close>

definition s64 :: "int \<Rightarrow> int" where "s64 x = signed_take_bit 63 x"

section \<open>Initial registers\<close>

definition osc_reset :: "mcpha \<Rightarrow> mcpha" where
  "osc_reset s = set16 2 0x0003 (clr16 2 0x0002 (clr16 2 0x0001 s))"

definition gen_reset :: "mcpha \<Rightarrow> mcpha" where
  "gen_reset s = pulse16 2 0x8000 s"

text \<open>\<open>ram_addr\<close> is the physical address that the allocator returns in \<open>size\<close>.\<close>

definition mcpha_init :: "u32 \<Rightarrow> mcpha \<Rightarrow> mcpha" where
  "mcpha_init ram_addr s =
    (let s = put32 72 ram_addr s;
         s = put16 4 4 s;
         s = pulse16 0 0x0303 s;
         s = osc_reset s;
         s = clr16 2 0x0004 s;
         s = gen_reset s;
         s = s\<lparr>fall := 50, rise := 50\<rparr>;
         s = put16 92 58655 (put16 90 65528 (put16 88 6932 s));
         s = put16 96 8191 (put16 94 (word_of_int (-8192)) s)
     in s\<lparr>spectrum := replicate 4096 0\<rparr>)"

definition mcpha_start :: mcpha where
  "mcpha_start = \<lparr>cfg = (\<lambda>_. 0), log = [], pulse_rate = 1000, pulse_dist = 0, hist = replicate 4096 0,
     pulser_enabled = False, pulser_active = False, fall = 0, rise = 0, spectrum = replicate 4096 0, keep_pulsing = False\<rparr>"

section \<open>Commands\<close>

definition cmd_code :: "u64 \<Rightarrow> u8" where "cmd_code command = ucast (drop_bit 56 command) AND 0xff"
definition cmd_chan :: "u64 \<Rightarrow> u8" where "cmd_chan command = ucast (drop_bit 52 command) AND 0xf"
definition cmd_data :: "u64 \<Rightarrow> u64" where "cmd_data command = command AND 0xfffffffffffff"

definition reset_histogram :: "u8 \<Rightarrow> mcpha \<Rightarrow> mcpha" where
  "reset_histogram chan s =
    (if chan = 0 then emit (map (\<lambda>i. Win 0 i 0) [0..<4096]) (pulse16 0 0x0001 s)
     else if chan = 1 then emit (map (\<lambda>i. Win 1 i 0) [0..<4096]) (pulse16 0 0x0100 s)
     else s)"

definition reset_timer :: "u8 \<Rightarrow> mcpha \<Rightarrow> mcpha" where
  "reset_timer chan s =
    (if chan = 0 then pulse16 0 0x0002 s else if chan = 1 then pulse16 0 0x0200 s else s)"

definition set_rate_divider :: "u64 \<Rightarrow> mcpha \<Rightarrow> mcpha" where
  "set_rate_divider data s =
    (if data < 4 then put16 4 4 (clr16 0 0x0008 s) else put16 4 (ucast data) (set16 0 0x0008 s))"

definition set_negator :: "u8 \<Rightarrow> u64 \<Rightarrow> mcpha \<Rightarrow> mcpha" where
  "set_negator chan data s =
    (if chan = 0 then switch16 0 0x0010 data s else if chan = 1 then switch16 0 0x1000 data s else s)"

text \<open>Codes 6, 7 and 8: a 16-bit register of the channel.\<close>

definition set_pha :: "nat \<Rightarrow> nat \<Rightarrow> u8 \<Rightarrow> u64 \<Rightarrow> mcpha \<Rightarrow> mcpha" where
  "set_pha a0 a1 chan data s =
    (if chan = 0 then put16 a0 (ucast data) s else if chan = 1 then put16 a1 (ucast data) s else s)"

definition set_timer :: "u8 \<Rightarrow> u64 \<Rightarrow> mcpha \<Rightarrow> mcpha" where
  "set_timer chan data s =
    (if chan = 0 then put64 8 data s else if chan = 1 then put64 24 data s else s)"

definition set_timer_mode :: "u8 \<Rightarrow> u64 \<Rightarrow> mcpha \<Rightarrow> mcpha" where
  "set_timer_mode chan data s =
    (if chan = 0 then switch16 0 0x0004 data s
     else if chan = 1 then switch16 0 0x0400 data s
     else if chan = 2 then switch16 0 0x0404 data s
     else s)"

text \<open>The commands that reply; the flag tells whether the connection goes on.\<close>

definition read_status :: "mcpha_io \<Rightarrow> mcpha \<Rightarrow> bool \<times> mcpha" where
  "read_status io s = (io_sent io, emit [Send (take 36 (io_sts io))] s)"

definition read_histogram :: "mcpha_io \<Rightarrow> u8 \<Rightarrow> mcpha \<Rightarrow> bool \<times> mcpha" where
  "read_histogram io chan s =
    (if chan = 0 then (io_sent io, emit [Send (bytes32 (take 4096 (io_hst io 0)))] s)
     else if chan = 1 then (io_sent io, emit [Send (bytes32 (take 4096 (io_hst io 1)))] s)
     else (True, s))"

text \<open>\<open>send(sock, ram + start * 4, n * 4)\<close>, the product in 32 bits.\<close>

definition ram_bytes :: "mcpha_io \<Rightarrow> u32 \<Rightarrow> u32 \<Rightarrow> u8 list" where
  "ram_bytes io start n = bytes32 (map (\<lambda>i. io_ram io (unat start + i)) [0..<unat (n * 4) div 4])"

definition osc_start_index :: "mcpha_io \<Rightarrow> mcpha \<Rightarrow> u32" where
  "osc_start_index io s = (drop_bit 1 (io_writer io) - (rd32 (cfg s) 76 + 1)) AND 0x007FFFFF"

definition read_oscilloscope :: "mcpha_io \<Rightarrow> mcpha \<Rightarrow> bool \<times> mcpha" where
  "read_oscilloscope io s =
    (let tot = rd32 (cfg s) 80 + 1;
         start = osc_start_index io s
     in if start + tot \<le> 0x007FFFFF
        then (io_sent io, emit [Send (ram_bytes io start tot)] s)
        else let s1 = emit [Send (ram_bytes io start (0x007FFFFF - start))] s
             in if io_sent io
                then (io_sent2 io, emit [Send (ram_bytes io 0 (start + tot - 0x007FFFFF))] s1)
                else (False, s1))"

definition set_trigger :: "u8 \<Rightarrow> mcpha \<Rightarrow> mcpha" where
  "set_trigger chan s = (if chan = 0 then clr16 2 0x0004 s else if chan = 1 then set16 2 0x0004 s else s)"

section \<open>Starting and stopping the pulser\<close>

definition stop_pulser :: "mcpha_io \<Rightarrow> mcpha \<Rightarrow> mcpha option" where
  "stop_pulser io s =
    (let s1 = s\<lparr>pulser_enabled := False\<rparr>
     in if pulser_active s1
        then do { t \<leftarrow> await_clear (io_stopping io) 0; Some (gen_reset (s1\<lparr>pulser_active := False\<rparr>)) }
        else Some (gen_reset s1))"

definition spectrum_total :: "u32 list \<Rightarrow> int" where
  "spectrum_total sp = foldl (\<lambda>tot w. s64 (tot + uint w)) 0 sp"

text \<open>\<open>value += spectrum[i]; hist[i] = value * RAND_MAX / total - 1;\<close>\<close>

fun fill_hist :: "int \<Rightarrow> int \<Rightarrow> u32 list \<Rightarrow> int list" where
  "fill_hist tot value [] = []"
| "fill_hist tot value (w # ws) =
    (let value = s64 (value + uint w)
     in s64 (s64 (value * RAND_MAX) sdiv tot - 1) # fill_hist tot value ws)"

text \<open>The loop that searches the peak of the filtered pulse; all its values are nonnegative.\<close>

partial_function (option) pulse_peak :: "int \<Rightarrow> int \<Rightarrow> int \<Rightarrow> int \<Rightarrow> int \<Rightarrow> int option" where
  "pulse_peak f r y0 y1 y2 =
    (if y2 \<le> y1 then pulse_peak f r (y0 * f div 65536) (y0 + y1 * r div 65536) y1 else Some y2)"

definition pulse_scale :: "int \<Rightarrow> u16" where
  "pulse_scale y2 = word_of_int (4095 * 65535 div drop_bit 9 y2)"

definition start_pulser :: "mcpha_io \<Rightarrow> u64 \<Rightarrow> mcpha \<Rightarrow> mcpha option" where
  "start_pulser io data s =
    do { s1 \<leftarrow> stop_pulser io (s\<lparr>keep_pulsing := ((ucast data :: u32) \<noteq> 0)\<rparr>);
         let tot = spectrum_total (spectrum s1);
         if tot < 1 then Some s1
         else do {
           let f = io_fall_coef io (fall s1);
           let r = io_rise_coef io (rise s1);
           y2 \<leftarrow> pulse_peak (uint f) (uint r) (push_bit 9 4095) 0 0;
           let s2 = put16 92 r (put16 90 f (put16 88 (pulse_scale y2) (s1\<lparr>hist := fill_hist tot 0 (spectrum s1)\<rparr>)));
           Some (s2\<lparr>pulser_enabled := True, pulser_active := True\<rparr>) } }"

section \<open>A command\<close>

definition keep_on :: "mcpha \<Rightarrow> (bool \<times> mcpha) option" where "keep_on s = Some (True, s)"

text \<open>Codes 13 to 19: the trigger and the window of the oscilloscope.\<close>

definition mcpha_scope :: "u8 \<Rightarrow> u8 \<Rightarrow> u64 \<Rightarrow> mcpha \<Rightarrow> mcpha" where
  "mcpha_scope code chan data s =
    (if code = 13 then set_trigger chan s
     else if code = 14 then switch16 2 0x0008 data s
     else if code = 15 then switch16 2 0x0010 data s
     else if code = 16 then put16 84 (ucast data) s
     else if code = 17 then put32 76 (ucast (data - 1)) s
     else if code = 18 then put32 80 (ucast (data - 1)) s
     else if code = 19 then clr16 2 0x0020 (set16 2 0x0020 s)
     else s)"

text \<open>Codes 21 to 28: the settings of the pulse generator.\<close>

definition mcpha_pulses :: "u8 \<Rightarrow> u64 \<Rightarrow> mcpha \<Rightarrow> mcpha" where
  "mcpha_pulses code data s =
    (if code = 21 then (if data > 100 then s else s\<lparr>fall := ucast data\<rparr>)
     else if code = 22 then (if data > 100 then s else s\<lparr>rise := ucast data\<rparr>)
     else if code = 23 then put16 94 (ucast data) s
     else if code = 24 then put16 96 (ucast data) s
     else if code = 25 then s\<lparr>pulse_rate := ucast data\<rparr>
     else if code = 26 then s\<lparr>pulse_dist := ucast data\<rparr>
     else if code = 27 then s\<lparr>spectrum := replicate 4096 0\<rparr>
     else if code = 28 then s\<lparr>spectrum := (spectrum s)[unat (drop_bit 32 data AND 0xfff) := ucast (data AND 0xffffffff)]\<rparr>
     else s)"

definition mcpha_set :: "u8 \<Rightarrow> u8 \<Rightarrow> u64 \<Rightarrow> mcpha \<Rightarrow> mcpha" where
  "mcpha_set code chan data s =
    (if code = 0 then reset_histogram chan s
     else if code = 1 then reset_timer chan s
     else if code = 2 then osc_reset s
     else if code = 3 then gen_reset s
     else if code = 4 then set_rate_divider data s
     else if code = 5 then set_negator chan data s
     else if code = 6 then set_pha 16 32 chan data s
     else if code = 7 then set_pha 18 34 chan data s
     else if code = 8 then set_pha 20 36 chan data s
     else if code = 9 then set_timer chan data s
     else if code = 10 then set_timer_mode chan data s
     else mcpha_pulses code data (mcpha_scope code chan data s))"

definition mcpha_command :: "mcpha_io \<Rightarrow> u64 \<Rightarrow> mcpha \<Rightarrow> (bool \<times> mcpha) option" where
  "mcpha_command io command s =
    (let code = cmd_code command; chan = cmd_chan command; data = cmd_data command
     in if code = 11 then Some (read_status io s)
        else if code = 12 then Some (read_histogram io chan s)
        else if code = 20 then Some (read_oscilloscope io s)
        else if code = 29 then do { s1 \<leftarrow> start_pulser io data s; keep_on s1 }
        else if code = 30 then do { s1 \<leftarrow> stop_pulser io s; keep_on s1 }
        else keep_on (mcpha_set code chan data s))"

section \<open>A connection\<close>

text \<open>The commands of a client until it disconnects or a reply fails; then the pulser is stopped, unless the
  client asked to keep it.  \<open>last\<close> is what the server reads while it stops the pulser.\<close>

fun mcpha_client :: "(mcpha_io \<times> u64) list \<Rightarrow> mcpha \<Rightarrow> mcpha option" where
  "mcpha_client [] s = Some s"
| "mcpha_client ((io, command) # rest) s =
    do { (go_on, s1) \<leftarrow> mcpha_command io command s;
         if go_on then mcpha_client rest s1 else Some s1 }"

definition mcpha_connection :: "(mcpha_io \<times> u64) list \<times> mcpha_io \<Rightarrow> mcpha \<Rightarrow> mcpha option" where
  "mcpha_connection conn s =
    do { s1 \<leftarrow> mcpha_client (fst conn) s;
         if keep_pulsing s1 then Some s1 else stop_pulser (snd conn) s1 }"

definition mcpha_server :: "((mcpha_io \<times> u64) list \<times> mcpha_io) list \<Rightarrow> mcpha \<Rightarrow> mcpha option" where
  "mcpha_server = run_all mcpha_connection"

section \<open>The pulser thread\<close>

text \<open>The random numbers of a round: the two results of \<open>rand()\<close>, and the value of \<open>-logf(1.0 - r / (RAND_MAX + 1.0))\<close>
  for the second; and the level of the FIFO over time.\<close>

record pulser_io =
  io_rand :: int
  io_log :: dbl
  io_level :: "nat \<Rightarrow> u16"

text \<open>The conversion to \<open>int32_t\<close> is undefined where the value does not fit.\<close>

definition to_int32 :: "int \<Rightarrow> u32 option" where
  "to_int32 x = (if -(2 ^ 31) \<le> x \<and> x < 2 ^ 31 then Some (word_of_int x) else None)"

definition pulse_interval :: "pulser_io \<Rightarrow> mcpha \<Rightarrow> u32 option" where
  "pulse_interval io s =
    (if pulse_rate s = 0 then None
     else if pulse_dist s = 0 then to_int32 (dfloor (fadd (fdiv 125000000 (of_int (uint (pulse_rate s)))) (1/2)))
     else to_int32 (dfloor (fadd (fdiv (fmul (io_log io) 125000000) (of_int (uint (pulse_rate s)))) (1/2))))"

definition pulse_amplitude :: "pulser_io \<Rightarrow> mcpha \<Rightarrow> nat" where
  "pulse_amplitude io s = lower_bound (hist s) 4096 (io_rand io mod RAND_MAX)"

definition pulser_first :: "mcpha \<Rightarrow> mcpha" where
  "pulser_first s = emit [Gen 0, Gen 125000] s"

definition pulser_round :: "pulser_io \<Rightarrow> mcpha \<Rightarrow> mcpha option" where
  "pulser_round io s =
    do { t \<leftarrow> await_below (io_level io) 6000 0;
         interval \<leftarrow> pulse_interval io s;
         Some (emit [Gen (of_nat (pulse_amplitude io s)), Gen interval] s) }"

definition pulser_handler :: "pulser_io list \<Rightarrow> mcpha \<Rightarrow> mcpha option" where
  "pulser_handler ios s = run_all pulser_round ios (pulser_first s)"

end
