(* ===== verification/McphaProps.thy ===== *)
theory McphaProps imports Mcpha begin

text \<open>
  Properties of mcpha-server.c: the random pulses have the distribution the client has sent, the
  search for the pulse's peak ends and its scale fits the register, the two channels do not disturb
  each other, and what the oscilloscope's reply contains.
\<close>

section \<open>Sampling the spectrum\<close>

lemma s64_id: "-9223372036854775808 \<le> x \<Longrightarrow> x < 9223372036854775808 \<Longrightarrow> s64 x = x"
  by (simp add: s64_def signed_take_bit_int_eq_self)

definition cumulated :: "u32 list \<Rightarrow> nat \<Rightarrow> int" where
  "cumulated sp k = (\<Sum>w \<leftarrow> take k sp. uint w)"

definition weight_sum :: "u32 list \<Rightarrow> int" where
  "weight_sum sp = (\<Sum>w \<leftarrow> sp. uint w)"

lemma cumulated_0 [simp]: "cumulated sp 0 = 0"
  by (simp add: cumulated_def)

lemma cumulated_Cons [simp]: "cumulated (w # ws) (Suc k) = uint w + cumulated ws k"
  by (simp add: cumulated_def)

lemma cumulated_Suc: "k < length sp \<Longrightarrow> cumulated sp (Suc k) = cumulated sp k + uint (sp ! k)"
  by (simp add: cumulated_def take_Suc_conv_app_nth)

lemma cumulated_length [simp]: "cumulated sp (length sp) = weight_sum sp"
  by (simp add: cumulated_def weight_sum_def)

lemma cumulated_nonneg: "0 \<le> cumulated sp k"
  unfolding cumulated_def by (rule sum_list_nonneg) auto

lemma cumulated_step: "cumulated sp k \<le> cumulated sp (Suc k)"
  by (cases "k < length sp") (simp_all add: cumulated_Suc, simp add: cumulated_def)

lemma cumulated_mono: "j \<le> k \<Longrightarrow> cumulated sp j \<le> cumulated sp k"
  by (rule lift_Suc_mono_le [of "cumulated sp"]) (rule cumulated_step)

lemma cumulated_le: "cumulated sp k \<le> weight_sum sp"
  using cumulated_mono [of k "length sp" sp] by (cases "k \<le> length sp") (simp_all add: cumulated_def weight_sum_def)

lemma weight_sum_simps [simp]: "weight_sum [] = 0" "weight_sum (w # ws) = uint w + weight_sum ws"
  by (simp_all add: weight_sum_def)

lemma weight_sum_nonneg: "0 \<le> weight_sum sp"
  using cumulated_nonneg [of sp "length sp"] by simp

lemma spectrum_total_sum:
  assumes "weight_sum sp < 2 ^ 63"
  shows "spectrum_total sp = weight_sum sp"
proof -
  have "foldl (\<lambda>t w. s64 (t + uint w)) t ws = t + weight_sum ws" if "0 \<le> t" "t + weight_sum ws < 2 ^ 63" for t ws
    using that
  proof (induction ws arbitrary: t)
    case (Cons w ws)
    have "s64 (t + uint w) = t + uint w"
    proof (rule s64_id)
      have "0 \<le> t + uint w" using Cons.prems(1) by simp
      then show "-9223372036854775808 \<le> t + uint w" by linarith
      show "t + uint w < 9223372036854775808" using Cons.prems(2) weight_sum_nonneg [of ws] by simp
    qed
    then show ?case using Cons.IH [of "t + uint w"] Cons.prems by (simp add: add.assoc)
  qed simp
  from this [of 0 sp] assms show ?thesis by (simp add: spectrum_total_def)
qed

lemma sdiv_nonneg: "0 \<le> a \<Longrightarrow> 1 \<le> b \<Longrightarrow> a sdiv b = a div (b :: int)"
  by (cases "a = 0") (auto simp: signed_divide_int_def)

lemma fill_hist_nth:
  assumes "1 \<le> tot" and "tot \<le> 2 ^ 32" and "0 \<le> v" and "v + weight_sum ws \<le> tot" and "k < length ws"
  shows "fill_hist tot v ws ! k = (v + cumulated ws (Suc k)) * RAND_MAX div tot - 1"
  using assms(3-5)
proof (induction ws arbitrary: v k)
  case (Cons w ws)
  have w: "0 \<le> v + uint w" "v + uint w \<le> tot" using Cons.prems weight_sum_nonneg [of ws] by auto
  have val: "s64 (v + uint w) = v + uint w" using w assms(2) by (intro s64_id) auto
  show ?case
  proof (cases k)
    case 0
    have p: "0 \<le> (v + uint w) * RAND_MAX" "(v + uint w) * RAND_MAX \<le> 2 ^ 32 * RAND_MAX"
      using w assms(2) by (simp_all add: RAND_MAX_def)
    then have "s64 ((v + uint w) * RAND_MAX) = (v + uint w) * RAND_MAX" by (intro s64_id) (auto simp: RAND_MAX_def)
    moreover have "(v + uint w) * RAND_MAX sdiv tot = (v + uint w) * RAND_MAX div tot"
      using p(1) assms(1) by (rule sdiv_nonneg)
    moreover have "s64 ((v + uint w) * RAND_MAX div tot - 1) = (v + uint w) * RAND_MAX div tot - 1"
    proof (rule s64_id)
      have "0 \<le> (v + uint w) * RAND_MAX div tot" using p(1) assms(1) by (simp add: pos_imp_zdiv_nonneg_iff)
      then show "-9223372036854775808 \<le> (v + uint w) * RAND_MAX div tot - 1" by simp
      have "(v + uint w) * RAND_MAX div tot \<le> (v + uint w) * RAND_MAX" using zdiv_mono2 [OF p(1), of 1 tot] assms(1) by simp
      then show "(v + uint w) * RAND_MAX div tot - 1 < 9223372036854775808" using p(2) by (simp add: RAND_MAX_def)
    qed
    ultimately show ?thesis using 0 by (simp add: val Let_def)
  next
    case (Suc j)
    then show ?thesis using Cons.IH [of "v + uint w" j] Cons.prems w by (simp add: val add.assoc Let_def)
  qed
qed simp

lemma length_fill_hist [simp]: "length (fill_hist tot v ws) = length ws"
  by (induction ws arbitrary: v) (simp_all add: Let_def)

text \<open>The first random number that is beyond channel \<open>k\<close>.\<close>

definition quantile :: "u32 list \<Rightarrow> nat \<Rightarrow> int" where
  "quantile sp k = cumulated sp k * RAND_MAX div weight_sum sp"

lemma quantile_mono: "1 \<le> weight_sum sp \<Longrightarrow> j \<le> k \<Longrightarrow> quantile sp j \<le> quantile sp k"
  unfolding quantile_def by (intro zdiv_mono1 mult_right_mono cumulated_mono) (auto simp: RAND_MAX_def)

lemma hist_sorted:
  assumes "1 \<le> weight_sum sp" "weight_sum sp \<le> 2 ^ 32"
  shows "sorted (fill_hist (weight_sum sp) 0 sp)"
  unfolding sorted_iff_nth_mono
proof (intro allI impI)
  fix i j assume "i \<le> j" and "j < length (fill_hist (weight_sum sp) 0 sp)"
  then show "fill_hist (weight_sum sp) 0 sp ! i \<le> fill_hist (weight_sum sp) 0 sp ! j"
    using fill_hist_nth [of "weight_sum sp" 0 sp] assms quantile_mono [of sp "Suc i" "Suc j"]
    by (simp add: quantile_def)
qed

lemma sample_channel:
  assumes w: "1 \<le> weight_sum sp" "weight_sum sp \<le> 2 ^ 32" and r: "0 \<le> r" "r < RAND_MAX"
  defines "a \<equiv> lower_bound (fill_hist (weight_sum sp) 0 sp) (length sp) r"
  shows "a < length sp" and "quantile sp a \<le> r" and "r < quantile sp (Suc a)"
proof -
  let ?h = "fill_hist (weight_sum sp) 0 sp"
  have nth: "?h ! k = quantile sp (Suc k) - 1" if "k < length sp" for k
    using fill_hist_nth [of "weight_sum sp" 0 sp k] w that by (simp add: quantile_def)
  have len: "length sp = length ?h" by simp
  note split = lower_bound_split(1) [OF hist_sorted [OF w] len, where v = r]
    lower_bound_split(2,3) [OF hist_sorted [OF w] len, where v = r]
  have last: "quantile sp (length sp) = RAND_MAX" using w(1) by (simp add: quantile_def)
  have "sp \<noteq> []" using w(1) by auto
  show lt: "a < length sp"
  proof (rule ccontr)
    assume "\<not> a < length sp"
    moreover have "0 < length sp" using \<open>sp \<noteq> []\<close> by simp
    ultimately have "length sp - 1 < a" by linarith
    then have "?h ! (length sp - 1) < r" using split(2) [of "length sp - 1"] by (simp add: a_def)
    then show False using nth [of "length sp - 1"] \<open>sp \<noteq> []\<close> last r by simp
  qed
  show "r < quantile sp (Suc a)" using split(3) [of a] nth [OF lt] lt by (simp add: a_def)
  show "quantile sp a \<le> r"
  proof (cases a)
    case 0
    then show ?thesis using r by (simp add: quantile_def)
  next
    case (Suc b)
    then have "?h ! b < r" using split(2) [of b] by (simp add: a_def)
    then show ?thesis using nth [of b] Suc lt by simp
  qed
qed

lemma sample_unique:
  assumes "1 \<le> weight_sum sp" and "quantile sp a \<le> r" "r < quantile sp (Suc a)" "quantile sp b \<le> r" "r < quantile sp (Suc b)"
  shows "a = b"
  using quantile_mono [OF assms(1), of "Suc a" b] quantile_mono [OF assms(1), of "Suc b" a] assms(2-5)
  by (metis linorder_neqE_nat not_less_eq_eq le_less_trans not_le order.trans)

lemma channel_range:
  assumes "1 \<le> weight_sum sp" "weight_sum sp \<le> 2 ^ 32" "k < length sp"
  shows "{r. 0 \<le> r \<and> r < RAND_MAX \<and> lower_bound (fill_hist (weight_sum sp) 0 sp) (length sp) r = k} = {quantile sp k..<quantile sp (Suc k)}"
proof -
  have lo: "0 \<le> quantile sp k" using quantile_mono [OF assms(1), of 0 k] by (simp add: quantile_def)
  have hi: "quantile sp (Suc k) \<le> RAND_MAX"
    using quantile_mono [OF assms(1), of "Suc k" "length sp"] assms(1,3) by (simp add: quantile_def)
  show ?thesis
    using sample_channel [OF assms(1,2)] sample_unique [OF assms(1)] lo hi by (auto simp: set_eq_iff) (meson le_less_trans less_le_trans order.trans)+
qed

lemma div_difference: "0 < W \<Longrightarrow> \<bar>(b div W - a div W) * W - (b - a)\<bar> < (W :: int)"
proof -
  assume W: "0 < W"
  have "(b div W - a div W) * W - (b - a) = a mod W - b mod W"
    by (simp add: left_diff_distrib minus_mod_eq_div_mult [symmetric])
  then show ?thesis
    using pos_mod_bound [OF W, of a] pos_mod_bound [OF W, of b] pos_mod_sign [OF W, of a] pos_mod_sign [OF W, of b] by linarith
qed

text \<open>C17: after the client has sent a spectrum of up to \<open>2^32\<close> counts, every random number
  gives one of its channels, and the random numbers that give channel \<open>k\<close> are its share of all of them,
  within one: a channel without counts is never drawn.\<close>

theorem pulse_sampling:
  assumes "start_pulser io data s = Some s'" and "length (spectrum s) = 4096"
    and "1 \<le> weight_sum (spectrum s)" and "weight_sum (spectrum s) \<le> 2 ^ 32" and "k < 4096"
  shows "let draws = {r. 0 \<le> r \<and> r < RAND_MAX \<and> (\<forall>log level. pulse_amplitude \<lparr>io_rand = r, io_log = log, io_level = level\<rparr> s' = k)}
    in \<bar>int (card draws) * weight_sum (spectrum s) - uint (spectrum s ! k) * RAND_MAX\<bar> < weight_sum (spectrum s) \<and>
       (spectrum s ! k = 0 \<longrightarrow> draws = {}) \<and>
       (\<forall>r. 0 \<le> r \<and> r < RAND_MAX \<longrightarrow> pulse_amplitude \<lparr>io_rand = r, io_log = 0, io_level = (\<lambda>_. 0)\<rparr> s' < 4096)"
proof -
  let ?sp = "spectrum s"
  let ?q = "quantile ?sp"
  have keep: "spectrum s1 = ?sp" if "stop_pulser io (s\<lparr>keep_pulsing := b\<rparr>) = Some s1" for b s1
    using that by (auto simp: stop_pulser_def gen_reset_def pulse16_def set16_def clr16_def put16_def Let_def bind_eq_Some_conv split: if_splits)
  have tot: "spectrum_total ?sp = weight_sum ?sp" using assms(4) by (intro spectrum_total_sum) simp
  have h: "hist s' = fill_hist (weight_sum ?sp) 0 ?sp"
  proof -
    obtain s1 where s1: "stop_pulser io (s\<lparr>keep_pulsing := ((ucast data :: u32) \<noteq> 0)\<rparr>) = Some s1"
      using assms(1) unfolding start_pulser_def bind_eq_Some_conv by blast
    show ?thesis
      using assms(1,3) tot keep [OF s1] by (auto simp: start_pulser_def s1 bind_eq_Some_conv put16_def Let_def)
  qed
  have amp: "pulse_amplitude \<lparr>io_rand = r, io_log = lg, io_level = lv\<rparr> s' = lower_bound (fill_hist (weight_sum ?sp) 0 ?sp) (length ?sp) r"
    if "0 \<le> r" "r < RAND_MAX" for r lg lv
    using that by (simp add: pulse_amplitude_def h assms(2))
  have draws: "{r. 0 \<le> r \<and> r < RAND_MAX \<and> (\<forall>log level. pulse_amplitude \<lparr>io_rand = r, io_log = log, io_level = level\<rparr> s' = k)} = {?q k..<?q (Suc k)}"
  proof -
    have "{r. 0 \<le> r \<and> r < RAND_MAX \<and> (\<forall>log level. pulse_amplitude \<lparr>io_rand = r, io_log = log, io_level = level\<rparr> s' = k)} =
        {r. 0 \<le> r \<and> r < RAND_MAX \<and> lower_bound (fill_hist (weight_sum ?sp) 0 ?sp) (length ?sp) r = k}"
      by (rule Collect_cong) (use amp in auto)
    with channel_range [OF assms(3,4), of k] assms(2,5) show ?thesis by simp
  qed
  have le: "?q k \<le> ?q (Suc k)" by (rule quantile_mono [OF assms(3)]) simp
  let ?W = "weight_sum ?sp" and ?a = "cumulated ?sp k * RAND_MAX" and ?b = "cumulated ?sp (Suc k) * RAND_MAX"
  have W: "0 < ?W" using assms(3) by simp
  have ab: "?b - ?a = uint (?sp ! k) * RAND_MAX" using assms(2,5) by (simp add: cumulated_Suc algebra_simps)
  have "\<bar>(?q (Suc k) - ?q k) * ?W - (?b - ?a)\<bar> < ?W"
    using div_difference [OF W] by (simp add: quantile_def)
  moreover have "int (card {?q k..<?q (Suc k)}) = ?q (Suc k) - ?q k" using le by simp
  moreover have "?sp ! k = 0 \<Longrightarrow> ?q (Suc k) = ?q k" using assms(2,5) by (simp add: quantile_def cumulated_Suc)
  moreover have "pulse_amplitude \<lparr>io_rand = r, io_log = 0, io_level = (\<lambda>_. 0)\<rparr> s' < 4096" if "0 \<le> r" "r < RAND_MAX" for r
    using sample_channel(1) [OF assms(3,4) that] amp [OF that, of 0 "\<lambda>_. 0"] assms(2) by simp
  ultimately show ?thesis by (simp add: draws ab Let_def)
qed

section \<open>The peak of a pulse\<close>

lemma pulse_peak_more: "y2 \<le> y1 \<Longrightarrow> pulse_peak f r y0 y1 y2 = pulse_peak f r (y0 * f div 65536) (y0 + y1 * r div 65536) y1"
  by (subst pulse_peak.simps) simp

lemma pulse_peak_done: "y1 < y2 \<Longrightarrow> pulse_peak f r y0 y1 y2 = Some y2"
  by (subst pulse_peak.simps) simp

lemma scaled_less: "0 < y \<Longrightarrow> 0 \<le> f \<Longrightarrow> f < 65536 \<Longrightarrow> y * f div 65536 < (y :: int)"
proof -
  assume "0 < y" "0 \<le> f" "f < 65536"
  then have "y * f < y * 65536" by (intro mult_strict_left_mono) auto
  then show ?thesis using mult_div_mod_eq [of 65536 "y * f"] pos_mod_sign [of 65536 "y * f"] by linarith
qed

text \<open>The exponential \<open>y0\<close> falls until it is 0, then \<open>y1\<close> falls; so the loop ends, at a peak that
  is at least the first \<open>y1\<close>, and at most \<open>65536 B\<close> when \<open>y0\<close> stays below \<open>B\<close>.\<close>

lemma pulse_peak_ends:
  assumes "0 \<le> f" "f < 65536" "0 \<le> r" "r < 65536" "0 \<le> y0" "0 < y0 \<or> 0 < y1" "0 \<le> y1" "y2 \<le> y1"
    and "y0 \<le> B" "y1 \<le> 65536 * B"
  shows "\<exists>y. pulse_peak f r y0 y1 y2 = Some y \<and> y1 \<le> y \<and> y \<le> 65536 * B"
  using assms
proof (induction "nat y0" arbitrary: y0 y1 y2 rule: less_induct)
  case less
  let ?y0 = "y0 * f div 65536" and ?y1 = "y0 + y1 * r div 65536"
  have step: "pulse_peak f r y0 y1 y2 = pulse_peak f r ?y0 ?y1 y1" using less.prems(8) by (rule pulse_peak_more)
  show ?case
  proof (cases "y1 \<le> ?y1")
    case False
    then show ?thesis using less.prems step pulse_peak_done by auto
  next
    case True
    have y0: "0 < y0"
    proof (rule ccontr)
      assume "\<not> 0 < y0"
      then show False using True less.prems scaled_less [of y1 r] by simp
    qed
    have n0: "0 \<le> ?y0" using less.prems(1,5) by (simp add: pos_imp_zdiv_nonneg_iff)
    have n1: "0 \<le> y1 * r div 65536" using less.prems(3,7) by (simp add: pos_imp_zdiv_nonneg_iff)
    have dec: "?y0 < y0" using y0 less.prems by (intro scaled_less)
    have "y1 * r \<le> y1 * 65535" using less.prems by (intro mult_left_mono) auto
    then have "y1 * r div 65536 \<le> y1 * 65535 div 65536" by (intro zdiv_mono1) auto
    moreover have "65536 * (y1 * 65535 div 65536) \<le> y1 * 65535" using mult_div_mod_eq [of 65536 "y1 * 65535"] pos_mod_sign [of 65536 "y1 * 65535"] by linarith
    ultimately have top: "?y1 \<le> 65536 * B" using less.prems(9,10) by linarith
    have "nat ?y0 < nat y0" using dec y0 by simp
    moreover have "0 < ?y0 \<or> 0 < ?y1" "0 \<le> ?y1" "?y0 \<le> B" using y0 n1 dec less.prems(9) by linarith+
    ultimately obtain y where "pulse_peak f r ?y0 ?y1 y1 = Some y" "?y1 \<le> y" "y \<le> 65536 * B"
      using less.hyps [of ?y0 ?y1 y1] less.prems(1-4) n0 True top by blast
    with step True show ?thesis by auto
  qed
qed

lemma pulse_peak_exists:
  fixes f r :: u16
  shows "\<exists>y. pulse_peak (uint f) (uint r) (push_bit 9 4095) 0 0 = Some y \<and> 2096640 \<le> y \<and> y \<le> 65536 * 2096640"
proof -
  let ?Y = "push_bit 9 4095 :: int"
  have Y: "?Y = 2096640" by simp
  have u: "0 \<le> uint f" "uint f < 65536" "0 \<le> uint r" "uint r < 65536" using uint_lt2p [of f] uint_lt2p [of r] by simp_all
  have "\<exists>y. pulse_peak (uint f) (uint r) (?Y * uint f div 65536) ?Y 0 = Some y \<and> ?Y \<le> y \<and> y \<le> 65536 * 2096640"
  proof (rule pulse_peak_ends [OF u])
    show "0 \<le> ?Y * uint f div 65536" using u by (simp add: pos_imp_zdiv_nonneg_iff)
    show "?Y * uint f div 65536 \<le> 2096640" using scaled_less [of ?Y "uint f"] u by simp
  qed (simp_all add: Y)
  moreover have "pulse_peak (uint f) (uint r) ?Y 0 0 = pulse_peak (uint f) (uint r) (?Y * uint f div 65536) ?Y 0"
    by (subst pulse_peak_more) simp_all
  ultimately show ?thesis by (simp add: Y)
qed

text \<open>C18: whatever the fall and rise times, the search for the peak of the pulse ends, its 64-bit values
  do not overflow, and the scale that brings the peak to full range fits the 16-bit register: if the
  pulser thread stops when told to, starting the pulser returns.\<close>

theorem pulse_shape:
  assumes "\<not> pulser_active s \<or> (\<exists>t. \<not> io_stopping io t)"
  shows "(\<exists>s'. start_pulser io data s = Some s') \<and>
    (\<exists>y. pulse_peak (uint (io_fall_coef io (fall s))) (uint (io_rise_coef io (rise s))) (push_bit 9 4095) 0 0 = Some y \<and>
       y * 65536 < 2 ^ 63 \<and> uint (pulse_scale y) = 4095 * 65535 div (y div 2 ^ 9))"
proof -
  let ?Y = "push_bit 9 4095 :: int"
  have Y: "?Y = 2096640" by simp
  have peak: "\<exists>y. pulse_peak (uint f) (uint r) ?Y 0 0 = Some y \<and> 2096640 \<le> y \<and> y \<le> 65536 * 2096640" for f r :: u16
    by (rule pulse_peak_exists)
  have scale: "uint (pulse_scale y) = 4095 * 65535 div (y div 2 ^ 9)" if "2096640 \<le> y" for y
  proof -
    have "4095 \<le> y div 2 ^ 9" using zdiv_mono1 [OF that, of "2 ^ 9"] by simp
    then have "4095 * 65535 div (y div 2 ^ 9) \<le> 4095 * 65535 div 4095" by (intro zdiv_mono2) auto
    moreover have "0 \<le> 4095 * 65535 div (y div 2 ^ 9)" using \<open>4095 \<le> y div 2 ^ 9\<close> by (simp add: pos_imp_zdiv_nonneg_iff)
    ultimately show ?thesis
      unfolding pulse_scale_def by (simp add: drop_bit_eq_div uint_word_of_int_eq take_bit_int_eq_self)
  qed
  have stop: "\<exists>s1. stop_pulser io (s\<lparr>keep_pulsing := b\<rparr>) = Some s1" for b
  proof (cases "pulser_active s")
    case True
    then obtain t where "\<not> io_stopping io (0 + t)" using assms by auto
    from await_clear_returns [of "io_stopping io", OF this] True show ?thesis by (auto simp: stop_pulser_def Let_def)
  qed (simp add: stop_pulser_def Let_def)
  have "\<exists>s'. start_pulser io data s = Some s'"
  proof -
    obtain s1 where s1: "stop_pulser io (s\<lparr>keep_pulsing := ((ucast data :: u32) \<noteq> 0)\<rparr>) = Some s1" using stop by blast
    obtain y where "pulse_peak (uint (io_fall_coef io (fall s1))) (uint (io_rise_coef io (rise s1))) ?Y 0 0 = Some y" using peak by blast
    then show ?thesis by (cases "spectrum_total (spectrum s1) < 1") (simp_all add: start_pulser_def s1 Let_def Y)
  qed
  moreover obtain y where "pulse_peak (uint (io_fall_coef io (fall s))) (uint (io_rise_coef io (rise s))) ?Y 0 0 = Some y"
    "2096640 \<le> y" "y \<le> 65536 * 2096640" using peak by blast
  ultimately show ?thesis using scale [of y] by auto
qed

section \<open>The two channels\<close>

lemma low_bits_kept:
  assumes "drop_bit 8 k = (0 :: u16)"
  shows "ucast (drop_bit 8 (rd16 m a OR k)) = m (a + 1)" "ucast (drop_bit 8 (rd16 m a AND NOT k)) = m (a + 1)"
proof -
  have k: "\<not> bit k (8 + n)" for n using arg_cong [OF assms, of "\<lambda>w. bit w n"] by (simp add: bit_drop_bit_eq add.commute)
  show "ucast (drop_bit 8 (rd16 m a OR k)) = m (a + 1)" "ucast (drop_bit 8 (rd16 m a AND NOT k)) = m (a + 1)"
    by (rule bit_word_eqI; use k in \<open>auto simp: rd16_def bit_simps u8_high\<close>)+
qed

lemma wr16_kept:
  "drop_bit 8 k = (0 :: u16) \<Longrightarrow> wr16 0 (rd16 m 0 OR k) m (Suc 0) = m (Suc 0)"
  "drop_bit 8 k = (0 :: u16) \<Longrightarrow> wr16 0 (rd16 m 0 AND NOT k) m (Suc 0) = m (Suc 0)"
  "ucast k = (0 :: u8) \<Longrightarrow> wr16 0 (rd16 m 0 OR k) m 0 = m 0"
  "ucast k = (0 :: u8) \<Longrightarrow> wr16 0 (rd16 m 0 AND NOT k) m 0 = m 0"
proof -
  show "drop_bit 8 k = (0 :: u16) \<Longrightarrow> wr16 0 (rd16 m 0 OR k) m (Suc 0) = m (Suc 0)"
    "drop_bit 8 k = (0 :: u16) \<Longrightarrow> wr16 0 (rd16 m 0 AND NOT k) m (Suc 0) = m (Suc 0)"
    using low_bits_kept [of k m 0] by (simp_all add: wr16_def)
  assume k: "ucast k = (0 :: u8)"
  have b: "n < 8 \<Longrightarrow> \<not> bit k n" for n using arg_cong [OF k, of "\<lambda>w. bit w n"] by (simp add: bit_simps)
  have "ucast (rd16 m 0 OR k) = m 0" "ucast (rd16 m 0 AND NOT k) = m 0"
    by (rule bit_word_eqI; use b in \<open>auto simp: rd16_def bit_simps u8_high\<close>)+
  then show "wr16 0 (rd16 m 0 OR k) m 0 = m 0" "wr16 0 (rd16 m 0 AND NOT k) m 0 = m 0"
    by (simp_all add: wr16_def)
qed

lemmas line_kept =
  wr16_kept(1,2) [where k = "0x10", simplified] wr16_kept(1,2) [where k = "0x04", simplified]
  wr16_kept(3,4) [where k = "0x1000", simplified] wr16_kept(3,4) [where k = "0x0400", simplified]

text \<open>The bytes of the registers of one channel: its reset, negator and timer lines, its timer, delay and
  thresholds.\<close>

definition chan_reg :: "u8 \<Rightarrow> nat \<Rightarrow> bool" where
  "chan_reg chan a \<longleftrightarrow> (if chan = 0 then a = 0 \<or> 8 \<le> a \<and> a < 22 else a = 1 \<or> 24 \<le> a \<and> a < 38)"

text \<open>C19: the commands that address a channel leave every register of the other channel
  alone, even the lines that share a 16-bit register with it.\<close>

theorem channels_separate:
  assumes "code \<in> {0, 1, 5, 6, 7, 8, 9, 10}" and "chan = 0 \<or> chan = 1" and "chan_reg (1 - chan) a"
  shows "cfg (mcpha_set code chan data s) a = cfg s a"
proof -
  have far: "wr16 b v m a = m a" if "b + 2 \<le> a \<or> a < b" for b v and m :: mem
    using that by (auto simp: wr16_def)
  have far32: "wr32 b v m a = m a" if "b + 4 \<le> a \<or> a < b" for b v and m :: mem
    using that by (auto simp: wr32_def)
  show ?thesis
  proof (cases "chan = 0")
    case True
    then have a: "a = 1 \<or> 24 \<le> a \<and> a < 38" using assms(3) by (simp add: chan_reg_def)
    show ?thesis
      using assms(1) a by (elim disjE insertE; simp add: True mcpha_set_def reset_histogram_def reset_timer_def set_negator_def set_pha_def
          set_timer_def set_timer_mode_def reg_simps wr16_kept line_kept far far32)
  next
    case False
    then have one: "chan = 1" using assms(2) by simp
    then have a: "a = 0 \<or> 8 \<le> a \<and> a < 22" using assms(3) by (simp add: chan_reg_def)
    show ?thesis
      using assms(1) a by (elim disjE insertE; simp add: one mcpha_set_def reset_histogram_def reset_timer_def set_negator_def set_pha_def
          set_timer_def set_timer_mode_def reg_simps wr16_kept line_kept far far32)
  qed
qed

section \<open>The reply of the oscilloscope\<close>

lemma upt_plus: "[0..<m + n] = [0..<m] @ map (\<lambda>i. i + m) [0..<n]"
  using upt_add_eq_append [of 0 m n] by (simp add: map_add_upt add.commute)

lemma ram_bytes_part:
  assumes "unat a + unat n \<le> 0x007FFFFF"
  shows "ram_bytes io a n = bytes32 (map (\<lambda>i. io_ram io ((unat a + i) mod 0x007FFFFF)) [0..<unat n])"
proof -
  have "unat (n * 4) = unat n * 4" using assms by (intro trans [OF unat_word_ariths(2)]) simp
  then have "unat (n * 4) div 4 = unat n" by simp
  then show ?thesis unfolding ram_bytes_def using assms by (intro arg_cong [where f = bytes32] map_cong) simp_all
qed

text \<open>C20: the reply to a read has exactly as many samples as the client has set, read from the start of its
  window on; but it goes round after 0x7FFFFF samples, although the sample memory has 0x800000: when the
  window crosses the end of the memory, the last sample is left out.\<close>

theorem oscilloscope_reply:
  assumes "io_sent io" and "io_sent2 io" and "unat (rd32 (cfg s) 80 + 1) \<le> 0x007FFFFF"
  shows "\<exists>s' es. read_oscilloscope io s = (True, s') \<and> log s' = log s @ map Send es \<and>
    concat es = bytes32 (map (\<lambda>i. io_ram io ((unat (osc_start_index io s) + i) mod 0x007FFFFF)) [0..<unat (rd32 (cfg s) 80 + 1)])"
proof -
  define start tot where "start = osc_start_index io s" and "tot = rd32 (cfg s) 80 + 1"
  have start: "unat start \<le> 0x007FFFFF"
    using and_mask_less [of "0x007FFFFF" 23 "drop_bit 1 (io_writer io) - (rd32 (cfg s) 76 + 1)"]
    by (simp add: start_def osc_start_index_def mask_eq_exp_minus_1)
  have tot: "unat tot \<le> 0x007FFFFF" using assms(3) by (simp add: tot_def)
  have sum: "unat (start + tot) = unat start + unat tot" using start tot by (intro unat_add_lem [THEN iffD1]) simp
  have le: "start + tot \<le> 0x007FFFFF \<longleftrightarrow> unat start + unat tot \<le> 0x007FFFFF" by (simp add: word_le_nat_alt sum)
  show ?thesis
  proof (cases "start + tot \<le> 0x007FFFFF")
    case True
    then have "ram_bytes io start tot = bytes32 (map (\<lambda>i. io_ram io ((unat start + i) mod 0x007FFFFF)) [0..<unat tot])"
      using le by (intro ram_bytes_part) simp
    with True assms(1) show ?thesis
      by (intro exI [of _ "emit [Send (ram_bytes io start tot)] s"] exI [of _ "[ram_bytes io start tot]"])
        (simp add: read_oscilloscope_def start_def tot_def emit_def Let_def)
  next
    case False
    let ?a = "0x007FFFFF - start" and ?b = "start + tot - 0x007FFFFF"
    have a: "unat ?a = 0x007FFFFF - unat start" using start by (subst unat_sub) (simp_all add: word_le_nat_alt)
    have b: "unat ?b = unat start + unat tot - 0x007FFFFF" using False le by (subst unat_sub) (simp_all add: word_le_nat_alt sum)
    have ab: "[0..<unat tot] = [0..<unat ?a] @ map (\<lambda>i. i + unat ?a) [0..<unat ?b]"
    proof -
      have "unat tot = unat ?a + unat ?b" using a b start tot False le by simp
      then show ?thesis by (simp only: upt_plus)
    qed
    have r1: "ram_bytes io start ?a = bytes32 (map (\<lambda>i. io_ram io ((unat start + i) mod 0x007FFFFF)) [0..<unat ?a])"
      using a start by (intro ram_bytes_part) simp
    have "(unat start + (i + unat ?a)) mod 0x007FFFFF = i mod 0x007FFFFF" for i
    proof -
      have "unat start + (i + unat ?a) = i + 0x007FFFFF" using a start by simp
      then show ?thesis by (simp only: mod_add_self2)
    qed
    then have r2: "ram_bytes io 0 ?b = bytes32 (map (\<lambda>i. io_ram io ((unat start + (i + unat ?a)) mod 0x007FFFFF)) [0..<unat ?b])"
      using b start tot ram_bytes_part [of 0 ?b io] by simp
    have "bytes32 (map (\<lambda>i. io_ram io ((unat start + i) mod 0x007FFFFF)) [0..<unat tot]) = ram_bytes io start ?a @ ram_bytes io 0 ?b"
      unfolding ab r1 r2 by (simp add: o_def)
    with False assms(1,2) show ?thesis
      by (intro exI [of _ "emit [Send (ram_bytes io start ?a), Send (ram_bytes io 0 ?b)] s"] exI [of _ "[ram_bytes io start ?a, ram_bytes io 0 ?b]"])
        (simp add: read_oscilloscope_def start_def tot_def emit_def Let_def)
  qed
qed

section \<open>Examples\<close>

definition mcpha_io_example :: mcpha_io where
  "mcpha_io_example = \<lparr>io_sts = [], io_hst = (\<lambda>_. []), io_ram = of_nat, io_writer = 0xFFFFFE, io_sent = True, io_sent2 = True,
     io_stopping = (\<lambda>_. False), io_fall_coef = (\<lambda>_. 0), io_rise_coef = (\<lambda>_. 0)\<rparr>"

definition flat_spectrum :: mcpha where
  "flat_spectrum = mcpha_start\<lparr>spectrum := replicate 4096 1\<rparr>"

lemma flat_weight: "weight_sum (spectrum flat_spectrum) = 4096"
  by (simp add: weight_sum_def flat_spectrum_def sum_list_replicate)

lemma flat_starts: "\<exists>s'. start_pulser mcpha_io_example 0 flat_spectrum = Some s'"
proof -
  have "pulse_peak 0 0 2096640 0 0 = Some 2096640"
    by (subst pulse_peak_more, simp, subst pulse_peak_more, simp, subst pulse_peak_done) simp_all
  then show ?thesis
    by (simp add: start_pulser_def stop_pulser_def mcpha_io_example_def flat_spectrum_def mcpha_start_def Let_def)
qed

theorem pulse_sampling_witness:
  "\<exists>s'. start_pulser mcpha_io_example 0 flat_spectrum = Some s' \<and>
     pulse_amplitude \<lparr>io_rand = 1000000, io_log = 0, io_level = (\<lambda>_. 0)\<rparr> s' < 4096"
proof -
  obtain s' where s': "start_pulser mcpha_io_example 0 flat_spectrum = Some s'" using flat_starts by blast
  moreover have "length (spectrum flat_spectrum) = 4096" by (simp add: flat_spectrum_def)
  ultimately show ?thesis
    using pulse_sampling [OF s', of 0] flat_weight by (simp add: Let_def RAND_MAX_def)
qed

theorem pulse_shape_witness: "\<exists>s'. start_pulser mcpha_io_example 0 flat_spectrum = Some s'"
  using pulse_shape [of flat_spectrum mcpha_io_example 0] by (simp add: mcpha_io_example_def)

theorem channels_separate_witness:
  "cfg (mcpha_set 10 0 1 (mcpha_init 0 mcpha_start)) 1 = cfg (mcpha_init 0 mcpha_start) 1"
  by (rule channels_separate) (simp_all add: chan_reg_def)

text \<open>Two samples at the end of the memory: the second is the first of the memory, not the last.\<close>

theorem oscilloscope_reply_witness:
  "\<exists>s' es. read_oscilloscope mcpha_io_example (put32 80 1 mcpha_start) = (True, s') \<and> log s' = log (put32 80 1 mcpha_start) @ map Send es \<and>
    concat es = bytes32 [0x7FFFFE, 0]"
proof -
  have tot: "rd32 (cfg (put32 80 1 mcpha_start)) 80 + 1 = 2" by (simp add: reg_simps)
  have start: "unat (osc_start_index mcpha_io_example (put32 80 1 mcpha_start)) = 0x7FFFFE"
    by (simp add: osc_start_index_def mcpha_io_example_def mcpha_start_def put32_def reg_simps) (simp add: rd32_def of_le32_def wr32_def)
  show ?thesis
    using oscilloscope_reply [of mcpha_io_example "put32 80 1 mcpha_start"]
    by (simp add: tot start upt_rec) (simp add: mcpha_io_example_def)
qed

end
