(* ===== verification/Streaming.thy ===== *)
theory Streaming imports Regs begin

text \<open>
  The loop of the servers that send samples to a client and feed a transmitter at the same time.  It stops
  when the client has got the number of samples it asked for, and every round moves what the two
  FIFOs allow.  It is shared by pulsed-nmr.c and scanner.c.
\<close>

section \<open>Feeding a FIFO\<close>

text \<open>\<open>while(*tx_cntr < limit && position < size)\<close>: the items written and the rest, for the successive values of the
  counter from the \<open>k\<close>th on.\<close>

fun feed :: "nat \<Rightarrow> (nat \<Rightarrow> u16) \<Rightarrow> nat \<Rightarrow> 'a list \<Rightarrow> 'a list \<times> 'a list" where
  "feed limit tx k [] = ([], [])"
| "feed limit tx k (w # ws) =
    (if unat (tx k) < limit
     then let (done, rest) = feed limit tx (k + 1) ws in (w # done, rest)
     else ([], w # ws))"

lemma feed_append: "feed limit tx k ws = (out, rest) \<Longrightarrow> out @ rest = ws"
  by (induction limit tx k ws arbitrary: out rest rule: feed.induct) (auto split: if_splits prod.splits)

text \<open>Every item is written while the counter is below the limit; without a full FIFO all are written.\<close>

lemma feed_below: "feed limit tx k ws = (out, rest) \<Longrightarrow> j < length out \<Longrightarrow> unat (tx (k + j)) < limit"
proof (induction limit tx k ws arbitrary: out rest j rule: feed.induct)
  case (2 limit tx k w ws)
  show ?case
  proof (cases j)
    case 0
    with 2 show ?thesis by (auto split: if_splits)
  next
    case (Suc j')
    obtain out1 rest1 where f: "feed limit tx (k + 1) ws = (out1, rest1)" by (cases "feed limit tx (k + 1) ws")
    with 2(2,3) Suc have "unat (tx k) < limit" "j' < length out1" by (auto split: if_splits)
    with 2(1) [OF _ f] Suc show ?thesis by simp
  qed
qed simp

lemma feed_all: "\<forall>k. unat (tx k) < limit \<Longrightarrow> feed limit tx k ws = (ws, [])"
  by (induction limit tx k ws rule: feed.induct) simp_all

section \<open>The loop\<close>

text \<open>What round \<open>i\<close> of the loop reads: the counter of received samples when it is read the second time, the
  samples, whether they could be sent, and the successive values of the transmitter's counter.\<close>

record stream_io =
  io_rx :: "nat \<Rightarrow> u16"
  io_samples :: "nat \<Rightarrow> u8 list"
  io_send :: "nat \<Rightarrow> bool"
  io_tx :: "nat \<Rightarrow> nat \<Rightarrow> u16"

text \<open>What the two servers differ in: the counter's units and the bytes of a sample, the limit of the transmitter's
  FIFO, the words that an item makes there, and the bit that starts the transfers.\<close>

record 'a stream_setup =
  units :: nat
  bytes :: nat
  limit :: nat
  item_words :: "'a \<Rightarrow> u32 list"
  start_reg :: nat
  start_bit :: u8

definition round_end :: "'a stream_setup \<Rightarrow> 'a list \<Rightarrow> 'b dev_scheme \<Rightarrow> 'b dev_scheme" where
  "round_end u out s = set8 (start_reg u) (start_bit u) (emit (map Fifo (concat (map (item_words u) out))) s)"

partial_function (option) stream :: "'a stream_setup \<Rightarrow> stream_io \<Rightarrow> nat \<Rightarrow> nat \<Rightarrow> nat \<Rightarrow> nat \<Rightarrow> 'a list \<Rightarrow> 'b dev_scheme
    \<Rightarrow> (nat \<times> 'a list \<times> 'b dev_scheme) option" where
  "stream u io samples i counter n rest s =
    (if counter < samples
     then let n = (if n > samples - counter then samples - counter else n)
          in if unat (io_rx io i) \<ge> n * units u
             then let s1 = emit [Send (take (n * bytes u) (io_samples io i))] s
                  in if \<not> io_send io i then Some (counter, rest, s1)
                     else let (out, rest1) = feed (limit u) (io_tx io i) 0 rest
                          in stream u io samples (i + 1) (counter + n) n rest1 (round_end u out s1)
             else let (out, rest1) = feed (limit u) (io_tx io i) 0 rest
                  in stream u io samples (i + 1) counter n rest1 (round_end u out s)
     else Some (counter, rest, s))"

section \<open>It ends with all samples sent\<close>

text \<open>What the loop relies on, for blocks of at most \<open>m\<close> samples: the receiver's FIFO fills up again and again, it
  delivers as many bytes as are read, and the client takes them.\<close>

definition stream_fed :: "'a stream_setup \<Rightarrow> nat \<Rightarrow> stream_io \<Rightarrow> bool" where
  "stream_fed u m io \<longleftrightarrow> (\<forall>i. \<exists>d. m * units u \<le> unat (io_rx io (i + d))) \<and> (\<forall>i. io_send io i) \<and>
    (\<forall>i. m * bytes u \<le> length (io_samples io i))"

text \<open>The transmitter's FIFO never is full.\<close>

definition stream_room :: "'a stream_setup \<Rightarrow> stream_io \<Rightarrow> bool" where
  "stream_room u io \<longleftrightarrow> (\<forall>i k. unat (io_tx io i k) < limit u)"

text \<open>\<open>stream_done\<close>: what the rounds from a state on have done.\<close>

definition words_of_items :: "'a stream_setup \<Rightarrow> 'a list \<Rightarrow> u32 list" where
  "words_of_items u ws = concat (map (item_words u) ws)"

definition stream_done :: "'a stream_setup \<Rightarrow> stream_io \<Rightarrow> nat \<Rightarrow> 'a list \<Rightarrow> 'b dev_scheme \<Rightarrow> 'a list \<times> 'b dev_scheme \<Rightarrow> bool" where
  "stream_done u io left rest s r \<longleftrightarrow>
    (\<exists>es out. log (snd r) = log s @ es \<and> length (sent_bytes es) = bytes u * left \<and> fifo_words es = words_of_items u out \<and> out @ fst r = rest) \<and>
    dev.more (snd r) = dev.more s \<and> (stream_room u io \<longrightarrow> 0 < left \<longrightarrow> fst r = [])"

lemma emit_none: "emit [] s = s" by (simp add: emit_def)

lemma stream_step:
  assumes "counter < samples"
  shows "stream u io samples i counter n rest s =
    (let n = min n (samples - counter); (out, rest1) = feed (limit u) (io_tx io i) 0 rest
     in if unat (io_rx io i) \<ge> n * units u
        then if \<not> io_send io i then Some (counter, rest, emit [Send (take (n * bytes u) (io_samples io i))] s)
             else stream u io samples (i + 1) (counter + n) n rest1
               (round_end u out (emit [Send (take (n * bytes u) (io_samples io i))] s))
        else stream u io samples (i + 1) counter n rest1 (round_end u out s))"
  using assms by (subst stream.simps) (auto simp: Let_def min_def split: prod.splits)

lemma stream_done_round:
  assumes "stream_done u io left rest1 (round_end u out (emit es s)) r" and "feed (limit u) (io_tx io i) 0 rest = (out, rest1)"
    and "length (sent_bytes es) + bytes u * left = bytes u * left'" and "fifo_words es = []"
  shows "stream_done u io left' rest s r"
proof -
  obtain fs out1 where fs: "log (snd r) = log (round_end u out (emit es s)) @ fs"
    "length (sent_bytes fs) = bytes u * left" "fifo_words fs = words_of_items u out1" "out1 @ fst r = rest1"
    using assms(1) unfolding stream_done_def by blast
  let ?es = "es @ map Fifo (words_of_items u out) @ [Cfg8 (start_reg u) (cfg s (start_reg u) OR start_bit u)] @ fs"
  have es: "log (snd r) = log s @ ?es" using fs(1) by (simp add: log_simps reg_simps round_end_def words_of_items_def)
  have sent: "length (sent_bytes ?es) = bytes u * left'" using fs(2) assms(3) by simp
  have written: "fifo_words ?es = words_of_items u (out @ out1)"
    using fs(3) assms(4) by (simp add: words_append words_map words_of_items_def)
  have items: "(out @ out1) @ fst r = rest" using fs(4) feed_append [OF assms(2)] by simp
  have more: "dev.more (snd r) = dev.more s" using assms(1) by (simp add: stream_done_def round_end_def frame_simps)
  have "fst r = []" if "stream_room u io"
    using that feed_all [of "io_tx io i" "limit u" 0 rest] assms(2) fs(4) by (simp add: stream_room_def)
  with es sent written items more show ?thesis unfolding stream_done_def by blast
qed

text \<open>A round in which the client gets samples, when the rest of the loop ends.\<close>

lemma stream_received:
  fixes rest :: "'a list" and s :: "'b dev_scheme"
  assumes fed: "stream_fed u m io" and lt: "counter < samples" and full: "min n (samples - counter) * units u \<le> unat (io_rx io i)"
    and n: "0 < n" "n \<le> m"
    and ends: "\<And>n' rest1 (s1 :: 'b dev_scheme). 0 < n' \<Longrightarrow> n' \<le> m \<Longrightarrow> counter + n' \<le> samples \<Longrightarrow>
      \<exists>r. stream u io samples (i + 1) (counter + n') n' rest1 s1 = Some (samples, r) \<and> stream_done u io (samples - (counter + n')) rest1 s1 r"
  shows "\<exists>r. stream u io samples i counter n rest s = Some (samples, r) \<and> stream_done u io (samples - counter) rest s r"
proof -
  have sends: "io_send io j" "m * bytes u \<le> length (io_samples io j)" for j using fed by (simp_all add: stream_fed_def)
  define n' where "n' = min n (samples - counter)"
  have n': "0 < n'" "n' \<le> m" "counter + n' \<le> samples" using lt n by (auto simp: n'_def)
  obtain out rest1 where f: "feed (limit u) (io_tx io i) 0 rest = (out, rest1)" by (cases "feed (limit u) (io_tx io i) 0 rest")
  let ?es = "[Send (take (n' * bytes u) (io_samples io i))]"
  let ?s1 = "round_end u out (emit ?es s)"
  have step: "stream u io samples i counter n rest s = stream u io samples (i + 1) (counter + n') n' rest1 ?s1"
    using full f sends by (simp add: stream_step [OF lt] n'_def Let_def)
  obtain r where
    r: "stream u io samples (i + 1) (counter + n') n' rest1 ?s1 = Some (samples, r)" "stream_done u io (samples - (counter + n')) rest1 ?s1 r"
    using ends [OF n'] by blast
  have "n' * bytes u \<le> m * bytes u" using n'(2) by (rule mult_right_mono) simp
  then have "n' * bytes u \<le> length (io_samples io i)" using sends(2) [of i] by (rule order_trans)
  then have "length (take (n' * bytes u) (io_samples io i)) = n' * bytes u" by simp
  moreover have "bytes u * n' + bytes u * (samples - (counter + n')) = bytes u * (samples - counter)"
    using n'(3) by (simp flip: distrib_left)
  ultimately have "stream_done u io (samples - counter) rest s r"
    by (intro stream_done_round [OF r(2) f]) (simp_all add: mult.commute)
  with r step show ?thesis by auto
qed

lemma stream_total:
  fixes rest :: "'a list" and s :: "'b dev_scheme"
  assumes fed: "stream_fed u m io" and "n \<le> m" and "0 < n" and "counter \<le> samples"
  shows "\<exists>r. stream u io samples i counter n rest s = Some (samples, r) \<and> stream_done u io (samples - counter) rest s r"
  using assms(2-)
proof (induction "samples - counter" arbitrary: i counter n rest s rule: less_induct)
  case less
  have finished: "\<exists>r. stream u io samples i counter n rest s = Some (samples, r) \<and> stream_done u io (samples - counter) rest s r" if "counter = samples" for i n and rest :: "'a list" and s :: "'b dev_scheme"
  proof -
    have "stream u io samples i counter n rest s = Some (samples, rest, s)" using that by (subst stream.simps) simp
    moreover have "stream_done u io (samples - counter) rest s (rest, s)"
      using that by (auto simp: stream_done_def words_of_items_def intro: exI [of _ "[]"])
    ultimately show ?thesis by blast
  qed
  have received: "\<exists>r. stream u io samples i counter n rest s = Some (samples, r) \<and> stream_done u io (samples - counter) rest s r"
    if lt: "counter < samples" and full: "min n (samples - counter) * units u \<le> unat (io_rx io i)" and n: "0 < n" "n \<le> m" for i n and rest :: "'a list" and s :: "'b dev_scheme"
    by (rule stream_received [OF fed lt full n]) (use less.hyps in simp)
  obtain d where "m * units u \<le> unat (io_rx io (i + d))" using fed unfolding stream_fed_def by blast
  then show ?case using less.prems(1,2)
  proof (induction d arbitrary: i n rest s)
    case (0 i n rest s)
    show ?case
    proof (cases "counter = samples")
      case False
      then have lt: "counter < samples" using less.prems(3) by simp
      have "min n (samples - counter) * units u \<le> m * units u" using 0(2) by (intro mult_right_mono) auto
      then have "min n (samples - counter) * units u \<le> unat (io_rx io i)" by (rule order_trans) (use 0(1) in simp)
      from received [OF lt this 0(3,2)] show ?thesis .
    qed (rule finished)
  next
    case (Suc d i n rest s)
    show ?case
    proof (cases "counter = samples")
      case False
      then have lt: "counter < samples" using less.prems(3) by simp
      define n' where "n' = min n (samples - counter)"
      show ?thesis
      proof (cases "n' * units u \<le> unat (io_rx io i)")
        case True
        then show ?thesis using received [OF lt] Suc.prems by (simp add: n'_def)
      next
        case waiting: False
        obtain out rest1 where f: "feed (limit u) (io_tx io i) 0 rest = (out, rest1)" by (cases "feed (limit u) (io_tx io i) 0 rest")
        let ?s1 = "round_end u out (emit [] s)"
        have step: "stream u io samples i counter n rest s = stream u io samples (i + 1) counter n' rest1 ?s1"
          by (subst stream_step [OF lt]) (simp add: waiting f n'_def [symmetric] Let_def emit_none)
        have "0 < n'" "n' \<le> m" using lt Suc.prems by (auto simp: n'_def)
        then obtain r where "stream u io samples (i + 1) counter n' rest1 ?s1 = Some (samples, r)" "stream_done u io (samples - counter) rest1 ?s1 r"
          using Suc.IH [of "i + 1" n' rest1 ?s1] Suc.prems(1) by auto
        with step stream_done_round [OF _ f] show ?thesis by fastforce
      qed
    qed (rule finished)
  qed
qed

text \<open>The loop from its first round on.\<close>

lemma stream_all:
  assumes "stream_fed u m io" and "0 < m"
  shows "\<exists>rest s' es out. stream u io samples 0 0 m items s = Some (samples, rest, s') \<and> log s' = log s @ es \<and>
    length (sent_bytes es) = bytes u * samples \<and> fifo_words es = words_of_items u out \<and> out @ rest = items \<and>
    dev.more s' = dev.more s \<and> (stream_room u io \<longrightarrow> 0 < samples \<longrightarrow> rest = [])"
  using stream_total [OF assms(1) le_refl assms(2) le0, of samples 0 items s] by (auto simp: stream_done_def)

text \<open>What every round keeps holds at the end.\<close>

lemma stream_keeps:
  assumes "stream u io samples i counter n rest s = Some r"
    and e: "\<And>es s. P s \<Longrightarrow> P (emit es s)" and w: "\<And>out s. P s \<Longrightarrow> P (round_end u out s)" and "P s"
  shows "P (snd (snd r))"
proof -
  have "(\<forall>out s. P s \<longrightarrow> P (round_end u out s)) \<longrightarrow> P s \<longrightarrow> P (snd (snd r))"
    by (rule stream.raw_induct [OF _ assms(1), where P = "\<lambda>u io samples i counter n rest s r.
        (\<forall>out s. P s \<longrightarrow> P (round_end u out s)) \<longrightarrow> P s \<longrightarrow> P (snd (snd r))"])
      (auto simp: Let_def split: if_splits prod.splits, (blast intro: e)+)
  then show ?thesis using w \<open>P s\<close> by blast
qed

end
