(* ===== verification/PulsedNmr.thy ===== *)
theory PulsedNmr imports Streaming Dds Shadow begin

text \<open>
  pulsed-nmr.c: a client sets frequencies, levels and pins, builds up a list of pulses and starts a sequence,
  during which the server streams samples to the client and pulses to the transmitter at the same
  time.  The two builds (125 MHz and 122.88 MHz boards) differ in constants, collected in \<open>nmr_variant\<close>.
\<close>

record nmr_variant =
  nv_clk :: int
  nv_fmax :: u64
  nv_rmin :: u64
  nv_rmax :: u64
  nv_rate :: u16

definition nmr_125 :: nmr_variant where
  "nmr_125 = \<lparr>nv_clk = 125000000, nv_fmax = 62500000, nv_rmin = 50, nv_rmax = 2500, nv_rate = 250\<rparr>"

definition nmr_122_88 :: nmr_variant where
  "nmr_122_88 = \<lparr>nv_clk = 122880000, nv_fmax = 61440000, nv_rmin = 48, nv_rmax = 3072, nv_rate = 384\<rparr>"

text \<open>The pulses are the words of the array in use, four for each pulse; \<open>size\<close> is a quarter of their number.\<close>

record nmr = dev +
  i2c_dac :: bool
  pulses :: "u32 list"

definition nmr_size :: "nmr \<Rightarrow> nat" where "nmr_size s = length (pulses s) div 4"

definition nmr_rx_rst :: nat where "nmr_rx_rst = 0"
definition nmr_tx_rst :: nat where "nmr_tx_rst = 1"
definition nmr_rx_freq :: nat where "nmr_rx_freq = 4"
definition nmr_rx_rate :: nat where "nmr_rx_rate = 8"
definition nmr_tx_level :: nat where "nmr_tx_level = 10"
definition nmr_tx_freq :: nat where "nmr_tx_freq = 12"

lemmas nmr_addr = nmr_rx_rst_def nmr_tx_rst_def nmr_rx_freq_def nmr_rx_rate_def nmr_tx_level_def nmr_tx_freq_def

definition nmr_start :: nmr where
  "nmr_start = \<lparr>cfg = (\<lambda>_. 0), log = [], i2c_dac = False, pulses = []\<rparr>"

text \<open>\<open>slave\<close> and \<open>ack\<close>: the DAC's address can be selected and the DAC acknowledges.\<close>

definition nmr_probe :: "bool \<Rightarrow> bool \<Rightarrow> nmr \<Rightarrow> nmr" where
  "nmr_probe slave ack s =
    (if slave then emit [Slave 0x0F, I2c (i2c_write_data16 0)] (s\<lparr>i2c_dac := ack\<rparr>) else s)"

definition nmr_init :: "nmr_variant \<Rightarrow> bool \<Rightarrow> bool \<Rightarrow> nmr \<Rightarrow> nmr" where
  "nmr_init v slave ack s =
    (let s = nmr_probe slave ack s;
         s = clr8 nmr_rx_rst 1 s;
         s = clr8 nmr_rx_rst 2 s;
         s = clr8 nmr_tx_rst 1 s;
         s = put32 nmr_rx_freq (dds_word (of_int (nv_clk v)) 19000000) s;
         s = put16 nmr_rx_rate (nv_rate v) s;
         s = put16 nmr_tx_level 0 s
     in put32 nmr_tx_freq (dds_word (of_int (nv_clk v)) 19000000) s)"

section \<open>The pulses\<close>

definition clear_pulses :: "nmr \<Rightarrow> nmr" where
  "clear_pulses s = s\<lparr>pulses := []\<rparr>"

definition words_of :: "u64 \<Rightarrow> u32 list" where
  "words_of data = [ucast data, ucast (drop_bit 32 data)]"

definition add_pulse :: "u64 \<Rightarrow> nmr \<Rightarrow> nmr" where
  "add_pulse data s =
    (if nmr_size s \<ge> 1048576 then s else s\<lparr>pulses := pulses s @ words_of data @ [0, 0]\<rparr>)"

text \<open>With no pulse the code writes before the start of the array: \<open>None\<close>.\<close>

definition set_pulse :: "u64 \<Rightarrow> nmr \<Rightarrow> nmr option" where
  "set_pulse data s =
    (if nmr_size s = 0 then None
     else Some (s\<lparr>pulses := blit (pulses s) ((nmr_size s - 1) * 4 + 2) (words_of data)\<rparr>))"

section \<open>A sequence\<close>

definition nmr_setup :: "u32 stream_setup" where
  "nmr_setup = \<lparr>units = 4, bytes = 16, limit = 16384, item_words = (\<lambda>w. [w]), start_reg = nmr_rx_rst, start_bit = 2\<rparr>"

definition start_sequence :: "stream_io \<Rightarrow> u64 \<Rightarrow> nmr \<Rightarrow> nmr option" where
  "start_sequence io data s =
    (let s = clr8 nmr_rx_rst 2 s;
         s = pulse8 nmr_rx_rst 1 s;
         s = pulse8 nmr_tx_rst 1 s
     in do { (counter, rest, s) \<leftarrow> stream nmr_setup io (unat data) 0 0 2048 (pulses s) s;
             Some (clr8 nmr_tx_rst 1 (clr8 nmr_rx_rst 2 (clr8 nmr_rx_rst 1 s))) })"

section \<open>Commands\<close>

definition nmr_command :: "nmr_variant \<Rightarrow> stream_io \<times> u64 \<Rightarrow> nmr \<Rightarrow> nmr option" where
  "nmr_command v inp s =
    (let code = unat (drop_bit 60 (snd inp)); data = snd inp AND 0xfffffffffffffff
     in if code = 0 then Some (if data > nv_fmax v then s else put32 nmr_rx_freq (dds_word (of_int (nv_clk v)) (uint data)) s)
        else if code = 1 then Some (if data > nv_fmax v then s else put32 nmr_tx_freq (dds_word (of_int (nv_clk v)) (uint data)) s)
        else if code = 2 then Some (if data < nv_rmin v \<or> data > nv_rmax v then s else put16 nmr_rx_rate (ucast data) s)
        else if code = 3 then Some (if data > 32766 then s else put16 nmr_tx_level (ucast data) s)
        else if code = 4 then Some (if data < 1 \<or> data > 7 then s else set8 nmr_tx_rst (push_bit (unat data) 1) s)
        else if code = 5 then Some (if data < 1 \<or> data > 7 then s else clr8 nmr_tx_rst (push_bit (unat data) 1) s)
        else if code = 6 then Some (if \<not> i2c_dac s then s else emit [Slave 0x0F, I2c (i2c_write_data16 (ucast data))] s)
        else if code = 7 then Some (clear_pulses s)
        else if code = 8 then Some (add_pulse data s)
        else if code = 9 then set_pulse data s
        else if code = 10 then start_sequence (fst inp) data s
        else Some s)"

definition nmr_client :: "nmr_variant \<Rightarrow> (stream_io \<times> u64) list \<Rightarrow> nmr \<Rightarrow> nmr option" where
  "nmr_client v = run_all (nmr_command v)"

end
