(* ===== verification/Vna.thy ===== *)
theory Vna imports Regs Dds "HOL-Library.Signed_Division" begin

text \<open>
  vna.c, the server of the vector network analyser: commands of 32 bits with a code in the upper four
  and a signed value in the lower 28 bits, a sweep that queues one phase increment for every
  point, and the thread that averages the measured samples of each point and sends the averages.
  The builds for the two boards differ in constants, collected in \<open>vna_variant\<close>.
\<close>

record vna_variant =
  vv_clk :: int
  vv_fmax :: int
  vv_block :: u32
  vv_size :: u32

definition vna_125 :: vna_variant where
  "vna_125 = \<lparr>vv_clk = 125000000, vv_fmax = 62500000, vv_block = 2500, vv_size = 50000\<rparr>"

definition vna_122_88 :: vna_variant where
  "vna_122_88 = \<lparr>vv_clk = 122880000, vv_fmax = 61440000, vv_block = 2560, vv_size = 51200\<rparr>"

text \<open>The settings of \<open>main\<close>, the three variables it shares with the reading thread, and the threads it has
  started, each with the rate and the size that it found in the shared variables.\<close>

record vna = dev +
  sweep_start :: int
  sweep_stop :: int
  sweep_size :: u32
  avg_rate :: u32
  corr :: int
  sock_open :: bool
  rate_thread :: u32
  size_thread :: u32
  readers :: "(u32 \<times> u32) list"

definition vna_rst :: nat where "vna_rst = 0"
definition vna_gpio :: nat where "vna_gpio = 1"
definition vna_rx_size :: nat where "vna_rx_size = 4"
definition vna_tx_phase :: "nat \<Rightarrow> nat" where "vna_tx_phase k = 8 + 4 * k"
definition vna_tx_level :: "nat \<Rightarrow> nat" where "vna_tx_level k = 16 + 2 * k"

lemmas vna_addr = vna_rst_def vna_gpio_def vna_rx_size_def vna_tx_phase_def vna_tx_level_def

definition vna_start :: vna where
  "vna_start = \<lparr>cfg = (\<lambda>_. 0), log = [], sweep_start = 0, sweep_stop = 0, sweep_size = 0, avg_rate = 0, corr = 0,
     sock_open = False, rate_thread = 10, size_thread = 5000, readers = []\<rparr>"

definition vna_init :: "vna_variant \<Rightarrow> vna \<Rightarrow> vna" where
  "vna_init v s =
    (let s = put32 (vna_tx_phase 0) 0 s;
         s = put32 (vna_tx_phase 1) 0 s;
         s = put16 (vna_tx_level 0) 32766 s;
         s = put16 (vna_tx_level 1) 0 s;
         s = put32 vna_rx_size (vv_size v - 1) s;
         s = s\<lparr>sweep_start := 10000, sweep_stop := 50000000, sweep_size := 5000, avg_rate := 10, corr := 0\<rparr>;
         s = clr8 vna_rst 3 s
     in put8 vna_gpio 0 s)"

section \<open>Commands\<close>

text \<open>The value of a command: 28 bits, sign-extended.\<close>

definition vna_value :: "u32 \<Rightarrow> u32" where
  "vna_value command =
    (let value = command AND 0xfffffff
     in value OR (if value AND 0x8000000 \<noteq> 0 then 0xf0000000 else 0))"

text \<open>\<open>(uint32_t)floor(value / 360.0 * (1<<30) + 0.5)\<close>\<close>

definition phase_word :: "int \<Rightarrow> u32" where
  "phase_word value = word_of_int (dfloor (fadd (fmul (fdiv (of_int value) 360) 1073741824) (1/2)))"

text \<open>Point \<open>i\<close> of a sweep, in 64-bit arithmetic with C's division, and with the correction in parts per billion.\<close>

definition sweep_point :: "vna \<Rightarrow> nat \<Rightarrow> u32" where
  "sweep_point s i =
    word_of_int (if i > 0 then sweep_start s + ((sweep_stop s - sweep_start s) * int i) sdiv uint (sweep_size s - 1)
                 else sweep_start s)"

definition corr_factor :: "int \<Rightarrow> dbl" where
  "corr_factor c = fadd 1 (fmul (rnd (1 / 1000000000)) (of_int c))"

definition corrected :: "int \<Rightarrow> u32 \<Rightarrow> u32" where
  "corrected c freq = word_of_int (dfloor (fmul (of_int (uint freq)) (corr_factor c)))"

definition sweep_words :: "vna_variant \<Rightarrow> vna \<Rightarrow> u32 list" where
  "sweep_words v s = map (\<lambda>i. dds_word (of_int (vv_clk v)) (uint (corrected (corr s) (sweep_point s i)))) [0..<unat (sweep_size s)]"

definition sweep :: "vna_variant \<Rightarrow> vna \<Rightarrow> vna" where
  "sweep v s =
    (let s = clr8 vna_rst 3 s;
         s = set8 vna_rst 2 s;
         s = s\<lparr>rate_thread := avg_rate s, size_thread := sweep_size s, sock_open := True\<rparr>;
         s = s\<lparr>readers := readers s @ [(rate_thread s, size_thread s)]\<rparr>;
         s = emit (map Fifo (sweep_words v s)) s
     in set8 vna_rst 1 s)"

definition cancel :: "vna \<Rightarrow> vna" where
  "cancel s = (clr8 vna_rst 3 s)\<lparr>sock_open := False\<rparr>"

definition vna_command :: "vna_variant \<Rightarrow> u32 \<Rightarrow> vna \<Rightarrow> vna option" where
  "vna_command v command s =
    (let code = unat (drop_bit 28 command); value = sint (vna_value command)
     in Some (
       if code = 0 then (if value < 0 \<or> value > vv_fmax v then s else s\<lparr>sweep_start := value\<rparr>)
       else if code = 1 then (if value < 0 \<or> value > vv_fmax v then s else s\<lparr>sweep_stop := value\<rparr>)
       else if code = 2 then (if value < 1 \<or> value > 32768 then s else s\<lparr>sweep_size := word_of_int value\<rparr>)
       else if code = 3 then (if value < 10 \<or> value > 100000 then s
         else put32 vna_rx_size (vv_block v * (word_of_int value + 10) - 1) (s\<lparr>avg_rate := word_of_int value\<rparr>))
       else if code = 4 then (if value < -100000 \<or> value > 100000 then s else s\<lparr>corr := value\<rparr>)
       else if code = 5 then (if value < 0 \<or> value > 360 then s else put32 (vna_tx_phase 0) (phase_word value) s)
       else if code = 6 then (if value < 0 \<or> value > 360 then s else put32 (vna_tx_phase 1) (phase_word value) s)
       else if code = 7 then (if value < -32766 \<or> value > 32766 then s else put16 (vna_tx_level 0) (word_of_int value) s)
       else if code = 8 then (if value < -32766 \<or> value > 32766 then s else put16 (vna_tx_level 1) (word_of_int value) s)
       else if code = 9 then (if value < 0 \<or> value > 255 then s else put8 vna_gpio (word_of_int value) s)
       else if code = 10 then sweep v s
       else if code = 11 then cancel s
       else s))"

text \<open>A client until it disconnects.\<close>

definition vna_client :: "vna_variant \<Rightarrow> u32 list \<Rightarrow> vna \<Rightarrow> vna option" where
  "vna_client v commands s =
    do { s \<leftarrow> run_all (vna_command v) commands s;
         Some ((put8 vna_gpio 0 (clr8 vna_rst 3 s))\<lparr>sock_open := False\<rparr>) }"

definition vna_server :: "vna_variant \<Rightarrow> u32 list list \<Rightarrow> vna \<Rightarrow> vna option" where
  "vna_server v clients s = run_all (vna_client v) clients (vna_init v s)"

section \<open>The reading thread\<close>

text \<open>Single-precision operations of the thread.  The samples are finite and normal.\<close>

definition rndf :: "rat \<Rightarrow> dbl" where
  "rndf x = (if x = 0 then 0
             else let u = 2 powi (dexp \<bar>x\<bar> - 23) in sgn x * (of_int (rne (\<bar>x\<bar> / u)) * u))"

definition faddf :: "dbl \<Rightarrow> dbl \<Rightarrow> dbl" where "faddf x y = rndf (x + y)"
definition fdivf :: "dbl \<Rightarrow> dbl \<Rightarrow> dbl" where "fdivf x y = rndf (x / y)"

text \<open>What round \<open>t\<close> of the loop reads: whether \<open>sock_thread\<close> is still set, the FIFO's counter, the words that
  come out of the FIFO one after the other, and whether a message could be sent.\<close>

record vna_io =
  io_alive :: "nat \<Rightarrow> bool"
  io_cntr :: "nat \<Rightarrow> u16"
  io_data :: "nat \<Rightarrow> dbl"
  io_sent :: "nat \<Rightarrow> bool"

text \<open>The local variables (the initial content of \<open>buffer\<close> is never used); \<open>taken\<close> counts the words read from the FIFO, \<open>msgs\<close> are the messages sent.\<close>

record reader =
  rd_i :: u32
  rd_cntr :: u32
  buffer :: "dbl list"
  taken :: nat
  msgs :: "dbl list list"

definition reader_start :: reader where
  "reader_start = \<lparr>rd_i = 0, rd_cntr = 0, buffer = [0, 0, 0, 0], taken = 0, msgs = []\<rparr>"

text \<open>One sample of four values: the first ten of a point are dropped, the others summed up.\<close>

definition read_sample :: "vna_io \<Rightarrow> reader \<Rightarrow> reader" where
  "read_sample io r =
    r\<lparr>buffer := (if rd_i r < 10 then [0, 0, 0, 0]
                 else map (\<lambda>j. faddf (buffer r ! j) (io_data io (taken r + j))) [0..<4]),
      taken := taken r + 4, rd_i := rd_i r + 1, rd_cntr := rd_cntr r + 1\<rparr>"

definition send_average :: "u32 \<Rightarrow> reader \<Rightarrow> reader" where
  "send_average rate r =
    (let bs = map (\<lambda>x. fdivf x (rndf (of_int (uint rate)))) (buffer r)
     in r\<lparr>rd_i := 0, buffer := bs, msgs := msgs r @ [bs]\<rparr>)"

partial_function (option) read_handler :: "vna_io \<Rightarrow> u32 \<Rightarrow> u32 \<Rightarrow> nat \<Rightarrow> reader \<Rightarrow> reader option" where
  "read_handler io rate points t r =
    (if rd_cntr r < points * (rate + 10)
     then if \<not> io_alive io t then Some r
          else if unat (io_cntr io t) < 4 then read_handler io rate points (t + 1) r
          else let r1 = read_sample io r
               in if rd_i r1 < rate + 10 then read_handler io rate points (t + 1) r1
                  else let r2 = send_average rate r1
                       in if io_sent io t then read_handler io rate points (t + 1) r2 else Some r2
     else Some r)"

end
