(* ===== verification/VnaProps.thy ===== *)
theory VnaProps imports Vna begin

text \<open>
  Properties of vna.c: every sequence of commands keeps the settings in their ranges, a sweep queues
  one phase increment for each point and each is within 2.1 Hz of the ideal frequency, and the reading thread sends
  one average for each point, over exactly the samples that belong to it.
\<close>

section \<open>The settings stay in their ranges\<close>

definition known_variant :: "vna_variant \<Rightarrow> bool" where
  "known_variant v \<longleftrightarrow> v = vna_125 \<or> v = vna_122_88"

definition vna_ok :: "vna_variant \<Rightarrow> vna \<Rightarrow> bool" where
  "vna_ok v s \<longleftrightarrow>
    0 \<le> sweep_start s \<and> sweep_start s \<le> vv_fmax v \<and> 0 \<le> sweep_stop s \<and> sweep_stop s \<le> vv_fmax v \<and>
    1 \<le> uint (sweep_size s) \<and> uint (sweep_size s) \<le> 32768 \<and> 10 \<le> uint (avg_rate s) \<and> uint (avg_rate s) \<le> 100000 \<and>
    - 100000 \<le> corr s \<and> corr s \<le> 100000 \<and>
    rd32 (cfg s) vna_rx_size = vv_block v * (avg_rate s + 10) - 1 \<and>
    (\<forall>(r, n) \<in> set (readers s). 10 \<le> uint r \<and> uint r \<le> 100000 \<and> 1 \<le> uint n \<and> uint n \<le> 32768)"

lemmas vna_writes = put8_def put16_def put32_def clr8_def set8_def emit_def

lemma uint_of_range: "0 \<le> x \<Longrightarrow> x \<le> 100000 \<Longrightarrow> uint (word_of_int x :: u32) = x"
  by (simp add: uint_word_of_int_eq take_bit_int_eq_self)

lemma vna_ok_writes:
  assumes "vna_ok v s"
  shows "a < 4 \<Longrightarrow> vna_ok v (put8 a x s)" "8 \<le> a \<Longrightarrow> vna_ok v (put16 a y s)" "vna_ok v (put32 (vna_tx_phase k) z s)"
    "vna_ok v (emit es s)" "a < 4 \<Longrightarrow> vna_ok v (clr8 a x s)" "a < 4 \<Longrightarrow> vna_ok v (set8 a x s)"
  using assms by (simp_all add: vna_ok_def vna_writes vna_rx_size_def vna_tx_phase_def reg_simps)

lemma vna_ok_settings:
  assumes "vna_ok v s"
  shows "0 \<le> x \<Longrightarrow> x \<le> vv_fmax v \<Longrightarrow> vna_ok v (s\<lparr>sweep_start := x\<rparr>)"
    "0 \<le> x \<Longrightarrow> x \<le> vv_fmax v \<Longrightarrow> vna_ok v (s\<lparr>sweep_stop := x\<rparr>)"
    "1 \<le> x \<Longrightarrow> x \<le> 32768 \<Longrightarrow> vna_ok v (s\<lparr>sweep_size := word_of_int x\<rparr>)"
    "10 \<le> x \<Longrightarrow> x \<le> 100000 \<Longrightarrow> vna_ok v (put32 vna_rx_size (vv_block v * (word_of_int x + 10) - 1) (s\<lparr>avg_rate := word_of_int x\<rparr>))"
    "- 100000 \<le> x \<Longrightarrow> x \<le> 100000 \<Longrightarrow> vna_ok v (s\<lparr>corr := x\<rparr>)"
    "vna_ok v (s\<lparr>sock_open := b\<rparr>)" "vna_ok v (s\<lparr>rate_thread := r, size_thread := n, sock_open := b\<rparr>)"
  using assms by (simp_all add: vna_ok_def vna_writes reg_simps uint_of_range)

lemma vna_ok_reader: "vna_ok v s \<Longrightarrow> rate_thread s = avg_rate s \<Longrightarrow> size_thread s = sweep_size s \<Longrightarrow>
    vna_ok v (s\<lparr>readers := readers s @ [(rate_thread s, size_thread s)]\<rparr>)"
  by (auto simp: vna_ok_def)

lemma vna_ok_sweep: "vna_ok v s \<Longrightarrow> vna_ok v (sweep v s)"
  unfolding sweep_def Let_def by (intro vna_ok_writes vna_ok_reader vna_ok_settings) (simp_all add: vna_rst_def)

lemma vna_ok_cancel: "vna_ok v s \<Longrightarrow> vna_ok v (cancel s)"
  unfolding cancel_def by (intro vna_ok_writes vna_ok_settings) (simp_all add: vna_rst_def)

lemma vna_ok_if: "(c \<Longrightarrow> vna_ok v a) \<Longrightarrow> (\<not> c \<Longrightarrow> vna_ok v b) \<Longrightarrow> vna_ok v (if c then a else b)"
  by simp

lemma vna_command_ok:
  assumes "vna_ok v s"
  shows "vna_ok v (the (vna_command v c s))"
proof -
  obtain code x where cx: "unat (drop_bit 28 c) = code" "sint (vna_value c) = x" by blast
  show ?thesis
    unfolding vna_command_def Let_def option.sel cx
    by (intro vna_ok_if vna_ok_writes vna_ok_settings vna_ok_sweep vna_ok_cancel assms;
      simp only: not_less de_Morgan_disj vna_addr; simp)
qed

interpretation vna_settings: progressing "vna_command v" "vna_ok v" "\<lambda>_. True" for v
proof
  fix s c t
  assume "vna_ok v s"
  then show "vna_command v c s = Some t \<Longrightarrow> vna_ok v t" using vna_command_ok [of v s c] by simp
  show "vna_command v c s \<noteq> None" by (simp add: vna_command_def Let_def)
qed

lemma vna_client_ok: "vna_ok v s \<Longrightarrow> \<exists>s'. vna_client v cs s = Some s' \<and> vna_ok v s'"
proof -
  assume "vna_ok v s"
  then obtain s1 where "run_all (vna_command v) cs s = Some s1" "vna_ok v s1" using vna_settings.run_some [of v s cs] by auto
  then show ?thesis by (auto simp: vna_client_def vna_addr intro!: vna_ok_settings vna_ok_writes)
qed

interpretation vna_clients: progressing "vna_client v" "vna_ok v" "\<lambda>_. True" for v
proof
  fix s cs t
  assume ok: "vna_ok v s"
  show "vna_client v cs s \<noteq> None" using vna_client_ok [OF ok] by auto
  show "vna_client v cs s = Some t \<Longrightarrow> vna_ok v t" using vna_client_ok [OF ok, of cs] by auto
qed

lemma vna_init_ok: "known_variant v \<Longrightarrow> vna_ok v (vna_init v s)" if "readers s = []"
  using that by (auto simp: known_variant_def vna_125_def vna_122_88_def vna_init_def vna_ok_def vna_writes vna_addr reg_simps Let_def)

lemma vna_server_ok: "known_variant v \<Longrightarrow> \<exists>s. vna_server v clients vna_start = Some s \<and> vna_ok v s"
  unfolding vna_server_def by (rule vna_clients.run_some) (simp_all add: vna_init_ok vna_start_def)

section \<open>The points of a sweep\<close>

lemma sdiv_near: "0 < b \<Longrightarrow> \<bar>of_int (a sdiv b) - of_int a / (of_int b :: rat)\<bar> < 1 \<and> \<bar>a sdiv b\<bar> * b \<le> \<bar>a\<bar> \<and> (0 \<le> a \<longrightarrow> 0 \<le> a sdiv b) \<and> (a \<le> 0 \<longrightarrow> a sdiv b \<le> 0)"
proof -
  assume b: "0 < b"
  have pos: "\<bar>of_int (x div b) - of_int x / (of_int b :: rat)\<bar> < 1 \<and> \<bar>x div b\<bar> * b \<le> x \<and> 0 \<le> x div b" if x: "0 \<le> x" for x
  proof -
    have d: "x div b * b \<le> x" "x < (x div b + 1) * b" "0 \<le> x div b"
      using div_mult_mod_eq [of x b] pos_mod_sign [OF b, of x] pos_mod_bound [OF b, of x] pos_imp_zdiv_nonneg_iff [OF b, of x] x
      unfolding distrib_right mult_1 by linarith+
    have bq: "0 < (of_int b :: rat)" using b by simp
    have "of_int (x div b) * of_int b \<le> (of_int x :: rat)" "of_int x < (of_int (x div b) + 1) * (of_int b :: rat)"
      using d(1,2) of_int_le_iff [of "x div b * b" x, where ?'a = rat] of_int_less_iff [of x "(x div b + 1) * b", where ?'a = rat] by simp_all
    then have "of_int (x div b) \<le> of_int x / (of_int b :: rat)" "of_int x / of_int b < (of_int (x div b) + 1 :: rat)"
      using bq by (simp_all add: pos_le_divide_eq pos_divide_less_eq)
    with d show ?thesis by (simp add: abs_less_iff)
  qed
  show ?thesis
  proof (cases "0 \<le> a")
    case True
    then have "a sdiv b = a div b" using b by (cases "a = 0") (simp_all add: signed_divide_int_def)
    then show ?thesis using pos [OF True] True by (auto simp: antisym)
  next
    case False
    then have "a sdiv b = - ((- a) div b)" using b by (simp add: signed_divide_int_def)
    then show ?thesis using pos [of "- a"] False by (auto simp: abs_less_iff)
  qed
qed

lemma rnd_err_abs: "\<bar>x\<bar> < 2 powi m \<Longrightarrow> \<bar>rnd x - x\<bar> \<le> 2 powi (m - 54)"
  using rnd_err [of x m] rnd_err [of "- x" m] by (cases "0 \<le> x") (auto simp: rnd_minus abs_if split: if_splits)

lemma near: "\<bar>y - x\<bar> \<le> e \<Longrightarrow> e \<le> d \<Longrightarrow> y \<le> x + d" "\<bar>y - x\<bar> \<le> e \<Longrightarrow> e \<le> d \<Longrightarrow> x - d \<le> y" for x y d e :: rat
  unfolding abs_le_iff by linarith+

lemma near_trans: "\<bar>x - y\<bar> \<le> d \<Longrightarrow> \<bar>y - z\<bar> \<le> e \<Longrightarrow> d + e \<le> f \<Longrightarrow> \<bar>x - z\<bar> \<le> f" for x y z d e f :: rat
  unfolding abs_le_iff by linarith

definition ideal_factor :: "int \<Rightarrow> rat" where
  "ideal_factor c = 1 + of_int c / 1000000000"

lemmas powi_values = power_int_def power_divide

lemma corr_factor_near:
  assumes "- 100000 \<le> c" and "c \<le> 100000"
  shows "\<bar>corr_factor c - ideal_factor c\<bar> \<le> 1 / 2 ^ 52"
proof -
  define k where "k = rnd (1 / 1000000000)"
  have cq: "\<bar>of_int c :: rat\<bar> \<le> 100000"
    using assms of_int_le_iff [of c 100000, where ?'a = rat] of_int_le_iff [of "- 100000" c, where ?'a = rat] by (simp add: abs_le_iff)
  have k: "\<bar>k - 1 / 1000000000\<bar> \<le> 1 / 2 ^ 83"
    using rnd_err [of "1 / 1000000000" "-29"] by (simp add: k_def powi_values)
  then have kc: "\<bar>k * of_int c - of_int c / 1000000000\<bar> \<le> 100000 / 2 ^ 83"
    using mult_mono [OF k cq] by (simp flip: abs_mult) (simp add: left_diff_distrib)
  have kc': "k * of_int c \<le> of_int c / 1000000000 + 1 / 1000000000" "of_int c / 1000000000 - 1 / 1000000000 \<le> k * of_int c"
    using order_trans [OF kc, of "1 / 1000000000"] unfolding abs_le_iff by simp_all
  have cq': "(of_int c :: rat) \<le> 100000" "- 100000 \<le> (of_int c :: rat)" using cq unfolding abs_le_iff by linarith+
  have e1: "\<bar>fmul k (of_int c) - k * of_int c\<bar> \<le> 1 / 2 ^ 67"
  proof -
    have "\<bar>k * of_int c\<bar> < 1 / 8192" using kc' cq' unfolding abs_less_iff by (intro conjI; linarith)
    then show ?thesis using rnd_err_abs [of "k * of_int c" "-13"] by (simp add: fmul_def powi_values)
  qed
  have e2: "\<bar>fadd 1 (fmul k (of_int c)) - (1 + fmul k (of_int c))\<bar> \<le> 1 / 2 ^ 53"
  proof -
    have "\<bar>1 + fmul k (of_int c)\<bar> < 2" using kc' cq' near [OF e1, of "1 / 2"] unfolding abs_less_iff by (intro conjI; linarith?) simp_all
    then show ?thesis using rnd_err_abs [of "1 + fmul k (of_int c)" 1] by (simp add: fadd_def powi_values)
  qed
  have "\<bar>fmul k (of_int c) - of_int c / 1000000000\<bar> \<le> 1 / 2 ^ 54" by (rule near_trans [OF e1 kc]) simp
  then have "\<bar>(1 + fmul k (of_int c)) - ideal_factor c\<bar> \<le> 1 / 2 ^ 54" by (simp add: ideal_factor_def)
  then have "\<bar>fadd 1 (fmul k (of_int c)) - ideal_factor c\<bar> \<le> 1 / 2 ^ 52" by (rule near_trans [OF e2]) simp
  then show ?thesis by (simp add: corr_factor_def k_def)
qed

lemma corrected_near:
  assumes c: "- 100000 \<le> c" "c \<le> 100000" and p: "uint p \<le> 62500000"
  shows "\<bar>of_int (uint (corrected c p)) - of_int (uint p) * ideal_factor c\<bar> < 1 + 1 / 10000 \<and> uint (corrected c p) < 249000000"
proof -
  obtain u where u: "uint p = u" "0 \<le> u" "u \<le> 62500000" using p by simp
  define x :: rat where "x = of_int u"
  have x: "0 \<le> x" "x \<le> 62500000" using u of_int_le_iff [of u 62500000, where ?'a = rat] by (simp_all add: x_def)
  have cq: "\<bar>of_int c :: rat\<bar> \<le> 100000"
    using c of_int_le_iff [of c 100000, where ?'a = rat] of_int_le_iff [of "- 100000" c, where ?'a = rat] by (simp add: abs_le_iff)
  then have i: "9999 / 10000 \<le> ideal_factor c" "ideal_factor c \<le> 10001 / 10000" by (simp_all add: ideal_factor_def abs_le_iff)
  note f = corr_factor_near [OF c]
  have d: "\<bar>x * corr_factor c - x * ideal_factor c\<bar> \<le> 62500000 * (1 / 2 ^ 52)"
    using mult_mono [OF x(2) f] x by (simp add: abs_mult flip: right_diff_distrib)
  have xi: "0 \<le> x * ideal_factor c" "x * ideal_factor c \<le> 62500000 * (10001 / 10000)"
    using mult_mono [OF x(2) i(2)] x i by simp_all
  have xf: "0 \<le> x * corr_factor c" using x(1) i near(2) [OF f, of "1 / 2"] by (intro mult_nonneg_nonneg) simp_all
  have r: "\<bar>fmul x (corr_factor c) - x * corr_factor c\<bar> \<le> 1 / 2 ^ 28"
  proof -
    have "x * corr_factor c < 67108864" using near [OF d, of 1] xi by simp
    then show ?thesis unfolding fmul_def using rnd_err [OF xf, of 26] by (simp add: powi_values)
  qed
  have nn: "0 \<le> fmul x (corr_factor c)" unfolding fmul_def using xf by (rule rnd_nonneg)
  define F where "F = \<lfloor>fmul x (corr_factor c)\<rfloor>"
  have F: "of_int F \<le> fmul x (corr_factor c)" "fmul x (corr_factor c) < of_int F + 1" "0 \<le> F"
    using nn unfolding F_def by linarith+
  have "of_int F < (62600000 :: rat)" using F(1) near [OF r, of 1] near [OF d, of 1] xi by simp
  then have small: "F < 62600000" using of_int_less_iff [of F 62600000, where ?'a = rat] by simp
  then have "uint (corrected c p) = F"
    using F(3) by (simp add: corrected_def dfloor_def F_def [symmetric] u(1) x_def [symmetric] uint_word_of_int_eq take_bit_int_eq_self)
  moreover have "\<bar>of_int F - x * ideal_factor c\<bar> < 1 + 1 / 10000" 
    using F near [OF r, of "1 / 20000"] near [OF d, of "1 / 40000"] unfolding abs_less_iff by simp
  ultimately show ?thesis using small by (simp add: u(1) x_def)
qed

lemma sweep_point_near:
  assumes ok: "vna_ok v s" and v: "known_variant v" and i: "i < unat (sweep_size s)"
  shows "uint (sweep_point s i) \<le> 62500000 \<and>
    \<bar>of_int (uint (sweep_point s i)) - (of_int (sweep_start s) + of_int (sweep_stop s - sweep_start s) * of_nat i / of_int (uint (sweep_size s) - 1))\<bar> < (1 :: rat)"
proof (cases "i = 0")
  case True
  then show ?thesis using ok v
    by (auto simp: vna_ok_def known_variant_def vna_125_def vna_122_88_def sweep_point_def uint_word_of_int_eq take_bit_int_eq_self)
next
  case False
  define n where "n = uint (sweep_size s) - 1"
  have n: "0 < n" "int i \<le> n" "uint (sweep_size s - 1) = n"
  proof -
    have size: "1 \<le> uint (sweep_size s)" "uint (sweep_size s) \<le> 32768" using ok by (simp_all add: vna_ok_def)
    have lt: "int i < uint (sweep_size s)" using i by (simp only: unat_eq_nat_uint zless_nat_eq_int_zless)
    then show "0 < n" "int i \<le> n" using False by (simp_all add: n_def)
    show "uint (sweep_size s - 1) = n" using size by (simp add: n_def uint_sub_if')
  qed
  define a where "a = (sweep_stop s - sweep_start s) * int i"
  define q where "q = a sdiv n"
  note q = sdiv_near [OF n(1), of a, folded q_def]
  have lims: "0 \<le> sweep_start s" "sweep_start s \<le> 62500000" "0 \<le> sweep_stop s" "sweep_stop s \<le> 62500000"
    using ok v by (auto simp: vna_ok_def known_variant_def vna_125_def vna_122_88_def)
  have "\<bar>a\<bar> \<le> \<bar>sweep_stop s - sweep_start s\<bar> * n" using n(2) by (simp add: a_def abs_mult mult_left_mono)
  then have "\<bar>q\<bar> * n \<le> \<bar>sweep_stop s - sweep_start s\<bar> * n" using q by linarith
  then have le: "\<bar>q\<bar> \<le> \<bar>sweep_stop s - sweep_start s\<bar>" using n(1) by simp
  have sg: "(sweep_start s \<le> sweep_stop s \<longrightarrow> 0 \<le> q) \<and> (sweep_stop s \<le> sweep_start s \<longrightarrow> q \<le> 0)"
    using q by (auto simp: a_def mult_nonneg_nonneg mult_nonpos_nonneg)
  have range: "0 \<le> sweep_start s + q" "sweep_start s + q \<le> 62500000" using le sg lims by linarith+
  then have "uint (sweep_point s i) = sweep_start s + q"
  proof -
    obtain p where p: "sweep_start s + q = p" by simp
    have "sweep_point s i = word_of_int p" using False unfolding sweep_point_def n(3) a_def [symmetric] q_def [symmetric] p by simp
    then show ?thesis using range unfolding p by (simp add: uint_word_of_int_eq take_bit_int_eq_self)
  qed
  moreover have "of_int a = (of_int (sweep_stop s - sweep_start s) * of_nat i :: rat)" by (simp add: a_def)
  ultimately show ?thesis using range q by (simp add: n_def [symmetric])
qed

lemma dds_word_near:
  assumes "clk = 125000000 \<or> clk = 122880000" and "0 \<le> f" and "f < 249000000"
  shows "\<bar>of_int (uint (dds_word (of_int clk) f)) * of_int clk / 2 ^ 30 - of_int f\<bar> \<le> (6 / 100 :: rat)"
proof -
  define r where "r = round_half_up (f * 2 ^ 30) clk"
  have clk: "122880000 \<le> clk" "clk \<le> 125000000" using assms(1) by auto
  have inc: "dds_inc (of_int clk) f = r"
    using dds_inc_125 [OF assms(2,3)] dds_inc_12288 [OF assms(2,3)] assms(1) by (auto simp: r_def)
  have b: "2 * clk * r \<le> 2 * (f * 2 ^ 30) + clk" "2 * (f * 2 ^ 30) - clk < 2 * clk * r"
    using round_half_up_bounds [of clk "f * 2 ^ 30"] clk by (simp_all add: r_def)
  have "0 \<le> r" using assms(2) clk unfolding r_def round_half_up_def by (intro div_int_pos_iff [THEN iffD2]) simp
  moreover have "r < 2 ^ 32"
  proof (rule ccontr)
    assume "\<not> r < 2 ^ 32"
    then have "2 * 122880000 * 2 ^ 32 \<le> 2 * clk * r" using clk by (intro mult_mono) simp_all
    then show False using b(1) assms(3) clk by simp
  qed
  ultimately have u: "uint (dds_word (of_int clk) f) = r"
    by (simp add: dds_word_def inc uint_word_of_int_eq take_bit_int_eq_self)
  have "2 * of_int clk * of_int r \<le> 2 * (of_int f * 2 ^ 30) + (of_int clk :: rat)"
    "2 * (of_int f * 2 ^ 30) - of_int clk < (2 * of_int clk * of_int r :: rat)" "(of_int clk :: rat) \<le> 125000000"
    using b clk(2) of_int_le_iff [of "2 * clk * r" "2 * (f * 2 ^ 30) + clk", where ?'a = rat]
      of_int_less_iff [of "2 * (f * 2 ^ 30) - clk" "2 * clk * r", where ?'a = rat] of_int_le_iff [of clk 125000000, where ?'a = rat]
    by simp_all
  then show ?thesis unfolding u abs_le_iff by (simp add: field_simps)
qed

text \<open>C22: whatever commands clients have sent before, a sweep starts with an empty FIFO and
  queues exactly one phase increment for every point.  The frequency that the increment of point
  \<open>i\<close> makes differs by less than 2.1 Hz from the ideal one, the line from start to stop
  times the correction: division, correction in doubles and rounding of the increment together.\<close>

theorem vna_sweep:
  assumes v: "known_variant v" and s: "vna_server v clients vna_start = Some s"
  shows "\<exists>es. log (sweep v s) = log s @ es \<and> length (fifo_words es) = unat (sweep_size s) \<and>
    (\<forall>i < unat (sweep_size s). \<bar>of_int (uint (fifo_words es ! i)) * of_int (vv_clk v) / 2 ^ 30 -
      (of_int (sweep_start s) + of_int (sweep_stop s - sweep_start s) * of_nat i / of_int (uint (sweep_size s) - 1)) * (1 + of_int (corr s) / 1000000000)\<bar>
      < (21 / 10 :: rat))"
proof -
  have ok: "vna_ok v s" using vna_server_ok [OF v, of clients] s by auto
  have c: "- 100000 \<le> corr s" "corr s \<le> 100000" using ok by (simp_all add: vna_ok_def)
  define es where "es = [Cfg8 vna_rst (cfg s vna_rst AND NOT 3), Cfg8 vna_rst (cfg s vna_rst AND NOT 3 OR 2)] @
    map Fifo (sweep_words v s) @ [Cfg8 vna_rst ((cfg s vna_rst AND NOT 3 OR 2) OR 1)]"
  have "log (sweep v s) = log s @ es"
    by (simp add: sweep_def Let_def es_def vna_writes wr8_def sweep_words_def sweep_point_def)
  moreover have words: "fifo_words es = sweep_words v s" by (simp add: es_def words_append words_map)
  moreover have "\<bar>of_int (uint (sweep_words v s ! i)) * of_int (vv_clk v) / 2 ^ 30 -
      (of_int (sweep_start s) + of_int (sweep_stop s - sweep_start s) * of_nat i / of_int (uint (sweep_size s) - 1)) * (1 + of_int (corr s) / 1000000000)\<bar>
      < (21 / 10 :: rat)" (is "\<bar>?w - ?t * _\<bar> < _") if i: "i < unat (sweep_size s)" for i
  proof -
    let ?p = "sweep_point s i" let ?f = "uint (corrected (corr s) ?p)"
    note p = sweep_point_near [OF ok v i]
    note f = corrected_near [OF c conjunct1 [OF p]]
    have w: "\<bar>?w - of_int ?f\<bar> \<le> 6 / 100"
      using dds_word_near [of "vv_clk v" ?f] f v i
      by (auto simp: sweep_words_def known_variant_def vna_125_def vna_122_88_def)
    have k: "0 \<le> ideal_factor (corr s)" "ideal_factor (corr s) \<le> 1 + 1 / 10000"
      using c of_int_le_iff [of "corr s" 100000, where ?'a = rat] of_int_le_iff [of "- 100000" "corr s", where ?'a = rat]
      by (simp_all add: ideal_factor_def)
    have "\<bar>of_int (uint ?p) * ideal_factor (corr s) - ?t * ideal_factor (corr s)\<bar> \<le> 1 * (1 + 1 / 10000)"
      using mult_mono [OF less_imp_le [OF conjunct2 [OF p]] k(2)] k(1) by (simp add: abs_mult flip: left_diff_distrib)
    then have "\<bar>of_int ?f - ?t * ideal_factor (corr s)\<bar> \<le> 2 + 2 / 10000"
      by (rule near_trans [OF less_imp_le [OF conjunct1 [OF f]]]) simp
    then have "\<bar>?w - ?t * ideal_factor (corr s)\<bar> \<le> 2 + 7 / 100" by (rule near_trans [OF w]) simp
    then show ?thesis by (simp add: ideal_factor_def)
  qed
  ultimately show ?thesis by (intro exI [of _ es]) (simp add: sweep_words_def)
qed

section \<open>The averages\<close>

text \<open>Value \<open>j\<close> of the sum of the first \<open>m\<close> samples of point \<open>k\<close> that count, and the average that belongs to the point.\<close>

definition point_sum :: "vna_io \<Rightarrow> nat \<Rightarrow> nat \<Rightarrow> nat \<Rightarrow> nat \<Rightarrow> dbl" where
  "point_sum io rate k m j = foldl faddf 0 (map (\<lambda>r. io_data io (4 * (k * (rate + 10) + 10 + r) + j)) [0..<m])"

definition point_average :: "vna_io \<Rightarrow> nat \<Rightarrow> nat \<Rightarrow> dbl list" where
  "point_average io rate k = map (\<lambda>j. fdivf (point_sum io rate k rate j) (rndf (of_nat rate))) [0..<4]"

text \<open>The thread after \<open>c\<close> samples.\<close>

definition after_samples :: "vna_io \<Rightarrow> nat \<Rightarrow> nat \<Rightarrow> reader \<Rightarrow> bool" where
  "after_samples io rate c r \<longleftrightarrow>
    (let k = c div (rate + 10); i = c mod (rate + 10)
     in rd_cntr r = of_nat c \<and> rd_i r = of_nat i \<and> taken r = 4 * c \<and> msgs r = map (point_average io rate) [0..<k] \<and>
       (0 < i \<longrightarrow> buffer r = map (point_sum io rate k (i - 10)) [0..<4]))"

lemma after_samples_start: "after_samples io rate 0 reader_start"
  by (simp add: after_samples_def reader_start_def)

lemma point_sum_Suc: "10 \<le> i \<Longrightarrow>
    point_sum io rate k (Suc i - 10) j = faddf (point_sum io rate k (i - 10) j) (io_data io (4 * (k * (rate + 10) + i) + j))"
proof -
  assume "10 \<le> i"
  then obtain n where i: "i = 10 + n" using le_Suc_ex by blast
  then have "Suc i - 10 = Suc n" "i - 10 = n" by simp_all
  then show ?thesis by (simp add: point_sum_def i distrib_left add.assoc)
qed

text \<open>One sample, short of the last of its point, and the last one with the message that follows it.\<close>

lemma sample_step:
  fixes rate c :: nat
  defines "k \<equiv> c div (rate + 10)" and "i \<equiv> c mod (rate + 10)"
  assumes inv: "after_samples io rate c r" and rate: "rate \<le> 100000"
  shows "unat (rd_i (read_sample io r)) = i + 1" and "buffer (read_sample io r) = map (point_sum io rate k (i + 1 - 10)) [0..<4]"
    and "rd_cntr (read_sample io r) = of_nat (c + 1)" "taken (read_sample io r) = 4 * (c + 1)" "msgs (read_sample io r) = msgs r"
    "rd_i (read_sample io r) = of_nat (i + 1)"
proof -
  have i: "rd_i r = of_nat i" "taken r = 4 * c" using inv by (simp_all add: after_samples_def Let_def i_def)
  have "i < rate + 10" by (simp add: i_def)
  then have small: "i < 100010" using rate by linarith
  have less10: "rd_i r < 10 \<longleftrightarrow> i < 10"
    using small by (simp add: i word_less_nat_alt unsigned_of_nat take_bit_nat_eq_self)
  have c: "4 * (k * (rate + 10) + i) = 4 * c" by (simp only: div_mult_mod_eq k_def i_def)
  show "buffer (read_sample io r) = map (point_sum io rate k (i + 1 - 10)) [0..<4]"
  proof (cases "i < 10")
    case True
    then show ?thesis by (simp add: read_sample_def less10 point_sum_def upt_rec)
  next
    case False
    then have "buffer r = map (point_sum io rate k (i - 10)) [0..<4]" using inv by (simp add: after_samples_def Let_def k_def i_def)
    then show ?thesis using False point_sum_Suc [of i io rate k, unfolded c] i(2)
      by (simp add: read_sample_def less10 upt_rec)
  qed
  show ri: "rd_i (read_sample io r) = of_nat (i + 1)" by (simp add: read_sample_def i)
  show "unat (rd_i (read_sample io r)) = i + 1"
    unfolding ri using small by (simp only: unsigned_of_nat) (simp add: take_bit_nat_eq_self)
  show "rd_cntr (read_sample io r) = of_nat (c + 1)" "taken (read_sample io r) = 4 * (c + 1)" "msgs (read_sample io r) = msgs r"
    using inv by (simp_all add: after_samples_def Let_def read_sample_def)
qed

lemma sample_inside:
  assumes inv: "after_samples io rate c r" and rate: "rate \<le> 100000" and inside: "c mod (rate + 10) + 1 < rate + 10"
  shows "after_samples io rate (c + 1) (read_sample io r)"
proof -
  have "(c + 1) div (rate + 10) = c div (rate + 10)" "(c + 1) mod (rate + 10) = c mod (rate + 10) + 1"
    using inside div_Suc [of c "rate + 10"] mod_Suc [of c "rate + 10"] by simp_all
  then show ?thesis using sample_step [OF inv rate] inv by (simp add: after_samples_def Let_def)
qed

lemma sample_last:
  assumes inv: "after_samples io (unat w) c r" and rate: "unat w \<le> 100000" and last: "c mod (unat w + 10) + 1 = unat w + 10"
  shows "after_samples io (unat w) (c + 1) (send_average w (read_sample io r))"
proof -
  have "(c + 1) div (unat w + 10) = c div (unat w + 10) + 1" "(c + 1) mod (unat w + 10) = 0"
    using last div_Suc [of c "unat w + 10"] mod_Suc [of c "unat w + 10"] by simp_all
  moreover have "(of_int (uint w) :: rat) = of_nat (unat w)" by simp
  ultimately show ?thesis
    using sample_step [OF inv rate] inv last by (simp add: after_samples_def Let_def send_average_def point_average_def)
qed

text \<open>What the thread relies on: nobody cancels the sweep, samples keep coming, and the client takes the messages.\<close>

definition vna_fed :: "vna_io \<Rightarrow> bool" where
  "vna_fed io \<longleftrightarrow> (\<forall>t. io_alive io t) \<and> (\<forall>t. \<exists>d. 4 \<le> unat (io_cntr io (t + d))) \<and> (\<forall>t. io_sent io t)"

lemma samples_left:
  assumes w: "unat (w :: u32) \<le> 100000" and n: "unat (n :: u32) \<le> 32768" and c: "c \<le> unat n * (unat w + 10)"
  shows "(of_nat c :: u32) < n * (w + 10) \<longleftrightarrow> c < unat n * (unat w + 10)" and "unat (w + 10) = unat w + 10"
proof -
  show w10: "unat (w + 10) = unat w + 10" using w by (simp add: unat_word_ariths)
  have lim: "unat n * (unat w + 10) \<le> 32768 * 100010" by (rule mult_mono) (use w n in simp_all)
  then have "unat (n * (w + 10)) = unat n * (unat w + 10)" using w10 by (simp add: unat_word_ariths)
  moreover have "unat (of_nat c :: u32) = c" using c lim by (simp add: unsigned_of_nat take_bit_nat_eq_self)
  ultimately show "(of_nat c :: u32) < n * (w + 10) \<longleftrightarrow> c < unat n * (unat w + 10)" by (simp add: word_less_nat_alt)
qed

text \<open>A round that finds a sample, and one that waits.\<close>

lemma read_round:
  assumes fed: "vna_fed io" and w: "unat w \<le> 100000" and n: "unat n \<le> 32768" and inv: "after_samples io (unat w) c r"
    and c: "c < unat n * (unat w + 10)" and ready: "4 \<le> unat (io_cntr io t)"
  shows "\<exists>r'. read_handler io w n t r = read_handler io w n (t + 1) r' \<and> after_samples io (unat w) (c + 1) r'"
proof -
  have r: "rd_cntr r = of_nat c" using inv by (simp add: after_samples_def Let_def)
  note left = samples_left [OF w n less_imp_le [OF c]]
  have i: "rd_i (read_sample io r) < w + 10 \<longleftrightarrow> c mod (unat w + 10) + 1 < unat w + 10"
    unfolding word_less_nat_alt left(2) sample_step(1) [OF inv w] ..
  have alive: "io_alive io t" "io_sent io t" using fed by (simp_all add: vna_fed_def)
  show ?thesis
  proof (cases "c mod (unat w + 10) + 1 < unat w + 10")
    case True
    then show ?thesis using sample_inside [OF inv w True] left c r i ready alive
      by (subst read_handler.simps) (auto simp: Let_def)
  next
    case False
    then have "c mod (unat w + 10) + 1 = unat w + 10" using mod_less_divisor [of "unat w + 10" c] by linarith
    from sample_last [OF inv w this] False show ?thesis using left c r i ready alive
      by (subst read_handler.simps) (auto simp: Let_def)
  qed
qed

lemma read_handler_total:
  assumes fed: "vna_fed io" and w: "unat w \<le> 100000" and n: "unat n \<le> 32768" and inv: "after_samples io (unat w) c r"
    and c: "c \<le> unat n * (unat w + 10)"
  shows "\<exists>r'. read_handler io w n t r = Some r' \<and> after_samples io (unat w) (unat n * (unat w + 10)) r'"
  using inv c
proof (induction "unat n * (unat w + 10) - c" arbitrary: c t r)
  case 0
  then have "read_handler io w n t r = Some r"
    using samples_left [OF w n, of c] by (subst read_handler.simps) (simp add: after_samples_def Let_def)
  then show ?case using 0 by auto
next
  case (Suc m)
  from Suc have lt: "c < unat n * (unat w + 10)" by simp
  have ready: "\<exists>r'. read_handler io w n t r = Some r' \<and> after_samples io (unat w) (unat n * (unat w + 10)) r'"
    if t: "4 \<le> unat (io_cntr io t)" for t
  proof -
    obtain r1 where r1: "read_handler io w n t r = read_handler io w n (t + 1) r1" "after_samples io (unat w) (c + 1) r1"
      using read_round [OF fed w n Suc.prems(1) lt t] by blast
    have "m = unat n * (unat w + 10) - (c + 1)" "c + 1 \<le> unat n * (unat w + 10)" using Suc.hyps(2) lt by simp_all
    from Suc.hyps(1) [OF this(1) r1(2) this(2), of "t + 1"] show ?thesis by (simp add: r1(1))
  qed
  obtain d where "4 \<le> unat (io_cntr io (t + d))" using fed unfolding vna_fed_def by blast
  then show ?case
  proof (induction d arbitrary: t)
    case 0
    then show ?case by (intro ready) simp
  next
    case (Suc d t)
    show ?case
    proof (cases "unat (io_cntr io t) < 4")
      case True
      then have "read_handler io w n t r = read_handler io w n (t + 1) r"
        using samples_left [OF w n less_imp_le [OF lt]] lt \<open>after_samples io (unat w) c r\<close> fed
        by (subst read_handler.simps) (simp add: vna_fed_def after_samples_def Let_def)
      then show ?thesis using Suc.IH [of "t + 1"] Suc.prems by simp
    next
      case False
      then show ?thesis by (intro ready) simp
    qed
  qed
qed

text \<open>C23: every sweep that the server starts, after whatever commands, has a thread that ends by itself and
  sends exactly one message for each point of the sweep.  Message \<open>k\<close> holds the four averages,
  in single precision, over the samples of point \<open>k\<close> without the first ten, and the thread takes
  exactly as many words from the FIFO as the sweep measures.\<close>

theorem vna_averages:
  assumes "known_variant v" and "vna_server v clients vna_start = Some s" and "(w, n) \<in> set (readers s)" and "vna_fed io"
  shows "\<exists>r. read_handler io w n 0 reader_start = Some r \<and>
    msgs r = map (point_average io (unat w)) [0..<unat n] \<and> taken r = 4 * (unat n * (unat w + 10))"
proof -
  have "vna_ok v s" using vna_server_ok [OF assms(1), of clients] assms(2) by auto
  then have "uint w \<le> 100000" "uint n \<le> 32768" using assms(3) by (auto simp: vna_ok_def)
  then have wn: "unat w \<le> 100000" "unat n \<le> 32768" by (simp_all only: unat_eq_nat_uint nat_le_iff of_nat_numeral)
  obtain r where r: "read_handler io w n 0 reader_start = Some r" "after_samples io (unat w) (unat n * (unat w + 10)) r"
    using read_handler_total [OF assms(4) wn after_samples_start] by blast
  have "unat n * (unat w + 10) div (unat w + 10) = unat n" by (rule nonzero_mult_div_cancel_right) simp
  with r(2) have "msgs r = map (point_average io (unat w)) [0..<unat n]" "taken r = 4 * (unat n * (unat w + 10))"
    unfolding after_samples_def Let_def by metis+
  with r(1) show ?thesis by blast
qed

section \<open>Witnesses\<close>

text \<open>A client that sets start to 10 Hz, size to 2 and the correction to -100 and starts a sweep.\<close>

definition vna_commands :: "u32 list" where
  "vna_commands = [0x0000000a, 0x20000002, 0x4fffff9c, 0xa0000000]"

lemma vna_codes:
  "unat (drop_bit 28 (0x0000000a :: u32)) = 0" "sint (vna_value 0x0000000a) = 10"
  "unat (drop_bit 28 (0x20000002 :: u32)) = 2" "sint (vna_value 0x20000002) = 2"
  "unat (drop_bit 28 (0x4fffff9c :: u32)) = 4" "sint (vna_value 0x4fffff9c) = - 100"
  "unat (drop_bit 28 (0xa0000000 :: u32)) = 10"
  by (simp_all add: vna_value_def)

lemma vna_commands_run: "\<exists>s. vna_server vna_125 [vna_commands] vna_start = Some s \<and>
    sweep_start s = 10 \<and> sweep_size s = 2 \<and> corr s = - 100 \<and> readers s = [(10, 2)]"
proof -
  define s0 where "s0 = vna_init vna_125 vna_start"
  have s0: "avg_rate s0 = 10" "readers s0 = []" by (simp_all add: s0_def vna_init_def vna_start_def Let_def vna_writes)
  define s1 where "s1 = s0\<lparr>sweep_start := 10, sweep_size := 2, corr := - 100\<rparr>"
  have "run_all (vna_command vna_125) vna_commands s0 = Some (sweep vna_125 s1)"
    by (simp add: vna_commands_def vna_command_def vna_codes Let_def vna_125_def s1_def)
  then show ?thesis
    by (simp add: vna_server_def vna_client_def s0_def [symmetric]) (simp add: sweep_def Let_def vna_writes s1_def s0)
qed

theorem vna_sweep_witness:
  "\<exists>s es. sweep_start s = 10 \<and> corr s = - 100 \<and> length (fifo_words es) = 2 \<and> log (sweep vna_125 s) = log s @ es \<and>
    \<bar>of_int (uint (fifo_words es ! 0)) * 125000000 / 2 ^ 30 - 10 * (1 - 100 / 1000000000)\<bar> < (21 / 10 :: rat)"
proof -
  obtain s where s: "vna_server vna_125 [vna_commands] vna_start = Some s" "sweep_start s = 10" "sweep_size s = 2" "corr s = - 100"
    using vna_commands_run by blast
  have "known_variant vna_125" by (simp add: known_variant_def)
  from vna_sweep [OF this s(1)] obtain es where es: "log (sweep vna_125 s) = log s @ es" "length (fifo_words es) = unat (sweep_size s)"
    and near: "\<forall>i < unat (sweep_size s). \<bar>of_int (uint (fifo_words es ! i)) * of_int (vv_clk vna_125) / 2 ^ 30 -
      (of_int (sweep_start s) + of_int (sweep_stop s - sweep_start s) * of_nat i / of_int (uint (sweep_size s) - 1)) * (1 + of_int (corr s) / 1000000000)\<bar>
      < (21 / 10 :: rat)" by blast
  have "0 < unat (sweep_size s)" by (simp add: s)
  with near have "\<bar>of_int (uint (fifo_words es ! 0)) * 125000000 / 2 ^ 30 - 10 * (1 - 100 / 1000000000)\<bar> < (21 / 10 :: rat)"
    using s by (fastforce simp: vna_125_def)
  with es s show ?thesis by (intro exI [of _ s] exI [of _ es]) simp
qed

definition vna_io_example :: vna_io where
  "vna_io_example = \<lparr>io_alive = (\<lambda>_. True), io_cntr = (\<lambda>t. if even t then 0 else 8), io_data = (\<lambda>_. 1), io_sent = (\<lambda>_. True)\<rparr>"

lemma vna_io_example_fed: "vna_fed vna_io_example"
proof -
  have "\<exists>d. 4 \<le> unat (io_cntr vna_io_example (t + d))" for t
    by (rule exI [of _ "if even t then 1 else 0"]) (simp add: vna_io_example_def)
  then show ?thesis by (simp add: vna_fed_def vna_io_example_def)
qed

theorem vna_averages_witness:
  "\<exists>r. read_handler vna_io_example 10 2 0 reader_start = Some r \<and>
    msgs r = map (point_average vna_io_example 10) [0..<2] \<and> taken r = 160"
proof -
  obtain s where s: "vna_server vna_125 [vna_commands] vna_start = Some s" "readers s = [(10, 2)]"
    using vna_commands_run by blast
  have "known_variant vna_125" "(10, 2) \<in> set (readers s)" by (simp_all add: known_variant_def s)
  from vna_averages [OF this(1) s(1) this(2) vna_io_example_fed] show ?thesis by simp
qed

end
