(* ===== verification/Scanner.thy ===== *)
theory Scanner imports Streaming begin

text \<open>
  scanner.c, the server of the laser scanner: a client sets the three pulse generators and sends the
  list of coordinates, then a scan sends every coordinate to the converters as often as there are
  pulses for a pixel while the measured samples go to the client.
\<close>

record scanner = dev +
  period :: u32
  n_pulses :: u32
  shdelay :: u32
  shtime :: u32
  coordinates :: "u32 list"

text \<open>\<open>cfg8[k]\<close> and \<open>cfg32[k]\<close>.\<close>

definition cfg8_at :: "nat \<Rightarrow> nat" where "cfg8_at k = k"
definition cfg32_at :: "nat \<Rightarrow> nat" where "cfg32_at k = 4 * k"

lemmas scanner_addr = cfg8_at_def cfg32_at_def

definition scanner_start :: scanner where
  "scanner_start = \<lparr>cfg = (\<lambda>_. 0), log = [], period = 0, n_pulses = 0, shdelay = 0, shtime = 0, coordinates = []\<rparr>"

definition scanner_init :: "scanner \<Rightarrow> scanner" where
  "scanner_init s =
    (let s = clr8 (cfg8_at 0) 1 s;
         s = put8 (cfg8_at 1) 1 s;
         s = put8 (cfg8_at 2) 1 s;
         s = put8 (cfg8_at 3) 1 s;
         s = put8 (cfg8_at 4) (32 - 1) s;
         s = s\<lparr>n_pulses := 2\<rparr>;
         s = put8 (cfg8_at 5) (ucast (n_pulses s - 1)) s;
         s = s\<lparr>period := 25000\<rparr>;
         s = put32 (cfg32_at 2) 0 s;
         s = put32 (cfg32_at 3) 200 s;
         s = put32 (cfg32_at 4) (period s - 1) s;
         s = s\<lparr>shdelay := 400\<rparr>;
         s = put32 (cfg32_at 5) (shdelay s) s;
         s = s\<lparr>shtime := 30\<rparr>;
         s = put32 (cfg32_at 6) (shdelay s + shtime s) s;
         s = put32 (cfg32_at 7) (period s - 1) s;
         s = put32 (cfg32_at 8) 2000 s;
         s = put32 (cfg32_at 9) 2001 s
     in put32 (cfg32_at 10) 2001 s)"

section \<open>Commands\<close>

definition set_period :: "u32 \<Rightarrow> scanner \<Rightarrow> scanner" where
  "set_period data s =
    (let s = s\<lparr>period := data\<rparr>;
         s = put32 (cfg32_at 4) (period s - 1) s
     in put32 (cfg32_at 7) (period s - 1) s)"

definition set_polarity :: "u8 \<Rightarrow> u32 \<Rightarrow> scanner \<Rightarrow> scanner" where
  "set_polarity m data s = (if data = 0 then clr8 (cfg8_at 0) m s else if data = 1 then set8 (cfg8_at 0) m s else s)"

definition set_shdelay :: "u32 \<Rightarrow> scanner \<Rightarrow> scanner" where
  "set_shdelay data s =
    (let s = s\<lparr>shdelay := data\<rparr>;
         s = put32 (cfg32_at 5) (shdelay s) s
     in put32 (cfg32_at 6) (shdelay s + shtime s) s)"

definition set_shtime :: "u32 \<Rightarrow> scanner \<Rightarrow> scanner" where
  "set_shtime data s = (let s = s\<lparr>shtime := data\<rparr> in put32 (cfg32_at 6) (shdelay s + shtime s) s)"

definition set_acquisition :: "u32 \<Rightarrow> scanner \<Rightarrow> scanner" where
  "set_acquisition data s =
    put32 (cfg32_at 10) (data + 1) (put32 (cfg32_at 9) (data + 1) (put32 (cfg32_at 8) data s))"

definition set_pulses :: "u32 \<Rightarrow> scanner \<Rightarrow> scanner" where
  "set_pulses data s = (let s = s\<lparr>n_pulses := data\<rparr> in put8 (cfg8_at 5) (ucast (n_pulses s - 1)) s)"

text \<open>\<open>(data & 0xfffc000) << 2 | (data & 0x3fff)\<close>\<close>

definition coordinate :: "u32 \<Rightarrow> u32" where
  "coordinate data = push_bit 2 (data AND 0xfffc000) OR (data AND 0x3fff)"

definition add_coordinates :: "u32 \<Rightarrow> scanner \<Rightarrow> scanner" where
  "add_coordinates data s =
    (if length (coordinates s) \<ge> 1048576 then s else s\<lparr>coordinates := coordinates s @ [coordinate data]\<rparr>)"

section \<open>A scan\<close>

text \<open>Samples of 8 bytes make two words in the receiver's FIFO; the limit of the other FIFO is computed with 32 bits.\<close>

definition scan_setup :: "scanner \<Rightarrow> u32 stream_setup" where
  "scan_setup s = \<lparr>units = 2, bytes = 8, limit = unat (16384 - n_pulses s),
     item_words = replicate (unat (n_pulses s)), start_reg = cfg8_at 0, start_bit = 1\<rparr>"

definition scan :: "stream_io \<Rightarrow> scanner \<Rightarrow> scanner option" where
  "scan io s =
    (let s = clr8 (cfg8_at 0) 1 s;
         s = pulse8 (cfg8_at 0) 2 s
     in do { (counter, rest, s) \<leftarrow> stream (scan_setup s) io (length (coordinates s)) 0 0 1024 (coordinates s) s; Some s })"

definition scanner_command :: "stream_io \<times> u32 \<Rightarrow> scanner \<Rightarrow> scanner option" where
  "scanner_command inp s =
    (let code = unat (drop_bit 28 (snd inp)); data = snd inp AND 0xfffffff
     in if code = 12 then scan (fst inp) s
        else Some (
       if code = 0 then set_period data s
       else if code = 1 then put32 (cfg32_at 3) data s
       else if code = 2 then set_polarity 4 data s
       else if code = 3 then set_shdelay data s
       else if code = 4 then set_shtime data s
       else if code = 5 then set_polarity 8 data s
       else if code = 6 then set_acquisition data s
       else if code = 7 then put8 (cfg8_at 4) (ucast (data - 1)) s
       else if code = 8 then set_pulses data s
       else if code = 9 then s\<lparr>coordinates := []\<rparr>
       else if code = 10 then add_coordinates data s
       else if code = 11 then set8 (cfg8_at 0) 1 s
       else s))"

text \<open>A client until it disconnects, and one client after the other.\<close>

definition scanner_client :: "(stream_io \<times> u32) list \<Rightarrow> scanner \<Rightarrow> scanner option" where
  "scanner_client inps s =
    do { s \<leftarrow> run_all scanner_command inps s; Some (clr8 (cfg8_at 0) 1 s) }"

definition scanner_server :: "(stream_io \<times> u32) list list \<Rightarrow> scanner \<Rightarrow> scanner option" where
  "scanner_server clients s = run_all scanner_client clients (scanner_init s)"

end
