(* ===== verification/ScannerProps.thy ===== *)
theory ScannerProps imports Scanner begin

text \<open>
  Properties of scanner.c: the registers of the pulse generators agree with the settings after every
  sequence of commands, and a scan measures every pixel once.
\<close>

section \<open>The generators\<close>

text \<open>The relations between the registers that the commands have to maintain.\<close>

definition generators_ok :: "scanner \<Rightarrow> bool" where
  "generators_ok s \<longleftrightarrow>
    rd32 (cfg s) (cfg32_at 4) = period s - 1 \<and> rd32 (cfg s) (cfg32_at 7) = period s - 1 \<and>
    rd32 (cfg s) (cfg32_at 5) = shdelay s \<and> rd32 (cfg s) (cfg32_at 6) = shdelay s + shtime s \<and>
    rd32 (cfg s) (cfg32_at 9) = rd32 (cfg s) (cfg32_at 8) + 1 \<and> rd32 (cfg s) (cfg32_at 10) = rd32 (cfg s) (cfg32_at 8) + 1 \<and>
    cfg s (cfg8_at 5) = ucast (n_pulses s - 1) \<and> length (coordinates s) \<le> 1048576"

lemmas scanner_writes = put8_def put32_def clr8_def set8_def pulse8_def

lemma generators_kept:
  assumes "generators_ok s"
  shows "a < 5 \<Longrightarrow> generators_ok (put8 a x s)" "generators_ok (put32 (cfg32_at 3) y s)"
    "a < 5 \<Longrightarrow> generators_ok (clr8 a x s)" "a < 5 \<Longrightarrow> generators_ok (set8 a x s)" "a < 5 \<Longrightarrow> generators_ok (pulse8 a x s)"
    "generators_ok (emit es s)"
  using assms by (simp_all add: generators_ok_def scanner_writes emit_def scanner_addr reg_simps)

lemma generators_commands:
  assumes "generators_ok s"
  shows "generators_ok (set_period d s)" "generators_ok (set_polarity m d s)" "generators_ok (set_shdelay d s)"
    "generators_ok (set_shtime d s)" "generators_ok (set_acquisition d s)" "generators_ok (set_pulses d s)"
    "generators_ok (s\<lparr>coordinates := []\<rparr>)" "generators_ok (add_coordinates d s)"
  using assms
  by (simp_all add: generators_ok_def set_period_def set_polarity_def set_shdelay_def set_shtime_def set_acquisition_def
      set_pulses_def add_coordinates_def Let_def scanner_writes scanner_addr reg_simps)

lemma generators_round: "start_reg u < 5 \<Longrightarrow> generators_ok s \<Longrightarrow> generators_ok (round_end u out s)"
  by (simp add: round_end_def generators_kept)

lemma generators_scan:
  assumes "generators_ok s" and "scan io s = Some s'"
  shows "generators_ok s'"
proof -
  let ?s0 = "pulse8 (cfg8_at 0) 2 (clr8 (cfg8_at 0) 1 s)"
  obtain r where run: "stream (scan_setup ?s0) io (length (coordinates ?s0)) 0 0 1024 (coordinates ?s0) ?s0 = Some r" "s' = snd (snd r)"
    using assms(2) by (auto simp: scan_def Let_def bind_eq_Some_conv)
  have "start_reg (scan_setup ?s0) < 5" by (simp add: scan_setup_def cfg8_at_def)
  moreover have "generators_ok ?s0" using assms(1) by (intro generators_kept) (simp_all add: cfg8_at_def)
  ultimately show ?thesis
    unfolding run(2) by (intro stream_keeps [OF run(1), where P = generators_ok]) (simp_all add: generators_kept generators_round)
qed

lemma generators_command:
  assumes "generators_ok s" and "scanner_command inp s = Some s'"
  shows "generators_ok s'"
proof -
  obtain io c where inp: "inp = (io, c)" by (cases inp)
  obtain code data where cd: "unat (drop_bit 28 c) = code" "c AND 0xfffffff = data" by blast
  have if_ok: "(b \<Longrightarrow> generators_ok x) \<Longrightarrow> (\<not> b \<Longrightarrow> generators_ok y) \<Longrightarrow> generators_ok (if b then x else y)" for b x y by simp
  show ?thesis
  proof (cases "code = 12")
    case True
    then show ?thesis using assms generators_scan by (simp add: scanner_command_def inp cd)
  next
    case False
    then have "generators_ok (the (scanner_command inp s))"
      unfolding scanner_command_def Let_def inp cd snd_conv if_not_P [OF False] option.sel
      by (intro if_ok generators_kept generators_commands assms(1)) (simp_all add: cfg8_at_def)
    then show ?thesis by (simp add: assms(2))
  qed
qed

interpretation scanner_commands: stepwise scanner_command generators_ok "\<lambda>_. True"
  by unfold_locales (rule generators_command)

interpretation scanner_clients: stepwise scanner_client generators_ok "\<lambda>_. True"
proof
  fix s cs t
  assume "generators_ok s" and "scanner_client cs s = Some t"
  then obtain s1 where "run_all scanner_command cs s = Some s1" and t: "t = clr8 (cfg8_at 0) 1 s1"
    by (auto simp: scanner_client_def bind_eq_Some_conv)
  then have "generators_ok s1" using scanner_commands.run_inv [OF \<open>generators_ok s\<close>, of cs s1] by simp
  then show "generators_ok t" unfolding t by (rule generators_kept) (simp add: cfg8_at_def)
qed

text \<open>C24: whatever commands clients send and however they disconnect, the registers of the pulse
  generators agree with the settings of the server: both pulse trains have the same period, the
  sample-and-hold pulse starts after its delay and lasts for its duration, the converters' pulse is
  one clock long, and the number of pulses counted for a pixel is the number of words sent for it
  (in the eight bits that the register has).  The list of coordinates never exceeds its buffer.\<close>

theorem scanner_generators:
  assumes "scanner_server clients scanner_start = Some s"
  shows "rd32 (cfg s) (cfg32_at 4) = period s - 1 \<and> rd32 (cfg s) (cfg32_at 7) = rd32 (cfg s) (cfg32_at 4) \<and>
    rd32 (cfg s) (cfg32_at 6) - rd32 (cfg s) (cfg32_at 5) = shtime s \<and> rd32 (cfg s) (cfg32_at 5) = shdelay s \<and>
    rd32 (cfg s) (cfg32_at 9) - rd32 (cfg s) (cfg32_at 8) = 1 \<and> rd32 (cfg s) (cfg32_at 10) = rd32 (cfg s) (cfg32_at 9) \<and>
    cfg s (cfg8_at 5) = ucast (n_pulses s - 1) \<and> length (coordinates s) \<le> 1048576"
proof -
  have "generators_ok (scanner_init scanner_start)"
    by (simp add: generators_ok_def scanner_init_def scanner_start_def Let_def scanner_writes scanner_addr reg_simps)
  then have "generators_ok s"
    using scanner_clients.run_inv [of _ clients s] assms by (simp add: scanner_server_def)
  then show ?thesis by (simp add: generators_ok_def)
qed

section \<open>A scan\<close>

text \<open>The words of a pixel: two coordinates of 14 bits, in the lower bits of the two halves.\<close>

lemma coordinate_fields:
  "coordinate data AND 0xffff = data AND 0x3fff" "drop_bit 16 (coordinate data) = drop_bit 14 (data AND 0xfffc000)"
proof -
  show "coordinate data AND 0xffff = data AND 0x3fff"
    by (rule word32_eqI; simp add: coordinate_def word_bits)
  show "drop_bit 16 (coordinate data) = drop_bit 14 (data AND 0xfffc000)"
    by (rule word32_eqI; simp add: coordinate_def word_bits)
qed

text \<open>C25: if the receiver delivers and the client takes its samples, a scan ends, and the client has got 8
  bytes for each pixel of the list.  The words sent to the converters are the coordinates of a
  beginning of the list, each repeated as often as there are pulses for a pixel, in order;
  if the transmitter's FIFO never was full, all of them.  The list and the settings are kept, so that
  the scan can be repeated.\<close>

theorem scan_pixels:
  assumes "stream_fed (scan_setup s) 1024 io"
  shows "\<exists>s' es out rest. scan io s = Some s' \<and> log s' = log s @ es \<and> length (sent_bytes es) = 8 * length (coordinates s) \<and>
    fifo_words es = concat (map (replicate (unat (n_pulses s))) out) \<and> out @ rest = coordinates s \<and>
    (stream_room (scan_setup s) io \<longrightarrow> rest = []) \<and> dev.more s' = dev.more s"
proof -
  define s0 where "s0 = pulse8 (cfg8_at 0) 2 (clr8 (cfg8_at 0) 1 s)"
  have s0: "coordinates s0 = coordinates s" "scan_setup s0 = scan_setup s" "dev.more s0 = dev.more s"
    by (simp_all add: s0_def scanner_writes scan_setup_def)
  obtain es0 where es0: "log s0 = log s @ es0" "sent_bytes es0 = []" "fifo_words es0 = []"
    by (simp add: s0_def log_simps)
  from stream_all [OF assms, of "length (coordinates s)" "coordinates s" s0] obtain rest s' es out where
    run: "stream (scan_setup s) io (length (coordinates s)) 0 0 1024 (coordinates s) s0 = Some (length (coordinates s), rest, s')" and
    es: "log s' = log s0 @ es" "length (sent_bytes es) = 8 * length (coordinates s)"
    and words: "fifo_words es = concat (map (replicate (unat (n_pulses s))) out)" "out @ rest = coordinates s"
    and more: "dev.more s' = dev.more s0" and room: "stream_room (scan_setup s) io \<longrightarrow> 0 < length (coordinates s) \<longrightarrow> rest = []"
    by (auto simp: scan_setup_def words_of_items_def)
  have "scan io s = Some s'"
    using run by (simp add: scan_def Let_def s0_def [symmetric] s0)
  moreover have "log s' = log s @ (es0 @ es)" by (simp add: es es0)
  moreover have "length (sent_bytes (es0 @ es)) = 8 * length (coordinates s)" by (simp add: es es0)
  moreover have "fifo_words (es0 @ es) = concat (map (replicate (unat (n_pulses s))) out)" by (simp add: words_append es0 words)
  moreover have "stream_room (scan_setup s) io \<longrightarrow> rest = []" using room words(2) by (cases "coordinates s = []") auto
  moreover have "dev.more s' = dev.more s" by (simp add: more s0)
  ultimately show ?thesis using words(2) by blast
qed

section \<open>Witnesses\<close>

definition scan_io_example :: stream_io where
  "scan_io_example = \<lparr>io_rx = (\<lambda>i. if even i then 1 else 2048), io_samples = (\<lambda>_. replicate 8192 7), io_send = (\<lambda>_. True), io_tx = (\<lambda>_ _. 0)\<rparr>"

definition scan_example :: scanner where
  "scan_example = add_coordinates 0x0004001 (scanner_init scanner_start)"

lemma scan_io_example_fed: "stream_fed (scan_setup scan_example) 1024 scan_io_example"
proof -
  have "\<exists>d. 2048 \<le> unat (io_rx scan_io_example (i + d))" for i
    by (rule exI [of _ "if even i then 1 else 0"]) (simp add: scan_io_example_def)
  then show ?thesis by (simp add: stream_fed_def scan_io_example_def scan_setup_def)
qed

theorem scan_pixels_witness:
  "\<exists>s' es out rest. scan scan_io_example scan_example = Some s' \<and> log s' = log scan_example @ es \<and>
    length (sent_bytes es) = 8 * length (coordinates scan_example) \<and>
    fifo_words es = concat (map (replicate (unat (n_pulses scan_example))) out) \<and> out @ rest = coordinates scan_example \<and>
    (stream_room (scan_setup scan_example) scan_io_example \<longrightarrow> rest = []) \<and> dev.more s' = dev.more scan_example"
  by (rule scan_pixels [OF scan_io_example_fed])

text \<open>A client that sets the delay to 5, the duration to 7 and the number of pulses to 3.\<close>

theorem scanner_generators_witness:
  "\<exists>s. scanner_server [[(scan_io_example, 0x30000005), (scan_io_example, 0x40000007), (scan_io_example, 0x80000003)]] scanner_start = Some s \<and>
    rd32 (cfg s) (cfg32_at 6) - rd32 (cfg s) (cfg32_at 5) = shtime s"
proof -
  obtain s where s: "scanner_server [[(scan_io_example, 0x30000005), (scan_io_example, 0x40000007), (scan_io_example, 0x80000003)]] scanner_start = Some s"
    by (simp add: scanner_server_def scanner_client_def scanner_command_def)
  from s scanner_generators [OF s] show ?thesis by blast
qed

end
