(* ===== verification/SdrRx.thy ===== *)
theory SdrRx imports Regs Dds Datagrams Cargs begin

text \<open>
  sdr-receiver-hpsdr.c, the receiver-only server with the HPSDR protocol: up to eight receivers whose
  frequencies and common sample rate the host sets with the frames of its datagrams, and the thread
  that streams the samples.  The two builds differ in constants, collected in \<open>rx_variant\<close>.
\<close>

record rx_variant =
  rv_clk :: int
  rv_rates :: "u16 list"
  rv_block :: nat
  rv_limit :: nat
  rv_grams :: nat
  rv_iface :: bool

definition rx_125 :: rx_variant where
  "rx_125 = \<lparr>rv_clk = 125000000, rv_rates = [1000, 500, 250], rv_block = 128, rv_limit = 1024, rv_grams = 12, rv_iface = False\<rparr>"

definition rx_122_88 :: rx_variant where
  "rx_122_88 = \<lparr>rv_clk = 122880000, rv_rates = [1280, 640, 320, 160], rv_block = 256, rv_limit = 2048, rv_grams = 25, rv_iface = True\<rparr>"

text \<open>The globals, the physical address of the configuration page, and the buffer for datagrams.\<close>

record rx = dev +
  rcvrs :: nat
  enabled :: bool
  active :: bool
  page :: nat
  inbuf :: "u8 list"

definition rx_start :: rx where
  "rx_start = \<lparr>cfg = (\<lambda>_. 0), log = [], rcvrs = 1, enabled = False, active = False, page = 0, inbuf = replicate 1032 0\<rparr>"

section \<open>Start\<close>

text \<open>\<open>for(i = 0; i < 8; ++i) { \<dots> chan |= (number - 1) << i; }\<close>\<close>

fun rx_chan :: "nat \<Rightarrow> string list \<Rightarrow> u8 \<Rightarrow> u8 option" where
  "rx_chan i [] chan = Some chan"
| "rx_chan i (arg # args) chan =
    (case number_arg 1 2 arg of None \<Rightarrow> None | Some number \<Rightarrow> rx_chan (i + 1) args (chan OR push_bit i (word_of_int (number - 1))))"

definition rx_args :: "rx_variant \<Rightarrow> string list \<Rightarrow> u8 option" where
  "rx_args v args =
    (if rv_iface v then (if length args = 9 then rx_chan 0 (tl args) 0 else None)
     else if length args = 8 then rx_chan 0 args 0 else None)"

definition rx_page :: "rx_variant \<Rightarrow> string list \<Rightarrow> nat" where
  "rx_page v args = (if rv_iface v \<and> hd args \<noteq> ''eth0'' then 0x80000000 else 0x40000000)"

definition phase8 :: "rx_variant \<Rightarrow> u32 \<Rightarrow> u32" where
  "phase8 v freq = dds_word (of_int (rv_clk v)) (uint freq)"

definition freq_reg :: "nat \<Rightarrow> nat" where "freq_reg k = 4 + 4 * k"

definition rx_init :: "rx_variant \<Rightarrow> string list \<Rightarrow> rx \<Rightarrow> rx option" where
  "rx_init v args s =
    do { chan \<leftarrow> rx_args v args;
         let s = s\<lparr>page := rx_page v args\<rparr>;
         let s = fold (\<lambda>i. put32 (freq_reg i) (phase8 v 600000)) [0..<8] s;
         let s = put16 2 (rv_rates v ! 0) s;
         Some (put8 1 chan s) }"

section \<open>Frames of the host\<close>

definition freq_low :: u32 where "freq_low = 0"
definition freq_high :: u32 where "freq_high = 61440000"

text \<open>The receiver whose frequency a frame sets.\<close>

definition rx_index :: "u8 \<Rightarrow> nat option" where
  "rx_index code =
    (if code = 4 \<or> code = 5 then Some 0 else if code = 6 \<or> code = 7 then Some 1
     else if code = 8 \<or> code = 9 then Some 2 else if code = 10 \<or> code = 11 then Some 3
     else if code = 12 \<or> code = 13 then Some 4 else if code = 14 \<or> code = 15 then Some 5
     else if code = 16 \<or> code = 17 then Some 6 else if code = 36 \<or> code = 37 then Some 7
     else None)"

definition rx_config :: "rx_variant \<Rightarrow> u8 list \<Rightarrow> rx \<Rightarrow> rx" where
  "rx_config v frame s =
    (let s = s\<lparr>rcvrs := unat (drop_bit 3 (frame ! 4) AND 7) + 1\<rparr>;
         code = unat (frame ! 1 AND 3)
     in if code < length (rv_rates v) then put16 2 (rv_rates v ! code) s else s)"

definition rx_frequency :: "rx_variant \<Rightarrow> nat \<Rightarrow> u8 list \<Rightarrow> rx \<Rightarrow> rx" where
  "rx_frequency v k frame s =
    (let freq = of_be32 [frame ! 1, frame ! 2, frame ! 3, frame ! 4]
     in if freq < freq_low \<or> freq > freq_high then s else put32 (freq_reg k) (phase8 v freq) s)"

definition rx_process_ep2 :: "rx_variant \<Rightarrow> u8 list \<Rightarrow> rx \<Rightarrow> rx" where
  "rx_process_ep2 v frame s =
    (if frame ! 0 = 0 \<or> frame ! 0 = 1 then rx_config v frame s
     else case rx_index (frame ! 0) of Some k \<Rightarrow> rx_frequency v k frame s | None \<Rightarrow> s)"

section \<open>Datagrams of the host\<close>

text \<open>A message: the successive values of \<open>active_thread\<close> while the server waits for the thread, and the datagram.
  \<open>mac\<close> is the hardware address of the interface.\<close>

type_synonym rx_msg = "(nat \<Rightarrow> bool) \<times> u8 list"

definition rx_code :: "rx \<Rightarrow> u32" where
  "rx_code s = of_le32 (take 4 (inbuf s))"

definition rx_discovery :: "u8 list \<Rightarrow> rx \<Rightarrow> rx" where
  "rx_discovery mac s =
    (let reply = [0xef, 0xfe, 2 + of_bool (active s)] @ mac @ [25, 1] @ [82, 95, 80, 73, 84, 65, 89, 65, 8];
         s = s\<lparr>inbuf := blit (blit (inbuf s) 0 (replicate 60 0)) 0 reply\<rparr>
     in emit [Send (take 60 (inbuf s))] s)"

definition rx_stop :: "(nat \<Rightarrow> bool) \<Rightarrow> rx \<Rightarrow> rx option" where
  "rx_stop flag s =
    (let s = s\<lparr>enabled := False\<rparr>
     in if active s then do { t \<leftarrow> await_clear flag 0; Some (s\<lparr>active := False\<rparr>) } else Some s)"

definition rx_begin :: "(nat \<Rightarrow> bool) \<Rightarrow> rx \<Rightarrow> rx option" where
  "rx_begin flag s = do { s \<leftarrow> rx_stop flag s; Some (s\<lparr>enabled := True, active := True\<rparr>) }"

definition rx_message :: "rx_variant \<Rightarrow> u8 list \<Rightarrow> rx_msg \<Rightarrow> rx \<Rightarrow> rx option" where
  "rx_message v mac msg s =
    (let s = s\<lparr>inbuf := blit (inbuf s) 0 (take 1032 (snd msg))\<rparr>; code = rx_code s
     in if code = 0x0201feef
        then Some (rx_process_ep2 v (drop 523 (inbuf s)) (rx_process_ep2 v (drop 11 (inbuf s)) s))
        else if code = 0x0002feef then Some (rx_discovery mac s)
        else if code = 0x0004feef then rx_stop (fst msg) s
        else if code = 0x0104feef \<or> code = 0x0204feef \<or> code = 0x0304feef then rx_begin (fst msg) s
        else Some s)"

definition rx_main :: "rx_variant \<Rightarrow> u8 list \<Rightarrow> string list \<Rightarrow> rx_msg list \<Rightarrow> rx option" where
  "rx_main v mac args msgs = do { s \<leftarrow> rx_init v args rx_start; run_all (rx_message v mac) msgs s }"

section \<open>The stream thread\<close>

text \<open>The local variables, and what a round reads: the counter (once for the overflow test, then while it waits) and the FIFO.\<close>

record rx_ep6 =
  rx_ho :: nat
  rx_count :: u32
  outbuf :: "u8 list"

record rx_io =
  rx_cntr :: "nat \<Rightarrow> u16"
  rx_fifo :: "u8 list"

definition rx_header :: "u8 list" where
  "rx_header =
    [127, 127, 127, 0, 0, 33, 17, 25,
     127, 127, 127, 8, 0, 0, 0, 0,
     127, 127, 127, 16, 0, 0, 0, 0,
     127, 127, 127, 24, 0, 0, 0, 0,
     127, 127, 127, 32, 66, 66, 66, 66]"

definition rx_ep6_init :: "rx_variant \<Rightarrow> rx \<Rightarrow> rx \<times> rx_ep6" where
  "rx_ep6_init v h =
    (pulse8 0 1 h,
     \<lparr>rx_ho = 0, rx_count = 0, outbuf = concat (replicate (rv_grams v) ([0xef, 0xfe, 1, 6] @ replicate 1028 0))\<rparr>)"

definition rx_size :: "nat \<Rightarrow> nat" where "rx_size r = r * 6 + 2"
definition rx_n :: "nat \<Rightarrow> nat" where "rx_n r = 504 div rx_size r"
definition rx_m :: "rx_variant \<Rightarrow> nat \<Rightarrow> nat" where "rx_m v r = rv_block v div rx_n r"

fun rx_counters :: "nat \<Rightarrow> nat \<Rightarrow> rx_ep6 \<Rightarrow> rx_ep6" where
  "rx_counters 0 i s = s"
| "rx_counters (Suc m) i s =
    rx_counters m (i + 1) (s\<lparr>outbuf := blit (outbuf s) (i * 1032 + 4) (be32 (rx_count s)), rx_count := rx_count s + 1\<rparr>)"

text \<open>\<open>n\<close> passes of the loop over \<open>j\<close>: the bytes \<open>sz - 2\<close> of each group of 48.\<close>

fun rx_frames :: "nat \<Rightarrow> u8 list \<Rightarrow> nat \<Rightarrow> nat \<Rightarrow> nat \<Rightarrow> u8 list \<Rightarrow> u8 list" where
  "rx_frames sz data 0 data_offset p b = b"
| "rx_frames sz data (Suc n) data_offset p b =
    rx_frames sz data n (data_offset + 48) (p + sz) (blit b p (chunk data_offset (sz - 2) data))"

text \<open>\<open>q\<close> passes of the loop over the half datagrams from \<open>i\<close> on.\<close>

fun rx_halves :: "nat \<Rightarrow> nat \<Rightarrow> u8 list \<Rightarrow> nat \<Rightarrow> nat \<Rightarrow> nat \<Rightarrow> rx_ep6 \<Rightarrow> rx_ep6" where
  "rx_halves sz n data 0 i data_offset s = s"
| "rx_halves sz n data (Suc q) i data_offset s =
    (let b = blit (outbuf s) (half_pos i) (chunk (rx_ho s) 8 rx_header);
         b = blit b (half_pos i + 8) (replicate 504 0);
         b = rx_frames sz data n data_offset (half_pos i + 8) b
     in rx_halves sz n data q (i + 1) (data_offset + n * 48) (s\<lparr>rx_ho := next_header (rx_ho s), outbuf := b\<rparr>))"

definition rx_round :: "rx_variant \<Rightarrow> rx_io \<Rightarrow> rx \<Rightarrow> rx_ep6 \<Rightarrow> (rx \<times> rx_ep6 \<times> u8 list list) option" where
  "rx_round v io h s =
    (let sz = rx_size (rcvrs h); n = rx_n (rcvrs h); m = rx_m v (rcvrs h);
         h1 = (if unat (rx_cntr io 0) \<ge> rv_limit v then pulse8 0 1 h else h)
     in do { t \<leftarrow> await (rx_cntr io) (m * n * 2) 1;
             let data = take (m * n * 96) (rx_fifo io);
             let s1 = rx_counters m 0 s;
             let s2 = rx_halves sz n data (m * 2) 0 0 s1;
             Some (h1, s2, map (\<lambda>i. chunk (i * 1032) 1032 (outbuf s2)) [0..<m]) })"

text \<open>The thread: before each round the state that the main loop has left; it ends when \<open>enable_thread\<close> is cleared.\<close>

fun rx_thread :: "rx_variant \<Rightarrow> (rx \<times> rx_io) list \<Rightarrow> rx_ep6 \<Rightarrow> (rx_ep6 \<times> u8 list list) option" where
  "rx_thread v [] s = Some (s, [])"
| "rx_thread v ((h, io) # rounds) s =
    (if \<not> enabled h then Some (s, [])
     else do { (h1, s1, dgs) \<leftarrow> rx_round v io h s; (s2, rest) \<leftarrow> rx_thread v rounds s1; Some (s2, dgs @ rest) })"

end
