(* ===== verification/SdrRxProps.thy ===== *)
theory SdrRxProps imports SdrRx begin

text \<open>
  Properties of sdr-receiver-hpsdr.c: what every datagram of the stream contains, for any settings that the
  host can make.  The loops of the thread, which copy bytes around in one buffer, are shown to
  implement a description of the datagrams as lists.
\<close>

section \<open>The buffer as a list of datagrams\<close>

lemma blit_concat:
  assumes "\<forall>g \<in> set gs. length g = L" and "i < length gs" and "off + length src \<le> L"
  shows "blit (concat gs) (i * L + off) src = concat (gs[i := blit (gs ! i) off src])"
proof -
  obtain xs g ys where gs: "gs = xs @ g # ys" "length xs = i" using id_take_nth_drop [OF assms(2)] assms(2) by (metis length_take min.absorb4)
  have "sum_list (map length xs) = i * L" using assms(1) gs by (induction xs arbitrary: i gs) auto
  then have l: "length (concat xs) = i * L" by (simp add: length_concat)
  then show ?thesis using assms gs by (simp add: blit_def nth_append list_update_append)
qed

lemma chunk_concat:
  assumes "\<forall>g \<in> set gs. length g = L" and "i < length gs"
  shows "chunk (i * L) L (concat gs) = gs ! i"
proof -
  obtain xs g ys where gs: "gs = xs @ g # ys" "length xs = i" using id_take_nth_drop [OF assms(2)] assms(2) by (metis length_take min.absorb4)
  have "sum_list (map length xs) = i * L" using assms(1) gs by (induction xs arbitrary: i gs) auto
  then have "length (concat xs) = i * L" by (simp add: length_concat)
  then show ?thesis using assms gs by (simp add: chunk_def nth_append)
qed

section \<open>What the datagrams should be\<close>

text \<open>A frame: the samples of \<open>r\<close> receivers from group \<open>j\<close> of the FIFO, and an empty microphone sample.
  A half: the header, as many frames as fit, zeros.\<close>

definition frame_spec :: "nat \<Rightarrow> u8 list \<Rightarrow> nat \<Rightarrow> u8 list" where
  "frame_spec r fifo j = take (6 * r) (drop (48 * j) fifo) @ [0, 0]"

definition half_spec :: "nat \<Rightarrow> u8 list \<Rightarrow> nat \<Rightarrow> nat \<Rightarrow> u8 list" where
  "half_spec r fifo ho j =
    take 8 (drop ho rx_header) @ concat (map (\<lambda>k. frame_spec r fifo (j + k)) [0..<rx_n r]) @ replicate (504 - rx_n r * rx_size r) 0"

definition gram_spec :: "nat \<Rightarrow> u8 list \<Rightarrow> nat \<Rightarrow> u32 \<Rightarrow> nat \<Rightarrow> u8 list" where
  "gram_spec r fifo ho count d =
    [0xef, 0xfe, 1, 6] @ be32 (count + of_nat d) @
    half_spec r fifo ((next_header ^^ (2 * d)) ho) (2 * d * rx_n r) @
    half_spec r fifo ((next_header ^^ (2 * d + 1)) ho) ((2 * d + 1) * rx_n r)"

text \<open>The datagrams of the whole thread: rounds of \<open>rx_m\<close> datagrams with consecutive numbers and headers.\<close>

fun stream_spec :: "rx_variant \<Rightarrow> (nat \<times> u8 list) list \<Rightarrow> nat \<Rightarrow> u32 \<Rightarrow> u8 list list" where
  "stream_spec v [] ho count = []"
| "stream_spec v ((r, fifo) # rounds) ho count =
    map (gram_spec r fifo ho count) [0..<rx_m v r] @
    stream_spec v rounds ((next_header ^^ (2 * rx_m v r)) ho) (count + of_nat (rx_m v r))"

section \<open>The loops implement it\<close>

lemma rx_frames_list:
  assumes "2 \<le> sz" and "off + 48 * n \<le> length data" and "sz \<le> 50"
  shows "rx_frames sz data n off (length pre) (pre @ replicate (n * sz) 0 @ post) =
    pre @ concat (map (\<lambda>k. take (sz - 2) (drop (off + 48 * k) data) @ [0, 0]) [0..<n]) @ post"
  using assms(2)
proof (induction n arbitrary: off pre)
  case (Suc n)
  define c where "c = take (sz - 2) (drop off data)"
  have lc: "length c = sz - 2" using Suc.prems assms(3) by (simp add: c_def)
  have z: "replicate (Suc n * sz) (0 :: u8) = replicate (sz - 2) 0 @ [0, 0] @ replicate (n * sz) 0"
  proof -
    have "Suc n * sz = (sz - 2) + (2 + n * sz)" using assms(1) by simp
    then show ?thesis by (simp only: replicate_add) (simp add: numeral_2_eq_2)
  qed
  have "blit (pre @ replicate (Suc n * sz) 0 @ post) (length pre) (chunk off (sz - 2) data) = (pre @ c @ [0, 0]) @ replicate (n * sz) 0 @ post"
    unfolding z using lc by (simp add: blit_def chunk_def c_def)
  moreover have "length pre + sz = length (pre @ c @ [0, 0])" using lc assms(1) by simp
  ultimately have "rx_frames sz data (Suc n) off (length pre) (pre @ replicate (Suc n * sz) 0 @ post) =
      rx_frames sz data n (off + 48) (length (pre @ c @ [0, 0])) ((pre @ c @ [0, 0]) @ replicate (n * sz) 0 @ post)"
    by (simp only: rx_frames.simps)
  also have "\<dots> = (pre @ c @ [0, 0]) @ concat (map (\<lambda>k. take (sz - 2) (drop (off + 48 + 48 * k) data) @ [0, 0]) [0..<n]) @ post"
    by (rule Suc.IH) (use Suc.prems in simp)
  also have "map (\<lambda>k. take (sz - 2) (drop (off + 48 + 48 * k) data) @ [0, 0]) [0..<n] =
      tl (map (\<lambda>k. take (sz - 2) (drop (off + 48 * k) data) @ [0, 0]) [0..<Suc n])"
    by (simp add: upt_conv_Cons map_Suc_upt [symmetric] comp_def add.assoc del: upt_Suc)
  finally have "rx_frames sz data (Suc n) off (length pre) (pre @ replicate (Suc n * sz) 0 @ post) =
      (pre @ c @ [0, 0]) @ concat (tl (map (\<lambda>k. take (sz - 2) (drop (off + 48 * k) data) @ [0, 0]) [0..<Suc n])) @ post" .
  moreover have "map (\<lambda>k. take (sz - 2) (drop (off + 48 * k) data) @ [0, 0]) [0..<Suc n] =
      (c @ [0, 0]) # map (\<lambda>k. take (sz - 2) (drop (off + 48 + 48 * k) data) @ [0, 0]) [0..<n]"
    by (simp add: upt_conv_Cons map_Suc_upt [symmetric] c_def comp_def add.assoc del: upt_Suc)
  ultimately show ?case by (simp only: list.sel concat.simps append_assoc)
qed simp

lemma rx_geometry:
  assumes "1 \<le> r" and "r \<le> 8" and "v = rx_125 \<or> v = rx_122_88"
  shows "rx_n r * rx_size r \<le> 504" "1 \<le> rx_n r" "rx_size r \<le> 50" "rx_m v r \<le> rv_grams v" "1 \<le> rx_m v r" "rx_m v r * rx_n r \<le> rv_block v"
  using receivers_cases [OF assms(1,2)] assms(3)
  by (auto simp: rx_n_def rx_m_def rx_size_def rx_125_def rx_122_88_def)

lemma half_step:
  assumes r: "1 \<le> r" "r \<le> 8" and fit: "48 * (j + rx_n r) \<le> length fifo" and pos: "pos + 512 \<le> length b" and ho: "header_ok ho"
  shows "rx_frames (rx_size r) fifo (rx_n r) (48 * j) (pos + 8)
      (blit (blit b pos (chunk ho 8 rx_header)) (pos + 8) (replicate 504 0)) = blit b pos (half_spec r fifo ho j)"
    and "length (half_spec r fifo ho j) = 512"
proof -
  have g: "rx_n r * rx_size r \<le> 504" "rx_size r \<le> 50" using rx_geometry [OF r, of rx_125] by simp_all
  define hd where "hd = take 8 (drop ho rx_header)"
  have hd: "length hd = 8" using ho by (auto simp: hd_def header_ok_def rx_header_def)
  have "replicate 504 (0 :: u8) = replicate (rx_n r * rx_size r) 0 @ replicate (504 - rx_n r * rx_size r) 0"
    using g(1) by (simp flip: replicate_add)
  then have b: "blit (blit b pos (chunk ho 8 rx_header)) (pos + 8) (replicate 504 0) =
      (take pos b @ hd) @ replicate (rx_n r * rx_size r) 0 @ (replicate (504 - rx_n r * rx_size r) 0 @ drop (pos + 512) b)"
    using pos hd g(1) by (simp add: blit_def chunk_def hd_def [symmetric] add.commute)
  have len: "length (take pos b @ hd) = pos + 8" using pos hd by simp
  have each: "length (frame_spec r fifo (j + k)) = rx_size r" if "k < rx_n r" for k
  proof -
    have "48 * (j + k) + 48 \<le> 48 * (j + rx_n r)" using that by simp
    then have "48 * (j + k) + 48 \<le> length fifo" using fit by (rule order_trans)
    then show ?thesis using r by (simp add: frame_spec_def rx_size_def)
  qed
  then have "map length (map (\<lambda>k. frame_spec r fifo (j + k)) [0..<rx_n r]) = replicate (rx_n r) (rx_size r)"
    by (auto intro: nth_equalityI)
  then have lf: "length (concat (map (\<lambda>k. frame_spec r fifo (j + k)) [0..<rx_n r])) = rx_n r * rx_size r"
    by (simp only: length_concat sum_list_replicate of_nat_id)
  show l: "length (half_spec r fifo ho j) = 512"
    unfolding half_spec_def hd_def [symmetric] length_append lf hd using g(1) by simp
  let ?post = "replicate (504 - rx_n r * rx_size r) 0 @ drop (pos + 512) b"
  have "rx_frames (rx_size r) fifo (rx_n r) (48 * j) (length (take pos b @ hd)) ((take pos b @ hd) @ replicate (rx_n r * rx_size r) 0 @ ?post) =
    (take pos b @ hd) @ concat (map (\<lambda>k. frame_spec r fifo (j + k)) [0..<rx_n r]) @ ?post"
    by (subst rx_frames_list) (use fit g in \<open>simp_all add: frame_spec_def rx_size_def distrib_left mult.commute\<close>)
  then have "rx_frames (rx_size r) fifo (rx_n r) (48 * j) (pos + 8) (blit (blit b pos (chunk ho 8 rx_header)) (pos + 8) (replicate 504 0)) =
    (take pos b @ hd) @ concat (map (\<lambda>k. frame_spec r fifo (j + k)) [0..<rx_n r]) @ ?post"
    unfolding b len .
  also have "\<dots> = blit b pos (half_spec r fifo ho j)"
    unfolding blit_def l by (simp add: half_spec_def hd_def)
  finally show "rx_frames (rx_size r) fifo (rx_n r) (48 * j) (pos + 8)
      (blit (blit b pos (chunk ho 8 rx_header)) (pos + 8) (replicate 504 0)) = blit b pos (half_spec r fifo ho j)" .
qed

lemma rx_halves_step:
  assumes "1 \<le> r" "r \<le> 8" and "48 * (j + rx_n r) \<le> length fifo" and "half_pos i + 512 \<le> length (outbuf s)" and "header_ok (rx_ho s)"
  shows "rx_halves (rx_size r) (rx_n r) fifo (Suc q) i (48 * j) s =
    rx_halves (rx_size r) (rx_n r) fifo q (i + 1) (48 * (j + rx_n r))
      (s\<lparr>rx_ho := next_header (rx_ho s), outbuf := blit (outbuf s) (half_pos i) (half_spec r fifo (rx_ho s) j)\<rparr>)"
proof -
  have "48 * j + rx_n r * 48 = 48 * (j + rx_n r)" by simp
  then show ?thesis by (simp only: rx_halves.simps Let_def half_step(1) [OF assms])
qed

text \<open>Datagrams \<open>gs\<close> in the buffer, as many as it holds.\<close>

definition holds :: "rx_variant \<Rightarrow> u8 list list \<Rightarrow> rx_ep6 \<Rightarrow> bool" where
  "holds v gs s \<longleftrightarrow> outbuf s = concat gs \<and> length gs = rv_grams v \<and>
    (\<forall>g \<in> set gs. length g = 1032 \<and> take 4 g = [0xef, 0xfe, 1, 6]) \<and> header_ok (rx_ho s)"

lemma holds_update:
  assumes "holds v gs s" and "d < length gs" and "off + length src \<le> 1032" and "4 \<le> off"
  shows "blit (outbuf s) (d * 1032 + off) src = concat (gs[d := blit (gs ! d) off src])"
    and "\<forall>g \<in> set (gs[d := blit (gs ! d) off src]). length g = 1032 \<and> take 4 g = [0xef, 0xfe, 1, 6]"
proof -
  have gs: "\<forall>g \<in> set gs. length g = 1032 \<and> take 4 g = [0xef, 0xfe, 1, 6]" "outbuf s = concat gs"
    using assms(1) by (simp_all add: holds_def)
  then show "blit (outbuf s) (d * 1032 + off) src = concat (gs[d := blit (gs ! d) off src])"
    using assms(2,3) by (simp add: blit_concat)
  have "length (gs ! d) = 1032" "take 4 (gs ! d) = [0xef, 0xfe, 1, 6]" using gs(1) assms(2) by simp_all
  then have "length (blit (gs ! d) off src) = 1032 \<and> take 4 (blit (gs ! d) off src) = [0xef, 0xfe, 1, 6]"
    using assms(3,4) by (simp add: blit_def)
  then show "\<forall>g \<in> set (gs[d := blit (gs ! d) off src]). length g = 1032 \<and> take 4 g = [0xef, 0xfe, 1, 6]"
    using gs(1) by (auto dest!: set_update_subset_insert [THEN subsetD])
qed

lemma rx_counters_hold:
  assumes "holds v gs s" and "i + m \<le> rv_grams v"
  shows "\<exists>gs'. holds v gs' (rx_counters m i s) \<and> rx_ho (rx_counters m i s) = rx_ho s \<and> rx_count (rx_counters m i s) = rx_count s + of_nat m \<and>
    (\<forall>d < m. take 8 (gs' ! (i + d)) = [0xef, 0xfe, 1, 6] @ be32 (rx_count s + of_nat d)) \<and>
    (\<forall>d < rv_grams v. d < i \<or> i + m \<le> d \<longrightarrow> gs' ! d = gs ! d)"
  using assms
proof (induction m arbitrary: i s gs)
  case (Suc m)
  let ?gs = "gs[i := blit (gs ! i) 4 (be32 (rx_count s))]"
  define s1 where "s1 = s\<lparr>outbuf := blit (outbuf s) (i * 1032 + 4) (be32 (rx_count s)), rx_count := rx_count s + 1\<rparr>"
  have len: "length gs = rv_grams v" and i: "i < length gs" using Suc.prems by (simp_all add: holds_def)
  have h1: "holds v ?gs s1"
    using holds_update [OF Suc.prems(1) i, of 4 "be32 (rx_count s)"] Suc.prems(1) by (simp add: holds_def s1_def)
  have "i + 1 + m \<le> rv_grams v" using Suc.prems(2) by simp
  from Suc.IH [OF h1 this] obtain gs' where gs': "holds v gs' (rx_counters m (i + 1) s1)" "rx_ho (rx_counters m (i + 1) s1) = rx_ho s1"
    "rx_count (rx_counters m (i + 1) s1) = rx_count s1 + of_nat m"
    "\<And>d. d < m \<Longrightarrow> take 8 (gs' ! (i + 1 + d)) = [0xef, 0xfe, 1, 6] @ be32 (rx_count s1 + of_nat d)"
    "\<And>d. d < rv_grams v \<Longrightarrow> d < i + 1 \<or> i + 1 + m \<le> d \<Longrightarrow> gs' ! d = ?gs ! d" by blast
  have run: "rx_counters (Suc m) i s = rx_counters m (i + 1) s1" by (simp add: s1_def)
  have g: "length (gs ! i) = 1032" "take 4 (gs ! i) = [0xef, 0xfe, 1, 6]" using Suc.prems(1) i by (simp_all add: holds_def)
  have first: "take 8 (gs' ! i) = [0xef, 0xfe, 1, 6] @ be32 (rx_count s)"
    using gs'(5) [of i] i len g by (simp add: blit_def)
  have heads: "take 8 (gs' ! (i + d)) = [0xef, 0xfe, 1, 6] @ be32 (rx_count s + of_nat d)" if "d < Suc m" for d
    using that first gs'(4) [of "d - 1"] by (cases d) (simp_all add: s1_def algebra_simps)
  have rest: "gs' ! d = gs ! d" if "d < rv_grams v" "d < i \<or> i + Suc m \<le> d" for d
    using gs'(5) [of d] that by auto
  show ?case unfolding run using gs'(1-3) heads rest by (intro exI [of _ gs']) (simp add: s1_def)
qed auto

text \<open>Two halves make a datagram.\<close>

lemma rx_halves_gram:
  assumes s: "holds v gs s" and d: "d < rv_grams v" and r: "1 \<le> r" "r \<le> 8" and fit: "48 * (j + 2 * rx_n r) \<le> length fifo"
  shows "\<exists>s'. rx_halves (rx_size r) (rx_n r) fifo (Suc (Suc q)) (2 * d) (48 * j) s =
      rx_halves (rx_size r) (rx_n r) fifo q (2 * (d + 1)) (48 * (j + 2 * rx_n r)) s' \<and> rx_count s' = rx_count s \<and>
    rx_ho s' = next_header (next_header (rx_ho s)) \<and>
    holds v (gs[d := take 8 (gs ! d) @ half_spec r fifo (rx_ho s) j @ half_spec r fifo (next_header (rx_ho s)) (j + rx_n r)]) s'"
proof -
  let ?h0 = "half_spec r fifo (rx_ho s) j" and ?h1 = "half_spec r fifo (next_header (rx_ho s)) (j + rx_n r)"
  have len: "length gs = rv_grams v" "length (outbuf s) = rv_grams v * 1032" and ok: "header_ok (rx_ho s)"
    and g: "length (gs ! d) = 1032" and dl: "d < length gs"
  proof -
    show "length gs = rv_grams v" "header_ok (rx_ho s)" using s by (simp_all add: holds_def)
    then show "d < length gs" using d by simp
    then show "length (gs ! d) = 1032" using s by (simp add: holds_def)
    have "map length gs = replicate (length gs) 1032" using s by (auto simp: holds_def intro: nth_equalityI)
    then show "length (outbuf s) = rv_grams v * 1032" using s by (simp only: holds_def length_concat sum_list_replicate of_nat_id)
  qed
  have d1: "d * 1032 + 1032 \<le> rv_grams v * 1032" using mult_le_mono1 [of "Suc d" "rv_grams v" 1032] d by simp
  have p0: "half_pos (2 * d) = d * 1032 + 8" "half_pos (2 * d + 1) = d * 1032 + 520" by (rule half_pos_even)+
  have f0: "48 * (j + rx_n r) \<le> length fifo" "48 * (j + rx_n r + rx_n r) \<le> length fifo" using fit by simp_all
  have l0: "length ?h0 = 512" by (rule half_step(2) [OF r f0(1) _ ok, of 0 "replicate 512 0"]) simp
  have l1: "length ?h1 = 512" by (rule half_step(2) [OF r f0(2) _ next_header_ok [OF ok], of 0 "replicate 512 0"]) simp
  define b0 where "b0 = blit (outbuf s) (d * 1032 + 8) ?h0"
  have lb0: "length b0 = rv_grams v * 1032" using l0 d1 len by (simp add: b0_def)
  define s1 where "s1 = s\<lparr>rx_ho := next_header (rx_ho s), outbuf := b0\<rparr>"
  define s2 where "s2 = s1\<lparr>rx_ho := next_header (rx_ho s1), outbuf := blit b0 (d * 1032 + 520) ?h1\<rparr>"
  have st1: "rx_halves (rx_size r) (rx_n r) fifo (Suc (Suc q)) (2 * d) (48 * j) s =
      rx_halves (rx_size r) (rx_n r) fifo (Suc q) (2 * d + 1) (48 * (j + rx_n r)) s1"
    by (subst rx_halves_step [OF r f0(1)]) (use d1 len(2) ok in \<open>simp_all add: p0 s1_def b0_def del: rx_halves.simps\<close>)
  have "rx_halves (rx_size r) (rx_n r) fifo (Suc q) (2 * d + 1) (48 * (j + rx_n r)) s1 =
      rx_halves (rx_size r) (rx_n r) fifo q (2 * d + 1 + 1) (48 * (j + rx_n r + rx_n r)) s2"
    by (subst rx_halves_step [OF r f0(2)])
      (use d1 lb0 next_header_ok [OF ok] in \<open>simp_all only: p0 s2_def s1_def rx_ep6.simps, simp_all\<close>)
  moreover have "2 * d + 1 + 1 = 2 * (d + 1)" "j + rx_n r + rx_n r = j + 2 * rx_n r" by simp_all
  ultimately have st2: "rx_halves (rx_size r) (rx_n r) fifo (Suc q) (2 * d + 1) (48 * (j + rx_n r)) s1 =
      rx_halves (rx_size r) (rx_n r) fifo q (2 * (d + 1)) (48 * (j + 2 * rx_n r)) s2" by (simp only:)
  have a: "b0 = concat (gs[d := blit (gs ! d) 8 ?h0])" "holds v (gs[d := blit (gs ! d) 8 ?h0]) s1"
    using holds_update [OF s dl, of 8 ?h0] l0 len next_header_ok [OF ok] by (simp_all add: holds_def s1_def b0_def)
  have "holds v ((gs[d := blit (gs ! d) 8 ?h0])[d := blit (blit (gs ! d) 8 ?h0) 520 ?h1]) s2"
    using holds_update [OF a(2), of d 520 ?h1] l1 dl len next_header_ok [OF next_header_ok [OF ok]]
    by (simp add: holds_def s2_def s1_def)
  moreover have "blit (blit (gs ! d) 8 ?h0) 520 ?h1 = take 8 (gs ! d) @ ?h0 @ ?h1"
    using g l0 l1 by (simp add: blit_def)
  ultimately have "holds v (gs[d := take 8 (gs ! d) @ ?h0 @ ?h1]) s2" by simp
  then show ?thesis unfolding st1 st2 by (intro exI [of _ s2]) (simp add: s2_def s1_def)
qed

lemma rx_halves_hold:
  assumes "holds v gs s" and "d + m \<le> rv_grams v" and r: "1 \<le> r" "r \<le> 8" and "48 * (j + m * (2 * rx_n r)) \<le> length fifo"
  shows "\<exists>gs' s'. rx_halves (rx_size r) (rx_n r) fifo (m * 2) (2 * d) (48 * j) s = s' \<and> holds v gs' s' \<and> rx_count s' = rx_count s \<and>
    rx_ho s' = (next_header ^^ (2 * m)) (rx_ho s) \<and>
    (\<forall>e < m. gs' ! (d + e) = take 8 (gs ! (d + e)) @ half_spec r fifo ((next_header ^^ (2 * e)) (rx_ho s)) (j + 2 * e * rx_n r) @
      half_spec r fifo ((next_header ^^ (2 * e + 1)) (rx_ho s)) (j + (2 * e + 1) * rx_n r)) \<and>
    (\<forall>e < d. gs' ! e = gs ! e)"
  using assms(1,2,5)
proof (induction m arbitrary: gs s d j)
  case (Suc m)
  have d: "d < rv_grams v" "d + 1 + m \<le> rv_grams v" using Suc.prems(2) by simp_all
  have fit: "48 * (j + 2 * rx_n r) \<le> length fifo" "48 * (j + 2 * rx_n r + m * (2 * rx_n r)) \<le> length fifo"
    using Suc.prems(3) by (simp_all add: distrib_left algebra_simps)
  let ?g = "take 8 (gs ! d) @ half_spec r fifo (rx_ho s) j @ half_spec r fifo (next_header (rx_ho s)) (j + rx_n r)"
  obtain s1 where s1: "rx_halves (rx_size r) (rx_n r) fifo (Suc (Suc (m * 2))) (2 * d) (48 * j) s =
      rx_halves (rx_size r) (rx_n r) fifo (m * 2) (2 * (d + 1)) (48 * (j + 2 * rx_n r)) s1" "rx_count s1 = rx_count s"
    "rx_ho s1 = next_header (next_header (rx_ho s))" "holds v (gs[d := ?g]) s1"
    using rx_halves_gram [OF Suc.prems(1) d(1) r fit(1), of "m * 2"] by blast
  obtain gs' s' where s': "rx_halves (rx_size r) (rx_n r) fifo (m * 2) (2 * (d + 1)) (48 * (j + 2 * rx_n r)) s1 = s'" "holds v gs' s'"
    "rx_count s' = rx_count s1" "rx_ho s' = (next_header ^^ (2 * m)) (rx_ho s1)"
    and each: "\<And>e. e < m \<Longrightarrow> gs' ! (d + 1 + e) = take 8 (gs[d := ?g] ! (d + 1 + e)) @
      half_spec r fifo ((next_header ^^ (2 * e)) (rx_ho s1)) (j + 2 * rx_n r + 2 * e * rx_n r) @
      half_spec r fifo ((next_header ^^ (2 * e + 1)) (rx_ho s1)) (j + 2 * rx_n r + (2 * e + 1) * rx_n r)"
    and before: "\<And>e. e < d + 1 \<Longrightarrow> gs' ! e = gs[d := ?g] ! e"
    using Suc.IH [OF s1(4) d(2) fit(2)] by blast
  have len: "d < length gs" using Suc.prems(1) d by (simp add: holds_def)
  have grams: "gs' ! (d + e) = take 8 (gs ! (d + e)) @ half_spec r fifo ((next_header ^^ (2 * e)) (rx_ho s)) (j + 2 * e * rx_n r) @
      half_spec r fifo ((next_header ^^ (2 * e + 1)) (rx_ho s)) (j + (2 * e + 1) * rx_n r)" if "e < Suc m" for e
  proof (cases e)
    case 0
    then show ?thesis using before [of d] len by simp
  next
    case (Suc e')
    then show ?thesis using each [of e'] that s1(3) by (simp add: funpow_swap1 algebra_simps)
  qed
  have "Suc m * 2 = Suc (Suc (m * 2))" "next_header (next_header (rx_ho s)) = (next_header ^^ 2) (rx_ho s)" by (simp_all add: numeral_2_eq_2)
  then show ?case
    using s1(1-3) s' grams before len
    by (intro exI [of _ gs'] exI [of _ s']) (simp add: funpow_swap1 del: rx_halves.simps)
qed auto

section \<open>A round and the thread\<close>

text \<open>A round gets its samples: the counter reaches the number of words needed, and the FIFO delivers the bytes that are read.\<close>

definition rx_fed :: "rx_variant \<Rightarrow> rx \<Rightarrow> rx_io \<Rightarrow> bool" where
  "rx_fed v h io \<longleftrightarrow>
    (\<exists>t. rx_m v (rcvrs h) * rx_n (rcvrs h) * 2 \<le> unat (rx_cntr io (1 + t))) \<and>
    length (rx_fifo io) = rx_m v (rcvrs h) * rx_n (rcvrs h) * 96"

definition known_rx :: "rx_variant \<Rightarrow> bool" where
  "known_rx v \<longleftrightarrow> v = rx_125 \<or> v = rx_122_88"

lemma rx_round_spec:
  assumes v: "known_rx v" and r: "1 \<le> rcvrs h" "rcvrs h \<le> 8" and fed: "rx_fed v h io" and s: "holds v gs s"
  shows "\<exists>h1 s' gs'. rx_round v io h s = Some (h1, s', map (gram_spec (rcvrs h) (rx_fifo io) (rx_ho s) (rx_count s)) [0..<rx_m v (rcvrs h)]) \<and>
    holds v gs' s' \<and> rx_count s' = rx_count s + of_nat (rx_m v (rcvrs h)) \<and> rx_ho s' = (next_header ^^ (2 * rx_m v (rcvrs h))) (rx_ho s)"
proof -
  let ?r = "rcvrs h" let ?m = "rx_m v ?r" let ?n = "rx_n ?r" let ?fifo = "rx_fifo io"
  have m: "?m \<le> rv_grams v" using rx_geometry(4) [OF r] v by (simp add: known_rx_def)
  obtain t where t: "await (rx_cntr io) (?m * ?n * 2) 1 = Some t" using fed await_returns unfolding rx_fed_def by blast
  have len: "length ?fifo = ?m * ?n * 96" using fed by (simp add: rx_fed_def)
  obtain gs1 where gs1: "holds v gs1 (rx_counters ?m 0 s)" "rx_ho (rx_counters ?m 0 s) = rx_ho s" "rx_count (rx_counters ?m 0 s) = rx_count s + of_nat ?m"
    and heads: "\<And>d. d < ?m \<Longrightarrow> take 8 (gs1 ! d) = [0xef, 0xfe, 1, 6] @ be32 (rx_count s + of_nat d)"
    using rx_counters_hold [OF s, of 0 ?m] m by auto
  obtain gs2 s2 where s2: "rx_halves (rx_size ?r) ?n ?fifo (?m * 2) (2 * 0) (48 * 0) (rx_counters ?m 0 s) = s2" "holds v gs2 s2"
    "rx_count s2 = rx_count (rx_counters ?m 0 s)" "rx_ho s2 = (next_header ^^ (2 * ?m)) (rx_ho (rx_counters ?m 0 s))"
    and grams: "\<And>e. e < ?m \<Longrightarrow> gs2 ! (0 + e) = take 8 (gs1 ! (0 + e)) @ half_spec ?r ?fifo ((next_header ^^ (2 * e)) (rx_ho (rx_counters ?m 0 s))) (0 + 2 * e * ?n) @
      half_spec ?r ?fifo ((next_header ^^ (2 * e + 1)) (rx_ho (rx_counters ?m 0 s))) (0 + (2 * e + 1) * ?n)"
    using rx_halves_hold [OF gs1(1), of 0 ?m ?r 0 ?fifo] m r len by (auto simp: mult.assoc)
  have each: "chunk (d * 1032) 1032 (outbuf s2) = gram_spec ?r ?fifo (rx_ho s) (rx_count s) d" if d: "d < ?m" for d
  proof -
    have "chunk (d * 1032) 1032 (outbuf s2) = gs2 ! d"
      using s2(2) d m chunk_concat [of gs2 1032 d] by (simp add: holds_def)
    then show ?thesis using grams [OF d] heads [OF d] gs1(2) by (simp add: gram_spec_def)
  qed
  have "rx_round v io h s = Some (if unat (rx_cntr io 0) \<ge> rv_limit v then pulse8 0 1 h else h, s2,
      map (gram_spec ?r ?fifo (rx_ho s) (rx_count s)) [0..<?m])"
    using t s2(1) len each by (simp add: rx_round_def Let_def)
  then show ?thesis using s2 gs1 by (intro exI conjI) (assumption | simp)+
qed

lemma rx_thread_spec:
  assumes v: "known_rx v" and "\<forall>(h, io) \<in> set rounds. enabled h \<and> 1 \<le> rcvrs h \<and> rcvrs h \<le> 8 \<and> rx_fed v h io" and "holds v gs s"
  shows "\<exists>s'. rx_thread v rounds s = Some (s', stream_spec v (map (\<lambda>(h, io). (rcvrs h, rx_fifo io)) rounds) (rx_ho s) (rx_count s))"
  using assms(2-)
proof (induction rounds arbitrary: gs s)
  case (Cons round rounds)
  obtain h io where hio: "round = (h, io)" by (cases round)
  with Cons.prems obtain h1 s1 gs1 where s1: "rx_round v io h s = Some (h1, s1, map (gram_spec (rcvrs h) (rx_fifo io) (rx_ho s) (rx_count s)) [0..<rx_m v (rcvrs h)])"
    "holds v gs1 s1" "rx_count s1 = rx_count s + of_nat (rx_m v (rcvrs h))" "rx_ho s1 = (next_header ^^ (2 * rx_m v (rcvrs h))) (rx_ho s)"
    using rx_round_spec [OF v, of h io gs s] by auto
  then show ?case using Cons.IH [OF _ s1(2)] Cons.prems hio by auto
qed simp

lemma rx_ep6_init_holds: "holds v (replicate (rv_grams v) ([0xef, 0xfe, 1, 6] @ replicate 1028 0)) (snd (rx_ep6_init v h))"
  by (simp add: holds_def rx_ep6_init_def header_ok_def)

section \<open>The settings of the host\<close>

definition rx_ok :: "rx \<Rightarrow> bool" where
  "rx_ok s \<longleftrightarrow> 1 \<le> rcvrs s \<and> rcvrs s \<le> 8 \<and> length (inbuf s) = 1032"

lemma rx_ok_writes: "rx_ok s \<Longrightarrow> rx_ok (put8 a x s)" "rx_ok s \<Longrightarrow> rx_ok (put16 a y s)" "rx_ok s \<Longrightarrow> rx_ok (put32 a z s)"
  "rx_ok s \<Longrightarrow> rx_ok (emit es s)"
  by (simp_all add: rx_ok_def put8_def put16_def put32_def emit_def)

lemma rx_process_ok: "rx_ok s \<Longrightarrow> rx_ok (rx_process_ep2 v frame s)"
proof -
  assume ok: "rx_ok s"
  have "unat (drop_bit 3 (frame ! 4) AND 7 :: u8) < 2 ^ 3" by (rule and_mask_less) (simp add: mask_eq_exp_minus_1)
  then have "rx_ok (s\<lparr>rcvrs := unat (drop_bit 3 (frame ! 4) AND 7) + 1\<rparr>)" using ok by (simp add: rx_ok_def)
  then show ?thesis using ok
    by (auto simp: rx_process_ep2_def rx_config_def rx_frequency_def Let_def intro: rx_ok_writes split: option.split)
qed

lemma rx_message_ok: "rx_ok s \<Longrightarrow> length mac = 6 \<Longrightarrow> rx_message v mac msg s = Some s' \<Longrightarrow> rx_ok s'"
proof -
  assume ok: "rx_ok s" and mac: "length mac = 6" and run: "rx_message v mac msg s = Some s'"
  define s0 where "s0 = s\<lparr>inbuf := blit (inbuf s) 0 (take 1032 (snd msg))\<rparr>"
  have s0: "rx_ok s0" using ok by (simp add: rx_ok_def s0_def)
  have stop: "rx_ok t" if "rx_stop flag s0 = Some t" for flag t
    using that s0 by (auto simp: rx_stop_def rx_ok_def Let_def bind_eq_Some_conv split: if_splits)
  have "rx_ok (rx_discovery mac s0)"
    unfolding rx_discovery_def Let_def using s0 mac by (intro rx_ok_writes) (simp add: rx_ok_def)
  moreover have "rx_ok t" if "rx_begin flag s0 = Some t" for flag t
    using that stop by (auto simp: rx_begin_def bind_eq_Some_conv) (simp add: rx_ok_def)
  ultimately show "rx_ok s'"
    using run s0 stop rx_process_ok unfolding rx_message_def Let_def s0_def [symmetric] by (auto split: if_splits)
qed

interpretation rx_messages: stepwise "rx_message v mac" "\<lambda>s. rx_ok s \<and> length mac = 6" "\<lambda>_. True" for v mac
  by unfold_locales (auto intro: rx_message_ok)

lemma rx_init_ok: "rx_init v args rx_start = Some s \<Longrightarrow> rx_ok s"
proof -
  have f: "rx_ok (fold (\<lambda>i. put32 (freq_reg i) (phase8 v 600000)) ks s)" if "rx_ok s" for ks s
    using that by (induction ks arbitrary: s) (simp_all add: rx_ok_writes)
  have "rx_ok (rx_start\<lparr>page := rx_page v args\<rparr>)" by (simp add: rx_ok_def rx_start_def)
  from f [OF this] show "rx_init v args rx_start = Some s \<Longrightarrow> rx_ok s"
    by (auto simp: rx_init_def Let_def bind_eq_Some_conv intro: rx_ok_writes)
qed

lemma rx_main_ok: "rx_main v mac args msgs = Some s \<Longrightarrow> length mac = 6 \<Longrightarrow> rx_ok s"
  using rx_messages.run_inv [of _ mac msgs v s] rx_init_ok by (auto simp: rx_main_def bind_eq_Some_conv)

text \<open>C26: the thread of the receiver server implements the list-level description of its stream, in both
  builds and for every setting that datagrams of the host can make between its rounds.  The
  datagrams carry consecutive numbers; each half has its header and as many frames as fit, the frames
  hold the samples of the selected receivers, every group of the FIFO exactly once and in order, and
  what is left is filled with zeros.\<close>

theorem rx_stream:
  assumes "known_rx v" and "length mac = 6"
    and "\<forall>(h, io) \<in> set rounds. enabled h \<and> rx_fed v h io \<and> (\<exists>args msgs. rx_main v mac args msgs = Some h)"
  shows "\<exists>s'. rx_thread v rounds (snd (rx_ep6_init v h0)) = Some (s', stream_spec v (map (\<lambda>(h, io). (rcvrs h, rx_fifo io)) rounds) 0 0)"
proof -
  have "\<forall>(h, io) \<in> set rounds. enabled h \<and> 1 \<le> rcvrs h \<and> rcvrs h \<le> 8 \<and> rx_fed v h io"
    using assms(2,3) rx_main_ok unfolding rx_ok_def by fast
  from rx_thread_spec [OF assms(1) this rx_ep6_init_holds] show ?thesis by (simp add: rx_ep6_init_def)
qed

section \<open>Witness\<close>

text \<open>The host selects two receivers and starts the stream.\<close>

definition rx_args_example :: "string list" where
  "rx_args_example = replicate 8 ''1''"

definition rx_frame_example :: "u8 list" where
  "rx_frame_example = [0, 1, 0, 0, 8]"

definition rx_data_example :: "u8 list" where
  "rx_data_example = [0xef, 0xfe, 1, 2, 0, 0, 0, 0, 127, 127, 127] @ rx_frame_example @ replicate 507 0 @ rx_frame_example @ replicate 504 0"

definition rx_msgs_example :: "rx_msg list" where
  "rx_msgs_example = [(\<lambda>_. False, rx_data_example), (\<lambda>_. False, [0xef, 0xfe, 4, 1])]"

definition rx_io_example :: rx_io where
  "rx_io_example = \<lparr>rx_cntr = (\<lambda>_. 500), rx_fifo = replicate 10368 3\<rparr>"

lemma rx_data_example_frames:
  "length rx_data_example = 1032" "drop 11 rx_data_example = rx_frame_example @ replicate 507 0 @ rx_frame_example @ replicate 504 0"
  "drop 523 rx_data_example = rx_frame_example @ replicate 504 0" "take 4 rx_data_example = [0xef, 0xfe, 1, 2]"
  by (simp_all add: rx_data_example_def rx_frame_example_def)

lemma rx_example_codes: "of_le32 [0xef, 0xfe, 1, 2] = 0x0201feef" "of_le32 [0xef, 0xfe, 4, 1] = 0x0104feef"
  by (simp_all add: of_le32_def)

lemma rx_example_reached: "\<exists>h. rx_main rx_125 [1, 2, 3, 4, 5, 6] rx_args_example rx_msgs_example = Some h \<and> enabled h \<and> rcvrs h = 2"
proof -
  have "rx_args rx_125 rx_args_example = Some 0" by code_simp
  then obtain s0 where s0: "rx_init rx_125 rx_args_example rx_start = Some s0" by (simp add: rx_init_def Let_def)
  have ok: "length (inbuf s0) = 1032" using rx_init_ok [OF s0] by (simp add: rx_ok_def)
  have same: "inbuf (rx_process_ep2 v f s) = inbuf s" "active (rx_process_ep2 v f s) = active s" for v f s
    by (simp_all add: rx_process_ep2_def rx_config_def rx_frequency_def Let_def put16_def put32_def split: option.split)
  define s1 where "s1 = s0\<lparr>inbuf := rx_data_example\<rparr>"
  define s2 where "s2 = rx_process_ep2 rx_125 (drop 523 rx_data_example) (rx_process_ep2 rx_125 (drop 11 rx_data_example) s1)"
  have m1: "rx_message rx_125 mac (flag, rx_data_example) s0 = Some s2" for mac flag
    using ok by (simp add: rx_message_def Let_def rx_code_def blit_def rx_data_example_frames rx_example_codes s1_def s2_def)
  have r2: "rcvrs s2 = 2"
    unfolding s2_def rx_data_example_frames
    by (simp add: rx_process_ep2_def rx_config_def Let_def rx_frame_example_def rx_125_def put16_def)
  define s3 where "s3 = s2\<lparr>inbuf := blit (inbuf s2) 0 [0xef, 0xfe, 4, 1]\<rparr>"
  have "rx_code s3 = 0x0104feef" by (simp add: rx_code_def s3_def blit_def rx_example_codes)
  then have m2: "rx_message rx_125 mac (flag, [0xef, 0xfe, 4, 1]) s2 = rx_begin flag s3" for mac flag
    by (simp add: rx_message_def Let_def s3_def [symmetric])
  have "await_clear (\<lambda>_. False) 0 = Some 0" by (subst await_clear.simps) simp
  then have "\<exists>h. rx_begin (\<lambda>_. False) s3 = Some h \<and> enabled h \<and> rcvrs h = 2"
    by (simp add: rx_begin_def rx_stop_def Let_def s3_def r2)
  then show ?thesis by (auto simp: rx_main_def s0 rx_msgs_example_def m1 m2)
qed

theorem rx_stream_witness:
  "\<exists>h s'. rcvrs h = 2 \<and> rx_thread rx_125 [(h, rx_io_example)] (snd (rx_ep6_init rx_125 rx_start)) =
     Some (s', stream_spec rx_125 [(2, replicate 10368 3)] 0 0)"
proof -
  obtain h where h: "rx_main rx_125 [1, 2, 3, 4, 5, 6] rx_args_example rx_msgs_example = Some h" "enabled h" "rcvrs h = 2"
    using rx_example_reached by blast
  have "rx_n 2 = 36" "rx_m rx_125 2 = 3" by (simp_all add: rx_n_def rx_m_def rx_size_def rx_125_def)
  then have "rx_fed rx_125 h rx_io_example" by (simp add: rx_fed_def h rx_io_example_def)
  with h have "\<forall>(h, io) \<in> set [(h, rx_io_example)]. enabled h \<and> rx_fed rx_125 h io \<and>
      (\<exists>args msgs. rx_main rx_125 [1, 2, 3, 4, 5, 6] args msgs = Some h)" by auto
  from rx_stream [OF _ _ this, of rx_start] show ?thesis
    using h(3) by (auto simp: known_rx_def rx_io_example_def)
qed

end
