(* ===== verification/Pha.thy ===== *)
theory Pha imports Regs begin

text \<open>
  pha-server.c, the server that streams single pulses of the pulse height analyser: commands of 8 bytes
  set the two channels, and a thread sends what the FIFO has collected.
\<close>

record pha = dev +
  sock_set :: bool
  started :: nat

definition pha_rst :: nat where "pha_rst = 3"

definition pha_start :: pha where
  "pha_start = \<lparr>cfg = (\<lambda>_. 0), log = [], sock_set = False, started = 0\<rparr>"

definition pha_init :: "pha \<Rightarrow> pha" where
  "pha_init s = set8 pha_rst 3 (clr8 pha_rst 3 (put16 6 4 s))"

section \<open>Commands\<close>

definition pha_code :: "u64 \<Rightarrow> u8" where "pha_code command = ucast (drop_bit 60 command) AND 0xf"
definition pha_chan :: "u64 \<Rightarrow> u8" where "pha_chan command = ucast (drop_bit 56 command) AND 0xf"
definition pha_data :: "u64 \<Rightarrow> u64" where "pha_data command = command AND 0xffffffffffffff"

definition pha_rate :: "u64 \<Rightarrow> pha \<Rightarrow> pha" where
  "pha_rate data s =
    (if data < 4 then put16 6 4 (clr8 pha_rst 8 s) else put16 6 (ucast data) (set8 pha_rst 8 s))"

definition pha_negator :: "u8 \<Rightarrow> u64 \<Rightarrow> pha \<Rightarrow> pha" where
  "pha_negator chan data s =
    (if chan = 0 then switch8 pha_rst 16 data s else if chan = 1 then switch8 pha_rst 32 data s else s)"

text \<open>Codes 4, 5 and 6: a 16-bit register of the channel; code 7: its timer.\<close>

definition pha_word :: "nat \<Rightarrow> nat \<Rightarrow> u8 \<Rightarrow> u64 \<Rightarrow> pha \<Rightarrow> pha" where
  "pha_word a0 a1 chan data s =
    (if chan = 0 then put16 a0 (ucast data) s else if chan = 1 then put16 a1 (ucast data) s else s)"

definition pha_timer :: "u8 \<Rightarrow> u64 \<Rightarrow> pha \<Rightarrow> pha" where
  "pha_timer chan data s =
    (if chan = 0 then put64 40 data s else if chan = 1 then put64 56 data s else s)"

definition pha_begin :: "pha \<Rightarrow> pha" where
  "pha_begin s =
    (let s = s\<lparr>sock_set := True\<rparr>;
         s = s\<lparr>started := started s + 1\<rparr>;
         s = pulse8 pha_rst 64 s
     in set8 pha_rst 4 s)"

definition pha_command :: "u64 \<Rightarrow> pha \<Rightarrow> pha option" where
  "pha_command command s =
    (let code = pha_code command; chan = pha_chan command; data = pha_data command
     in Some (
       if code = 0 then pulse8 pha_rst 1 s
       else if code = 1 then pulse8 pha_rst 2 s
       else if code = 2 then pha_rate data s
       else if code = 3 then pha_negator chan data s
       else if code = 4 then pha_word 50 66 chan data s
       else if code = 5 then pha_word 52 68 chan data s
       else if code = 6 then pha_word 54 70 chan data s
       else if code = 7 then pha_timer chan data s
       else if code = 8 then pha_begin s
       else s))"

definition pha_client :: "u64 list \<Rightarrow> pha \<Rightarrow> pha option" where
  "pha_client commands s =
    do { s \<leftarrow> run_all pha_command commands s; Some ((clr8 pha_rst 4 s)\<lparr>sock_set := False\<rparr>) }"

definition pha_server :: "u64 list list \<Rightarrow> pha \<Rightarrow> pha option" where
  "pha_server clients s = run_all pha_client clients (pha_init s)"

section \<open>The reading thread\<close>

text \<open>What a round of the loop reads: whether \<open>sock_thread\<close> is set, the number of words in the FIFO, and whether the
  message could be sent.  \<open>w\<close> are the words that come out of the FIFO, \<open>pos\<close> of them have been read.\<close>

record pha_round =
  pr_alive :: bool
  pr_size :: u16
  pr_sent :: bool

definition pha_block :: "u16 \<Rightarrow> nat" where
  "pha_block sz = (if unat sz > 4096 then 4096 else unat sz)"

fun pha_reader :: "(nat \<Rightarrow> u32) \<Rightarrow> pha_round list \<Rightarrow> nat \<Rightarrow> u32 list list" where
  "pha_reader w [] pos = []"
| "pha_reader w (r # rs) pos =
    (if \<not> pr_alive r then []
     else if unat (pr_size r) < 4 then pha_reader w rs pos
     else let n = pha_block (pr_size r); msg = map (\<lambda>i. w (pos + i)) [0..<n]
          in if pr_sent r then msg # pha_reader w rs (pos + n) else [msg])"

section \<open>Properties\<close>

lemma pha_reader_concat: "concat (pha_reader w rs pos) = map (\<lambda>i. w (pos + i)) [0..<length (concat (pha_reader w rs pos))]"
proof (induction w rs pos rule: pha_reader.induct)
  case (2 w r rs pos)
  let ?n = "pha_block (pr_size r)"
  show ?case
  proof (cases "pr_alive r \<and> 4 \<le> unat (pr_size r) \<and> pr_sent r")
    case True
    then have run: "pha_reader w (r # rs) pos = map (\<lambda>i. w (pos + i)) [0..<?n] # pha_reader w rs (pos + ?n)" by (simp add: Let_def)
    have IH: "concat (pha_reader w rs (pos + ?n)) = map (\<lambda>i. w (pos + ?n + i)) [0..<length (concat (pha_reader w rs (pos + ?n)))]"
      using True 2(2) by simp
    have split: "map (\<lambda>i. w (pos + i)) [0..<?n + k] = map (\<lambda>i. w (pos + i)) [0..<?n] @ map (\<lambda>i. w (pos + ?n + i)) [0..<k]" for k
      by (rule nth_equalityI) (auto simp: nth_append)
    show ?thesis unfolding run concat.simps length_append by (subst (1) IH) (simp only: split length_map length_upt diff_zero)
  next
    case False
    then show ?thesis using 2(1) by (auto simp: Let_def)
  qed
qed simp

lemma pha_reader_sizes: "msg \<in> set (pha_reader w rs pos) \<Longrightarrow>
    4 \<le> length msg \<and> length msg \<le> 4096 \<and> (\<exists>r \<in> set rs. pr_alive r \<and> length msg \<le> unat (pr_size r))"
  by (induction w rs pos rule: pha_reader.induct) (auto simp: Let_def pha_block_def split: if_splits)

text \<open>C27: whatever the client does and however the FIFO fills up, the messages of a reading thread put together are
  the words that came out of the FIFO, none left out and none repeated; every message has between 4
  and 4096 words, never more than the FIFO's counter said, and is sent only while the client is connected.\<close>

theorem pha_stream:
  "(\<exists>n. concat (pha_reader w rs 0) = map w [0..<n]) \<and>
    list_all (\<lambda>msg. 4 \<le> length msg \<and> length msg \<le> 4096 \<and> list_ex (\<lambda>r. pr_alive r \<and> length msg \<le> unat (pr_size r)) rs) (pha_reader w rs 0)"
  using pha_reader_concat [of w rs 0] pha_reader_sizes [of _ w rs 0] by (auto simp: list_all_iff list_ex_iff)

end
