(* ===== verification/Trx.thy ===== *)
theory Trx imports Regs Dds Cargs begin

text \<open>
  sdr-transceiver.c: a client opens up to four connections, one for each role (control and data, receiver and
  transmitter), and each is served by a thread of its own.  The threads interleave, so the server is a
  step relation; a step is one store to a register, or one call that blocks.  The builds for the
  two boards and the program sdr-transceiver-wide.c differ in constants and in some commands,
  collected in \<open>trx_variant\<close>.
\<close>

record trx_variant =
  tv_clk :: int
  tv_rates :: "u16 list"
  tv_rate :: u16
  tv_block :: nat
  tv_wide :: bool

definition trx_125 :: trx_variant where
  "trx_125 = \<lparr>tv_clk = 125000000, tv_rates = [3125, 1250, 625, 250, 125, 50], tv_rate = 625, tv_block = 4096, tv_wide = False\<rparr>"

definition trx_122_88 :: trx_variant where
  "trx_122_88 = \<lparr>tv_clk = 122880000, tv_rates = [2560, 1280, 640, 320, 160, 80, 40], tv_rate = 640, tv_block = 4096, tv_wide = False\<rparr>"

definition trx_wide :: trx_variant where
  "trx_wide = \<lparr>tv_clk = 125000000, tv_rates = [3125, 1250, 625, 250, 125, 50, 25], tv_rate = 625, tv_block = 8192, tv_wide = True\<rparr>"

datatype role = RxCtrl | RxData | TxCtrl | TxData

section \<open>Stores\<close>

text \<open>\<open>*p = v\<close> for the three widths, \<open>*p &= ~m\<close> and \<open>*p |= m\<close>.\<close>

datatype wr = W8 nat u8 | W16 nat u16 | W32 nat u32 | Clr nat u8 | Setb nat u8

fun do_wr :: "wr \<Rightarrow> 'a dev_scheme \<Rightarrow> 'a dev_scheme" where
  "do_wr (W8 a x) s = put8 a x s"
| "do_wr (W16 a x) s = put16 a x s"
| "do_wr (W32 a x) s = put32 a x s"
| "do_wr (Clr a m) s = clr8 a m s"
| "do_wr (Setb a m) s = set8 a m s"

definition pulse_bit :: "nat \<Rightarrow> wr list" where
  "pulse_bit a = [Clr a 1, Setb a 1]"

definition freq_word :: "trx_variant \<Rightarrow> u32 \<Rightarrow> u32" where
  "freq_word v freq = dds_word (of_int (tv_clk v)) (uint freq)"

definition rx_defaults :: "trx_variant \<Rightarrow> wr list" where
  "rx_defaults v =
    [W32 4 (freq_word v 600000), W8 8 0] @ (if tv_wide v then [W8 9 1] else []) @ [W16 10 (tv_rate v)]"

definition tx_defaults :: "trx_variant \<Rightarrow> wr list" where
  "tx_defaults v =
    [W8 2 0, W32 12 (freq_word v 600000), W8 16 0] @ (if tv_wide v then [W8 17 1] else []) @ [W16 18 (tv_rate v)]"

text \<open>What a thread writes when it starts and when its client is gone.\<close>

fun on_open :: "trx_variant \<Rightarrow> role \<Rightarrow> wr list" where
  "on_open v RxCtrl = rx_defaults v"
| "on_open v RxData = pulse_bit 0"
| "on_open v TxCtrl = tx_defaults v"
| "on_open v TxData = pulse_bit 1"

fun on_close :: "trx_variant \<Rightarrow> role \<Rightarrow> wr list" where
  "on_close v RxCtrl = rx_defaults v"
| "on_close v RxData = []"
| "on_close v TxCtrl = tx_defaults v"
| "on_close v TxData = []"

section \<open>Commands of the control connections\<close>

definition set_freq :: "trx_variant \<Rightarrow> nat \<Rightarrow> nat \<Rightarrow> u32 \<Rightarrow> wr list" where
  "set_freq v a_freq a_sync command =
    (let freq = command AND 0xfffffff
     in if tv_wide v \<and> freq > 62500000 then []
        else [W32 a_freq (freq_word v freq), W8 a_sync (if freq > 0 then 0 else 1)])"

definition set_rate :: "trx_variant \<Rightarrow> nat \<Rightarrow> u32 \<Rightarrow> wr list" where
  "set_rate v a command =
    (let k = unat (command AND 7) in if k < length (tv_rates v) then [W16 a (tv_rates v ! k)] else [])"

definition rx_command :: "trx_variant \<Rightarrow> u32 \<Rightarrow> wr list" where
  "rx_command v command =
    (let code = unat (drop_bit 28 command)
     in if code = 0 then set_freq v 4 8 command
        else if code = 1 then set_rate v 10 command
        else if code = 2 \<and> tv_wide v then [W8 9 (ucast (command AND 3))]
        else [])"

text \<open>In the wide program the case of the mask has no \<open>break\<close> and goes on with that of the PTT pin.\<close>

definition tx_command :: "trx_variant \<Rightarrow> u32 \<Rightarrow> wr list" where
  "tx_command v command =
    (let code = unat (drop_bit 28 command)
     in if code = 0 then set_freq v 12 16 command
        else if code = 1 then set_rate v 18 command
        else if code = 2 then (if tv_wide v then [W8 17 (ucast (command AND 3)), W8 2 (ucast (command AND 1))] else [W8 2 1])
        else if code = 3 then (if tv_wide v then [W8 2 (ucast (command AND 1))] else [W8 2 0])
        else [])"

fun trx_command :: "trx_variant \<Rightarrow> role \<Rightarrow> u32 \<Rightarrow> wr list" where
  "trx_command v RxCtrl command = rx_command v command"
| "trx_command v TxCtrl command = tx_command v command"
| "trx_command v r command = []"

section \<open>State\<close>

text \<open>\<open>Idle\<close>: the role has no connection (\<open>sock_thread\<close> is -1); otherwise what its thread still has to write, and
  for a thread in its loop the point where it is.\<close>

datatype phase = Idle | Opening "wr list" | Serving nat "wr list" | Closing "wr list"

record trx = dev +
  phase :: "role \<Rightarrow> phase"
  txbuf :: "u8 list"

text \<open>Port and physical address for the program's argument; the wide program takes none.\<close>

definition trx_args :: "trx_variant \<Rightarrow> string list \<Rightarrow> (nat \<times> nat) option" where
  "trx_args v args =
    (if tv_wide v then Some (1001, 0x40000000)
     else if length args \<noteq> 1 then None
     else case number_arg 1 2 (hd args) of
       None \<Rightarrow> None
     | Some number \<Rightarrow> Some (if number = 1 then (1001, 0x40000000) else (1002, 0x80000000)))"

definition trx_init :: "trx_variant \<Rightarrow> trx" where
  "trx_init v =
    fold do_wr (W8 2 0 # rx_defaults v @ tl (tx_defaults v))
      \<lparr>cfg = (\<lambda>_. 0), log = [], phase = (\<lambda>_. Idle), txbuf = replicate (4 * tv_block v) 0\<rparr>"

definition is_ctrl :: "role \<Rightarrow> bool" where
  "is_ctrl r \<longleftrightarrow> r = RxCtrl \<or> r = TxCtrl"

abbreviation moved :: "role \<Rightarrow> phase \<Rightarrow> trx \<Rightarrow> trx" where
  "moved r p s \<equiv> s\<lparr>phase := (phase s)(r := p)\<rparr>"

section \<open>Steps\<close>

text \<open>
  \<open>accept\<close> is the connection of a client for a role that is free, \<open>refuse\<close> one for a role in use or for none.  \<open>b\<close> is
  what the thread's buffer happens to hold when it starts; \<open>c\<close>, \<open>c2\<close> are readings of a counter, \<open>bs\<close> the
  bytes that \<open>recv\<close> has stored.  A command \<open>c\<close> may have been cut short by the end of the connection, when it
  keeps bytes of the previous one.  The FIFO's words are those of 32 bits; a store of 64 bits writes two.
\<close>

inductive trx_step :: "trx_variant \<Rightarrow> trx \<Rightarrow> trx \<Rightarrow> bool" for v where
  accept: "phase s r = Idle \<Longrightarrow> length b = 4 * tv_block v \<Longrightarrow>
    trx_step v s (moved r (Opening (on_open v r)) (if r = TxData then s\<lparr>txbuf := b\<rparr> else s))"
| refuse: "trx_step v s s"
| open_write: "phase s r = Opening (w # ws) \<Longrightarrow> trx_step v s (moved r (Opening ws) (do_wr w s))"
| open_done: "phase s r = Opening [] \<Longrightarrow> trx_step v s (moved r (Serving 0 []) s)"
| serve_write: "phase s r = Serving k (w # ws) \<Longrightarrow> trx_step v s (moved r (Serving k ws) (do_wr w s))"
| command: "is_ctrl r \<Longrightarrow> phase s r = Serving 0 [] \<Longrightarrow> trx_step v s (moved r (Serving 0 (trx_command v r c)) s)"
| hang_up: "is_ctrl r \<Longrightarrow> phase s r = Serving 0 [] \<Longrightarrow> trx_step v s (moved r (Closing (on_close v r)) s)"
| close_write: "phase s r = Closing (w # ws) \<Longrightarrow> trx_step v s (moved r (Closing ws) (do_wr w s))"
| close_done: "phase s r = Closing [] \<Longrightarrow> trx_step v s (moved r Idle s)"
| rx_check: "phase s RxData = Serving 0 [] \<Longrightarrow>
    trx_step v s (moved RxData (Serving 1 (if unat (c :: u16) \<ge> 2 * tv_block v then pulse_bit 0 else [])) s)"
| rx_send: "phase s RxData = Serving 1 [] \<Longrightarrow> unat (c :: u16) \<ge> tv_block v \<Longrightarrow> length bs = 4 * tv_block v \<Longrightarrow>
    trx_step v s (moved RxData (Serving 0 []) (emit [Send bs] s))"
| rx_gone: "phase s RxData = Serving 1 [] \<Longrightarrow> unat (c :: u16) \<ge> tv_block v \<Longrightarrow>
    trx_step v s (moved RxData (Closing (on_close v RxData)) s)"
| tx_check: "phase s TxData = Serving 0 [] \<Longrightarrow> unat (c :: u16) \<le> tv_block v \<Longrightarrow>
    trx_step v s (moved TxData (Serving 1 []) (if (c2 :: u16) = 0 then emit (map Fifo (replicate (tv_block v) 0)) s else s))"
| tx_recv: "phase s TxData = Serving 1 [] \<Longrightarrow> bs \<noteq> [] \<Longrightarrow> length bs \<le> 4 * tv_block v \<Longrightarrow>
    trx_step v s (moved TxData (Serving 0 [])
      (emit (map Fifo (words32 (bs @ drop (length bs) (txbuf s)))) (s\<lparr>txbuf := bs @ drop (length bs) (txbuf s)\<rparr>)))"
| tx_gone: "phase s TxData = Serving 1 [] \<Longrightarrow> trx_step v s (moved TxData (Closing (on_close v TxData)) s)"

inductive trx_reach :: "trx_variant \<Rightarrow> trx \<Rightarrow> bool" for v where
  start: "trx_reach v (trx_init v)"
| step: "trx_reach v s \<Longrightarrow> trx_step v s s' \<Longrightarrow> trx_reach v s'"

end
