(* ===== verification/TrxProps.thy ===== *)
theory TrxProps imports Trx begin

text \<open>
  Properties of sdr-transceiver.c: in every interleaving of its threads, a role without a client has its
  registers at their defaults, the PTT pin low among them.
\<close>

section \<open>Stores as functions on the register file\<close>

fun wr_mem :: "wr \<Rightarrow> mem \<Rightarrow> mem" where
  "wr_mem (W8 a x) m = wr8 a x m"
| "wr_mem (W16 a x) m = wr16 a x m"
| "wr_mem (W32 a x) m = wr32 a x m"
| "wr_mem (Clr a k) m = wr8 a (m a AND NOT k) m"
| "wr_mem (Setb a k) m = wr8 a (m a OR k) m"

fun wr_addrs :: "wr \<Rightarrow> nat set" where
  "wr_addrs (W8 a x) = {a}"
| "wr_addrs (W16 a y) = {a, a + 1}"
| "wr_addrs (W32 a z) = {a, a + 1, a + 2, a + 3}"
| "wr_addrs (Clr a k) = {a}"
| "wr_addrs (Setb a k) = {a}"

lemma cfg_do_wr: "cfg (do_wr w s) = wr_mem w (cfg s)"
  by (cases w) (simp_all add: reg_simps)

lemma phase_do_wr [simp]: "phase (do_wr w s) = phase s"
  by (cases w) (simp_all add: put8_def put16_def put32_def clr8_def set8_def)

lemma wr_mem_other: "b \<notin> wr_addrs w \<Longrightarrow> wr_mem w m b = m b"
  by (cases w) (auto simp: wr8_def wr16_def wr32_def)

lemma wr_mem_local: "m b = m' b \<Longrightarrow> wr_mem w m b = wr_mem w m' b"
  by (cases w) (auto simp: wr8_def wr16_def wr32_def)

lemma fold_wr_mem_local: "m b = m' b \<Longrightarrow> fold wr_mem ws m b = fold wr_mem ws m' b"
proof (induction ws arbitrary: m m')
  case (Cons w ws)
  from wr_mem_local [of m b m' w, OF Cons.prems] have "wr_mem w m b = wr_mem w m' b" .
  then show ?case using Cons.IH [of "wr_mem w m" "wr_mem w m'"] by simp
qed simp

section \<open>Each role has its registers\<close>

text \<open>The four roles can be enumerated, so that a statement about all of them computes.\<close>

instantiation role :: enum
begin

definition "enum_role = [RxCtrl, RxData, TxCtrl, TxData]"

definition "enum_all_role P \<longleftrightarrow> P RxCtrl \<and> P RxData \<and> P TxCtrl \<and> P TxData" for P :: "role \<Rightarrow> bool"

definition "enum_ex_role P \<longleftrightarrow> P RxCtrl \<or> P RxData \<or> P TxCtrl \<or> P TxData" for P :: "role \<Rightarrow> bool"

instance
proof
  show "(UNIV :: role set) = set enum_class.enum" by (auto simp: enum_role_def intro: role.exhaust)
qed (auto simp: enum_role_def enum_all_role_def enum_ex_role_def intro: role.exhaust, (metis role.exhaust)+)

end

fun role_regs :: "role \<Rightarrow> nat set" where
  "role_regs RxCtrl = {4, 5, 6, 7, 8, 9, 10, 11}"
| "role_regs RxData = {0}"
| "role_regs TxCtrl = {2, 12, 13, 14, 15, 16, 17, 18, 19}"
| "role_regs TxData = {1}"

lemma role_regs_apart: "\<forall>r r'. r \<noteq> r' \<longrightarrow> role_regs r \<inter> role_regs r' = {}"
  by code_simp

lemma role_regs_disjoint: "r \<noteq> r' \<Longrightarrow> b \<in> role_regs r \<Longrightarrow> b \<notin> role_regs r'"
  using role_regs_apart by blast

fun pending :: "phase \<Rightarrow> wr list" where
  "pending Idle = []"
| "pending (Opening ws) = ws"
| "pending (Serving k ws) = ws"
| "pending (Closing ws) = ws"

definition owned :: "role \<Rightarrow> wr list \<Rightarrow> bool" where
  "owned r ws \<longleftrightarrow> (\<forall>w \<in> set ws. wr_addrs w \<subseteq> role_regs r)"

lemma owned_simps: "owned r []" "owned r (w # ws) \<longleftrightarrow> wr_addrs w \<subseteq> role_regs r \<and> owned r ws" "owned r (ws @ us) \<longleftrightarrow> owned r ws \<and> owned r us"
  by (auto simp: owned_def)

lemma owned_writes: "owned r (on_open v r)" "owned r (on_close v r)" "owned r (trx_command v r c)" "owned RxData (pulse_bit 0)"
  by (cases r; simp add: owned_simps rx_defaults_def tx_defaults_def pulse_bit_def rx_command_def tx_command_def
        set_freq_def set_rate_def Let_def)+

section \<open>The invariant\<close>

text \<open>The registers of a role have their defaults.\<close>

fun at_rest :: "trx_variant \<Rightarrow> role \<Rightarrow> mem \<Rightarrow> bool" where
  "at_rest v RxCtrl m \<longleftrightarrow>
     rd32 m 4 = freq_word v 600000 \<and> m 8 = 0 \<and> rd16 m 10 = tv_rate v \<and> (tv_wide v \<longrightarrow> m 9 = 1)"
| "at_rest v TxCtrl m \<longleftrightarrow>
     m 2 = 0 \<and> rd32 m 12 = freq_word v 600000 \<and> m 16 = 0 \<and> rd16 m 18 = tv_rate v \<and> (tv_wide v \<longrightarrow> m 17 = 1)"
| "at_rest v r m \<longleftrightarrow> True"

lemma at_rest_local: "(\<And>b. b \<in> role_regs r \<Longrightarrow> m b = m' b) \<Longrightarrow> at_rest v r m = at_rest v r m'"
  by (cases r) (simp_all add: rd32_def rd16_def)

lemma on_close_rests: "at_rest v r (fold wr_mem (on_close v r) m)"
  by (cases r) (simp_all add: rx_defaults_def tx_defaults_def reg_simps)

fun resting :: "trx_variant \<Rightarrow> role \<Rightarrow> phase \<Rightarrow> mem \<Rightarrow> bool" where
  "resting v r Idle m = at_rest v r m"
| "resting v r (Closing ws) m = at_rest v r (fold wr_mem ws m)"
| "resting v r p m = True"

lemma resting_local: "(\<And>b. b \<in> role_regs r \<Longrightarrow> m b = m' b) \<Longrightarrow> resting v r p m = resting v r p m'"
  by (cases p) (auto intro!: at_rest_local fold_wr_mem_local)

definition trx_ok :: "trx_variant \<Rightarrow> trx \<Rightarrow> bool" where
  "trx_ok v s \<longleftrightarrow> (\<forall>r. owned r (pending (phase s r)) \<and> resting v r (phase s r) (cfg s))"

text \<open>A step of one role: a store of its own, or none.\<close>

lemma trx_ok_store:
  assumes ok: "trx_ok v s" and p: "pending (phase s r) = w # ws" and q: "pending p' = ws" and rest: "resting v r p' (wr_mem w (cfg s))"
  shows "trx_ok v ((do_wr w s)\<lparr>phase := (phase s)(r := p')\<rparr>)"
  unfolding trx_ok_def
proof (intro allI conjI)
  fix r'
  have "owned r (pending (phase s r))" using ok by (simp add: trx_ok_def)
  then have own: "wr_addrs w \<subseteq> role_regs r" "owned r ws" by (simp_all add: p owned_simps)
  show "owned r' (pending (phase ((do_wr w s)\<lparr>phase := (phase s)(r := p')\<rparr>) r'))" using ok own q by (simp add: trx_ok_def)
  have "resting v r' (phase s r') (wr_mem w (cfg s))" if "r' \<noteq> r"
  proof -
    have "wr_mem w (cfg s) b = cfg s b" if "b \<in> role_regs r'" for b
      using own(1) role_regs_disjoint [OF \<open>r' \<noteq> r\<close> that] by (intro wr_mem_other) blast
    then have "resting v r' (phase s r') (wr_mem w (cfg s)) = resting v r' (phase s r') (cfg s)" by (rule resting_local)
    then show ?thesis using ok by (simp add: trx_ok_def)
  qed
  then show "resting v r' (phase ((do_wr w s)\<lparr>phase := (phase s)(r := p')\<rparr>) r') (cfg ((do_wr w s)\<lparr>phase := (phase s)(r := p')\<rparr>))" using rest by (simp add: cfg_do_wr)
qed

lemma trx_ok_moved:
  "trx_ok v s \<Longrightarrow> owned r (pending p) \<Longrightarrow> resting v r p (cfg s) \<Longrightarrow> trx_ok v (moved r p s)"
  by (simp add: trx_ok_def)

lemma trx_ok_txbuf: "trx_ok v s \<Longrightarrow> trx_ok v (if b then s\<lparr>txbuf := bs\<rparr> else s)"
  by (simp add: trx_ok_def)

lemma trx_ok_emit: "trx_ok v s \<Longrightarrow> trx_ok v (emit es s)" "trx_ok v s \<Longrightarrow> trx_ok v (s\<lparr>txbuf := bs\<rparr>)"
  by (simp_all add: trx_ok_def emit_def)

lemma trx_ok_step:
  assumes "trx_step v s s'" and ok: "trx_ok v s"
  shows "trx_ok v s'"
proof -
  have rest: "resting v r (phase s r) (cfg s)" for r using ok by (simp add: trx_ok_def)
  from assms(1) show ?thesis
  proof cases
    case (open_write r w ws)
    then show ?thesis by (simp add: trx_ok_store [OF ok])
  next
    case (serve_write r k w ws)
    then show ?thesis by (simp add: trx_ok_store [OF ok])
  next
    case (close_write r w ws)
    with rest [of r] show ?thesis by (simp add: trx_ok_store [OF ok])
  next
    case (close_done r)
    with rest [of r] show ?thesis by (simp add: trx_ok_moved [OF ok] owned_simps)
  next
    case (hang_up r)
    then show ?thesis by (simp add: trx_ok_moved [OF ok] owned_writes on_close_rests)
  next
    case (rx_check c)
    then show ?thesis by (simp add: trx_ok_moved [OF ok] owned_writes owned_simps)
  next
    case (rx_send c bs)
    then show ?thesis by (simp add: trx_ok_moved [OF trx_ok_emit(1) [OF ok]] owned_simps)
  next
    case (tx_check c c2)
    then show ?thesis by (simp add: trx_ok_moved [OF ok] trx_ok_moved [OF trx_ok_emit(1) [OF ok]] owned_simps)
  next
    case (accept r b)
    then show ?thesis by (simp add: trx_ok_moved [OF trx_ok_txbuf [OF ok]] owned_writes)
  next
    case (tx_recv bs)
    then show ?thesis by (simp add: trx_ok_moved [OF trx_ok_emit(1) [OF trx_ok_emit(2) [OF ok]]] owned_simps)
  qed (simp_all add: ok trx_ok_moved [OF ok] owned_writes owned_simps)
qed

lemma cfg_fold_do_wr: "cfg (fold do_wr ws s) = fold wr_mem ws (cfg s)"
  by (induction ws arbitrary: s) (simp_all add: cfg_do_wr)

lemma phase_fold_do_wr: "phase (fold do_wr ws s) = phase s"
  by (induction ws arbitrary: s) simp_all

lemma trx_ok_init: "trx_ok v (trx_init v)"
proof -
  have "at_rest v r (cfg (trx_init v))" for r
    unfolding trx_init_def cfg_fold_do_wr
    by (cases r) (simp_all add: rx_defaults_def tx_defaults_def reg_simps)
  moreover have "phase (trx_init v) = (\<lambda>_. Idle)" by (simp only: trx_init_def phase_fold_do_wr trx.simps)
  ultimately show ?thesis by (simp add: trx_ok_def owned_simps)
qed

lemma trx_reach_ok: "trx_reach v s \<Longrightarrow> trx_ok v s"
  by (induction rule: trx_reach.induct) (auto intro: trx_ok_init trx_ok_step)

text \<open>C28: whatever clients do and however the four threads interleave, while no client controls the
  transmitter the PTT pin is low and its registers have their defaults, and likewise those of the
  receiver while no client controls it.  No thread ever writes a register of another role.\<close>

theorem idle_defaults:
  assumes "trx_reach v s"
  shows "(phase s TxCtrl = Idle \<longrightarrow> cfg s 2 = 0 \<and> rd32 (cfg s) 12 = freq_word v 600000 \<and> cfg s 16 = 0 \<and> rd16 (cfg s) 18 = tv_rate v \<and> (tv_wide v \<longrightarrow> cfg s 17 = 1)) \<and>
    (phase s RxCtrl = Idle \<longrightarrow> rd32 (cfg s) 4 = freq_word v 600000 \<and> cfg s 8 = 0 \<and> rd16 (cfg s) 10 = tv_rate v \<and> (tv_wide v \<longrightarrow> cfg s 9 = 1)) \<and>
    (\<forall>r. owned r (pending (phase s r)))"
proof -
  have "owned r (pending (phase s r)) \<and> resting v r (phase s r) (cfg s)" for r
    using trx_reach_ok [OF assms] by (simp add: trx_ok_def)
  then have own: "owned r (pending (phase s r))" and rest: "resting v r (phase s r) (cfg s)" for r by simp_all
  show ?thesis using rest [of TxCtrl] rest [of RxCtrl] own by auto
qed

section \<open>The mask of the wide program\<close>

text \<open>In the wide program a client that sets the transmitter's mask also sets the PTT pin, to
  bit 0 of the mask: the case of the mask falls through into that of the pin.  In the other
  two programs the same code is the one that switches the pin on.\<close>

theorem wide_mask_keys_ptt:
  fixes c :: u32
  assumes "tv_wide v" and "phase s TxCtrl = Serving 0 []" and "unat (drop_bit 28 c) = 2"
  shows "\<exists>s'. (trx_step v)\<^sup>*\<^sup>* s s' \<and> phase s' = phase s \<and> cfg s' 17 = ucast (c AND 3) \<and> cfg s' 2 = ucast (c AND 1)"
proof -
  have cmd: "trx_command v TxCtrl c = [W8 17 (ucast (c AND 3)), W8 2 (ucast (c AND 1))]"
    unfolding trx_command.simps tx_command_def Let_def assms(3) using assms(1) by simp
  define s1 where "s1 = moved TxCtrl (Serving 0 (trx_command v TxCtrl c)) s"
  define s2 where "s2 = moved TxCtrl (Serving 0 [W8 2 (ucast (c AND 1))]) (do_wr (W8 17 (ucast (c AND 3))) s1)"
  define s3 where "s3 = moved TxCtrl (Serving 0 []) (do_wr (W8 2 (ucast (c AND 1))) s2)"
  have "trx_step v s s1" unfolding s1_def using assms(2) by (intro trx_step.command) (simp_all add: is_ctrl_def)
  moreover have "trx_step v s1 s2" unfolding s2_def by (rule trx_step.serve_write) (simp add: s1_def cmd del: trx_command.simps)
  moreover have "trx_step v s2 s3" unfolding s3_def by (rule trx_step.serve_write) (simp add: s2_def)
  ultimately have "(trx_step v)\<^sup>*\<^sup>* s s3" by (meson r_into_rtranclp rtranclp_trans)
  moreover have "phase s3 = phase s" using assms(2) by (auto simp: s3_def s2_def s1_def fun_eq_iff simp del: do_wr.simps)
  moreover have "cfg s3 17 = ucast (c AND 3)" "cfg s3 2 = ucast (c AND 1)"
    by (simp_all add: s3_def s2_def s1_def reg_simps)
  ultimately show ?thesis by blast
qed

section \<open>Witnesses\<close>

text \<open>What a thread writes, one store after the other, while the others do nothing.\<close>

lemma do_wr_phase: "fold do_wr ws (s\<lparr>phase := f\<rparr>) = (fold do_wr ws s)\<lparr>phase := f\<rparr>"
proof (induction ws arbitrary: s)
  case (Cons w ws)
  have "do_wr w (s\<lparr>phase := f\<rparr>) = (do_wr w s)\<lparr>phase := f\<rparr>" by (cases w) (simp_all add: put8_def put16_def put32_def clr8_def set8_def)
  with Cons show ?case by simp
qed simp

lemma opening_runs: "phase s r = Opening ws \<Longrightarrow> (trx_step v)\<^sup>*\<^sup>* s (moved r (Serving 0 []) (fold do_wr ws s))"
proof (induction ws arbitrary: s)
  case (Cons w ws)
  from trx_step.open_write [OF Cons.prems] Cons.IH [of "moved r (Opening ws) (do_wr w s)"] show ?case
    by (auto simp: do_wr_phase phase_fold_do_wr intro: converse_rtranclp_into_rtranclp cong: if_cong)
qed (auto intro: trx_step.open_done)

lemma serving_runs: "phase s r = Serving k ws \<Longrightarrow> (trx_step v)\<^sup>*\<^sup>* s (moved r (Serving k []) (fold do_wr ws s))"
proof (induction ws arbitrary: s)
  case (Cons w ws)
  from trx_step.serve_write [OF Cons.prems] Cons.IH [of "moved r (Serving k ws) (do_wr w s)"] show ?case
    by (auto simp: do_wr_phase phase_fold_do_wr intro: converse_rtranclp_into_rtranclp cong: if_cong)
qed (simp add: fun_upd_idem)

lemma closing_runs: "phase s r = Closing ws \<Longrightarrow> (trx_step v)\<^sup>*\<^sup>* s (moved r Idle (fold do_wr ws s))"
proof (induction ws arbitrary: s)
  case (Cons w ws)
  from trx_step.close_write [OF Cons.prems] Cons.IH [of "moved r (Closing ws) (do_wr w s)"] show ?case
    by (auto simp: do_wr_phase phase_fold_do_wr intro: converse_rtranclp_into_rtranclp cong: if_cong)
qed (auto intro: trx_step.close_done)

lemma trx_reach_runs: "(trx_step v)\<^sup>*\<^sup>* s s' \<Longrightarrow> trx_reach v s \<Longrightarrow> trx_reach v s'"
  by (induction rule: rtranclp_induct) (auto intro: trx_reach.step)

text \<open>A client that connects as a controller, sends the command \<open>c\<close> and goes away.\<close>

lemma visit_reached:
  assumes "trx_reach v s" "is_ctrl r" "phase s r = Idle"
  shows "trx_reach v (moved r Idle (fold do_wr (on_open v r @ trx_command v r c @ on_close v r) s))"
proof -
  let ?s1 = "fold do_wr (on_open v r) s"
  let ?s2 = "fold do_wr (trx_command v r c) ?s1"
  have "r \<noteq> TxData" using assms(2) by (auto simp: is_ctrl_def)
  then have "trx_reach v (moved r (Opening (on_open v r)) s)"
    using trx_reach.step [OF assms(1) trx_step.accept [OF assms(3), of "replicate (4 * tv_block v) 0" v]] by simp
  from trx_reach_runs [OF opening_runs [where r = r] this] have "trx_reach v (moved r (Serving 0 []) ?s1)"
    by (simp add: do_wr_phase phase_fold_do_wr cong: if_cong)
  then have "trx_reach v (moved r (Serving 0 (trx_command v r c)) ?s1)"
    using trx_reach.step [OF _ trx_step.command [OF assms(2)], of v "moved r (Serving 0 []) ?s1" c] by (simp cong: if_cong)
  from trx_reach_runs [OF serving_runs [where r = r] this] have "trx_reach v (moved r (Serving 0 []) ?s2)"
    by (simp add: do_wr_phase phase_fold_do_wr cong: if_cong)
  then have "trx_reach v (moved r (Closing (on_close v r)) ?s2)"
    using trx_reach.step [OF _ trx_step.hang_up [OF assms(2)], of v "moved r (Serving 0 []) ?s2"] by (simp cong: if_cong)
  from trx_reach_runs [OF closing_runs [where r = r] this] show ?thesis
    by (simp add: do_wr_phase phase_fold_do_wr cong: if_cong)
qed

text \<open>A client of the wide program connects as the controller of the transmitter, sets the mask to 3, which also keys the transmitter, and goes
  away again.\<close>

theorem idle_defaults_witness:
  "\<exists>s. trx_reach trx_wide s \<and> Cfg8 2 1 \<in> set (log s) \<and> Cfg8 17 3 \<in> set (log s) \<and>
    cfg s 2 = 0 \<and> cfg s 17 = 1 \<and> rd16 (cfg s) 18 = 625"
proof -
  define s where "s = moved TxCtrl Idle (fold do_wr (on_open trx_wide TxCtrl @ trx_command trx_wide TxCtrl 0x20000003 @ on_close trx_wide TxCtrl)
      (trx_init trx_wide))"
  have "phase (trx_init trx_wide) = (\<lambda>_. Idle)" by (simp only: trx_init_def phase_fold_do_wr trx.simps)
  then have reach: "trx_reach trx_wide s"
    unfolding s_def by (intro visit_reached trx_reach.start) (simp_all add: is_ctrl_def)
  have idle: "phase s TxCtrl = Idle" by (simp add: s_def)
  have wide: "tv_wide trx_wide" "tv_rate trx_wide = 625" by (simp_all add: trx_wide_def)
  have cmd: "trx_command trx_wide TxCtrl 0x20000003 = [W8 17 3, W8 2 1]" by (simp add: tx_command_def trx_wide_def Let_def)
  have "Cfg8 2 1 \<in> set (log s)" "Cfg8 17 3 \<in> set (log s)"
    unfolding s_def cmd by (simp_all add: tx_defaults_def wide log_simps)
  with idle_defaults [OF reach] reach idle wide show ?thesis by auto
qed

theorem wide_mask_keys_ptt_witness:
  "\<exists>s'. (trx_step trx_wide)\<^sup>*\<^sup>* (moved TxCtrl (Serving 0 []) (trx_init trx_wide)) s' \<and> cfg s' 17 = 3 \<and> cfg s' 2 = 1"
  using wide_mask_keys_ptt [where v = trx_wide and s = "moved TxCtrl (Serving 0 []) (trx_init trx_wide)" and c = "0x20000003"]
  by (auto simp: trx_wide_def)

end
