(* ===== verification/Ring.thy ===== *)
theory Ring imports Regs Dds begin

text \<open>
  The servers that stream a ring buffer in main memory: adc-test-server.c, sdr-receiver-wide.c,
  sdr-receiver-master.c, sdr-receiver-slave.c and radar.c.  The FPGA writes samples into the ring and
  shows its position in a counter; the server polls the counter and sends the half of the ring that has just been
  completed.  Here is the loop they share; the programs are in \<open>RingServers\<close>.
\<close>

record ring = dev +
  limit :: int

text \<open>What a pass of the loop reads: the number of bytes that \<open>ioctl(FIONREAD)\<close> finds, the command that
  \<open>recv\<close> stores, the writer's position, the memory while it is sent, and whether \<open>send\<close> succeeds.  \<open>None\<close> is an
  error of the call.\<close>

record pass_io =
  io_size :: "u32 option"
  io_command :: "u32 option"
  io_cntr :: u32
  io_ram :: "nat \<Rightarrow> u8"
  io_ok :: bool

text \<open>Units of the position in a half of the ring, and bytes of a half.\<close>

record ring_size =
  half_units :: int
  half_bytes :: nat

definition ring_4mb :: ring_size where
  "ring_4mb = \<lparr>half_units = 32 * 1024, half_bytes = 4096 * 1024\<rparr>"

text \<open>The condition, and the assignments to \<open>offset\<close> and \<open>limit\<close>.\<close>

definition half_ready :: "ring_size \<Rightarrow> int \<Rightarrow> 'a ring_scheme \<Rightarrow> bool" where
  "half_ready z position s \<longleftrightarrow> limit s > 0 \<and> position > limit s \<or> limit s = 0 \<and> position < half_units z"

definition half_offset :: "ring_size \<Rightarrow> 'a ring_scheme \<Rightarrow> nat" where
  "half_offset z s = (if limit s > 0 then 0 else half_bytes z)"

definition flip_limit :: "ring_size \<Rightarrow> 'a ring_scheme \<Rightarrow> 'a ring_scheme" where
  "flip_limit z s = s\<lparr>limit := (if limit s > 0 then 0 else half_units z)\<rparr>"

definition ram_slice :: "(nat \<Rightarrow> u8) \<Rightarrow> nat \<Rightarrow> nat \<Rightarrow> u8 list" where
  "ram_slice ram offset n = map ram [offset..<offset + n]"

text \<open>What a pass does: \<open>Done\<close> is \<open>break\<close>, \<open>Next\<close> the end of the pass or \<open>continue\<close>.\<close>

datatype 's pass = Done 's | Next 's

definition send_half :: "ring_size \<Rightarrow> int \<Rightarrow> 'i pass_io_scheme \<Rightarrow> 'a ring_scheme \<Rightarrow> 'a ring_scheme pass" where
  "send_half z position io s =
    (if half_ready z position s
     then let s1 = emit [Send (ram_slice (io_ram io) (half_offset z s) (half_bytes z))] (flip_limit z s)
          in if io_ok io then Next s1 else Done s1
     else Next s)"

text \<open>A command is read when four bytes have arrived.  \<open>act\<close> is the \<open>switch\<close>: \<open>None\<close> where the source has \<open>continue\<close>, which
  skips the rest of the pass.\<close>

definition command_pass :: "(u32 \<Rightarrow> 's \<Rightarrow> 's option) \<Rightarrow> ('i pass_io_scheme \<Rightarrow> 's \<Rightarrow> 's pass) \<Rightarrow> 'i pass_io_scheme \<Rightarrow> 's \<Rightarrow> 's pass" where
  "command_pass act rest io s =
    (case io_size io of
       None \<Rightarrow> Done s
     | Some available \<Rightarrow>
         if available \<ge> 4
         then (case io_command io of
                 None \<Rightarrow> Done s
               | Some command \<Rightarrow> (case act command s of None \<Rightarrow> Next s | Some s1 \<Rightarrow> rest io s1))
         else rest io s)"

text \<open>The loop of a client until the program is interrupted (the end of the list), or a call fails.\<close>

fun passes :: "('i \<Rightarrow> 's \<Rightarrow> 's pass) \<Rightarrow> 'i list \<Rightarrow> 's \<Rightarrow> 's" where
  "passes p [] s = s"
| "passes p (io # ios) s = (case p io s of Done s1 \<Rightarrow> s1 | Next s1 \<Rightarrow> passes p ios s1)"

definition value_of :: "u32 \<Rightarrow> int" where
  "value_of command = uint (command AND 0xfffffff)"

definition code_of :: "u32 \<Rightarrow> nat" where
  "code_of command = unat (drop_bit 28 command)"

end
