(* ===== verification/RingServers.thy ===== *)
theory RingServers imports Ring begin

text \<open>
  The programs that stream a ring: what they do before and after a client and their commands.  The
  configuration page starts with the reset lines; \<open>usleep\<close> is left out.
\<close>

record ring_prog =
  idle :: "ring \<Rightarrow> ring"
  connected :: "ring \<Rightarrow> ring"
  action :: "(u32 \<Rightarrow> ring \<Rightarrow> ring option) option"
  gone :: "ring \<Rightarrow> ring"
  leave :: "ring \<Rightarrow> ring"

definition poll_ring :: "pass_io \<Rightarrow> ring \<Rightarrow> ring pass" where
  "poll_ring io s = send_half ring_4mb (sint (io_cntr io)) io s"

text \<open>A program without commands does not look for them.\<close>

definition prog_pass :: "ring_prog \<Rightarrow> pass_io \<Rightarrow> ring \<Rightarrow> ring pass" where
  "prog_pass p io s =
    (case action p of None \<Rightarrow> poll_ring io s | Some act \<Rightarrow> command_pass act poll_ring io s)"

definition session :: "ring_prog \<Rightarrow> pass_io list \<Rightarrow> ring \<Rightarrow> ring" where
  "session p ios s = gone p (passes (prog_pass p) ios (connected p (idle p s)))"

definition serve :: "ring_prog \<Rightarrow> pass_io list list \<Rightarrow> ring \<Rightarrow> ring" where
  "serve p clients s = leave p (fold (session p) clients s)"

definition enter_reset :: "'a dev_scheme \<Rightarrow> 'a dev_scheme" where
  "enter_reset s = clr8 0 2 (clr8 0 1 s)"

definition leave_reset :: "'a dev_scheme \<Rightarrow> 'a dev_scheme" where
  "leave_reset s = set8 0 1 (set8 0 2 s)"

definition start_limit :: "ring \<Rightarrow> ring" where
  "start_limit s = s\<lparr>limit := 32 * 1024\<rparr>"

section \<open>adc-test-server.c\<close>

definition adc_test_init :: "u32 \<Rightarrow> ring \<Rightarrow> ring" where
  "adc_test_init addr s = put32 4 addr s"

definition adc_test :: ring_prog where
  "adc_test = \<lparr>idle = (\<lambda>s. put16 2 4 (enter_reset s)), connected = (\<lambda>s. start_limit (leave_reset s)),
     action = None, gone = id, leave = enter_reset\<rparr>"

section \<open>sdr-receiver-wide.c\<close>

record wide =
  wd_clk :: int
  wd_fmax :: int
  wd_rmin :: int
  wd_rmax :: int
  wd_rate :: u16

definition wide_125 :: wide where
  "wide_125 = \<lparr>wd_clk = 125000000, wd_fmax = 62500000, wd_rmin = 16, wd_rmax = 8192, wd_rate = 16\<rparr>"

definition wide_122_88 :: wide where
  "wide_122_88 = \<lparr>wd_clk = 122880000, wd_fmax = 61440000, wd_rmin = 6, wd_rmax = 64, wd_rate = 6\<rparr>"

definition increment :: "int \<Rightarrow> int \<Rightarrow> u32" where
  "increment clk f = dds_word (of_int clk) f"

definition wide_init :: "u32 \<Rightarrow> ring \<Rightarrow> ring" where
  "wide_init addr s = put32 4 addr s"

definition wide_idle :: "wide \<Rightarrow> ring \<Rightarrow> ring" where
  "wide_idle w s =
    (let s = put16 2 (wd_rate w) (enter_reset s);
         s = put32 8 (increment (wd_clk w) 10000000) s
     in put32 12 (increment (wd_clk w) 10000000) s)"

definition wide_command :: "wide \<Rightarrow> u32 \<Rightarrow> ring \<Rightarrow> ring option" where
  "wide_command w command s =
    (let value = value_of command; code = code_of command
     in if code = 0 then (if value < wd_rmin w \<or> value > wd_rmax w then None else Some (put16 2 (word_of_int value) s))
        else if code = 1 then (if value < 0 \<or> value > wd_fmax w then None else Some (put32 8 (increment (wd_clk w) value) s))
        else if code = 2 then (if value < 0 \<or> value > wd_fmax w then None else Some (put32 12 (increment (wd_clk w) value) s))
        else Some s)"

definition sdr_receiver_wide :: "wide \<Rightarrow> ring_prog" where
  "sdr_receiver_wide w = \<lparr>idle = wide_idle w, connected = (\<lambda>s. start_limit (leave_reset s)),
     action = Some (wide_command w), gone = id, leave = enter_reset\<rparr>"

definition sdr_receiver_wide_125 :: ring_prog where "sdr_receiver_wide_125 = sdr_receiver_wide wide_125"
definition sdr_receiver_wide_122_88 :: ring_prog where "sdr_receiver_wide_122_88 = sdr_receiver_wide wide_122_88"

section \<open>sdr-receiver-master.c, sdr-receiver-slave.c\<close>

text \<open>The master has a command that starts all boards; the slave waits for the line that this command pulls.\<close>

definition sync_init :: "u32 \<Rightarrow> u16 \<Rightarrow> ring \<Rightarrow> ring" where
  "sync_init addr_dma rate s =
    (let s = put16 2 rate s; s = put32 4 addr_dma s;
         s = put32 8 (increment 125000000 10000000) s; s = put32 12 0 s;
         s = put32 16 (increment 125000000 10000000) s; s = put32 20 0 s;
         s = put32 24 (increment 125000000 10000000) s; s = put32 28 0 s;
         s = put32 32 (increment 125000000 10000000) s
     in put32 36 0 s)"

definition sync_connected :: "u32 \<Rightarrow> ring \<Rightarrow> ring" where
  "sync_connected addr_dma s = start_limit (set8 0 2 (sync_init addr_dma 20 s))"

definition sync_freq :: "nat \<Rightarrow> int \<Rightarrow> ring \<Rightarrow> ring option" where
  "sync_freq a value s =
    (if value < 0 \<or> value > 62500000 then None
     else Some (put32 (a + 4) (if value > 0 then 0 else 1) (put32 a (increment 125000000 value) s)))"

definition sync_level :: "nat \<Rightarrow> int \<Rightarrow> ring \<Rightarrow> ring option" where
  "sync_level a value s = (if value < 0 \<or> value > 32766 then None else Some (put16 a (word_of_int value) s))"

definition sync_command :: "bool \<Rightarrow> u32 \<Rightarrow> ring \<Rightarrow> ring option" where
  "sync_command master command s =
    (let value = value_of command; code = code_of command
     in if code = 0 then (if value < 16 \<or> value > 8192 then None else Some (put16 2 (word_of_int value) s))
        else if code = 1 then sync_freq 8 value s
        else if code = 2 then sync_freq 16 value s
        else if code = 3 then sync_freq 24 value s
        else if code = 4 then sync_freq 32 value s
        else if code = 5 then sync_level 40 value s
        else if code = 6 then sync_level 42 value s
        else if code = 7 \<and> master then Some (set8 0 1 s)
        else Some s)"

definition sync_reset :: "bool \<Rightarrow> ring \<Rightarrow> ring" where
  "sync_reset master s = clr8 0 2 (if master then clr8 0 1 s else s)"

definition sdr_receiver_sync :: "bool \<Rightarrow> u32 \<Rightarrow> ring_prog" where
  "sdr_receiver_sync master addr_dma = \<lparr>idle = id, connected = sync_connected addr_dma,
     action = Some (sync_command master), gone = sync_reset master, leave = sync_reset master\<rparr>"

definition sdr_receiver_master :: "u32 \<Rightarrow> ring_prog" where "sdr_receiver_master = sdr_receiver_sync True"
definition sdr_receiver_slave :: "u32 \<Rightarrow> ring_prog" where "sdr_receiver_slave = sdr_receiver_sync False"

section \<open>radar.c\<close>

text \<open>The client sends the waveform to transmit, which is stored in the first half of the memory; \<open>io_data\<close> is what
  \<open>recv\<close> delivers.  \<open>limit\<close> is not initialised before the first start, so its first value is arbitrary.  The counter is
  read as a \<open>uint16_t\<close>.\<close>

record radar = ring +
  tx_ram :: "u8 list"

record radar_io = pass_io +
  io_data :: "u8 list"

definition ring_32mb :: ring_size where
  "ring_32mb = \<lparr>half_units = 256 * 1024, half_bytes = 32768 * 1024\<rparr>"

definition radar_init :: "u32 \<Rightarrow> radar \<Rightarrow> radar" where
  "radar_init addr s =
    (let s = put32 8 addr s; s = put32 12 524287 s; s = put32 16 (addr + 16384 * 4096) s
     in put32 20 4194303 s)"

definition radar_idle :: "radar \<Rightarrow> radar" where
  "radar_idle s = put32 4 (increment 122880000 10000000) (enter_reset s)"

definition radar_begin :: "radar \<Rightarrow> radar" where
  "radar_begin s = (leave_reset s)\<lparr>limit := 256 * 1024\<rparr>"

text \<open>The case of the waveform has no \<open>break\<close>: it starts the radar as well.\<close>

definition radar_waveform :: "u8 list \<Rightarrow> int \<Rightarrow> radar \<Rightarrow> radar" where
  "radar_waveform data value s =
    (let s = put32 12 (word_of_int (value div 128 - 1)) s;
         s = put32 20 (word_of_int (value div 16 - 1)) s
     in s\<lparr>tx_ram := blit (tx_ram s) 0 (take (nat value) data)\<rparr>)"

definition radar_command :: "u8 list \<Rightarrow> u32 \<Rightarrow> radar \<Rightarrow> radar option" where
  "radar_command data command s =
    (let value = value_of command; code = code_of command
     in if code = 0 then (if value < 0 \<or> value > 61440000 then None else Some (put32 4 (increment 122880000 value) s))
        else if code = 1 then (if value < 0 \<or> value > 67108864 then None else Some (radar_begin (radar_waveform data value s)))
        else if code = 2 then Some (radar_begin s)
        else if code = 3 then Some (enter_reset s)
        else Some s)"

definition radar_poll :: "radar_io \<Rightarrow> radar \<Rightarrow> radar pass" where
  "radar_poll io s = send_half ring_32mb (uint (ucast (io_cntr io) :: u16)) io s"

definition radar_pass :: "radar_io \<Rightarrow> radar \<Rightarrow> radar pass" where
  "radar_pass io s = command_pass (radar_command (io_data io)) radar_poll io s"

definition radar_session :: "radar_io list \<Rightarrow> radar \<Rightarrow> radar" where
  "radar_session ios s = passes radar_pass ios (radar_idle s)"

definition radar_serve :: "radar_io list list \<Rightarrow> radar \<Rightarrow> radar" where
  "radar_serve clients s = enter_reset (fold radar_session clients s)"

end
