(* ===== verification/RingProps.thy ===== *)
theory RingProps imports RingServers begin

text \<open>
  Properties of the servers that stream a ring: while the server polls often enough, the client receives the
  sample stream without a gap; the registers of master and slave; the radar server never
  sends anything.
\<close>

section \<open>The FPGA's side of the ring\<close>

text \<open>\<open>d a\<close> is the \<open>a\<close>th byte of the sample stream and \<open>w i\<close> the writer's position at pass \<open>i\<close>, in units of 128 bytes,
  counted without wrapping around.  The ring has 65536 units (8 MB).\<close>

definition call_ok :: "pass_io \<Rightarrow> bool" where
  "call_ok io \<longleftrightarrow> io_size io \<noteq> None \<and> io_command io \<noteq> None \<and> io_ok io \<and> unat (io_cntr io) < 65536"

text \<open>The writer's position at the last pass before \<open>i\<close> that has read the counter.\<close>

fun last_poll :: "(pass_io \<Rightarrow> bool) \<Rightarrow> (nat \<Rightarrow> pass_io) \<Rightarrow> (nat \<Rightarrow> nat) \<Rightarrow> nat \<Rightarrow> nat" where
  "last_poll skip io w 0 = 0"
| "last_poll skip io w (Suc i) = (if skip (io i) then last_poll skip io w i else w i)"

text \<open>The counter shows the position; a byte that has been written is found in the ring until it is overwritten;
  from one reading of the counter to the next the writer advances by at most a quarter of the ring.\<close>

definition ring_hw :: "(pass_io \<Rightarrow> bool) \<Rightarrow> (nat \<Rightarrow> pass_io) \<Rightarrow> (nat \<Rightarrow> nat) \<Rightarrow> (nat \<Rightarrow> u8) \<Rightarrow> bool" where
  "ring_hw skip io w d \<longleftrightarrow> (\<forall>i. last_poll skip io w i \<le> w i \<and> w i \<le> last_poll skip io w i + 16384 \<and>
     io_cntr (io i) = of_nat (w i mod 65536) \<and> call_ok (io i) \<and>
     (\<forall>a. a < 128 * w i \<longrightarrow> 128 * w (Suc i) \<le> a + 8388608 \<longrightarrow> io_ram (io i) (a mod 8388608) = d a))"

lemma sint_counter: "sint (of_nat (w mod 65536) :: u32) = int (w mod 65536)"
proof -
  have lt: "w mod 65536 < 65536" by simp
  have "uint (of_nat (w mod 65536) :: u32) = int (w mod 65536)"
    using lt by (simp add: unsigned_of_nat take_bit_nat_eq_self)
  moreover have "signed_take_bit 31 (int (w mod 65536)) = int (w mod 65536)"
    by (rule signed_take_bit_int_eq_self) (use lt in simp_all)
  ultimately show ?thesis by (simp add: sint_uint)
qed

lemma unat_counter: "unat (of_nat (w mod 65536) :: u32) = w mod 65536"
proof -
  have "w mod 65536 < 65536" by simp
  then show ?thesis by (simp add: unat_of_nat)
qed

lemma map_upt_join: "i \<le> j \<Longrightarrow> map d [0..<i] @ map d [i..<j] = map d [0..<j]"
  by (metis le_add_diff_inverse map_append upt_add_eq_append zero_le)

lemma log_flip_limit: "log (flip_limit z s) = log s"
  by (simp add: flip_limit_def)

text \<open>A half of the ring that holds its bytes of the stream.\<close>

lemma ring_slice_part:
  assumes "len \<le> 4194304" and "\<And>a. n * 4194304 \<le> a \<Longrightarrow> a < n * 4194304 + len \<Longrightarrow> ram (a mod 8388608) = d a"
  shows "ram_slice ram (if even n then 0 else 4194304) len = map d [n * 4194304..<n * 4194304 + len]"
proof (rule nth_equalityI)
  fix k assume "k < length (ram_slice ram (if even n then 0 else 4194304) len)"
  then have kl: "k < len" by (simp add: ram_slice_def)
  then have k: "k < 4194304" using assms(1) by simp
  have "(n * 4194304 + k) mod 8388608 = (if even n then 0 else 4194304) + k"
  proof (cases "even n")
    case True
    then obtain m where "n = 2 * m" ..
    then have "n * 4194304 + k = k + m * 8388608" by simp
    then show ?thesis using k True by (simp only: mod_mult_self1) simp
  next
    case False
    then obtain m where "n = 2 * m + 1" by (rule oddE)
    then have "n * 4194304 + k = (4194304 + k) + m * 8388608" by simp
    then show ?thesis using k False by (simp only: mod_mult_self1) simp
  qed
  with kl assms(2) [of "n * 4194304 + k"] show "ram_slice ram (if even n then 0 else 4194304) len ! k = map d [n * 4194304..<n * 4194304 + len] ! k"
    by (simp add: ram_slice_def)
qed (simp add: ram_slice_def)

lemma ring_slice:
  assumes "\<And>a. n * 4194304 \<le> a \<Longrightarrow> a < (n + 1) * 4194304 \<Longrightarrow> ram (a mod 8388608) = d a"
  shows "ram_slice ram (if even n then 0 else 4194304) 4194304 = map d [n * 4194304..<(n + 1) * 4194304]"
proof -
  have eq: "(n + 1) * 4194304 = n * 4194304 + 4194304" by simp
  show ?thesis using assms unfolding eq by (rule ring_slice_part [OF order_refl])
qed

text \<open>Where the position is, seen modulo the size of the ring.\<close>

lemma position_even:
  fixes n w :: nat
  shows "even n \<Longrightarrow> n * 32768 \<le> w \<Longrightarrow> w < n * 32768 + 65536 \<Longrightarrow> w mod 65536 = w - n * 32768"
proof -
  assume "even n" and w: "n * 32768 \<le> w" "w < n * 32768 + 65536"
  then obtain m where m: "n = 2 * m" by blast
  then have "w = (w - n * 32768) + m * 65536" using w by simp
  then have "w mod 65536 = (w - n * 32768) mod 65536" by (metis mod_mult_self1)
  then show ?thesis using w by simp
qed

lemma counter_decides:
  fixes n w :: nat
  assumes "n * 32768 \<le> w" and "w \<le> n * 32768 + 49152"
  shows "(if even n then 32768 < w mod 65536 else w mod 65536 < 32768) \<longleftrightarrow>
    (if even n then (n + 1) * 32768 < w else (n + 1) * 32768 \<le> w)"
proof (cases "even n")
  case True
  with position_even [of n w] assms show ?thesis by auto
next
  case False
  then have ev: "even (n - 1)" "even (n + 1)" and pos: "0 < n" by (auto elim: oddE)
  show ?thesis
  proof (cases "(n + 1) * 32768 \<le> w")
    case True
    with position_even [OF ev(2), of w] assms False show ?thesis by auto
  next
    case less: False
    have "(n - 1) * 32768 + 32768 = n * 32768" using pos by (cases n) simp_all
    with position_even [OF ev(1), of w] assms False less show ?thesis by auto
  qed
qed

text \<open>After \<open>k\<close> passes \<open>n\<close> halves have been sent; the writer is not more than one half ahead.\<close>

definition caught_up :: "(nat \<Rightarrow> u8) \<Rightarrow> ring \<Rightarrow> nat \<Rightarrow> nat \<Rightarrow> ring \<Rightarrow> bool" where
  "caught_up d s v n s' \<longleftrightarrow> sent_bytes (log s') = sent_bytes (log s) @ map d [0..<n * 4194304] \<and>
     limit s' = (if even n then 32768 else 0) \<and> n * 32768 \<le> v \<and> v \<le> (n + 1) * 32768"

section \<open>Passes that keep to the protocol\<close>

locale ring_loop =
  fixes p :: "pass_io \<Rightarrow> ring \<Rightarrow> ring pass" and skip :: "pass_io \<Rightarrow> bool"
  assumes skipped: "skip io \<Longrightarrow> call_ok io \<Longrightarrow> p io s = Next s"
    and polled: "\<not> skip io \<Longrightarrow> call_ok io \<Longrightarrow>
      \<exists>t. p io s = poll_ring io t \<and> limit t = limit s \<and> sent_bytes (log t) = sent_bytes (log s)"
begin

lemma passes_snoc:
  assumes "\<forall>io \<in> set ios. call_ok io"
  shows "passes p (ios @ [io]) s = (case p io (passes p ios s) of Done s1 \<Rightarrow> s1 | Next s1 \<Rightarrow> s1)"
  using assms
proof (induction ios arbitrary: s)
  case (Cons x xs)
  have "\<exists>s1. p x s = Next s1"
  proof (cases "skip x")
    case False
    with polled [of x s] Cons.prems show ?thesis by (auto simp: poll_ring_def send_half_def call_ok_def Let_def)
  qed (use skipped Cons.prems in auto)
  then show ?case using Cons by auto
qed (simp split: pass.split)

lemma pass_catches_up:
  assumes hw: "ring_hw skip io w d" and up: "caught_up d s (last_poll skip io w i) n s'"
  shows "\<exists>n'. caught_up d s (last_poll skip io w (Suc i)) n' (case p (io i) s' of Done s1 \<Rightarrow> s1 | Next s1 \<Rightarrow> s1)"
proof (cases "skip (io i)")
  case True
  then show ?thesis using skipped [of "io i" s'] hw up by (auto simp: ring_hw_def)
next
  case False
  define v where "v = last_poll skip io w i"
  have ok: "call_ok (io i)" and ctr: "io_cntr (io i) = of_nat (w i mod 65536)" and vw: "v \<le> w i" "w i \<le> v + 16384"
    using hw by (simp_all add: ring_hw_def v_def)
  have step: "w (Suc i) \<le> w i + 16384" using hw False by (auto simp: ring_hw_def dest: spec [of _ "Suc i"])
  have ram: "io_ram (io i) (a mod 8388608) = d a" if "a < 128 * w i" "128 * w (Suc i) \<le> a + 8388608" for a
    using hw that by (simp add: ring_hw_def)
  obtain t where t: "p (io i) s' = poll_ring (io i) t" "limit t = limit s'" "sent_bytes (log t) = sent_bytes (log s')"
    using polled [OF False ok] by blast
  let ?half = "if even n then 0 else 4194304"
  have n: "n * 32768 \<le> w i" "w i \<le> n * 32768 + 49152" and lim: "limit t = (if even n then 32768 else 0)"
    and sent: "sent_bytes (log t) = sent_bytes (log s) @ map d [0..<n * 4194304]"
    using up vw t by (simp_all add: caught_up_def v_def)
  have ready: "half_ready ring_4mb (sint (io_cntr (io i))) t \<longleftrightarrow> (if even n then (n + 1) * 32768 < w i else (n + 1) * 32768 \<le> w i)"
    using counter_decides [OF n] by (auto simp: half_ready_def lim ctr sint_counter ring_4mb_def split: if_splits)
  have off: "half_offset ring_4mb t = ?half" by (simp add: half_offset_def lim ring_4mb_def)
  have last: "last_poll skip io w (Suc i) = w i" using False by simp
  show ?thesis
  proof (cases "half_ready ring_4mb (sint (io_cntr (io i))) t")
    case True
    then have full: "(n + 1) * 32768 \<le> w i" using ready by (simp split: if_splits)
    have slice: "ram_slice (io_ram (io i)) ?half 4194304 = map d [n * 4194304..<(n + 1) * 4194304]"
      by (rule ring_slice, rule ram) (use full n step in linarith)+
    have "poll_ring (io i) t = Next (emit [Send (ram_slice (io_ram (io i)) ?half 4194304)] (flip_limit ring_4mb t))"
      using True ok off by (simp add: poll_ring_def send_half_def Let_def call_ok_def ring_4mb_def)
    moreover have join: "map d [0..<n * 4194304] @ map d [n * 4194304..<(n + 1) * 4194304] = map d [0..<(n + 1) * 4194304]"
      by (rule map_upt_join) simp
    moreover have "caught_up d s (w i) (n + 1) (emit [Send (ram_slice (io_ram (io i)) ?half 4194304)] (flip_limit ring_4mb t))"
      unfolding caught_up_def
    proof (intro conjI)
      show "sent_bytes (log (emit [Send (ram_slice (io_ram (io i)) ?half 4194304)] (flip_limit ring_4mb t))) =
          sent_bytes (log s) @ map d [0..<(n + 1) * 4194304]"
        unfolding slice log_emit sent_bytes_simps append_Nil2 join [symmetric] log_flip_limit sent append_assoc ..
      show "limit (emit [Send (ram_slice (io_ram (io i)) ?half 4194304)] (flip_limit ring_4mb t)) = (if even (n + 1) then 32768 else 0)"
        using lim by (simp add: flip_limit_def emit_def ring_4mb_def)
      show "(n + 1) * 32768 \<le> w i" by (rule full)
      show "w i \<le> (n + 1 + 1) * 32768" using n(2) by simp
    qed
    ultimately show ?thesis unfolding t(1) last by auto
  next
    case waiting: False
    then have "poll_ring (io i) t = Next t" by (simp add: poll_ring_def send_half_def)
    moreover have "caught_up d s (w i) n t" using sent lim n ready waiting by (simp add: caught_up_def split: if_splits)
    ultimately show ?thesis unfolding t(1) last by auto
  qed
qed

lemma passes_catch_up_from:
  assumes hw: "ring_hw skip io w d" and up: "caught_up d s0 (last_poll skip io w j) n s" and "j \<le> k"
  shows "\<exists>n. caught_up d s0 (last_poll skip io w k) n (passes p (map io [j..<k]) s)"
  using assms(3)
proof (induction k)
  case (Suc k)
  show ?case
  proof (cases "j = Suc k")
    case True
    then show ?thesis using up by auto
  next
    case False
    then obtain n where "caught_up d s0 (last_poll skip io w k) n (passes p (map io [j..<k]) s)" using Suc by auto
    moreover have "\<forall>x \<in> set (map io [j..<k]). call_ok x" using hw by (auto simp: ring_hw_def)
    ultimately show ?thesis using pass_catches_up [OF hw] Suc.prems False by (simp add: passes_snoc)
  qed
qed (use up in auto)

lemma passes_catch_up:
  assumes hw: "ring_hw skip io w d" and "limit s = 32768"
  shows "\<exists>n. caught_up d s (last_poll skip io w k) n (passes p (map io [0..<k]) s)"
proof -
  have "caught_up d s (last_poll skip io w 0) 0 s" using assms(2) by (simp add: caught_up_def)
  from passes_catch_up_from [OF hw this, of k] show ?thesis by simp
qed

end

text \<open>Commands that leave the streaming alone, and are refused or not whatever the state.\<close>

definition skips :: "(u32 \<Rightarrow> ring \<Rightarrow> ring option) \<Rightarrow> pass_io \<Rightarrow> bool" where
  "skips act io \<longleftrightarrow> (case (io_size io, io_command io) of
     (Some available, Some command) \<Rightarrow> 4 \<le> available \<and> act command \<lparr>cfg = (\<lambda>_. 0), log = [], limit = 0\<rparr> = None
   | _ \<Rightarrow> False)"

locale ring_commands =
  fixes act :: "u32 \<Rightarrow> ring \<Rightarrow> ring option"
  assumes act_limit: "act command s = Some t \<Longrightarrow> limit t = limit s"
    and act_sent: "act command s = Some t \<Longrightarrow> sent_bytes (log t) = sent_bytes (log s)"
    and act_refused: "act command s = None \<Longrightarrow> act command t = None"

sublocale ring_commands \<subseteq> ring_loop "command_pass act poll_ring" "skips act"
proof
  fix io :: pass_io and s assume ok: "call_ok io"
  then obtain available command where io: "io_size io = Some available" "io_command io = Some command"
    by (auto simp: call_ok_def)
  show "command_pass act poll_ring io s = Next s" if "skips act io"
  proof -
    have "4 \<le> available" "act command s = None" using that io act_refused by (auto simp: skips_def)
    then show ?thesis using io by (simp add: command_pass_def)
  qed
  show "\<exists>t. command_pass act poll_ring io s = poll_ring io t \<and> limit t = limit s \<and> sent_bytes (log t) = sent_bytes (log s)" if no: "\<not> skips act io"
  proof (cases "4 \<le> available")
    case True
    then obtain t where t: "act command s = Some t" using no io act_refused [of command s] by (cases "act command s") (auto simp: skips_def)
    then have "command_pass act poll_ring io s = poll_ring io t" using True io by (simp add: command_pass_def)
    then show ?thesis using act_limit [OF t] act_sent [OF t] by blast
  next
    case False
    then have "command_pass act poll_ring io s = poll_ring io s" using io by (simp add: command_pass_def)
    then show ?thesis by blast
  qed
qed

interpretation adc_test: ring_loop poll_ring "\<lambda>_. False"
  by unfold_locales auto

lemma sent_writes:
  "sent_bytes (log (put8 a x s)) = sent_bytes (log s)" "sent_bytes (log (put16 a y s)) = sent_bytes (log s)"
  "sent_bytes (log (put32 a z s)) = sent_bytes (log s)" "sent_bytes (log (set8 a x s)) = sent_bytes (log s)"
  "sent_bytes (log (clr8 a x s)) = sent_bytes (log s)"
  by (simp_all add: log_simps) (simp_all add: sent_bytes_def map_filter_simps)

lemma limit_writes:
  fixes s :: "'a ring_scheme"
  shows "limit (put8 a x s) = limit s" "limit (put16 a y s) = limit s" "limit (put32 a z s) = limit s" "limit (set8 a x s) = limit s"
  "limit (clr8 a x s) = limit s"
  by (simp_all add: put8_def put16_def put32_def set8_def clr8_def)

interpretation wide: ring_commands "wide_command w" for w
  by unfold_locales (auto simp: wide_command_def Let_def sent_writes limit_writes split: if_splits)

interpretation sync: ring_commands "sync_command m" for m
  by unfold_locales (auto simp: sync_command_def sync_freq_def sync_level_def Let_def sent_writes limit_writes split: if_splits)

text \<open>The five programs.\<close>

definition ring_programs :: "u32 \<Rightarrow> ring_prog set" where
  "ring_programs addr = {adc_test, sdr_receiver_wide_125, sdr_receiver_wide_122_88, sdr_receiver_master addr, sdr_receiver_slave addr}"

lemmas ring_program_defs = adc_test_def sdr_receiver_wide_125_def sdr_receiver_wide_122_88_def sdr_receiver_master_def
  sdr_receiver_slave_def sdr_receiver_wide_def sdr_receiver_sync_def

text \<open>The passes of a program that do not read the counter: those with a command that it refuses.\<close>

definition refuses :: "ring_prog \<Rightarrow> pass_io \<Rightarrow> bool" where
  "refuses p io = (case action p of None \<Rightarrow> False | Some act \<Rightarrow> skips act io)"

lemma ring_caught_up:
  assumes "p \<in> ring_programs addr" and "ring_hw (refuses p) io w d"
  shows "\<exists>n. caught_up d (connected p s) (last_poll (refuses p) io w k) n (passes (prog_pass p) (map io [0..<k]) (connected p s))"
proof -
  have lim: "limit (connected p s) = 32768"
    using assms(1) by (auto simp: ring_programs_def ring_program_defs sync_connected_def start_limit_def)
  show ?thesis
  proof (cases "action p")
    case None
    then have "prog_pass p = poll_ring" "refuses p = (\<lambda>_. False)" by (simp_all add: fun_eq_iff prog_pass_def refuses_def)
    then show ?thesis using adc_test.passes_catch_up [OF _ lim] assms(2) by simp
  next
    case (Some act)
    then have eq: "prog_pass p = command_pass act poll_ring" "refuses p = skips act"
      by (simp_all add: fun_eq_iff prog_pass_def refuses_def)
    have "(\<exists>v. act = wide_command v) \<or> (\<exists>m. act = sync_command m)"
      using assms(1) Some by (auto simp: ring_programs_def ring_program_defs)
    then show ?thesis using wide.passes_catch_up [OF _ lim] sync.passes_catch_up [OF _ lim] assms(2) eq by auto
  qed
qed

text \<open>C29: if from one reading of the counter to the next the FPGA writes at most a quarter of the ring, a
  client of any of the five programs receives the stream of samples from its beginning, in order and
  without a gap or a repetition, and the server is never more than one half of the ring behind.\<close>

theorem ring_stream:
  assumes "p \<in> ring_programs addr" and "ring_hw (refuses p) io w d"
  shows "\<exists>n s'. passes (prog_pass p) (map io [0..<k]) (connected p s) = s' \<and>
    sent_bytes (log s') = sent_bytes (log (connected p s)) @ map d [0..<n * 4194304] \<and>
    n * 4194304 \<le> 128 * last_poll (refuses p) io w k \<and> 128 * last_poll (refuses p) io w k \<le> (n + 1) * 4194304"
  using ring_caught_up [OF assms, of s k] by (auto simp: caught_up_def)

section \<open>Registers of master and slave\<close>

text \<open>An increment, and the flag beside it that halts the oscillator.\<close>

definition oscillators_ok :: "mem \<Rightarrow> bool" where
  "oscillators_ok m \<longleftrightarrow> (\<forall>a \<in> {8, 16, 24, 32}. rd32 m a \<le> 2 ^ 29 \<and> rd32 m (a + 4) = of_bool (rd32 m a = 0))"

definition sync_ok :: "u32 \<Rightarrow> mem \<Rightarrow> bool" where
  "sync_ok addr m \<longleftrightarrow> 16 \<le> rd16 m 2 \<and> rd16 m 2 \<le> 8192 \<and> rd32 m 4 = addr \<and> oscillators_ok m"

lemma increment_range:
  assumes "0 \<le> f" and "f \<le> 62500000"
  shows "increment 125000000 f \<le> 2 ^ 29" and "increment 125000000 f = 0 \<longleftrightarrow> f = 0"
proof -
  define k where "k = round_half_up (f * 2 ^ 30) 125000000"
  have b: "2 * 125000000 * k \<le> 2 * (f * 2 ^ 30) + 125000000" "2 * (f * 2 ^ 30) - 125000000 < 2 * 125000000 * k"
    using round_half_up_bounds [of 125000000 "f * 2 ^ 30"] by (simp_all add: k_def)
  have k: "0 \<le> k" "k \<le> 2 ^ 29" "k = 0 \<longleftrightarrow> f = 0" using b assms by auto
  have w: "increment 125000000 f = word_of_int k"
    using dds_inc_125 [of f] assms by (simp add: increment_def dds_word_def k_def)
  have "uint (word_of_int k :: u32) = k" using k(1,2) by (simp add: uint_word_of_int_eq take_bit_int_eq_self)
  then show "increment 125000000 f \<le> 2 ^ 29" "increment 125000000 f = 0 \<longleftrightarrow> f = 0"
    using k by (simp_all add: w word_le_def uint_0_iff [symmetric])
qed

text \<open>What every pass keeps holds at the end.\<close>

fun left_by :: "'s pass \<Rightarrow> 's" where
  "left_by (Done s) = s"
| "left_by (Next s) = s"

lemma passes_keep: "(\<And>io s. I s \<Longrightarrow> I (left_by (p io s))) \<Longrightarrow> I s \<Longrightarrow> I (passes p ios s)"
proof (induction ios arbitrary: s)
  case (Cons io ios)
  from Cons.prems have "I (left_by (p io s))" by blast
  with Cons show ?case by (cases "p io s") auto
qed simp

lemma send_half_keeps: "cfg (left_by (send_half z position io s)) = cfg s"
  by (simp add: send_half_def Let_def flip_limit_def emit_def)

lemma command_pass_keeps:
  assumes "\<And>command t. act command s = Some t \<Longrightarrow> I t" and "\<And>io t. I t \<Longrightarrow> I (left_by (rest io t))" and "I s"
  shows "I (left_by (command_pass act rest io s))"
  using assms by (auto simp: command_pass_def split: option.split)

lemma value_of_nonneg: "0 \<le> value_of command"
  by (simp add: value_of_def)

lemma sync_freq_ok:
  assumes "sync_ok addr (cfg s)" and "sync_freq a value s = Some t" and "a \<in> {8, 16, 24, 32}"
  shows "sync_ok addr (cfg t)"
proof -
  have v: "0 \<le> value" "value \<le> 62500000" and t: "t = put32 (a + 4) (if value > 0 then 0 else 1) (put32 a (increment 125000000 value) s)"
    using assms(2) by (auto simp: sync_freq_def split: if_splits)
  have range: "increment 125000000 value \<le> 2 ^ 29" "(if value > 0 then 0 else 1) = (of_bool (increment 125000000 value = 0) :: u32)"
    using increment_range [OF v] v by auto
  consider "a = 8" | "a = 16" | "a = 24" | "a = 32" using assms(3) by blast
  then show ?thesis
    unfolding t range(2) using assms(1) range(1) by cases (simp_all add: sync_ok_def oscillators_ok_def reg_simps)
qed

lemma word16_range: "0 \<le> v \<Longrightarrow> v < 65536 \<Longrightarrow> uint (word_of_int v :: u16) = v"
  by (simp add: uint_word_of_int_eq take_bit_int_eq_self)

lemma sync_command_ok:
  assumes ok: "sync_ok addr (cfg s)" and "sync_command m command s = Some t"
  shows "sync_ok addr (cfg t)"
proof -
  have rate: "sync_ok addr (cfg (put16 2 (word_of_int v) s))" if "16 \<le> v" "v \<le> 8192" for v
    using ok that word16_range [of v] by (auto simp: sync_ok_def oscillators_ok_def reg_simps word_le_def)
  have level: "sync_ok addr (cfg (put16 a x s))" if "a \<in> {40, 42}" for a x
    using ok that by (auto simp: sync_ok_def oscillators_ok_def reg_simps)
  have start: "sync_ok addr (cfg (set8 0 1 s))"
    using ok by (auto simp: sync_ok_def oscillators_ok_def reg_simps)
  have freq: "sync_freq a (value_of command) s = Some t \<Longrightarrow> a \<in> {8, 16, 24, 32} \<Longrightarrow> sync_ok addr (cfg t)" for a
    by (rule sync_freq_ok [OF ok])
  from assms(2) ok show ?thesis
    unfolding sync_command_def sync_level_def Let_def
    by (auto simp: not_less intro: rate level start ok freq split: if_split_asm)
qed

text \<open>C30: whatever a client of the master or of a slave sends, the decimation rate stays between 16 and 8192, the
  writer's address stays the one of the driver, all phase increments stay below half the sample rate, and
  an oscillator is halted exactly when its increment is 0.\<close>

theorem sync_registers:
  "let p = (if m then sdr_receiver_master addr else sdr_receiver_slave addr); s' = passes (prog_pass p) ios (connected p s)
   in 16 \<le> rd16 (cfg s') 2 \<and> rd16 (cfg s') 2 \<le> 8192 \<and> rd32 (cfg s') 4 = addr \<and> oscillators_ok (cfg s')"
proof -
  have "sync_ok addr (cfg (sync_connected addr s))"
    using increment_range [of 10000000]
    by (simp add: sync_ok_def oscillators_ok_def sync_connected_def sync_init_def start_limit_def Let_def reg_simps)
  then have "sync_ok addr (cfg (passes (command_pass (sync_command m) poll_ring) ios (sync_connected addr s)))"
  proof (rule passes_keep [where I = "\<lambda>s. sync_ok addr (cfg s)", rotated])
    fix io and s :: ring assume ok: "sync_ok addr (cfg s)"
    show "sync_ok addr (cfg (left_by (command_pass (sync_command m) poll_ring io s)))"
      by (rule command_pass_keeps [where I = "\<lambda>s. sync_ok addr (cfg s)"])
        (use ok in \<open>auto intro: sync_command_ok simp: poll_ring_def send_half_keeps\<close>)
  qed
  moreover have "prog_pass (sdr_receiver_sync m addr) = command_pass (sync_command m) poll_ring" "connected (sdr_receiver_sync m addr) = sync_connected addr"
    by (simp_all add: fun_eq_iff prog_pass_def sdr_receiver_sync_def)
  moreover have "(if m then sdr_receiver_master addr else sdr_receiver_slave addr) = sdr_receiver_sync m addr"
    by (simp add: sdr_receiver_master_def sdr_receiver_slave_def)
  ultimately show ?thesis by (simp add: sync_ok_def Let_def)
qed

section \<open>The radar server\<close>

lemma radar_command_limit:
  assumes "limit s = 256 * 1024" and "radar_command data command s = Some t"
  shows "limit t = 256 * 1024 \<and> sent_bytes (log t) = sent_bytes (log s)"
  using assms by (auto simp: radar_command_def radar_begin_def radar_waveform_def leave_reset_def enter_reset_def Let_def
      sent_writes limit_writes split: if_splits)

text \<open>A position of 16 bits never exceeds the limit of the first half.\<close>

lemma radar_poll_waits: "limit s = 256 * 1024 \<Longrightarrow> radar_poll io s = Next s"
proof -
  assume lim: "limit s = 256 * 1024"
  have "uint (ucast (io_cntr io) :: u16) < 65536" using uint_lt2p [of "ucast (io_cntr io) :: u16"] by simp
  then show ?thesis using lim by (simp add: radar_poll_def send_half_def half_ready_def)
qed

lemma radar_passes_silent:
  assumes "limit s = 256 * 1024"
  shows "limit (passes radar_pass ios s) = 256 * 1024 \<and> sent_bytes (log (passes radar_pass ios s)) = sent_bytes (log s)"
proof -
  let ?I = "\<lambda>t. limit t = 256 * 1024 \<and> sent_bytes (log t) = sent_bytes (log s)"
  show ?thesis
  proof (rule passes_keep [where I = ?I])
    fix io :: radar_io and t :: radar assume t: "?I t"
    show "?I (left_by (radar_pass io t))"
      unfolding radar_pass_def
      by (rule command_pass_keeps [where I = ?I]) (use t radar_command_limit [of t "io_data io"] in \<open>auto simp: radar_poll_waits\<close>)
  qed (use assms in simp)
qed

text \<open>C31: once a client has started the radar, with or without a waveform, the server never sends a byte of the
  received samples, to this client or a later one: it compares a 16-bit counter with a limit
  of 262144.\<close>

theorem radar_silent:
  assumes "radar_command data command s = Some t" and "code_of command \<in> {1, 2}"
  shows "sent_bytes (log (radar_serve clients (passes radar_pass ios t))) = sent_bytes (log s)"
proof -
  have t: "limit t = 256 * 1024" "sent_bytes (log t) = sent_bytes (log s)"
    using assms by (auto simp: radar_command_def radar_begin_def radar_waveform_def leave_reset_def Let_def sent_writes split: if_splits)
  define u where "u = passes radar_pass ios t"
  have u: "limit u = 256 * 1024" "sent_bytes (log u) = sent_bytes (log s)"
    using radar_passes_silent [OF t(1)] t(2) by (simp_all add: u_def)
  have "limit (fold radar_session clients u) = 256 * 1024 \<and> sent_bytes (log (fold radar_session clients u)) = sent_bytes (log u)"
    using u(1)
  proof (induction clients arbitrary: u)
    case (Cons ios clients)
    have "limit (radar_idle u) = 256 * 1024" "sent_bytes (log (radar_idle u)) = sent_bytes (log u)"
      using Cons.prems by (simp_all add: radar_idle_def enter_reset_def sent_writes limit_writes)
    with radar_passes_silent [of "radar_idle u" ios] Cons.IH [of "radar_session ios u"] show ?case
      by (simp add: radar_session_def)
  qed simp
  then show ?thesis using u by (simp add: radar_serve_def enter_reset_def sent_writes u_def)
qed

section \<open>Witnesses\<close>

text \<open>A stream that counts its bytes, and a writer that advances by 10000 units from pass to pass: in the fifth pass the
  first half is sent.\<close>

definition example_io :: "nat \<Rightarrow> pass_io" where
  "example_io i = \<lparr>io_size = Some 0, io_command = Some 0, io_cntr = of_nat (10000 * i mod 65536), io_ram = of_nat, io_ok = True\<rparr>"

lemma byte_counter: "(of_nat (a mod 8388608) :: u8) = of_nat a"
proof -
  have zero: "(of_nat (8388608 :: nat) :: u8) = 0" by (simp add: of_nat_eq_0_iff word_of_nat_eq_0_iff)
  have "(of_nat a :: u8) = of_nat (a div 8388608) * of_nat (8388608 :: nat) + of_nat (a mod 8388608)"
    by (metis div_mult_mod_eq of_nat_add of_nat_mult)
  then show ?thesis by (simp only: zero mult_zero_right add_0)
qed

theorem ring_stream_witness:
  "sent_bytes (log (passes (prog_pass adc_test) (map example_io [0..<5]) (connected adc_test \<lparr>cfg = (\<lambda>_. 0), log = [], limit = 0\<rparr>))) =
    map of_nat [0..<4194304]"
proof -
  have never: "refuses adc_test = (\<lambda>_. False)" by (simp add: refuses_def adc_test_def fun_eq_iff)
  have last: "last_poll (\<lambda>_. False) io w i = (if i = 0 then 0 else w (i - 1))" for io w i by (cases i) simp_all
  have hw: "ring_hw (refuses adc_test) example_io (\<lambda>i. 10000 * i) of_nat"
    unfolding ring_hw_def never last by (auto simp: example_io_def call_ok_def byte_counter unat_counter)
  have start: "sent_bytes (log (connected adc_test \<lparr>cfg = (\<lambda>_. 0), log = [], limit = 0\<rparr>)) = []"
    by (simp add: adc_test_def start_limit_def leave_reset_def sent_writes)
  have "adc_test \<in> ring_programs 0" by (simp add: ring_programs_def)
  from ring_stream [OF this hw, of 5 "\<lparr>cfg = (\<lambda>_. 0), log = [], limit = 0\<rparr>"] obtain n where
    n: "sent_bytes (log (passes (prog_pass adc_test) (map example_io [0..<5]) (connected adc_test \<lparr>cfg = (\<lambda>_. 0), log = [], limit = 0\<rparr>))) =
      [] @ map of_nat [0..<n * 4194304]"
    and b: "n * 4194304 \<le> 128 * (if (5 :: nat) = 0 then 0 else 10000 * (5 - 1))" "128 * (if (5 :: nat) = 0 then 0 else 10000 * (5 - 1)) \<le> (n + 1) * 4194304"
    unfolding never last start by blast
  from b have "n = 1" by simp
  with n show ?thesis by (simp only: append_Nil mult_1)
qed

theorem radar_silent_witness:
  "\<exists>t. radar_command [] 0x20000000 \<lparr>cfg = (\<lambda>_. 0), log = [], limit = 0, tx_ram = []\<rparr> = Some t \<and>
    sent_bytes (log (radar_serve [[], []] (passes radar_pass [] t))) = []"
proof -
  have code: "code_of 0x20000000 = 2" by (simp add: code_of_def drop_bit_eq_div)
  then obtain t where t: "radar_command [] 0x20000000 \<lparr>cfg = (\<lambda>_. 0), log = [], limit = 0, tx_ram = []\<rparr> = Some t"
    by (simp add: radar_command_def)
  with radar_silent [OF t, of "[[], []]" "[]"] code show ?thesis by auto
qed

end
