(* ===== verification/AdcTest.thy ===== *)
theory AdcTest imports Regs Doubles Cargs begin

text \<open>
  adc.c, the console program of the pulse recorder, and the temperature sensor of xadc_temp.c.  The program sets
  the ADC block up, waits until the memory writer moves, writes the memory to a CSV file and exits.
\<close>

section \<open>xadc\_temp.c\<close>

text \<open>\<open>fscanf(f, "%lld", &val)\<close> on the contents of a file: blanks, a sign and digits, whatever follows; \<open>None\<close> without a
  number.\<close>

definition scan_lld :: "string \<Rightarrow> int option" where
  "scan_lld s =
    (let rest = dropWhile is_space s;
         minus = (rest \<noteq> [] \<and> hd rest = CHR ''-'');
         plus = (rest \<noteq> [] \<and> hd rest = CHR ''+'');
         ds = takeWhile is_digit (if minus \<or> plus then tl rest else rest);
         value = (if minus then - digits_value ds else digits_value ds)
     in if ds = [] then None else Some (max (- (2 ^ 63)) (min (2 ^ 63 - 1) value)))"

text \<open>\<open>None\<close> is a file that cannot be opened; the program exits then, as it does without a number.\<close>

definition read_int64 :: "string option \<Rightarrow> int option" where
  "read_int64 file = (case file of None \<Rightarrow> None | Some text \<Rightarrow> scan_lld text)"

definition wrap64 :: "int \<Rightarrow> int" where
  "wrap64 x = sint (word_of_int x :: 64 word)"

definition to_double :: "int \<Rightarrow> dbl" where
  "to_double x = rnd (of_int x)"

definition read_temperature :: "string option \<Rightarrow> string option \<Rightarrow> string option \<Rightarrow> dbl option" where
  "read_temperature off raw scl =
    (case read_int64 off of None \<Rightarrow> None
     | Some k \<Rightarrow> (case read_int64 raw of None \<Rightarrow> None
       | Some r \<Rightarrow> (case read_int64 scl of None \<Rightarrow> None
         | Some c \<Rightarrow> Some (fdiv (fmul (to_double (wrap64 (k + r))) (to_double c)) 1000))))"

section \<open>adc.c: set-up\<close>

text \<open>\<open>SET_BIT\<close>, \<open>CLEAR_BIT\<close>\<close>

definition set_bit_at :: "nat \<Rightarrow> nat \<Rightarrow> 'a dev_scheme \<Rightarrow> 'a dev_scheme" where
  "set_bit_at a n s = set8 a (ucast (push_bit n 1 :: u32)) s"

definition clear_bit_at :: "nat \<Rightarrow> nat \<Rightarrow> 'a dev_scheme \<Rightarrow> 'a dev_scheme" where
  "clear_bit_at a n s = clr8 a (ucast (push_bit n 1 :: u32)) s"

record adc = dev +
  position :: u64
  prev_position :: u64
  cached_temp :: dbl
  last_temp_time :: int
  csv :: "string list"

definition adc_start :: adc where
  "adc_start = \<lparr>cfg = (\<lambda>_. 0), log = [], position = 0, prev_position = 0, cached_temp = 0, last_temp_time = 0, csv = []\<rparr>"

definition adc_setup :: "u32 \<Rightarrow> adc \<Rightarrow> adc" where
  "adc_setup physical_address s =
    (let s = clear_bit_at 0 0 s; s = clear_bit_at 0 1 s;
         s = put16 12 140 s; s = put16 14 1 s;
         s = put8 16 (- 1) s; s = put8 17 10 s; s = put8 18 100 s; s = put8 19 (- 1) s;
         s = put16 8 2000 s; s = put8 10 16 s; s = put32 4 physical_address s; s = put16 2 1 s;
         s = set_bit_at 0 0 s; s = set_bit_at 0 1 s; s = set_bit_at 0 3 s;
         s = clear_bit_at 0 2 s
     in set_bit_at 0 2 s)"

section \<open>The CSV file\<close>

text \<open>\<open>if (a & 0x4000) a |= 0x8000\<close> on the 15 bits of a sample.\<close>

definition extend15 :: "u16 \<Rightarrow> u16" where
  "extend15 a = (if a AND 0x4000 \<noteq> 0 then a OR 0x8000 else a)"

definition sample_type :: "u32 \<Rightarrow> u8" where
  "sample_type word = ucast (drop_bit 30 word AND 3)"

definition sample_a :: "u32 \<Rightarrow> u16" where
  "sample_a word = extend15 (ucast (drop_bit 15 word AND 0x7fff))"

definition sample_b :: "u32 \<Rightarrow> u16" where
  "sample_b word = extend15 (ucast (word AND 0x7fff))"

text \<open>\<open>%d\<close>, \<open>%u\<close>, and \<open>%2d\<close> which fills up to two characters.\<close>

fun digits_of :: "nat \<Rightarrow> string" where
  "digits_of n = (if n < 10 then [char_of (48 + n)] else digits_of (n div 10) @ [char_of (48 + n mod 10)])"

declare digits_of.simps [simp del]

definition print_d :: "int \<Rightarrow> string" where
  "print_d x = (if x < 0 then CHR ''-'' # digits_of (nat (- x)) else digits_of (nat x))"

definition pad2 :: "string \<Rightarrow> string" where
  "pad2 s = replicate (2 - length s) CHR '' '' @ s"

definition csv_line :: "nat \<Rightarrow> u32 \<Rightarrow> string" where
  "csv_line i word =
    pad2 (print_d (int i)) @ ''|'' @ pad2 (print_d (uint (sample_type word))) @ ''|'' @
    print_d (sint (sample_a word)) @ ''|'' @ print_d (sint (sample_b word)) @ [CHR 0x0A]"

definition csv_rows :: nat where "csv_rows = 65536 + 4"

definition csv_file :: "(nat \<Rightarrow> u32) \<Rightarrow> string list" where
  "csv_file buf32 = (''Ix|Type|A|B'' @ [CHR 0x0A]) # map (\<lambda>i. csv_line i (buf32 i)) [0..<csv_rows]"

section \<open>adc.c: the loop\<close>

text \<open>What a pass reads: the writer's counter, the time in seconds, the files of the sensor, whether the CSV file can be
  opened, and the memory.\<close>

record adc_io =
  a_cntr :: u32
  a_now :: int
  a_off :: "string option"
  a_raw :: "string option"
  a_scl :: "string option"
  a_open :: bool
  a_ram :: "nat \<Rightarrow> u32"

datatype 's outcome = Going 's | Exited int 's

definition update_temp :: "adc_io \<Rightarrow> adc \<Rightarrow> adc option" where
  "update_temp io s =
    (let diff_sec = a_now io - last_temp_time s
     in if diff_sec \<ge> 1
        then (case read_temperature (a_off io) (a_raw io) (a_scl io) of
                None \<Rightarrow> None
              | Some temp_val \<Rightarrow>
                  Some (if temp_val > - 60 then s\<lparr>cached_temp := temp_val, last_temp_time := a_now io\<rparr> else s))
        else Some s)"

definition adc_pass :: "adc_io \<Rightarrow> adc \<Rightarrow> adc outcome" where
  "adc_pass io s =
    (let s = s\<lparr>prev_position := position s\<rparr>; s = s\<lparr>position := ucast (a_cntr io)\<rparr>
     in case update_temp io s of
          None \<Rightarrow> Exited 1 s
        | Some s \<Rightarrow>
            if prev_position s \<noteq> position s
            then if a_open io then Exited 0 (s\<lparr>csv := csv_file (a_ram io)\<rparr>) else Exited 1 s
            else Going s)"

text \<open>The passes until the program exits or is interrupted, when it puts the hardware into reset again.\<close>

definition adc_shutdown :: "adc \<Rightarrow> adc" where
  "adc_shutdown s = clr8 0 2 (clr8 0 1 s)"

fun adc_loop :: "adc_io list \<Rightarrow> adc \<Rightarrow> int \<times> adc" where
  "adc_loop [] s = (0, adc_shutdown s)"
| "adc_loop (io # ios) s = (case adc_pass io s of Exited status s1 \<Rightarrow> (status, s1) | Going s1 \<Rightarrow> adc_loop ios s1)"

definition adc_main :: "u32 \<Rightarrow> adc_io list \<Rightarrow> int \<times> adc" where
  "adc_main physical_address ios = adc_loop ios (adc_setup physical_address adc_start)"

section \<open>What is displayed\<close>

text \<open>The length of the pulse in milliseconds and the time since the start in seconds.\<close>

definition pulse_len :: "u64 \<Rightarrow> u64 \<Rightarrow> dbl" where
  "pulse_len last_detrigged first_trgged = fdiv (to_double (uint (last_detrigged - first_trgged))) 125000"

definition samples_time :: "u64 \<Rightarrow> dbl" where
  "samples_time samples_count = fdiv (to_double (uint samples_count)) 125000000"

end
