(* ===== verification/AdcProps.thy ===== *)
theory AdcProps imports AdcTest begin

text \<open>
  Properties of adc.c: the lines of the CSV file determine the words of the memory, one session of the
  program, and the fraction that the temperature sensor loses.
\<close>

section \<open>Printed numbers\<close>

lemma of_char_digit: "k < 10 \<Longrightarrow> (of_char (char_of (48 + k) :: char) :: nat) = 48 + k"
  by simp

lemma digit_char: "k < 10 \<Longrightarrow> is_digit (char_of (48 + k :: nat))" "k < 10 \<Longrightarrow> digit_value (char_of (48 + k :: nat)) = int k"
  by (simp_all add: is_digit_def digit_value_def of_char_digit)

lemma digits_value_snoc: "digits_value (ds @ [c]) = digits_value ds * 10 + digit_value c"
  by (simp add: digits_value_def)

lemma digits_of_step: "digits_of n = (if n < 10 then [char_of (48 + n)] else digits_of (n div 10) @ [char_of (48 + n mod 10)])"
  by (rule digits_of.simps)

lemma digits_of_digits: "list_all is_digit (digits_of n)"
proof (induction n rule: digits_of.induct)
  case (1 n)
  then show ?case by (subst digits_of_step) (simp add: digit_char)
qed

lemma digits_of_value: "digits_value (digits_of n) = int n"
proof (induction n rule: digits_of.induct)
  case (1 n)
  show ?case
  proof (cases "n < 10")
    case True
    then show ?thesis by (subst digits_of_step) (simp add: digits_value_def digit_char)
  next
    case False
    then have "digits_value (digits_of n) = int (n div 10) * 10 + int (n mod 10)"
      using 1 by (subst digits_of_step) (simp add: digits_value_snoc digit_char)
    then show ?thesis using div_mult_mod_eq [of n 10] by linarith
  qed
qed

lemma digits_of_nonempty: "digits_of n \<noteq> []"
  by (subst digits_of_step) simp

lemma digit_not_special: "is_digit c \<Longrightarrow> \<not> is_space c \<and> c \<noteq> CHR ''-'' \<and> c \<noteq> CHR ''+'' \<and> c \<noteq> CHR ''|''"
  by (auto simp: is_digit_def is_space_def)

lemma takeWhile_digits: "list_all is_digit ds \<Longrightarrow> (rest = [] \<or> \<not> is_digit (hd rest)) \<Longrightarrow> takeWhile is_digit (ds @ rest) = ds"
  by (cases rest) (simp_all add: takeWhile_append list_all_iff)

text \<open>\<open>strtol\<close> reads a printed number back.\<close>

lemma strtol_print_d:
  assumes "long_min \<le> x" and "x \<le> long_max" and rest: "rest = [] \<or> \<not> is_digit (hd rest)"
  shows "snd (snd (strtol (replicate k (CHR '' '') @ print_d x @ rest))) = x"
proof -
  have space: "is_space (CHR '' '')" "\<not> is_space (CHR ''-'')" by (simp_all add: is_space_def)
  define ds where "ds = digits_of (nat \<bar>x\<bar>)"
  have ds: "list_all is_digit ds" "ds \<noteq> []" "digits_value ds = \<bar>x\<bar>"
    by (simp_all add: ds_def digits_of_digits digits_of_nonempty digits_of_value)
  then obtain c cs where c: "ds = c # cs" "is_digit c" by (cases ds) auto
  have take: "takeWhile is_digit (ds @ rest) = ds" by (rule takeWhile_digits [OF ds(1) rest])
  have print: "print_d x = (if x < 0 then CHR ''-'' # ds else ds)"
    by (auto simp: print_d_def ds_def)
  have blanks: "takeWhile is_space (replicate k (CHR '' '') @ print_d x @ rest) = replicate k (CHR '' '')"
    using c digit_not_special [OF c(2)] space by (simp add: print takeWhile_append takeWhile_replicate)
  show ?thesis
    using assms(1,2) ds c digit_not_special [OF c(2)] take
    unfolding strtol_def blanks Let_def by (auto simp: print)
qed

section \<open>A line of the file\<close>

fun split_bars :: "string \<Rightarrow> string list" where
  "split_bars [] = [[]]"
| "split_bars (c # cs) =
    (if c = CHR ''|'' then [] # split_bars cs
     else case split_bars cs of f # fs \<Rightarrow> (c # f) # fs | [] \<Rightarrow> [[c]])"

lemma split_bars_field: "CHR ''|'' \<notin> set f \<Longrightarrow> split_bars (f @ CHR ''|'' # rest) = f # split_bars rest"
  by (induction f) auto

lemma split_bars_last: "CHR ''|'' \<notin> set f \<Longrightarrow> split_bars f = [f]"
  by (induction f) auto

lemma print_no_bar: "CHR ''|'' \<notin> set (print_d x)" "CHR ''|'' \<notin> set (pad2 (print_d x))"
proof -
  have "CHR ''|'' \<notin> set (digits_of n)" for n
    using digits_of_digits [of n] digit_not_special by (fastforce simp: list_all_iff)
  then show "CHR ''|'' \<notin> set (print_d x)" by (simp add: print_d_def)
  then show "CHR ''|'' \<notin> set (pad2 (print_d x))" by (simp add: pad2_def)
qed

text \<open>What a reader of the file makes of a line: the numbers between the bars, and the word they come from.\<close>

definition line_numbers :: "string \<Rightarrow> int list" where
  "line_numbers line = map (\<lambda>f. snd (snd (strtol f))) (split_bars line)"

definition value_of_numbers :: "int list \<Rightarrow> int" where
  "value_of_numbers ns = ns ! 1 * 2 ^ 30 + ns ! 2 mod 2 ^ 15 * 2 ^ 15 + ns ! 3 mod 2 ^ 15"

lemma csv_line_numbers:
  assumes "i < csv_rows"
  shows "line_numbers (csv_line i w) = [int i, uint (sample_type w), sint (sample_a w), sint (sample_b w)]"
proof -
  have s16: "long_min \<le> sint (x :: u16) \<and> sint x \<le> long_max" for x
    using sint_range_size [of x] by (simp add: word_size long_min_def long_max_def)
  have u8: "long_min \<le> uint x \<and> uint x \<le> long_max" for x :: u8
  proof -
    have "0 \<le> uint x" "uint x < 256" using uint_lt2p [of x] by simp_all
    then show ?thesis unfolding long_min_def long_max_def by linarith
  qed
  have i: "long_min \<le> int i \<and> int i \<le> long_max" using assms by (simp add: csv_rows_def long_min_def long_max_def)
  have pad: "pad2 (print_d x) = replicate (2 - length (print_d x)) (CHR '' '') @ print_d x" for x by (simp add: pad2_def)
  have plain: "print_d x = replicate 0 (CHR '' '') @ print_d x @ []" for x by simp
  have "split_bars (csv_line i w) =
      [pad2 (print_d (int i)), pad2 (print_d (uint (sample_type w))), print_d (sint (sample_a w)), print_d (sint (sample_b w)) @ [CHR 0x0A]]"
    using print_no_bar by (simp add: csv_line_def split_bars_field split_bars_last)
  moreover have "snd (snd (strtol (pad2 (print_d x)))) = x" if "long_min \<le> x \<and> x \<le> long_max" for x
    using strtol_print_d [of x "[]" "2 - length (print_d x)"] that by (simp add: pad)
  moreover have "snd (snd (strtol (print_d x))) = x" if "long_min \<le> x \<and> x \<le> long_max" for x
    using strtol_print_d [of x "[]" 0] that by simp
  moreover have "snd (snd (strtol (print_d x @ [CHR 0x0A]))) = x" if "long_min \<le> x \<and> x \<le> long_max" for x
    using strtol_print_d [of x "[CHR 0x0A]" 0] that by (simp add: is_digit_def)
  ultimately show ?thesis using i u8 s16 by (simp add: line_numbers_def)
qed

text \<open>The value of the low 15 bits of a number as a two's complement: from -16384 to 16383.\<close>

definition signed15 :: "int \<Rightarrow> int" where
  "signed15 n = (if n mod 2 ^ 15 < 2 ^ 14 then n mod 2 ^ 15 else n mod 2 ^ 15 - 2 ^ 15)"

lemma signed15_bits: "signed_take_bit 14 n = signed15 n"
proof -
  have "n mod (2 ^ 14 * 2) = 2 ^ 14 * (n div 2 ^ 14 mod 2) + n mod 2 ^ 14" by (rule zmod_zmult2_eq) simp
  moreover have "0 \<le> n mod 2 ^ 14" "n mod 2 ^ 14 < 2 ^ 14" by simp_all
  ultimately have "bit n 14 \<longleftrightarrow> \<not> n mod 2 ^ 15 < 2 ^ 14"
    by (cases "even (n div 2 ^ 14)") (simp_all add: bit_iff_odd even_iff_mod_2_eq_zero odd_iff_mod_2_eq_one)
  then show ?thesis by (simp add: signed_take_bit_eq_take_bit_minus signed15_def take_bit_eq_mod)
qed

lemma word_and_bit14: "x AND 0x4000 = 0 \<longleftrightarrow> \<not> bit (x :: u16) 14"
  using bit_iff_and_push_bit_not_eq_0 [of x 14] by simp

lemma sint_extend15: "sint (extend15 (ucast (v AND 0x7fff :: u32))) = signed15 (uint v)"
proof -
  have "extend15 (ucast (v AND 0x7fff :: u32)) = signed_take_bit 14 (ucast v)"
    by (rule word16_eqI) (simp add: extend15_def word_bits bit_signed_take_bit_iff word_and_bit14)
  moreover have "sint (signed_take_bit 14 (ucast v) :: u16) = signed_take_bit 14 (uint v)"
    by (rule bit_eqI) (auto simp: bit_sint_iff bit_uint_iff bit_signed_take_bit_iff bit_ucast_iff min_def)
  ultimately have "sint (extend15 (ucast (v AND 0x7fff :: u32))) = signed_take_bit 14 (uint v)" by (simp only:)
  then show ?thesis by (simp only: signed15_bits)
qed

lemma samples_signed: "sint (sample_a w) = signed15 (uint w div 2 ^ 15)" "sint (sample_b w) = signed15 (uint w)"
  by (simp_all add: sample_a_def sample_b_def sint_extend15 drop_bit_eq_div uint_div_distrib)

lemma type_bits: "uint (sample_type w) = uint w div 2 ^ 30"
proof -
  have "uint (sample_type w) = drop_bit 30 (uint w)"
  proof -
    have high: "bit w (30 + n) \<Longrightarrow> n < 2" for n using bit_imp_le_length [of w "30 + n"] by simp
    have "drop_bit 30 w AND mask 2 = drop_bit 30 w"
      by (rule bit_word_eqI) (auto simp: bit_simps dest: bit_imp_le_length)
    then have "drop_bit 30 w AND 3 = drop_bit 30 w" by (simp add: mask_eq_exp_minus_1)
    then show ?thesis unfolding sample_type_def by (auto intro!: bit_eqI simp: bit_uint_iff bit_drop_bit_eq bit_ucast_iff dest: high)
  qed
  then show ?thesis by (simp only: drop_bit_eq_div)
qed

lemma signed15_mod: "signed15 n mod 2 ^ 15 = n mod 2 ^ 15"
  by (simp add: signed15_def mod_diff_eq [symmetric])

text \<open>C33: the numbers in a line of the CSV file are the index, the two uppermost bits of the word of memory, and the next two groups of
  15 bits, each read as a two's complement; the value of the word is got back from them.\<close>

theorem csv_roundtrip:
  assumes "i < csv_rows"
  shows "line_numbers (csv_line i w) = [int i, uint w div 2 ^ 30, signed15 (uint w div 2 ^ 15), signed15 (uint w)] \<and>
    value_of_numbers (line_numbers (csv_line i w)) = uint w"
proof -
  have "uint w div 2 ^ 15 mod 2 ^ 15 * 2 ^ 15 + uint w mod 2 ^ 15 = uint w mod (2 ^ 15 * 2 ^ 15)"
    by (subst zmod_zmult2_eq) (simp_all add: mult.commute)
  then have "uint w div 2 ^ 30 * 2 ^ 30 + uint w div 2 ^ 15 mod 2 ^ 15 * 2 ^ 15 + uint w mod 2 ^ 15 = uint w"
  proof -
    have "x = uint w" if "y = uint w mod (2 ^ 15 * 2 ^ 15)" "x = uint w div 2 ^ 30 * 2 ^ 30 + y" for x y :: int
      using that div_mult_mod_eq [of "uint w" "2 ^ 30"] by simp
    from this [OF \<open>uint w div 2 ^ 15 mod 2 ^ 15 * 2 ^ 15 + uint w mod 2 ^ 15 = uint w mod (2 ^ 15 * 2 ^ 15)\<close>] show ?thesis
      by (simp only: add.assoc)
  qed
  then show ?thesis
    by (simp only: csv_line_numbers [OF assms] samples_signed type_bits) (simp only: value_of_numbers_def nth_Cons_numeral nth_Cons_0 signed15_mod One_nat_def nth_Cons_Suc numeral_2_eq_2 numeral_3_eq_3)
qed

section \<open>A session\<close>

lemma adc_setup_line: "cfg (adc_setup a s) 0 = (cfg s 0 AND NOT 3) OR 15"
proof -
  have "cfg (adc_setup a s) 0 = ((((cfg s 0 AND NOT 1 AND NOT 2) OR 1) OR 2 OR 8) AND NOT 4) OR 4"
    by (simp add: adc_setup_def set_bit_at_def clear_bit_at_def Let_def reg_simps or.assoc and.assoc)
  also have "\<dots> = (cfg s 0 AND NOT 3) OR 15" by (rule word8_eqI) (simp add: word_bits)
  finally show ?thesis .
qed

text \<open>The sensor's files can be read when the temperature is due.\<close>

definition sensor_ok :: "adc_io \<Rightarrow> bool" where
  "sensor_ok io \<longleftrightarrow> read_temperature (a_off io) (a_raw io) (a_scl io) \<noteq> None"

lemma update_temp_frame:
  assumes "sensor_ok io"
  shows "\<exists>c t. update_temp io s = Some (s\<lparr>cached_temp := c, last_temp_time := t\<rparr>)"
proof -
  obtain v where v: "read_temperature (a_off io) (a_raw io) (a_scl io) = Some v" using assms by (auto simp: sensor_ok_def)
  have same: "s = s\<lparr>cached_temp := cached_temp s, last_temp_time := last_temp_time s\<rparr>" by simp
  show ?thesis
  proof (cases "a_now io - last_temp_time s \<ge> 1 \<and> v > - 60")
    case True
    then have "update_temp io s = Some (s\<lparr>cached_temp := v, last_temp_time := a_now io\<rparr>)" using v by (simp add: update_temp_def Let_def)
    then show ?thesis by blast
  next
    case False
    then have "update_temp io s = Some s" using v by (simp add: update_temp_def Let_def)
    then show ?thesis using same by metis
  qed
qed

lemma ucast_zero: "(0 :: u64) = ucast (x :: u32) \<longleftrightarrow> x = 0"
proof -
  have "unat (ucast x :: u64) = unat x"
    using unsigned_less [of x, where ?'a = nat] by (simp add: unsigned_ucast_eq take_bit_nat_eq_self)
  moreover have "(0 :: u64) = ucast x \<longleftrightarrow> unat (ucast x :: u64) = 0" by (subst unat_eq_0) (rule eq_commute)
  ultimately show ?thesis by (simp only: unat_eq_0)
qed

lemma adc_pass_cases:
  assumes "sensor_ok io" and "position s = 0"
  shows "\<exists>c t. adc_pass io s =
    (let s1 = s\<lparr>cached_temp := c, last_temp_time := t, position := ucast (a_cntr io), prev_position := 0\<rparr>
     in if a_cntr io = 0 then Going s1 else if a_open io then Exited 0 (s1\<lparr>csv := csv_file (a_ram io)\<rparr>) else Exited 1 s1)"
proof -
  let ?s0 = "s\<lparr>prev_position := 0, position := ucast (a_cntr io)\<rparr>"
  obtain c t where u: "update_temp io ?s0 = Some (?s0\<lparr>cached_temp := c, last_temp_time := t\<rparr>)"
    using update_temp_frame [OF assms(1), of ?s0] by blast
  show ?thesis using assms(2) u by (intro exI [of _ c] exI [of _ t]) (simp add: adc_pass_def Let_def ucast_zero)
qed

text \<open>C32: the program waits while the writer's counter is 0; at the first other value it writes the whole memory of that
  moment, 65540 lines and a title, and exits with the ADC block still running.  If it is interrupted before, it
  writes nothing and leaves the block in reset.\<close>

theorem adc_session:
  assumes "\<forall>io \<in> set ios. sensor_ok io"
  shows "case (adc_main addr ios, dropWhile (\<lambda>io. a_cntr io = 0) ios) of
      ((status, s), []) \<Rightarrow> status = 0 \<and> csv s = [] \<and> cfg s 0 AND 3 = 0
    | ((status, s), io # rest) \<Rightarrow> cfg s 0 = 15 \<and>
        (if a_open io then status = 0 \<and> csv s = csv_file (a_ram io) \<and> length (csv s) = 65541 else status = 1 \<and> csv s = [])"
proof -
  have len: "length (csv_file ram) = 65541" for ram by (simp add: csv_file_def csv_rows_def)
  have main: "case (adc_loop ios s, dropWhile (\<lambda>io. a_cntr io = 0) ios) of
      ((status, s), []) \<Rightarrow> status = 0 \<and> csv s = [] \<and> cfg s 0 AND 3 = 0
    | ((status, s), io # rest) \<Rightarrow> cfg s 0 = 15 \<and>
        (if a_open io then status = 0 \<and> csv s = csv_file (a_ram io) \<and> length (csv s) = 65541 else status = 1 \<and> csv s = [])"
    if "cfg s 0 = 15" "csv s = []" "position s = 0" for s
    using assms that
  proof (induction ios arbitrary: s)
    case Nil
    have "(15 AND NOT 1 AND NOT 2) AND 3 = (0 :: u8)" by (rule word8_eqI) (simp add: word_bits)
    with Nil show ?case by (simp add: adc_shutdown_def reg_simps) (simp add: clr8_def put8_def)
  next
    case (Cons io ios)
    obtain c t where p: "adc_pass io s =
      (let s1 = s\<lparr>cached_temp := c, last_temp_time := t, position := ucast (a_cntr io), prev_position := 0\<rparr>
       in if a_cntr io = 0 then Going s1 else if a_open io then Exited 0 (s1\<lparr>csv := csv_file (a_ram io)\<rparr>) else Exited 1 s1)"
      using adc_pass_cases [of io s] Cons.prems by auto
    show ?case
    proof (cases "a_cntr io = 0")
      case True
      define s1 where "s1 = s\<lparr>cached_temp := c, last_temp_time := t, position := 0, prev_position := 0\<rparr>"
      have "adc_pass io s = Going s1" using p True by (simp add: s1_def)
      moreover have "cfg s1 0 = 15" "csv s1 = []" "position s1 = 0" using Cons.prems by (simp_all add: s1_def)
      ultimately show ?thesis using Cons.IH [of s1] Cons.prems(1) True by simp
    next
      case False
      then show ?thesis using p Cons.prems len by (simp add: Let_def)
    qed
  qed
  have "cfg (adc_setup addr adc_start) 0 = 15"
    unfolding adc_setup_line by (simp add: adc_start_def)
  moreover have "csv (adc_setup addr adc_start) = []" "position (adc_setup addr adc_start) = 0"
    by (simp_all add: adc_setup_def set_bit_at_def clear_bit_at_def set8_def clr8_def put8_def put16_def put32_def adc_start_def)
  ultimately show ?thesis unfolding adc_main_def by (rule main)
qed

section \<open>The temperature\<close>

text \<open>The driver shows the scale as a decimal fraction; its fraction is not read.\<close>

lemma scan_lld_fraction:
  assumes "list_all is_digit ds" and "ds \<noteq> []"
  shows "scan_lld (ds @ CHR ''.'' # rest) = scan_lld ds"
proof -
  obtain c cs where c: "ds = c # cs" "is_digit c" using assms by (cases ds) auto
  have dot: "\<not> is_digit (CHR ''.'')" by (simp add: is_digit_def)
  have digits: "takeWhile is_digit (ds @ CHR ''.'' # rest) = ds" "takeWhile is_digit ds = ds"
    using takeWhile_digits [OF assms(1), of "CHR ''.'' # rest"] takeWhile_digits [OF assms(1), of "[]"] dot by simp_all
  have scan: "scan_lld src = Some (max (- (2 ^ 63)) (min (2 ^ 63 - 1) (digits_value ds)))"
    if "src = ds @ ys" "takeWhile is_digit src = ds" for src ys
  proof -
    have "dropWhile is_space src = src" "src \<noteq> []" "hd src = c" using that(1) c digit_not_special [OF c(2)] by simp_all
    then show ?thesis using that(2) assms(2) digit_not_special [OF c(2)] by (simp add: scan_lld_def Let_def)
  qed
  show ?thesis using scan [OF refl digits(1)] scan [of ds "[]"] digits(2) by simp
qed

theorem scale_fraction_lost:
  assumes "list_all is_digit ds" and "ds \<noteq> []"
  shows "read_temperature off raw (Some (ds @ CHR ''.'' # rest)) = read_temperature off raw (Some ds)"
proof -
  have "read_int64 (Some (ds @ CHR ''.'' # rest)) = read_int64 (Some ds)"
    using scan_lld_fraction [OF assms] by (simp add: read_int64_def)
  then show ?thesis by (simp only: read_temperature_def)
qed

section \<open>Witnesses\<close>

theorem csv_roundtrip_witness:
  "line_numbers (csv_line 7 0xC0017FFE) = [7, 3, 2, - 2] \<and> value_of_numbers (line_numbers (csv_line 7 0xC0017FFE)) = 0xC0017FFE"
proof -
  have "7 < csv_rows" by (simp add: csv_rows_def)
  from csv_roundtrip [OF this, of "0xC0017FFE"] show ?thesis by (simp add: signed15_def value_of_numbers_def)
qed

definition quiet_io :: "u32 \<Rightarrow> adc_io" where
  "quiet_io n = \<lparr>a_cntr = n, a_now = 5, a_off = Some ''-2219'', a_raw = Some ''2585'', a_scl = Some ''123.040771484'', a_open = True, a_ram = (\<lambda>_. 1)\<rparr>"

theorem adc_session_witness:
  "fst (adc_main 0x1e000000 [quiet_io 0, quiet_io 8, quiet_io 9]) = 0 \<and>
   csv (snd (adc_main 0x1e000000 [quiet_io 0, quiet_io 8, quiet_io 9])) = csv_file (\<lambda>_. 1)"
proof -
  have "read_temperature (Some ''-2219'') (Some ''2585'') (Some ''123.040771484'') \<noteq> None"
    by (simp add: read_temperature_def read_int64_def scan_lld_def is_space_def is_digit_def Let_def)
  then have "\<forall>io \<in> set [quiet_io 0, quiet_io 8, quiet_io 9]. sensor_ok io" by (simp add: sensor_ok_def quiet_io_def)
  from adc_session [OF this, of "0x1e000000"] show ?thesis
    by (simp add: quiet_io_def split: prod.splits)
qed

end
