(* ===== verification/SdrReceiver.thy ===== *)
theory SdrReceiver imports Ring begin

text \<open>
  sdr-receiver.c (two boards): a client sends control messages of 40 bytes with the inputs, the rate and eight
  frequencies, and gets the samples of the FIFO in messages of 64 KB.
\<close>

record srx_variant =
  sv_clk :: int
  sv_rates :: "u16 list"

definition srx_125 :: srx_variant where
  "srx_125 = \<lparr>sv_clk = 125000000, sv_rates = [1000, 500, 250, 250]\<rparr>"

definition srx_122_88 :: srx_variant where
  "srx_122_88 = \<lparr>sv_clk = 122880000, sv_rates = [1280, 640, 320, 160]\<rparr>"

text \<open>The conversion of a double to \<open>uint32_t\<close> is undefined outside the range of the type; \<open>undef\<close> stands for what it
  yields there.\<close>

definition to_u32 :: "(int \<Rightarrow> u32) \<Rightarrow> dbl \<Rightarrow> u32" where
  "to_u32 undef x = (let k = dfloor x in if 0 \<le> k \<and> k < 2 ^ 32 then word_of_int k else undef k)"

definition srx_increment :: "(int \<Rightarrow> u32) \<Rightarrow> srx_variant \<Rightarrow> int \<Rightarrow> u32" where
  "srx_increment undef v freq = to_u32 undef (fadd (dds_real (of_int (sv_clk v)) freq) (1/2))"

text \<open>\<open>struct control\<close>: ten little-endian integers.\<close>

definition ctrl_word :: "u8 list \<Rightarrow> nat \<Rightarrow> u32" where
  "ctrl_word ctrl k = of_le32 (take 4 (drop (4 * k) ctrl))"

definition put_freqs :: "u32 list \<Rightarrow> 'a dev_scheme \<Rightarrow> 'a dev_scheme" where
  "put_freqs incs s = fold (\<lambda>(i, inc) s. put32 (4 + 4 * i) inc s) (List.enumerate 0 incs) s"

definition srx_idle :: "srx_variant \<Rightarrow> dev \<Rightarrow> dev" where
  "srx_idle v s =
    (let s = clr8 0 1 s; s = put8 1 0 s; s = put16 2 (hd (sv_rates v)) s
     in put_freqs (replicate 8 (dds_word (of_int (sv_clk v)) 600000)) s)"

definition srx_control :: "(int \<Rightarrow> u32) \<Rightarrow> srx_variant \<Rightarrow> u8 list \<Rightarrow> dev \<Rightarrow> dev" where
  "srx_control undef v ctrl s =
    (let s = put8 1 (ucast (ctrl_word ctrl 0 AND 0xff)) s;
         s = put16 2 (sv_rates v ! unat (ctrl_word ctrl 1 AND 3)) s
     in put_freqs (map (\<lambda>i. srx_increment undef v (sint (ctrl_word ctrl (2 + i)))) [0..<8]) s)"

text \<open>What a pass of the loop reads; \<open>None\<close> is an error of the call.\<close>

record srx_io =
  s_size :: "u32 option"
  s_ctrl :: "u8 list option"
  s_cntr :: u16
  s_cntr2 :: u16
  s_fifo :: "u8 list"
  s_ok :: bool

definition srx_samples :: "srx_io \<Rightarrow> dev \<Rightarrow> dev pass" where
  "srx_samples io s =
    (let s = (if s_cntr io \<ge> 2048 then pulse8 0 1 s else s)
     in if s_cntr2 io \<ge> 1024
        then let s = emit [Send (take 65536 (s_fifo io))] s in if s_ok io then Next s else Done s
        else Next s)"

definition srx_pass :: "(int \<Rightarrow> u32) \<Rightarrow> srx_variant \<Rightarrow> srx_io \<Rightarrow> dev \<Rightarrow> dev pass" where
  "srx_pass undef v io s =
    (case s_size io of
       None \<Rightarrow> Done s
     | Some available \<Rightarrow>
         if available \<ge> 40
         then (case s_ctrl io of None \<Rightarrow> Done s | Some ctrl \<Rightarrow> srx_samples io (srx_control undef v ctrl s))
         else srx_samples io s)"

definition srx_session :: "(int \<Rightarrow> u32) \<Rightarrow> srx_variant \<Rightarrow> srx_io list \<Rightarrow> dev \<Rightarrow> dev" where
  "srx_session undef v ios s = passes (srx_pass undef v) ios (set8 0 1 (srx_idle v s))"

definition srx_main :: "(int \<Rightarrow> u32) \<Rightarrow> srx_variant \<Rightarrow> srx_io list list \<Rightarrow> dev \<Rightarrow> dev" where
  "srx_main undef v clients s = clr8 0 1 (fold (srx_session undef v) clients s)"

text \<open>The two programs; the second takes the name of the network interface, which selects the page of the registers.\<close>

definition srx_page :: "string list \<Rightarrow> nat option" where
  "srx_page args = (case args of [iface] \<Rightarrow> Some (if iface = ''eth0'' then 0x40000000 else 0x80000000) | _ \<Rightarrow> None)"

definition sdr_receiver :: "(int \<Rightarrow> u32) \<Rightarrow> srx_io list list \<Rightarrow> dev \<Rightarrow> dev" where
  "sdr_receiver undef = srx_main undef srx_125"

definition sdr_receiver_122_88 :: "(int \<Rightarrow> u32) \<Rightarrow> srx_io list list \<Rightarrow> dev \<Rightarrow> dev" where
  "sdr_receiver_122_88 undef = srx_main undef srx_122_88"

section \<open>Properties\<close>

lemma to_u32_range: "0 \<le> dfloor x \<Longrightarrow> dfloor x < 2 ^ 32 \<Longrightarrow> to_u32 undef x = word_of_int (dfloor x)"
  by (simp add: to_u32_def)

text \<open>The increment of an accepted frequency does not depend on the undefined conversion, and is the correctly rounded one.\<close>

lemma srx_increment_ok:
  assumes "v = srx_125 \<or> v = srx_122_88" and "0 \<le> f" and "f < 249000000"
  shows "uint (srx_increment undef v f) = round_half_up (f * 2 ^ 30) (sv_clk v)"
proof -
  define k where "k = round_half_up (f * 2 ^ 30) (sv_clk v)"
  have k: "dfloor (fadd (dds_real (of_int (sv_clk v)) f) (1/2)) = k"
    using dds_inc_125 [OF assms(2,3)] dds_inc_12288 [OF assms(2,3)] assms(1)
    by (auto simp: dds_inc_def k_def srx_125_def srx_122_88_def)
  have b: "2 * sv_clk v * k \<le> 2 * (f * 2 ^ 30) + sv_clk v" "2 * (f * 2 ^ 30) - sv_clk v < 2 * sv_clk v * k"
    using round_half_up_bounds [of "sv_clk v" "f * 2 ^ 30"] assms(1) by (auto simp: k_def srx_125_def srx_122_88_def)
  have "0 \<le> k \<and> k < 2 ^ 32" using b assms by (auto simp: srx_125_def srx_122_88_def)
  then show ?thesis unfolding srx_increment_def
    by (simp add: to_u32_range k uint_word_of_int_eq take_bit_int_eq_self) (simp add: k_def)
qed

lemma put_freqs_from:
  "i < length incs \<Longrightarrow> rd32 (cfg (fold (\<lambda>(i, inc) s. put32 (4 + 4 * i) inc s) (List.enumerate n incs) s)) (4 + 4 * (n + i)) = incs ! i"
  "b < 4 + 4 * n \<Longrightarrow> cfg (fold (\<lambda>(i, inc) s. put32 (4 + 4 * i) inc s) (List.enumerate n incs) s) b = cfg s b"
proof (induction incs arbitrary: n i s b)
  case (Cons inc incs)
  { case 1
    show ?case
    proof (cases i)
      case 0
      have "rd32 (cfg (fold (\<lambda>(i, inc) s. put32 (4 + 4 * i) inc s) (List.enumerate (Suc n) incs) (put32 (4 + 4 * n) inc s))) (4 + 4 * n) =
          rd32 (cfg (put32 (4 + 4 * n) inc s)) (4 + 4 * n)"
        unfolding rd32_def by (simp add: Cons.IH(2))
      then show ?thesis using 0 by (simp add: reg_simps)
    next
      case (Suc j)
      then show ?thesis using Cons.IH(1) [of j "Suc n"] 1 by (simp add: algebra_simps)
    qed
  next
    case 2
    then show ?case by (simp add: Cons.IH(2) reg_simps)
  }
qed simp_all

lemma put_freqs_regs:
  "i < length incs \<Longrightarrow> rd32 (cfg (put_freqs incs s)) (4 + 4 * i) = incs ! i"
  "b < 4 \<Longrightarrow> cfg (put_freqs incs s) b = cfg s b" "rd16 (cfg (put_freqs incs s)) 2 = rd16 (cfg s) 2"
  using put_freqs_from(1) [where n = 0 and incs = incs and s = s] put_freqs_from(2) [where n = 0 and incs = incs and s = s]
  by (simp_all add: put_freqs_def rd16_def)

text \<open>What follows a control message in a pass leaves the settings alone.\<close>

lemma srx_samples_regs:
  "\<exists>t. (srx_samples io s = Next t \<or> srx_samples io s = Done t) \<and> cfg t 1 = cfg s 1 \<and> rd16 (cfg t) 2 = rd16 (cfg s) 2 \<and>
    (\<forall>i < 8. rd32 (cfg t) (4 + 4 * i) = rd32 (cfg s) (4 + 4 * i))"
  by (auto simp: srx_samples_def Let_def reg_simps)

text \<open>A control message with frequencies of up to 62.5 MHz sets the input selector, the rate that its two
  low bits select, and for each receiver the phase increment whose frequency is within half a step
  of the one asked for; none of it depends on the undefined conversion.\<close>

theorem srx_control_registers:
  assumes "v = srx_125 \<or> v = srx_122_88" and "\<forall>i < 8. 0 \<le> sint (ctrl_word ctrl (2 + i)) \<and> sint (ctrl_word ctrl (2 + i)) \<le> 62500000"
    and "s_size io = Some n" "40 \<le> n" "s_ctrl io = Some ctrl"
  shows "\<exists>t. (srx_pass undef v io s = Next t \<or> srx_pass undef v io s = Done t) \<and>
    cfg t 1 = ucast (ctrl_word ctrl 0 AND 0xff) \<and> rd16 (cfg t) 2 = sv_rates v ! unat (ctrl_word ctrl 1 AND 3) \<and>
    (\<forall>i < 8. uint (rd32 (cfg t) (4 + 4 * i)) = round_half_up (sint (ctrl_word ctrl (2 + i)) * 2 ^ 30) (sv_clk v))"
proof -
  define u where "u = srx_control undef v ctrl s"
  have regs: "cfg u 1 = ucast (ctrl_word ctrl 0 AND 0xff)" "rd16 (cfg u) 2 = sv_rates v ! unat (ctrl_word ctrl 1 AND 3)"
    by (simp_all add: u_def srx_control_def Let_def put_freqs_regs reg_simps)
  have freqs: "uint (rd32 (cfg u) (4 + 4 * i)) = round_half_up (sint (ctrl_word ctrl (2 + i)) * 2 ^ 30) (sv_clk v)" if "i < 8" for i
  proof -
    have "rd32 (cfg u) (4 + 4 * i) = srx_increment undef v (sint (ctrl_word ctrl (2 + i)))"
      using that by (simp add: u_def srx_control_def Let_def put_freqs_regs)
    then show ?thesis using srx_increment_ok [OF assms(1), of "sint (ctrl_word ctrl (2 + i))" undef] assms(2) that by fastforce
  qed
  have "srx_pass undef v io s = srx_samples io u" using assms(3-) by (simp add: srx_pass_def u_def)
  then show ?thesis using srx_samples_regs [of io u] regs freqs by auto
qed

text \<open>Ten times the integer 1: input 1, the second rate, and 1 Hz for every receiver.\<close>

theorem srx_control_registers_witness:
  "\<exists>t :: dev. cfg t 1 = 1 \<and> rd16 (cfg t) 2 = 640 \<and> uint (rd32 (cfg t) 4) = 9"
proof -
  define ctrl where "ctrl = concat (replicate 10 [1, 0, 0, 0 :: u8])"
  have "\<forall>k \<in> set [0..<10]. ctrl_word ctrl k = 1" unfolding ctrl_def by code_simp
  then have w: "ctrl_word ctrl k = 1" if "k < 10" for k using that by simp
  define io where "io = \<lparr>s_size = Some 40, s_ctrl = Some ctrl, s_cntr = 0, s_cntr2 = 0, s_fifo = [], s_ok = True\<rparr>"
  have "\<exists>t. (srx_pass (\<lambda>_. 0) srx_122_88 io \<lparr>cfg = (\<lambda>_. 0), log = []\<rparr> = Next t \<or> srx_pass (\<lambda>_. 0) srx_122_88 io \<lparr>cfg = (\<lambda>_. 0), log = []\<rparr> = Done t) \<and>
    cfg t 1 = ucast (ctrl_word ctrl 0 AND 0xff) \<and> rd16 (cfg t) 2 = sv_rates srx_122_88 ! unat (ctrl_word ctrl 1 AND 3) \<and>
    (\<forall>i < 8. uint (rd32 (cfg t) (4 + 4 * i)) = round_half_up (sint (ctrl_word ctrl (2 + i)) * 2 ^ 30) (sv_clk srx_122_88))"
    by (rule srx_control_registers [where n = 40]) (simp_all add: w io_def)
  then obtain t :: dev where t: "cfg t 1 = ucast (ctrl_word ctrl 0 AND 0xff)" "rd16 (cfg t) 2 = sv_rates srx_122_88 ! unat (ctrl_word ctrl 1 AND 3)"
    "\<forall>i < 8. uint (rd32 (cfg t) (4 + 4 * i)) = round_half_up (sint (ctrl_word ctrl (2 + i)) * 2 ^ 30) (sv_clk srx_122_88)"
    by blast
  have "uint (rd32 (cfg t) 4) = 9" using t(3) [rule_format, of 0] by (simp add: w srx_122_88_def round_half_up_def)
  with t(1,2) show ?thesis by (intro exI [of _ t]) (simp add: w srx_122_88_def)
qed

end
