(* ===== verification/HttpServer.thy ===== *)
theory HttpServer imports Cargs begin

text \<open>
  src/alpine/apps/server/server.c: the program that inetd starts for every request of a browser.  It
  serves the files of the applications and starts an application when its directory is asked for.  The arrays \<open>buffer\<close> and
  \<open>path\<close> are lists of fixed length, with whatever the stack holds at first.
\<close>

abbreviation NUL :: char where "NUL \<equiv> CHR 0x00"

definition directory :: string where
  "directory = ''/media/mmcblk0p1/apps''"

text \<open>\<open>fgets(buffer, 256, stdin)\<close>: a line with its newline, at most 255 characters, and a zero; \<open>None\<close> at the end of the input.\<close>

definition fgets :: "nat \<Rightarrow> string \<Rightarrow> string \<Rightarrow> string option" where
  "fgets n inp buffer =
    (if inp = [] then None
     else let line = take (n - 1) (takeWhile (\<lambda>c. c \<noteq> CHR 0x0A) inp @ take 1 (dropWhile (\<lambda>c. c \<noteq> CHR 0x0A) inp))
          in Some (blit buffer 0 (line @ [NUL])))"

definition c_string :: "string \<Rightarrow> string" where
  "c_string cs = takeWhile (\<lambda>c. c \<noteq> NUL) cs"

text \<open>The loop that looks for the end of the address, with \<open>i\<close> and \<open>top\<close>.\<close>

function find_end :: "string \<Rightarrow> nat \<Rightarrow> bool \<Rightarrow> nat \<times> bool" where
  "find_end buffer i only =
    (if i < 255
     then if buffer ! i = CHR '' '' then (i, only) else find_end buffer (i + 1) (if buffer ! i \<noteq> CHR ''/'' then False else only)
     else (i, only))"
  by pat_completeness auto
termination by (relation "measure (\<lambda>(b, i, t). 255 - i)") auto

declare find_end.simps [simp del]

text \<open>The break stores a zero at the space; at the end of the loop nothing is stored.\<close>

definition cut_at :: "nat \<Rightarrow> string \<Rightarrow> string" where
  "cut_at i buffer = (if i < 255 then buffer[i := NUL] else buffer)"

definition has_dots :: "string \<Rightarrow> nat \<Rightarrow> bool" where
  "has_dots buffer i = list_ex (\<lambda>j. buffer ! j = CHR ''.'' \<and> buffer ! (j + 1) = CHR ''.'') [5..<i - 1]"

datatype reply = Forbidden | Redirect | Temperature | Content string

text \<open>The file system: what \<open>stat\<close> says (\<open>None\<close> for an error, \<open>True\<close> for a directory) and which files \<open>fopen\<close> opens.\<close>

record files =
  stat :: "string \<Rightarrow> bool option"
  readable :: "string \<Rightarrow> bool"

text \<open>The board's identification (bits 12 to 16 of a word of the system registers) and the frequency from the command line.\<close>

definition board_id :: "u32 \<Rightarrow> u32" where
  "board_id word = drop_bit 12 word AND 0x1f"

definition board_freq :: "string list \<Rightarrow> int" where
  "board_freq args =
    (case args of [arg] \<Rightarrow>
       (let (range, consumed, freq) = strtol arg in if range \<or> consumed = 0 \<or> freq < 0 then 125 else freq)
     | _ \<Rightarrow> 125)"

definition index_name :: "bool \<Rightarrow> u32 \<Rightarrow> int \<Rightarrow> string" where
  "index_name only board freq = (if only \<and> board = 7 \<and> freq = 122 then ''/index_122_88.html'' else ''/index.html'')"

definition path_of :: "string \<Rightarrow> nat \<Rightarrow> string \<Rightarrow> string" where
  "path_of buffer i path = blit (blit path 0 directory) 21 (take (i - 3) (drop 4 buffer))"

definition path_append :: "string \<Rightarrow> nat \<Rightarrow> string \<Rightarrow> string" where
  "path_append name i path = blit path (21 + i - 4) (name @ [NUL])"

text \<open>The programs that are started, and the reply.\<close>

definition serve_file :: "files \<Rightarrow> string \<Rightarrow> reply" where
  "serve_file fs path = (if readable fs (c_string path) then Content (c_string path) else Redirect)"

definition serve_path :: "files \<Rightarrow> u32 \<Rightarrow> int \<Rightarrow> bool \<Rightarrow> nat \<Rightarrow> string \<Rightarrow> string list \<times> reply" where
  "serve_path fs board freq only i path =
    (case stat fs (c_string path) of
       None \<Rightarrow> ([], Redirect)
     | Some False \<Rightarrow> ([], serve_file fs path)
     | Some True \<Rightarrow>
         let path1 = path_append ''/start.sh'' i path;
             path2 = path_append (index_name only board freq) i path1
         in ([c_string path1], serve_file fs path2))"

definition http_server :: "files \<Rightarrow> u32 \<Rightarrow> int \<Rightarrow> string \<Rightarrow> string \<Rightarrow> string \<Rightarrow> string list \<times> reply" where
  "http_server fs board freq buffer0 path0 inp =
    (case fgets 256 inp buffer0 of
       None \<Rightarrow> ([], Forbidden)
     | Some buffer \<Rightarrow>
         if buffer ! 4 \<noteq> CHR ''/'' then ([], Forbidden)
         else if take 4 buffer \<noteq> ''GET '' \<and> take 4 buffer \<noteq> ''get '' then ([], Forbidden)
         else let (i, only) = find_end buffer 5 True; buffer = cut_at i buffer
              in if has_dots buffer i then ([], Forbidden)
                 else if i = 10 \<and> take 5 (drop 5 buffer) = ''temp0'' then ([], Temperature)
                 else serve_path fs board freq only i (path_of buffer i path0))"

section \<open>The end of the address\<close>

lemma find_end_range: "i \<le> 255 \<Longrightarrow> find_end buffer i only = (e, t) \<Longrightarrow> i \<le> e \<and> e \<le> 255 \<and> (e < 255 \<longrightarrow> buffer ! e = CHR '' '')"
proof (induction buffer i only rule: find_end.induct)
  case (1 buffer i only)
  show ?case
  proof (cases "i < 255 \<and> buffer ! i \<noteq> CHR '' ''")
    case True
    then have "find_end buffer (i + 1) (if buffer ! i \<noteq> CHR ''/'' then False else only) = (e, t)"
      using "1.prems"(2) by (subst (asm) find_end.simps) simp
    with 1(1) True show ?thesis by fastforce
  next
    case False
    then have "find_end buffer i only = (i, only)" by (subst find_end.simps) auto
    with "1.prems" False show ?thesis by auto
  qed
qed

section \<open>Two dots\<close>

fun two_dots :: "string \<Rightarrow> bool" where
  "two_dots (a # b # cs) \<longleftrightarrow> a = CHR ''.'' \<and> b = CHR ''.'' \<or> two_dots (b # cs)"
| "two_dots _ \<longleftrightarrow> False"

lemma two_dots_nth: "two_dots cs \<longleftrightarrow> (\<exists>j. Suc j < length cs \<and> cs ! j = CHR ''.'' \<and> cs ! Suc j = CHR ''.'')"
proof (induction cs rule: two_dots.induct)
  case (1 a b cs)
  have "(\<exists>j. Suc j < length (a # b # cs) \<and> (a # b # cs) ! j = CHR ''.'' \<and> (a # b # cs) ! Suc j = CHR ''.'') \<longleftrightarrow>
    a = CHR ''.'' \<and> b = CHR ''.'' \<or> (\<exists>j. Suc j < length (b # cs) \<and> (b # cs) ! j = CHR ''.'' \<and> (b # cs) ! Suc j = CHR ''.'')"
    (is "?l \<longleftrightarrow> ?r")
  proof
    assume ?l
    then obtain j where j: "Suc j < length (a # b # cs)" "(a # b # cs) ! j = CHR ''.''" "(a # b # cs) ! Suc j = CHR ''.''" by blast
    then show ?r by (cases j) auto
  next
    assume ?r
    then show ?l by (force intro: exI [of _ 0] exI [of _ "Suc _"])
  qed
  with 1 show ?case by simp
qed auto

lemma two_dots_append:
  "\<not> two_dots xs \<Longrightarrow> \<not> two_dots ys \<Longrightarrow> (ys = [] \<or> hd ys \<noteq> CHR ''.'') \<Longrightarrow> \<not> two_dots (xs @ ys)"
proof (induction xs rule: two_dots.induct)
  case "2_2"
  then show ?case by (cases ys) auto
qed auto

lemma two_dots_takeWhile: "\<not> two_dots xs \<Longrightarrow> \<not> two_dots (takeWhile P xs)"
  by (induction xs rule: two_dots.induct) auto

section \<open>What the path holds\<close>

lemma c_string_append: "c_string (xs @ ys) = (if NUL \<in> set xs then c_string xs else xs @ c_string ys)"
  by (auto simp: c_string_def takeWhile_append takeWhile_tail)

lemma c_string_id: "NUL \<notin> set xs \<Longrightarrow> c_string xs = xs"
  by (auto simp: c_string_def takeWhile_eq_all_conv)

lemma c_string_NUL: "c_string (NUL # ys) = []"
  by (simp add: c_string_def)

lemma directory_facts: "length directory = 21" "NUL \<notin> set directory" "\<not> two_dots directory"
  by (simp_all add: directory_def)

text \<open>The part of the address before its end.\<close>

definition address :: "string \<Rightarrow> nat \<Rightarrow> string" where
  "address buffer i = take (i - 4) (drop 4 buffer)"

lemma path_of_shape:
  assumes "length path = 291" and "length buffer = 256" and "5 \<le> i" and "i \<le> 255"
  shows "path_of buffer i path = directory @ address buffer i @ [buffer ! i] @ drop (18 + i) path" (is "?p = _")
    and "length (path_of buffer i path) = 291"
proof -
  have "take (i - 3) (drop 4 buffer) = address buffer i @ [buffer ! i]"
  proof -
    have "i - 3 = Suc (i - 4)" using assms(3) by simp
    then show ?thesis using assms by (simp add: address_def take_Suc_conv_app_nth)
  qed
  moreover have "length (address buffer i) = i - 4" using assms by (simp add: address_def)
  ultimately show "?p = directory @ address buffer i @ [buffer ! i] @ drop (18 + i) path"
    using assms by (simp add: path_of_def blit_def directory_facts)
  show "length ?p = 291" using assms by (simp add: path_of_def directory_facts)
qed

text \<open>Names are appended at the end of the address, inside the array.\<close>

lemma path_append_shape:
  assumes "length path = 291" and "path = directory @ a @ rest" and "length a = i - 4" and "5 \<le> i" and "length name + i \<le> 273"
  shows "path_append name i path = directory @ a @ name @ [NUL] @ drop (length name + 1) rest" and "length (path_append name i path) = 291"
proof -
  have at: "21 + i - 4 = length (directory @ a)" using assms by (simp add: directory_facts)
  show "path_append name i path = directory @ a @ name @ [NUL] @ drop (length name + 1) rest"
    unfolding path_append_def blit_def at assms(2) by simp
  show "length (path_append name i path) = 291"
    using assms by (simp add: path_append_def)
qed

section \<open>Files below the directory\<close>

definition confined :: "string \<Rightarrow> bool" where
  "confined p \<longleftrightarrow> (\<exists>rest. p = directory @ CHR ''/'' # rest) \<and> \<not> two_dots p"

lemma confined_address:
  assumes "\<not> two_dots a" and "a \<noteq> []" and "hd a = CHR ''/''" and "\<not> two_dots name" and "name = [] \<or> hd name = CHR ''/''"
  shows "confined (directory @ c_string (a @ name))"
proof -
  have h: "hd (a @ name) = CHR ''/''" "a @ name \<noteq> []" using assms by simp_all
  then obtain cs where "a @ name = CHR ''/'' # cs" by (cases "a @ name") auto
  then have c: "c_string (a @ name) = CHR ''/'' # c_string cs" by (simp add: c_string_def)
  have "\<not> two_dots (a @ name)" using assms by (intro two_dots_append) auto
  then have "\<not> two_dots (c_string (a @ name))" by (simp add: c_string_def two_dots_takeWhile)
  then have "\<not> two_dots (directory @ c_string (a @ name))"
    using c directory_facts by (intro two_dots_append) auto
  with c show ?thesis by (simp add: confined_def)
qed

lemma address_facts:
  assumes "length buffer = 256" and "5 \<le> i" and "i \<le> 255" and "buffer ! 4 = CHR ''/''" and "\<not> has_dots buffer i"
  shows "length (address buffer i) = i - 4" "hd (address buffer i) = CHR ''/''" "address buffer i \<noteq> []" "\<not> two_dots (address buffer i)"
proof -
  show len: "length (address buffer i) = i - 4" using assms by (simp add: address_def)
  then show ne: "address buffer i \<noteq> []" using assms(2) by auto
  have nth: "address buffer i ! k = buffer ! (4 + k)" if "k < i - 4" for k using that assms by (simp add: address_def)
  show "hd (address buffer i) = CHR ''/''" using hd_conv_nth [OF ne] nth [of 0] assms by simp
  show "\<not> two_dots (address buffer i)"
  proof
    assume "two_dots (address buffer i)"
    then obtain j where j: "Suc j < i - 4" "buffer ! (4 + j) = CHR ''.''" "buffer ! (4 + Suc j) = CHR ''.''"
      unfolding two_dots_nth len using nth by force
    show False
    proof (cases j)
      case 0
      with j assms(4) show False by simp
    next
      case (Suc k)
      with j have "4 + j \<in> set [5..<i - 1]" by auto
      with j assms(5) show False by (auto simp: has_dots_def list_ex_iff)
    qed
  qed
qed

lemma c_string_path:
  assumes "path = directory @ a @ c # rest" and "NUL \<in> set a \<or> c = NUL"
  shows "c_string path = directory @ c_string (a @ [])"
  using assms directory_facts by (auto simp: c_string_append c_string_NUL c_string_id)

lemma c_string_appended:
  assumes "path = directory @ a @ name @ NUL # rest"
  shows "c_string path = directory @ c_string (a @ name)"
proof -
  have "c_string (xs @ NUL # ys) = c_string xs" for xs ys by (simp add: c_string_append c_string_NUL c_string_id)
  from this [of "a @ name" rest] show ?thesis using assms directory_facts by (simp add: c_string_append)
qed

lemma index_facts: "\<not> two_dots (index_name t b f)" "hd (index_name t b f) = CHR ''/''" "length (index_name t b f) \<le> 18"
  by (simp_all add: index_name_def)

lemma serve_path_confined:
  assumes b: "length path0 = 291" "length buffer = 256" "5 \<le> i" "i \<le> 255" "buffer ! 4 = CHR ''/''" "\<not> has_dots buffer i"
    and nul: "NUL \<in> set (address buffer i) \<or> buffer ! i = NUL"
    and serve: "serve_path fs board freq only i (path_of buffer i path0) = (started, answer)"
  shows "(\<forall>p \<in> set started. confined p) \<and> (\<forall>p. answer = Content p \<longrightarrow> confined p)"
proof -
  define a where "a = address buffer i"
  have a: "length a = i - 4" "hd a = CHR ''/''" "a \<noteq> []" "\<not> two_dots a"
    unfolding a_def by (rule address_facts [OF b(2-)])+
  define p0 where "p0 = path_of buffer i path0"
  have p0: "p0 = directory @ a @ (buffer ! i) # drop (18 + i) path0" "length p0 = 291"
    using path_of_shape [OF b(1-4)] by (simp_all add: p0_def a_def)
  define p1 where "p1 = path_append ''/start.sh'' i p0"
  have p1: "p1 = directory @ a @ ''/start.sh'' @ NUL # drop 10 ((buffer ! i) # drop (18 + i) path0)" "length p1 = 291"
    using path_append_shape [OF p0(2,1) a(1) b(3), of "''/start.sh''"] b(4) by (simp_all add: p1_def)
  define name where "name = index_name only board freq"
  define p2 where "p2 = path_append name i p1"
  have p2: "\<exists>rest. p2 = directory @ a @ name @ NUL # rest"
    using path_append_shape [OF p1(2,1) a(1) b(3), of name] b(4) index_facts(3) [of only board freq] by (simp add: p2_def name_def)
  have c0: "confined (c_string p0)"
    using c_string_path [OF p0(1)] nul confined_address [of a "[]"] a by (simp add: a_def)
  have c1: "confined (c_string p1)"
    using c_string_appended [OF p1(1)] confined_address [of a "''/start.sh''"] a by simp
  have c2: "confined (c_string p2)"
    using p2 c_string_appended confined_address [of a name] a index_facts [of only board freq] by (auto simp: name_def)
  show ?thesis
    using serve c0 c1 c2
    by (auto simp: serve_path_def serve_file_def Let_def simp flip: p0_def p1_def p2_def name_def split: option.splits bool.splits if_splits)
qed

text \<open>The line of the request ends inside the buffer.\<close>

lemma fgets_NUL:
  assumes "fgets 256 inp buffer0 = Some buffer" and "length buffer0 = 256"
  shows "length buffer = 256" and "\<exists>k < 256. buffer ! k = NUL"
proof -
  define line where "line = take 255 (takeWhile (\<lambda>c. c \<noteq> CHR 0x0A) inp @ take 1 (dropWhile (\<lambda>c. c \<noteq> CHR 0x0A) inp))"
  have line: "length line \<le> 255" "buffer = blit buffer0 0 (line @ [NUL])"
    using assms(1) by (simp_all add: fgets_def Let_def line_def split: if_splits)
  then show "length buffer = 256" using assms(2) by simp
  show "\<exists>k < 256. buffer ! k = NUL"
    using line assms(2) by (intro exI [of _ "length line"]) (simp add: blit_def nth_append)
qed

text \<open>C34: whatever a browser sends, and whatever the uninitialised arrays hold, a file that is served and a program that is
  started is below the directory of the applications, and its path has no two dots in a row.\<close>

theorem http_confined:
  assumes "length buffer0 = 256" and "length path0 = 291" and "http_server fs board freq buffer0 path0 inp = (started, answer)"
  shows "(\<forall>p \<in> set started. confined p) \<and> (\<forall>p. answer = Content p \<longrightarrow> confined p)"
proof (cases "fgets 256 inp buffer0")
  case None
  with assms(3) show ?thesis by (simp add: http_server_def)
next
  case (Some buffer)
  obtain i t where e: "find_end buffer 5 True = (i, t)" by (cases "find_end buffer 5 True")
  define cut where "cut = cut_at i buffer"
  have i: "5 \<le> i" "i \<le> 255" using find_end_range [OF _ e] by simp_all
  have len: "length buffer = 256" "length cut = 256" using fgets_NUL(1) [OF Some assms(1)] by (simp_all add: cut_def cut_at_def)
  show ?thesis
  proof (cases "buffer ! 4 = CHR ''/'' \<and> (take 4 buffer = ''GET '' \<or> take 4 buffer = ''get '') \<and> \<not> has_dots cut i \<and>
      \<not> (i = 10 \<and> take 5 (drop 5 cut) = ''temp0'')")
    case True
    then have "serve_path fs board freq t i (path_of cut i path0) = (started, answer)"
      using assms(3) Some e by (auto simp: http_server_def cut_def Let_def split: if_splits)
    moreover have "NUL \<in> set (address cut i) \<or> cut ! i = NUL"
    proof (cases "i < 255")
      case False
      then have same: "cut = buffer" "i = 255" using i by (simp_all add: cut_def cut_at_def)
      obtain k where k: "k < 256" "buffer ! k = NUL" using fgets_NUL(2) [OF Some assms(1)] by blast
      have "k \<ge> 4"
      proof (rule ccontr)
        assume "\<not> k \<ge> 4"
        then have "k \<in> {0, 1, 2, 3}" "take 4 buffer ! k = NUL" using k len by auto
        with True show False by auto
      qed
      then have "k = 255 \<or> k - 4 < length (address cut i) \<and> address cut i ! (k - 4) = NUL"
        using k same len by (auto simp: address_def)
      then show ?thesis using k(2) same by (metis nth_mem)
    qed (simp add: cut_def cut_at_def len)
    moreover have "cut ! 4 = CHR ''/''" using True i by (simp add: cut_def cut_at_def)
    ultimately show ?thesis using serve_path_confined [OF assms(2) len(2) i] True by blast
  next
    case False
    then show ?thesis using assms(3) Some e by (auto simp: http_server_def cut_def Let_def split: if_splits)
  qed
qed

text \<open>For every request the three writes into the array \<open>path\<close> stay inside its 291 bytes; the longest one ends
  exactly at its end.\<close>

theorem path_array_fits:
  assumes "length buffer = 256" and "length path0 = 291" and "find_end buffer 5 True = (i, only)"
  shows "length (path_of (cut_at i buffer) i path0) = 291 \<and>
    length (path_append (index_name only board freq) i (path_append ''/start.sh'' i (path_of (cut_at i buffer) i path0))) = 291"
proof -
  have i: "5 \<le> i" "i \<le> 255" using find_end_range [OF _ assms(3)] by simp_all
  have len: "length (cut_at i buffer) = 256" using assms(1) by (simp add: cut_at_def)
  note shape = path_of_shape [OF assms(2) len i]
  have a: "length (address (cut_at i buffer) i) = i - 4" using len i by (simp add: address_def)
  have "length (path_append ''/start.sh'' i (path_of (cut_at i buffer) i path0)) = 291"
    using path_append_shape(2) [OF shape(2) shape(1) a i(1), of "''/start.sh''"] i(2) by simp
  then show ?thesis
    using shape(2) index_facts(3) [of only board freq] i by (simp add: path_append_def)
qed

section \<open>Witnesses\<close>

theorem path_array_fits_witness:
  "length (path_of (cut_at 255 (replicate 256 CHR ''x'')) 255 (replicate 291 NUL)) = 291"
proof -
  have "find_end (replicate 256 CHR ''x'') 5 True = (255, False)" by code_simp
  from path_array_fits [OF _ _ this, of "replicate 291 NUL" 7 122] show ?thesis by simp
qed

definition example_files :: files where
  "example_files = \<lparr>stat = (\<lambda>p. if p = directory @ ''/vna/'' then Some True else None), readable = (\<lambda>p. p = directory @ ''/vna//index.html'')\<rparr>"

theorem http_confined_witness:
  "http_server example_files 0 125 (replicate 256 NUL) (replicate 291 NUL) (''GET /vna/ HTTP/1.0'' @ [CHR 0x0A]) =
    ([directory @ ''/vna//start.sh''], Content (directory @ ''/vna//index.html'')) \<and> confined (directory @ ''/vna//index.html'')"
proof -
  have run: "http_server example_files 0 125 (replicate 256 NUL) (replicate 291 NUL) (''GET /vna/ HTTP/1.0'' @ [CHR 0x0A]) =
    ([directory @ ''/vna//start.sh''], Content (directory @ ''/vna//index.html''))" by code_simp
  have "length (replicate 256 NUL) = 256" "length (replicate 291 NUL) = 291" by simp_all
  from http_confined [OF this run] run show ?thesis by simp
qed

end
