(* ===== verification/Clients.thy ===== *)
theory Clients imports Mcpha Pha Cargs begin

text \<open>
  The command line clients of the pulse height analyser: mcpha-pulser-start.c, mcpha-pulser-stop.c and pha-start.c.  A client
  checks its arguments and sends a list of commands, which the models of the servers then read.
  \<open>strtol\<close> is the one with a 32-bit \<open>long\<close>.
\<close>

section \<open>mcpha-pulser-start.c\<close>

text \<open>Rate, distribution, rise time and fall time.\<close>

record pulser_conf =
  c_rate :: int
  c_dist :: int
  c_rise :: int
  c_fall :: int

definition pulser_args :: "string list \<Rightarrow> pulser_conf option" where
  "pulser_args args =
    (if length args \<noteq> 6 then None
     else case number_arg 1 100000 (args ! 1) of None \<Rightarrow> None | Some r \<Rightarrow>
       (case number_arg 0 1 (args ! 2) of None \<Rightarrow> None | Some d \<Rightarrow>
         (case number_arg 0 100 (args ! 3) of None \<Rightarrow> None | Some ri \<Rightarrow>
           (case number_arg 0 100 (args ! 4) of None \<Rightarrow> None | Some f \<Rightarrow>
             Some \<lparr>c_rate = r, c_dist = d, c_rise = ri, c_fall = f\<rparr>))))"

text \<open>The spectrum: the first \<open>n\<close> lines as \<open>fgets\<close> delivers them, of which each sets a channel.  \<open>erange\<close> tells whether \<open>errno\<close> is
  \<open>ERANGE\<close>; it is not reset from one line to the next.\<close>

fun read_hist :: "bool \<Rightarrow> nat \<Rightarrow> string list \<Rightarrow> u32 list" where
  "read_hist erange 0 lines = []"
| "read_hist erange (Suc n) [] = replicate (Suc n) 0"
| "read_hist erange (Suc n) (l # ls) =
    (let (range, consumed, value) = strtol l; erange = (erange \<or> range)
     in (if erange \<or> value < 0 then 0 else word_of_int value) # read_hist erange n ls)"

definition command_of :: "nat \<Rightarrow> u64 \<Rightarrow> u64" where
  "command_of code data = push_bit 56 (of_nat code) + data"

text \<open>\<open>command[0]\<close> is never assigned: the first command is what the stack held.\<close>

definition pulser_commands :: "u64 \<Rightarrow> pulser_conf \<Rightarrow> u32 list \<Rightarrow> u64 list" where
  "pulser_commands garbage c sp =
    [garbage, command_of 21 (word_of_int (c_fall c)), command_of 22 (word_of_int (c_rise c)),
     command_of 25 (word_of_int (c_rate c)), command_of 26 (word_of_int (c_dist c))] @
    map (\<lambda>i. command_of 28 (push_bit 32 (of_nat i) + ucast (sp ! i))) [0..<4096] @
    [command_of 29 1]"

definition pulser_start :: "string list \<Rightarrow> string list \<Rightarrow> u64 \<Rightarrow> u64 list option" where
  "pulser_start args lines garbage =
    (case pulser_args args of None \<Rightarrow> None | Some c \<Rightarrow> Some (pulser_commands garbage c (read_hist False 4096 lines)))"

section \<open>mcpha-pulser-stop.c\<close>

definition pulser_stop :: "string list \<Rightarrow> u64 list option" where
  "pulser_stop args = (if length args \<noteq> 1 then None else Some [command_of 30 0])"

section \<open>pha-start.c\<close>

record pha_conf =
  h_stop :: int
  h_rate :: int
  h_pol1 :: int
  h_pol2 :: int
  h_min1 :: int
  h_max1 :: int
  h_min2 :: int
  h_max2 :: int

fun number_args :: "(int \<times> int) list \<Rightarrow> string list \<Rightarrow> int list option" where
  "number_args [] args = Some []"
| "number_args (b # bs) [] = None"
| "number_args ((lo, hi) # bs) (a # as) =
    (case number_arg lo hi a of None \<Rightarrow> None
     | Some n \<Rightarrow> (case number_args bs as of None \<Rightarrow> None | Some ns \<Rightarrow> Some (n # ns)))"

definition pha_args :: "string list \<Rightarrow> pha_conf option" where
  "pha_args args =
    (if length args \<noteq> 10 then None
     else case number_args [(1, 99999999), (1, 8192), (0, 1), (0, 1), (0, 16380), (0, 16380), (0, 16380), (0, 16380)] (tl args) of
       Some [st, r, p1, p2, mi1, ma1, mi2, ma2] \<Rightarrow>
         Some \<lparr>h_stop = st, h_rate = r, h_pol1 = p1, h_pol2 = p2, h_min1 = mi1, h_max1 = ma1, h_min2 = mi2, h_max2 = ma2\<rparr>
     | _ \<Rightarrow> None)"

definition pha_word_of :: "nat \<Rightarrow> nat \<Rightarrow> u64 \<Rightarrow> u64" where
  "pha_word_of code chan data = push_bit 60 (of_nat code) + push_bit 56 (of_nat chan) + data"

definition pha_commands :: "pha_conf \<Rightarrow> u64 list" where
  "pha_commands c =
    [push_bit 60 0, push_bit 60 1, push_bit 60 2 + word_of_int (h_rate c),
     pha_word_of 3 0 (word_of_int (h_pol1 c)), pha_word_of 3 1 (word_of_int (h_pol2 c)),
     pha_word_of 4 0 100, pha_word_of 4 1 100,
     pha_word_of 5 0 (word_of_int (h_min1 c)), pha_word_of 5 1 (word_of_int (h_min2 c)),
     pha_word_of 6 0 (word_of_int (h_max1 c)), pha_word_of 6 1 (word_of_int (h_max2 c)),
     pha_word_of 7 0 (125000000 * word_of_int (h_stop c)), pha_word_of 7 1 (125000000 * word_of_int (h_stop c)),
     push_bit 60 8]"

text \<open>The data that is received until the time is over, an error, or the end of the connection, goes to the file.  An entry is what
  a round finds: the time since the start, the result of \<open>select\<close>, and what \<open>recv\<close> delivers if the socket is ready.\<close>

datatype received = Nothing | Bytes "u8 list" | Closed

fun pha_record :: "int \<Rightarrow> (int \<times> bool \<times> received) list \<Rightarrow> u8 list" where
  "pha_record stop [] = []"
| "pha_record stop ((elapsed, select_ok, r) # rs) =
    (if \<not> elapsed < stop \<or> \<not> select_ok then []
     else case r of Nothing \<Rightarrow> pha_record stop rs | Closed \<Rightarrow> [] | Bytes bs \<Rightarrow> bs @ pha_record stop rs)"

end
