(* ===== verification/ClientsProps.thy ===== *)
theory ClientsProps imports Clients McphaProps begin

text \<open>
  Client and server together: what the commands of a client make of the server's state.
\<close>

section \<open>Commands of the pulse generator\<close>

lemma mask52: "(0xfffffffffffff :: u64) = mask 52"
  by (simp add: mask_eq_exp_minus_1)

lemma high52: "unat (d :: u64) < 2 ^ 52 \<Longrightarrow> bit d n \<Longrightarrow> n < 52"
  using word_high_bits [of d 52 n] by (cases "n < 52") auto

lemma command_or: "unat d < 2 ^ 52 \<Longrightarrow> command_of code d = push_bit 56 (of_nat code) OR d"
proof -
  assume d: "unat d < 2 ^ 52"
  show ?thesis
    unfolding command_of_def by (rule disjunctive_add) (auto simp: bit_push_bit_iff dest: high52 [OF d])
qed

lemma bits_below_less: "(\<And>n. bit (x :: u64) n \<Longrightarrow> n < k) \<Longrightarrow> unat x < 2 ^ k"
proof -
  assume "\<And>n. bit x n \<Longrightarrow> n < k"
  then have "take_bit k x = x" by (intro bit_word_eqI) (auto simp: bit_take_bit_iff)
  then have "take_bit k (unat x) = unat x" by (metis unsigned_take_bit_eq)
  then show ?thesis by (metis take_bit_nat_less_exp)
qed

lemma cmd_code_of: "unat d < 2 ^ 52 \<Longrightarrow> code < 256 \<Longrightarrow> cmd_code (command_of code d) = of_nat code"
proof -
  assume d: "unat d < 2 ^ 52" and c: "code < 256"
  have hi: "\<not> bit d n" if "52 \<le> n" for n using word_high_bits [OF d] that by simp
  show ?thesis
    unfolding cmd_code_def command_or [OF d]
    by (rule word8_eqI) (simp add: word_bits hi)
qed

lemma cmd_data_of: "unat d < 2 ^ 52 \<Longrightarrow> cmd_data (command_of code d) = d"
proof -
  assume d: "unat d < 2 ^ 52"
  have "bit (cmd_data (command_of code d)) n = bit d n" for n
    using high52 [OF d, of n]
    by (auto simp: cmd_data_def command_or [OF d] mask52 bit_and_iff bit_or_iff bit_mask_iff bit_push_bit_iff)
  then show ?thesis by (rule bit_word_eqI)
qed

text \<open>Commands that neither reply nor start or stop the pulser.\<close>

definition plain :: "u64 \<Rightarrow> bool" where
  "plain command \<longleftrightarrow> cmd_code command \<notin> {11, 12, 20, 29, 30}"

definition set_of :: "u64 \<Rightarrow> mcpha \<Rightarrow> mcpha" where
  "set_of command s = mcpha_set (cmd_code command) (cmd_chan command) (cmd_data command) s"

lemma mcpha_client_plain:
  "list_all plain cmds \<Longrightarrow> length ios = length cmds \<Longrightarrow>
   mcpha_client (zip ios cmds @ rest) s = mcpha_client rest (fold set_of cmds s)"
proof (induction cmds arbitrary: ios s)
  case (Cons c cmds)
  then obtain io ios' where "ios = io # ios'" by (cases ios) auto
  then show ?case using Cons by (simp add: mcpha_command_def plain_def keep_on_def set_of_def Let_def)
qed simp

text \<open>The settings of the pulse generator after a command.\<close>

lemma scope_frame:
  "spectrum (mcpha_scope code chan data s) = spectrum s" "fall (mcpha_scope code chan data s) = fall s"
  "rise (mcpha_scope code chan data s) = rise s" "pulse_rate (mcpha_scope code chan data s) = pulse_rate s"
  "pulse_dist (mcpha_scope code chan data s) = pulse_dist s"
  by (simp_all add: mcpha_scope_def set_trigger_def switch16_def set16_def clr16_def put16_def put32_def)

lemma set_of_pulses:
  assumes "unat d < 2 ^ 52" and "code \<in> {21, 22, 25, 26, 28}"
  shows "set_of (command_of code d) s = mcpha_pulses (of_nat code) d s"
  using assms(2) cmd_code_of [OF assms(1), of code] cmd_data_of [OF assms(1)]
  by (auto simp: set_of_def mcpha_set_def mcpha_scope_def)

lemma small_data: "0 \<le> n \<Longrightarrow> n \<le> 100000 \<Longrightarrow> unat (word_of_int n :: u64) = nat n"
  by (simp add: unsigned_of_int take_bit_int_eq_self nat_eq_iff)

lemma channel_data:
  assumes "i < 4096"
  shows "unat (push_bit 32 (of_nat i) + ucast (w :: u32) :: u64) < 2 ^ 52"
proof -
  have i: "unat (of_nat i :: u64) < 2 ^ 12" using assms by (simp add: unat_of_nat)
  have hi: "bit (of_nat i :: u64) n \<Longrightarrow> n < 12" for n using word_high_bits [OF i, of n] by (cases "n < 12") auto
  have w: "bit (ucast w :: u64) n \<Longrightarrow> n < 32" for n by (auto simp: bit_ucast_iff dest: word_bit_less)
  have d: "push_bit 32 (of_nat i) + ucast w = (push_bit 32 (of_nat i) OR ucast w :: u64)"
    by (rule disjunctive_add) (auto simp: bit_push_bit_iff dest: w)
  show ?thesis unfolding d by (rule bits_below_less) (auto simp: bit_or_iff bit_push_bit_iff dest: hi w)
qed

lemma spectrum_command:
  assumes "i < 4096"
  shows "set_of (command_of 28 (push_bit 32 (of_nat i) + ucast (w :: u32))) s = s\<lparr>spectrum := (spectrum s)[i := w]\<rparr>"
proof -
  let ?d = "push_bit 32 (of_nat i) + ucast w :: u64"
  have i: "unat (of_nat i :: u64) < 2 ^ 12" using assms by (simp add: unat_of_nat)
  have hi: "bit (of_nat i :: u64) n \<Longrightarrow> n < 12" for n using word_high_bits [OF i, of n] by (cases "n < 12") auto
  have w: "bit (ucast w :: u64) n \<Longrightarrow> n < 32" for n by (auto simp: bit_ucast_iff dest: word_bit_less)
  have d: "?d = push_bit 32 (of_nat i) OR ucast w"
    by (rule disjunctive_add) (auto simp: bit_push_bit_iff dest: w)
  have d52: "unat ?d < 2 ^ 52" by (rule channel_data [OF assms])
  have "drop_bit 32 ?d AND mask 12 = (of_nat i :: u64)"
    unfolding d by (rule bit_word_eqI) (auto simp: bit_and_iff bit_drop_bit_eq bit_or_iff bit_push_bit_iff bit_mask_iff dest: hi w)
  moreover have "(0xfff :: u64) = mask 12" by (simp add: mask_eq_exp_minus_1)
  ultimately have idx: "unat (drop_bit 32 ?d AND 0xfff) = i" using assms by (simp add: unat_of_nat)
  have "(ucast (?d AND mask 32) :: u32) = w"
    unfolding d by (rule bit_word_eqI) (auto simp: bit_ucast_iff bit_and_iff bit_or_iff bit_push_bit_iff bit_mask_iff dest: w)
  moreover have "(0xffffffff :: u64) = mask 32" by (simp add: mask_eq_exp_minus_1)
  ultimately have val: "(ucast (?d AND 0xffffffff) :: u32) = w" by simp
  have "set_of (command_of 28 ?d) s = mcpha_pulses (of_nat 28) ?d s" by (rule set_of_pulses [OF d52]) simp
  then show ?thesis using idx val by (simp add: mcpha_pulses_def)
qed

lemma spectrum_commands:
  assumes "n \<le> 4096" and "length (spectrum s) = 4096" and "length sp = 4096"
  shows "fold set_of (map (\<lambda>i. command_of 28 (push_bit 32 (of_nat i) + ucast (sp ! i))) [0..<n]) s =
    s\<lparr>spectrum := take n sp @ drop n (spectrum s)\<rparr>"
  using assms(1)
proof (induction n)
  case (Suc n)
  have "(take n sp @ drop n (spectrum s))[n := sp ! n] = take (Suc n) sp @ drop (Suc n) (spectrum s)"
    using Suc.prems assms by (simp add: list_update_append take_Suc_conv_app_nth Cons_nth_drop_Suc [symmetric])
  then show ?case using Suc by (simp add: spectrum_command)
qed simp

lemma writes_frame:
  fixes s :: mcpha
  shows "spectrum (pulse16 a m s) = spectrum s" "spectrum (put16 a x s) = spectrum s" "spectrum (put32 a y s) = spectrum s"
    "spectrum (put64 a z s) = spectrum s" "spectrum (switch16 a m d s) = spectrum s" "spectrum (set16 a m s) = spectrum s"
    "spectrum (clr16 a m s) = spectrum s" "spectrum (emit es s) = spectrum s"
  by (simp_all add: pulse16_def set16_def clr16_def put16_def put32_def put64_def switch16_def emit_def)

lemma set_of_length: "length (spectrum s) = 4096 \<Longrightarrow> length (spectrum (set_of command s)) = 4096"
  by (simp add: set_of_def mcpha_set_def mcpha_pulses_def scope_frame reset_histogram_def reset_timer_def osc_reset_def gen_reset_def
      set_rate_divider_def set_negator_def set_pha_def set_timer_def set_timer_mode_def writes_frame)

lemma length_read_hist: "length (read_hist e n ls) = n"
  by (induction e n ls rule: read_hist.induct) (simp_all add: Let_def split: prod.splits)

lemma pulser_args_range:
  assumes "pulser_args args = Some c"
  shows "1 \<le> c_rate c \<and> c_rate c \<le> 100000" "0 \<le> c_dist c \<and> c_dist c \<le> 1" "0 \<le> c_rise c \<and> c_rise c \<le> 100" "0 \<le> c_fall c \<and> c_fall c \<le> 100"
  using assms by (auto simp: pulser_args_def split: if_splits option.splits dest!: number_arg_range)

text \<open>A number from the command line as the data of a command.\<close>

lemma number_data:
  assumes "0 \<le> n" and "n \<le> 100000"
  shows "unat (word_of_int n :: u64) < 2 ^ 52" "(ucast (word_of_int n :: u64) :: u32) = word_of_int n" "(ucast (word_of_int n :: u64) :: u16) = word_of_int n"
    "n \<le> 100 \<Longrightarrow> \<not> (word_of_int n :: u64) > 100"
  using small_data [OF assms] assms
  by (simp_all add: word_less_nat_alt unsigned_of_int ucast_eq take_bit_int_eq_self)

lemma plain_command: "unat d < 2 ^ 52 \<Longrightarrow> code \<in> {21, 22, 25, 26, 28} \<Longrightarrow> plain (command_of code d)"
  using cmd_code_of [of d code] by (auto simp: plain_def)

lemma start_command: "mcpha_client [(io, command_of 29 1)] s = start_pulser io 1 s"
proof -
  have "cmd_code (command_of 29 1) = 29" "cmd_data (command_of 29 1) = 1" using cmd_code_of [of 1 29] cmd_data_of [of 1 29] by simp_all
  then show ?thesis by (cases "start_pulser io 1 s") (simp_all add: mcpha_command_def keep_on_def Let_def)
qed

text \<open>The first commands, but for the one that is not set.\<close>

lemma settings_commands:
  assumes c: "0 \<le> c_fall c" "c_fall c \<le> 100" "0 \<le> c_rise c" "c_rise c \<le> 100" "0 \<le> c_rate c" "c_rate c \<le> 100000" "0 \<le> c_dist c" "c_dist c \<le> 1"
  shows "fold set_of [command_of 21 (word_of_int (c_fall c)), command_of 22 (word_of_int (c_rise c)),
     command_of 25 (word_of_int (c_rate c)), command_of 26 (word_of_int (c_dist c))] s =
    s\<lparr>fall := word_of_int (c_fall c), rise := word_of_int (c_rise c), pulse_rate := word_of_int (c_rate c), pulse_dist := word_of_int (c_dist c)\<rparr>"
  using c number_data [of "c_fall c"] number_data [of "c_rise c"] number_data [of "c_rate c"] number_data [of "c_dist c"]
  by (simp add: set_of_pulses mcpha_pulses_def)

text \<open>C35: the commands of mcpha-pulser-start, read by the server in whatever state it is, leave there the rate, the
  distribution, the rise and fall times and the spectrum that the user asked for, then start the pulser and keep it
  going after the client has gone; this holds for every value of the first command, which the client never sets,
  as long as it is none that replies, starts or stops.\<close>

theorem pulser_start_configures:
  assumes "pulser_start args lines garbage = Some cmds" and "plain garbage" and "length (spectrum s0) = 4096" and "length ios = 4102"
  shows "\<exists>c s. pulser_args args = Some c \<and> spectrum s = read_hist False 4096 lines \<and>
    uint (pulse_rate s) = c_rate c \<and> 0 < c_rate c \<and> uint (pulse_dist s) = c_dist c \<and> uint (rise s) = c_rise c \<and> uint (fall s) = c_fall c \<and>
    mcpha_client (zip ios cmds) s0 = start_pulser (ios ! 4101) 1 s"
proof -
  obtain c where c: "pulser_args args = Some c" and cmds: "cmds = pulser_commands garbage c (read_hist False 4096 lines)"
    using assms(1) by (auto simp: pulser_start_def split: option.splits)
  note range = pulser_args_range [OF c]
  let ?sp = "read_hist False 4096 lines"
  let ?set = "[command_of 21 (word_of_int (c_fall c)), command_of 22 (word_of_int (c_rise c)),
     command_of 25 (word_of_int (c_rate c)), command_of 26 (word_of_int (c_dist c))]"
  let ?channels = "map (\<lambda>i. command_of 28 (push_bit 32 (of_nat i) + ucast (?sp ! i))) [0..<4096]"
  define most where "most = garbage # ?set @ ?channels"
  have all: "cmds = most @ [command_of 29 1]" and len: "length most = 4101" by (simp_all add: cmds pulser_commands_def most_def)
  have data: "unat (word_of_int (c_fall c) :: u64) < 2 ^ 52" "unat (word_of_int (c_rise c) :: u64) < 2 ^ 52"
    "unat (word_of_int (c_rate c) :: u64) < 2 ^ 52" "unat (word_of_int (c_dist c) :: u64) < 2 ^ 52"
    using range by (intro number_data(1); simp)+
  have plain: "list_all plain most"
    using assms(2) data channel_data by (auto simp: most_def list_all_iff intro!: plain_command)
  define g where "g = set_of garbage s0"
  have g: "length (spectrum g) = 4096" using set_of_length assms(3) by (simp add: g_def)
  define t where "t = g\<lparr>fall := word_of_int (c_fall c), rise := word_of_int (c_rise c), pulse_rate := word_of_int (c_rate c), pulse_dist := word_of_int (c_dist c)\<rparr>"
  have t: "fold set_of ?set g = t" unfolding t_def by (rule settings_commands) (use range in auto)
  have "fold set_of most s0 = fold set_of ?channels (fold set_of ?set g)" by (simp add: most_def g_def)
  also have "\<dots> = t\<lparr>spectrum := take 4096 ?sp @ drop 4096 (spectrum t)\<rparr>"
    unfolding t by (rule spectrum_commands) (simp_all add: t_def g length_read_hist)
  also have "\<dots> = t\<lparr>spectrum := ?sp\<rparr>" by (simp add: t_def g length_read_hist)
  finally have state: "fold set_of most s0 = t\<lparr>spectrum := ?sp\<rparr>" .
  have "zip ios cmds = zip (take 4101 ios) most @ [(ios ! 4101, command_of 29 1)]"
    using zip_append2 [of ios most "[command_of 29 1]"] len assms(4) Cons_nth_drop_Suc [of 4101 ios, symmetric] by (simp add: all)
  then have "mcpha_client (zip ios cmds) s0 = start_pulser (ios ! 4101) 1 (t\<lparr>spectrum := ?sp\<rparr>)"
    using mcpha_client_plain [OF plain, of "take 4101 ios" "[(ios ! 4101, command_of 29 1)]" s0] len assms(4) state start_command by simp
  moreover have "uint (word_of_int n :: u32) = n" "uint (word_of_int n :: u16) = n \<or> 100 < n" if "0 \<le> n \<and> n \<le> 100000" for n
    using that by (auto simp: uint_word_of_int_eq take_bit_int_eq_self)
  ultimately show ?thesis using c range by (intro exI [of _ c] exI [of _ "t\<lparr>spectrum := ?sp\<rparr>"]) (force simp: t_def)
qed

text \<open>A pulser at 1000 pulses per second, with a spectrum of one line.\<close>

theorem pulser_start_configures_witness:
  "\<exists>c s. pulser_args [''p'', ''1000'', ''1'', ''50'', ''50'', ''f''] = Some c \<and> spectrum s = read_hist False 4096 [''7''] \<and>
    uint (pulse_rate s) = c_rate c \<and> 0 < c_rate c \<and> uint (pulse_dist s) = c_dist c \<and> uint (rise s) = c_rise c \<and> uint (fall s) = c_fall c \<and>
    mcpha_client (zip (replicate 4102 mcpha_io_example) (the (pulser_start [''p'', ''1000'', ''1'', ''50'', ''50'', ''f''] [''7''] 0))) mcpha_start =
      start_pulser (replicate 4102 mcpha_io_example ! 4101) 1 s"
proof (rule pulser_start_configures)
  have "pulser_args [''p'', ''1000'', ''1'', ''50'', ''50'', ''f''] \<noteq> None" by code_simp
  then show "pulser_start [''p'', ''1000'', ''1'', ''50'', ''50'', ''f''] [''7''] 0 =
      Some (the (pulser_start [''p'', ''1000'', ''1'', ''50'', ''50'', ''f''] [''7''] 0))"
    by (auto simp: pulser_start_def)
  show "plain 0" by code_simp
qed (simp_all add: mcpha_start_def)

end
