(* ===== verification/PskReporter.thy ===== *)
theory PskReporter imports Cargs Loops begin

text \<open>
  upload-to-pskreporter.c: reads the spots that the FT8 decoder has written to a file and sends them, ten at a
  time, in IPFIX datagrams.  The datagrams are built in an array of 512 bytes; \<open>None\<close> is a write outside
  of it.  The two copies of the program differ in the name they give themselves.
\<close>

section \<open>Reading numbers\<close>

text \<open>Where \<open>strtod\<close> stops: decimal and hexadecimal numbers with their exponents, infinities and not-a-number.\<close>

definition lower_case :: "char \<Rightarrow> char" where
  "lower_case c = (if (65 :: nat) \<le> of_char c \<and> of_char c \<le> (90 :: nat) then char_of ((of_char c :: nat) + 32) else c)"

definition begins :: "string \<Rightarrow> string \<Rightarrow> bool" where
  "begins p s = (map lower_case (take (length p) s) = p)"

definition is_xdigit :: "char \<Rightarrow> bool" where
  "is_xdigit c = (is_digit c \<or> (97 \<le> (of_char (lower_case c) :: nat) \<and> (of_char (lower_case c) :: nat) \<le> 102))"

definition mantissa_len :: "(char \<Rightarrow> bool) \<Rightarrow> string \<Rightarrow> nat" where
  "mantissa_len digit s =
    (let a = length (takeWhile digit s); r = drop a s;
         point = (r \<noteq> [] \<and> hd r = CHR ''.''); b = (if point then length (takeWhile digit (tl r)) else 0)
     in if a = 0 \<and> b = 0 then 0 else a + (if point then 1 + b else 0))"

definition exponent_len :: "char \<Rightarrow> string \<Rightarrow> nat" where
  "exponent_len e s =
    (if s = [] \<or> lower_case (hd s) \<noteq> e then 0
     else let r = tl s; sign = (if r \<noteq> [] \<and> hd r \<in> {CHR ''+'', CHR ''-''} then 1 else 0);
              d = length (takeWhile is_digit (drop sign r))
          in if d = 0 then 0 else 1 + sign + d)"

definition float_len :: "(char \<Rightarrow> bool) \<Rightarrow> char \<Rightarrow> string \<Rightarrow> nat" where
  "float_len digit e s = (let m = mantissa_len digit s in if m = 0 then 0 else m + exponent_len e (drop m s))"

text \<open>The characters between the parentheses that may follow nan.\<close>

definition nan_len :: "string \<Rightarrow> nat" where
  "nan_len s =
    (let r = takeWhile (\<lambda>c. is_digit c \<or> (97 \<le> (of_char (lower_case c) :: nat) \<and> (of_char (lower_case c) :: nat) \<le> 122) \<or> c = CHR ''_'') (tl s)
     in if s \<noteq> [] \<and> hd s = CHR ''('' \<and> length r + 1 < length s \<and> s ! (length r + 1) = CHR '')'' then length r + 2 else 0)"

definition strtod_len :: "string \<Rightarrow> nat" where
  "strtod_len s =
    (let blanks = length (takeWhile is_space s); r = drop blanks s;
         sign = (if r \<noteq> [] \<and> hd r \<in> {CHR ''+'', CHR ''-''} then 1 else 0); body = drop sign r;
         n = (if begins ''infinity'' body then 8 else if begins ''inf'' body then 3
              else if begins ''nan'' body then 3 + nan_len (drop 3 body)
              else if begins ''0x'' body \<and> 0 < mantissa_len is_xdigit (drop 2 body) then 2 + float_len is_xdigit CHR ''p'' (drop 2 body)
              else float_len is_digit CHR ''e'' body)
     in if n = 0 then 0 else blanks + sign + n)"

definition read_dbl :: "string \<Rightarrow> string option" where
  "read_dbl s = (if strtod_len s = 0 then None else Some (drop (strtod_len s) s))"

definition read_int :: "string \<Rightarrow> (int \<times> string) option" where
  "read_int s = (let (range, consumed, value) = strtol s in if consumed = 0 then None else Some (value, drop consumed s))"

section \<open>A line of the file\<close>

record spot =
  sp_call :: string
  sp_grid :: string
  sp_freq :: u32
  sp_snr :: u8
  sp_time :: u32

text \<open>\<open>sscanf(src, "%13s %4s", call, grid)\<close> into two empty strings.  At the end of the line it returns \<open>EOF\<close>, which is not 0: the line
  is accepted with an empty call sign.\<close>

definition scan_names :: "string \<Rightarrow> string \<times> string" where
  "scan_names s =
    (let s1 = dropWhile is_space s; call = take 13 (takeWhile (\<lambda>c. \<not> is_space c) s1);
         s2 = dropWhile is_space (drop (length call) s1)
     in (call, take 4 (takeWhile (\<lambda>c. \<not> is_space c) s2)))"

text \<open>\<open>strptime\<close> is an argument: what it leaves of the line, with what \<open>timegm\<close> makes of the time.\<close>

definition parse_line :: "(string \<Rightarrow> (string \<times> int) option) \<Rightarrow> string \<Rightarrow> spot option" where
  "parse_line strptime line =
    do { (s, t) \<leftarrow> strptime line;
         s \<leftarrow> read_dbl s;
         (snr, s) \<leftarrow> read_int s;
         s \<leftarrow> read_dbl s;
         (freq, s) \<leftarrow> read_int s;
         Some (let (call, grid) = scan_names s
           in \<lparr>sp_call = call, sp_grid = grid, sp_freq = word_of_int freq, sp_snr = word_of_int snr, sp_time = word_of_int (t + 15)\<rparr>) }"

section \<open>Writing fields\<close>

text \<open>A pointer into an array.\<close>

type_synonym cursor = "u8 list \<times> nat"

definition be16 :: "u16 \<Rightarrow> u8 list" where
  "be16 v = rev (le16 v)"

definition bytes_of :: "string \<Rightarrow> u8 list" where
  "bytes_of s = map (\<lambda>c. of_nat (of_char c)) s"

definition copy_bytes :: "u8 list \<Rightarrow> cursor \<Rightarrow> cursor option" where
  "copy_bytes bs c =
    (if snd c + length bs \<le> length (fst c) then Some (blit (fst c) (snd c) bs, snd c + length bs) else None)"

text \<open>The size is an \<open>int8_t\<close>; a negative one would be a huge number for \<open>memcpy\<close>.\<close>

definition copy_char :: "string \<Rightarrow> cursor \<Rightarrow> cursor option" where
  "copy_char v c =
    (if length v > 127 then None else do { c \<leftarrow> copy_bytes [of_nat (length v)] c; copy_bytes (bytes_of v) c })"

definition copy_int1 :: "u8 \<Rightarrow> cursor \<Rightarrow> cursor option" where
  "copy_int1 v c = copy_bytes [v] c"

definition copy_int2 :: "u16 \<Rightarrow> cursor \<Rightarrow> cursor option" where
  "copy_int2 v c = copy_bytes (be16 v) c"

definition copy_int4 :: "u32 \<Rightarrow> cursor \<Rightarrow> cursor option" where
  "copy_int4 v c = copy_bytes (be32 v) c"

section \<open>The program\<close>

definition psk_header :: "u8 list" where
  "psk_header =
   [0x00, 0x0A, 0x00, 0x00, 0x00, 0x00, 0x00, 0x00,
    0x00, 0x00, 0x00, 0x00, 0x00, 0x00, 0x00, 0x00,
    0x00, 0x03, 0x00, 0x2C, 0x99, 0x92, 0x00, 0x04,
    0x00, 0x00,
    0x80, 0x02, 0xFF, 0xFF, 0x00, 0x00, 0x76, 0x8F,
    0x80, 0x04, 0xFF, 0xFF, 0x00, 0x00, 0x76, 0x8F,
    0x80, 0x08, 0xFF, 0xFF, 0x00, 0x00, 0x76, 0x8F,
    0x80, 0x09, 0xFF, 0xFF, 0x00, 0x00, 0x76, 0x8F,
    0x00, 0x00,
    0x00, 0x02, 0x00, 0x3C, 0x99, 0x93, 0x00, 0x07,
    0x80, 0x01, 0xFF, 0xFF, 0x00, 0x00, 0x76, 0x8F,
    0x80, 0x03, 0xFF, 0xFF, 0x00, 0x00, 0x76, 0x8F,
    0x80, 0x05, 0x00, 0x04, 0x00, 0x00, 0x76, 0x8F,
    0x80, 0x06, 0x00, 0x01, 0x00, 0x00, 0x76, 0x8F,
    0x80, 0x0A, 0xFF, 0xFF, 0x00, 0x00, 0x76, 0x8F,
    0x80, 0x0B, 0x00, 0x01, 0x00, 0x00, 0x76, 0x8F,
    0x00, 0x96, 0x00, 0x04]"

text \<open>What the program gets from outside: \<open>strptime\<close>, the time when the \<open>k\<close>-th datagram is sent, the random identification, and what is
  in the array at the start; and the name of the program.\<close>

record psk_env =
  e_strptime :: "string \<Rightarrow> (string \<times> int) option"
  e_now :: "nat \<Rightarrow> u32"
  e_random :: u32
  e_junk :: "u8 list"
  e_soft :: string

definition soft_ft8 :: string where "soft_ft8 = ''Red Pitaya FT8 TRX 1.0''"
definition soft_ft8_122_88 :: string where "soft_ft8_122_88 = ''STEMlab SDR FT8 TRX 1.0''"

text \<open>Call sign, locator and antenna from the command line; the last argument is the file.\<close>

definition psk_args :: "string list \<Rightarrow> (string \<times> string \<times> string) option" where
  "psk_args args =
    (case args of
       [call, grid, antenna, file] \<Rightarrow>
         if length call > 16 then None else if length grid > 6 then None else if length antenna > 64 then None
         else Some (call, grid, antenna)
     | _ \<Rightarrow> None)"

text \<open>The end of a set: padding, then its code and size.  The result is the array and the size.\<close>

definition close_set :: "u16 \<Rightarrow> nat \<Rightarrow> cursor \<Rightarrow> (u8 list \<times> nat) option" where
  "close_set code start c =
    (let size = snd c - start; padding = (4 - size mod 4) mod 4; size = size + padding
     in do { c \<leftarrow> copy_bytes (replicate padding 0) c;
             c \<leftarrow> copy_int2 code (fst c, start);
             c \<leftarrow> copy_int2 (of_nat size) c;
             Some (fst c, size) })"

text \<open>Up to the loop: header and receiver record.  The result is the array and \<open>start\<close>.\<close>

definition psk_begin :: "psk_env \<Rightarrow> string \<times> string \<times> string \<Rightarrow> cursor option" where
  "psk_begin e p =
    (let (call, grid, antenna) = p
     in do { h \<leftarrow> copy_int4 (e_random e) (psk_header, 12);
             c \<leftarrow> copy_bytes (fst h) (e_junk e, 0);
             let start = snd c;
             c \<leftarrow> copy_char call (fst c, start + 4);
             c \<leftarrow> copy_char grid c;
             c \<leftarrow> copy_char (e_soft e) c;
             c \<leftarrow> copy_char antenna c;
             (buffer, size) \<leftarrow> close_set 0x9992 start c;
             Some (buffer, start + size) })"

record psk =
  p_cur :: cursor
  p_counter :: nat
  p_sequence :: u32
  p_sent :: "u8 list list"

definition put_spot :: "spot \<Rightarrow> cursor \<Rightarrow> cursor option" where
  "put_spot sp c =
    do { c \<leftarrow> copy_char (sp_call sp) c;
         c \<leftarrow> copy_char (sp_grid sp) c;
         c \<leftarrow> copy_int4 (sp_freq sp) c;
         c \<leftarrow> copy_int1 (sp_snr sp) c;
         c \<leftarrow> copy_char ''FT8'' c;
         c \<leftarrow> copy_int1 1 c;
         copy_int4 (sp_time sp) c }"

definition psk_flush :: "psk_env \<Rightarrow> nat \<Rightarrow> psk \<Rightarrow> psk option" where
  "psk_flush e start s =
    do { (buffer, size) \<leftarrow> close_set 0x9993 start (p_cur s);
         let size = size + start;
         c \<leftarrow> copy_int2 (of_nat size) (buffer, 2);
         c \<leftarrow> copy_int4 (e_now e (length (p_sent s))) c;
         c \<leftarrow> copy_int4 (p_sequence s) c;
         Some \<lparr>p_cur = (fst c, start + 4), p_counter = 0, p_sequence = p_sequence s + 1, p_sent = p_sent s @ [take size (fst c)]\<rparr> }"

fun psk_loop :: "psk_env \<Rightarrow> nat \<Rightarrow> string list \<Rightarrow> psk \<Rightarrow> psk option" where
  "psk_loop e start [] s = (if p_counter s > 0 then psk_flush e start s else Some s)"
| "psk_loop e start (l # ls) s =
    (case parse_line (e_strptime e) l of
       None \<Rightarrow> psk_loop e start ls s
     | Some sp \<Rightarrow>
         do { c \<leftarrow> put_spot sp (p_cur s);
              let s = s\<lparr>p_cur := c, p_counter := p_counter s + 1\<rparr>;
              if p_counter s < 10 then psk_loop e start ls s
              else do { s \<leftarrow> psk_flush e start s; psk_loop e start ls s } })"

definition psk_upload :: "psk_env \<Rightarrow> string \<times> string \<times> string \<Rightarrow> string list \<Rightarrow> u8 list list option" where
  "psk_upload e p ls =
    do { (buffer, start) \<leftarrow> psk_begin e p;
         s \<leftarrow> psk_loop e start ls \<lparr>p_cur = (buffer, start + 4), p_counter = 0, p_sequence = 0, p_sent = []\<rparr>;
         Some (p_sent s) }"

end
