(* ===== verification/PskProps.thy ===== *)
theory PskProps imports PskReporter begin

text \<open>
  The datagrams of upload-to-pskreporter: a description of each as a list of bytes, which the code implements as long as
  it fits into the array; a decoder for it; and the bound on the strings from the command line below
  which it always fits.
\<close>

section \<open>Copies one after the other\<close>

lemma bind_Some: "Option.bind x f = Some y \<longleftrightarrow> (\<exists>z. x = Some z \<and> f z = Some y)"
  by (cases x) simp_all

lemma copy_bytes_Nil [simp]: "snd c \<le> length (fst c) \<Longrightarrow> copy_bytes [] c = Some c"
  by (simp add: copy_bytes_def blit_def)

lemma blit_blit:
  "d + length a + length b \<le> length buf \<Longrightarrow> blit (blit buf d a) (d + length a) b = blit buf d (a @ b)"
  by (simp add: blit_def ac_simps)

lemma copy_bytes_append:
  "Option.bind (copy_bytes a c) (copy_bytes b) = copy_bytes (a @ b) c"
  by (auto simp: copy_bytes_def add.assoc blit_blit bind_Some)

lemma copy_bytes_append_bind:
  "Option.bind (copy_bytes a c) (\<lambda>c. Option.bind (copy_bytes b c) f) = Option.bind (copy_bytes (a @ b) c) f"
  by (simp add: copy_bytes_append [symmetric] bind_assoc)

lemma copy_bytes_at:
  "copy_bytes new (a @ r, length a) = (if length new \<le> length r then Some (a @ new @ drop (length new) r, length a + length new) else None)"
  by (simp add: copy_bytes_def blit_def)

text \<open>A string with its length in front.\<close>

definition str_bytes :: "string \<Rightarrow> u8 list" where
  "str_bytes v = of_nat (length v) # bytes_of v"

lemma copy_char_bytes: "length v \<le> 127 \<Longrightarrow> copy_char v c = copy_bytes (str_bytes v) c"
  unfolding copy_char_def str_bytes_def using copy_bytes_append [of "[of_nat (length v)]" c "bytes_of v"] by simp

lemma length_str_bytes [simp]: "length (str_bytes v) = length v + 1"
  by (simp add: str_bytes_def bytes_of_def)

lemma length_be16 [simp]: "length (be16 v) = 2"
  by (simp add: be16_def)

section \<open>A datagram as a list of bytes\<close>

definition spot_bytes :: "spot \<Rightarrow> u8 list" where
  "spot_bytes sp =
    str_bytes (sp_call sp) @ str_bytes (sp_grid sp) @ be32 (sp_freq sp) @ [sp_snr sp] @ str_bytes ''FT8'' @ [1] @ be32 (sp_time sp)"

definition padding_of :: "nat \<Rightarrow> nat" where
  "padding_of n = (4 - n mod 4) mod 4"

definition set_size :: "u8 list \<Rightarrow> nat" where
  "set_size body = 4 + length body + padding_of (4 + length body)"

definition set_bytes :: "u16 \<Rightarrow> u8 list \<Rightarrow> u8 list" where
  "set_bytes code body = be16 code @ be16 (of_nat (set_size body)) @ body @ replicate (padding_of (4 + length body)) 0"

definition receiver_bytes :: "string \<Rightarrow> string \<times> string \<times> string \<Rightarrow> u8 list" where
  "receiver_bytes soft p = (let (call, grid, antenna) = p in str_bytes call @ str_bytes grid @ str_bytes soft @ str_bytes antenna)"

definition front_bytes :: "psk_env \<Rightarrow> string \<times> string \<times> string \<Rightarrow> u8 list" where
  "front_bytes e p = be32 (e_random e) @ drop 16 psk_header @ set_bytes 0x9992 (receiver_bytes (e_soft e) p)"

definition message_size :: "psk_env \<Rightarrow> string \<times> string \<times> string \<Rightarrow> spot list \<Rightarrow> nat" where
  "message_size e p sps = 12 + length (front_bytes e p) + set_size (concat (map spot_bytes sps))"

definition psk_message :: "psk_env \<Rightarrow> string \<times> string \<times> string \<Rightarrow> nat \<Rightarrow> spot list \<Rightarrow> u8 list" where
  "psk_message e p k sps =
    [0, 0x0A] @ be16 (of_nat (message_size e p sps)) @ be32 (e_now e k) @ be32 (of_nat k) @ front_bytes e p @
    set_bytes 0x9993 (concat (map spot_bytes sps))"

fun tens :: "'a list \<Rightarrow> 'a list list" where
  "tens [] = []"
| "tens (x # xs) = take 10 (x # xs) # tens (drop 10 (x # xs))"

definition spots_of :: "psk_env \<Rightarrow> string list \<Rightarrow> spot list" where
  "spots_of e ls = List.map_filter (parse_line (e_strptime e)) ls"

lemma set_size_length [simp]: "length (set_bytes code body) = set_size body"
  by (simp add: set_bytes_def set_size_def)

lemma set_size_mod: "set_size body mod 4 = 0"
proof -
  have "(n + padding_of n) mod 4 = 0" for n
  proof -
    have "n mod 4 < 4" by simp
    then have "n mod 4 \<in> {0, 1, 2, 3}" by auto
    then show ?thesis by (auto simp: padding_of_def mod_add_left_eq [symmetric, of n])
  qed
  then show ?thesis by (simp add: set_size_def)
qed

section \<open>The operations on the array\<close>

lemma put_spot_bytes:
  assumes "length (sp_call sp) \<le> 127" and "length (sp_grid sp) \<le> 127"
  shows "put_spot sp c = copy_bytes (spot_bytes sp) c"
proof -
  have "copy_char ''FT8'' c = copy_bytes (str_bytes ''FT8'') c" for c by (rule copy_char_bytes) simp
  then show ?thesis
    by (simp only: put_spot_def spot_bytes_def copy_char_bytes [OF assms(1)] copy_char_bytes [OF assms(2)] copy_int1_def copy_int4_def
        copy_bytes_append_bind copy_bytes_append append_assoc)
qed

lemma close_set_bytes:
  assumes "c = (b1 @ h @ body @ r, length b1 + 4 + length body)" and "length h = 4"
  shows "close_set code (length b1) c =
    (if length b1 + set_size body \<le> length (fst c)
     then Some (b1 @ set_bytes code body @ drop (padding_of (4 + length body)) r, set_size body) else None)"
proof -
  let ?p = "padding_of (4 + length body)"
  show ?thesis
  proof (cases "length b1 + set_size body \<le> length (fst c)")
    case True
    then have room: "?p \<le> length r" using assms by (simp add: set_size_def)
    have pad: "copy_bytes (replicate ?p 0) c = Some (b1 @ h @ body @ replicate ?p 0 @ drop ?p r, length b1 + 4 + length body + ?p)"
      using room assms by (simp add: copy_bytes_def blit_def)
    have code: "copy_bytes (be16 code @ be16 n) (b1 @ h @ rest, length b1) = Some (b1 @ (be16 code @ be16 n) @ rest, length b1 + 4)" for n rest
      using assms(2) by (simp add: copy_bytes_def blit_def)
    show ?thesis
      using True pad code [of "of_nat (set_size body)"] assms(1)
      by (simp add: close_set_def padding_of_def [symmetric] copy_int2_def copy_bytes_append_bind set_size_def set_bytes_def Let_def)
  next
    case False
    then have "copy_bytes (replicate ?p 0) c = None" using assms by (simp add: copy_bytes_def set_size_def)
    then show ?thesis using False assms by (simp add: close_set_def padding_of_def [symmetric] Let_def)
  qed
qed


section \<open>The loop\<close>

text \<open>The array holds the head of a datagram, whose first fields are overwritten each time, and the spots \<open>sps\<close> so far.\<close>

definition psk_inv :: "psk_env \<Rightarrow> string \<times> string \<times> string \<Rightarrow> spot list \<Rightarrow> psk \<Rightarrow> bool" where
  "psk_inv e p sps s \<longleftrightarrow>
    (\<exists>x h r. length x = 10 \<and> length h = 4 \<and> p_counter s = length sps \<and> p_sequence s = of_nat (length (p_sent s)) \<and>
      12 + length (front_bytes e p) + 4 + length (concat (map spot_bytes sps)) + length r = 512 \<and>
      p_cur s = ([0, 0x0A] @ x @ front_bytes e p @ h @ concat (map spot_bytes sps) @ r,
        12 + length (front_bytes e p) + 4 + length (concat (map spot_bytes sps))))"

lemma psk_flush_message:
  assumes "psk_inv e p sps s"
  shows "if message_size e p sps \<le> 512
    then \<exists>s'. psk_flush e (12 + length (front_bytes e p)) s = Some s' \<and> psk_inv e p [] s' \<and>
      p_sent s' = p_sent s @ [psk_message e p (length (p_sent s)) sps]
    else psk_flush e (12 + length (front_bytes e p)) s = None"
proof -
  let ?front = "front_bytes e p" and ?body = "concat (map spot_bytes sps)"
  obtain x h r where x: "length x = 10" "length h = 4" and seq: "p_sequence s = of_nat (length (p_sent s))"
    and room: "12 + length ?front + 4 + length ?body + length r = 512"
    and cur: "p_cur s = ([0, 0x0A] @ x @ ?front @ h @ ?body @ r, 12 + length ?front + 4 + length ?body)"
    using assms by (auto simp: psk_inv_def)
  define b1 where "b1 = [0, 0x0A] @ x @ ?front"
  have b1: "length b1 = 12 + length ?front" using x by (simp add: b1_def)
  have close: "close_set 0x9993 (12 + length ?front) (p_cur s) =
    (if message_size e p sps \<le> 512 then Some (b1 @ set_bytes 0x9993 ?body @ drop (padding_of (4 + length ?body)) r, set_size ?body) else None)"
    using close_set_bytes [of "p_cur s" b1 h ?body r "0x9993"] cur x room b1 by (simp add: b1_def message_size_def)
  let ?new = "be16 (of_nat (message_size e p sps)) @ be32 (e_now e (length (p_sent s))) @ be32 (p_sequence s)"
  show ?thesis
  proof (cases "message_size e p sps \<le> 512")
    case True
    let ?tail = "drop (padding_of (4 + length ?body)) r"
    let ?msg = "psk_message e p (length (p_sent s)) sps"
    have msg: "?msg = [0, 0x0A] @ ?new @ ?front @ set_bytes 0x9993 ?body" by (simp add: psk_message_def seq)
    have len: "length ?msg = message_size e p sps" by (simp add: msg message_size_def)
    have total: "set_size ?body + (12 + length ?front) = message_size e p sps" by (simp add: message_size_def)
    have head: "copy_bytes ?new (b1 @ set_bytes 0x9993 ?body @ ?tail, 2) = Some (?msg @ ?tail, 12)"
      using copy_bytes_at [of ?new "[0, 0x0A]" "x @ ?front @ set_bytes 0x9993 ?body @ ?tail"] x by (simp add: b1_def msg numeral_2_eq_2)
    have flush: "psk_flush e (12 + length ?front) s = Some \<lparr>p_cur = (?msg @ ?tail, 12 + length ?front + 4), p_counter = 0,
        p_sequence = p_sequence s + 1, p_sent = p_sent s @ [?msg]\<rparr>"
      using True by (simp add: psk_flush_def close total copy_int2_def copy_int4_def copy_bytes_append_bind head len del: of_nat_add)
    have "length ?msg + length ?tail = 512" using True room by (simp add: len message_size_def set_size_def)
    moreover have "?msg @ ?tail = [0, 0x0A] @ ?new @ ?front @ take 4 (set_bytes 0x9993 ?body) @ drop 4 (set_bytes 0x9993 ?body) @ ?tail"
      by (simp add: msg)
    ultimately have "psk_inv e p [] \<lparr>p_cur = (?msg @ ?tail, 12 + length ?front + 4), p_counter = 0,
        p_sequence = p_sequence s + 1, p_sent = p_sent s @ [?msg]\<rparr>"
      unfolding psk_inv_def
      by (intro exI [of _ ?new] exI [of _ "take 4 (set_bytes 0x9993 ?body)"] exI [of _ "drop 4 (set_bytes 0x9993 ?body) @ ?tail"])
        (simp add: seq msg set_size_def)
    with True flush show ?thesis by simp
  next
    case False
    then show ?thesis using close by (simp add: psk_flush_def)
  qed
qed

lemma parse_line_lengths: "parse_line f l = Some sp \<Longrightarrow> length (sp_call sp) \<le> 13 \<and> length (sp_grid sp) \<le> 4"
  by (auto simp: parse_line_def bind_Some scan_names_def Let_def split: prod.splits)

lemma put_spot_inv:
  assumes "psk_inv e p sps s" and "length (sp_call sp) \<le> 13" and "length (sp_grid sp) \<le> 4"
  shows "if 12 + length (front_bytes e p) + 4 + length (concat (map spot_bytes (sps @ [sp]))) \<le> 512
    then \<exists>c. put_spot sp (p_cur s) = Some c \<and> psk_inv e p (sps @ [sp]) (s\<lparr>p_cur := c, p_counter := p_counter s + 1\<rparr>)
    else put_spot sp (p_cur s) = None"
proof -
  let ?front = "front_bytes e p" and ?body = "concat (map spot_bytes sps)" and ?new = "spot_bytes sp"
  obtain x h r where x: "length x = 10" "length h = 4" and seq: "p_sequence s = of_nat (length (p_sent s))" "p_counter s = length sps"
    and room: "12 + length ?front + 4 + length ?body + length r = 512"
    and cur: "p_cur s = ([0, 0x0A] @ x @ ?front @ h @ ?body @ r, 12 + length ?front + 4 + length ?body)"
    using assms(1) by (auto simp: psk_inv_def)
  have put: "put_spot sp c = copy_bytes ?new c" for c using assms(2,3) by (simp add: put_spot_bytes)
  show ?thesis
  proof (cases "length ?new \<le> length r")
    case True
    have "put_spot sp (p_cur s) = Some ([0, 0x0A] @ x @ ?front @ h @ (?body @ ?new) @ drop (length ?new) r, 12 + length ?front + 4 + length (?body @ ?new))"
      using copy_bytes_at [of ?new "[0, 0x0A] @ x @ ?front @ h @ ?body" r] True x by (simp add: put cur add.assoc)
    moreover have "psk_inv e p (sps @ [sp]) (s\<lparr>p_cur := ([0, 0x0A] @ x @ ?front @ h @ (?body @ ?new) @ drop (length ?new) r,
        12 + length ?front + 4 + length (?body @ ?new)), p_counter := p_counter s + 1\<rparr>)"
      unfolding psk_inv_def using x room True seq
      by (intro exI [of _ x] exI [of _ h] exI [of _ "drop (length ?new) r"]) simp
    ultimately show ?thesis using True room by auto
  next
    case False
    then have "put_spot sp (p_cur s) = None" using x room by (simp add: put cur copy_bytes_def)
    then show ?thesis using False room by simp
  qed
qed

lemma tens_full: "length xs = 10 \<Longrightarrow> tens (xs @ ys) = xs # tens ys"
  by (cases xs) simp_all

lemma tens_short: "xs \<noteq> [] \<Longrightarrow> length xs \<le> 10 \<Longrightarrow> tens xs = [xs]"
  by (cases xs) simp_all

lemma tens_first: "xs \<noteq> [] \<Longrightarrow> take 10 xs \<in> set (tens xs)"
  by (cases xs) simp_all

lemma message_size_prefix:
  "12 + length (front_bytes e p) + 4 + length (concat (map spot_bytes sps)) \<le> message_size e p (sps @ more_spots)"
  by (simp add: message_size_def set_size_def)

definition messages :: "psk_env \<Rightarrow> string \<times> string \<times> string \<Rightarrow> nat \<Rightarrow> spot list list \<Rightarrow> u8 list list" where
  "messages e p k chunks = map (\<lambda>(k, sps). psk_message e p k sps) (List.enumerate k chunks)"

lemma spots_of_simps [simp]:
  "spots_of e [] = []"
  "spots_of e (l # ls) = (case parse_line (e_strptime e) l of None \<Rightarrow> spots_of e ls | Some sp \<Rightarrow> sp # spots_of e ls)"
  by (simp_all add: spots_of_def List.map_filter_simps split: option.splits)

lemma messages_Cons: "messages e p k (c # cs) = psk_message e p k c # messages e p (Suc k) cs"
  by (simp add: messages_def)

text \<open>What is sent when \<open>all\<close> are the spots collected so far and those still to come, from the state \<open>s\<close> on.\<close>

definition psk_sends :: "psk_env \<Rightarrow> string \<times> string \<times> string \<Rightarrow> spot list \<Rightarrow> psk \<Rightarrow> psk option \<Rightarrow> bool" where
  "psk_sends e p all s r \<longleftrightarrow>
    (if \<forall>c \<in> set (tens all). message_size e p c \<le> 512
     then \<exists>s'. r = Some s' \<and> p_sent s' = p_sent s @ messages e p (length (p_sent s)) (tens all)
     else r = None)"

lemma psk_sends_same [simp]: "psk_sends e p all (s\<lparr>p_cur := c, p_counter := k\<rparr>) r = psk_sends e p all s r"
  by (simp add: psk_sends_def cong: if_cong)

text \<open>The tenth spot completes a datagram.\<close>

lemma psk_sends_ten:
  assumes inv: "psk_inv e p ten s1" and len: "length ten = 10" and sent: "p_sent s1 = p_sent s"
    and later: "\<And>s2. psk_inv e p [] s2 \<Longrightarrow> psk_sends e p sps s2 (go s2)"
  shows "psk_sends e p (ten @ sps) s (Option.bind (psk_flush e (12 + length (front_bytes e p)) s1) go)"
proof -
  have tens: "tens (ten @ sps) = ten # tens sps" using tens_full [OF len, of sps] by simp
  show ?thesis
  proof (cases "message_size e p ten \<le> 512")
    case True
    then obtain s2 where "psk_flush e (12 + length (front_bytes e p)) s1 = Some s2" "psk_inv e p [] s2"
      and "p_sent s2 = p_sent s @ [psk_message e p (length (p_sent s)) ten]"
      using psk_flush_message [OF inv] sent by auto
    then show ?thesis using later [of s2] True unfolding psk_sends_def tens by (auto simp: messages_Cons split: if_splits)
  next
    case False
    then have "psk_flush e (12 + length (front_bytes e p)) s1 = None" using psk_flush_message [OF inv] by simp
    then show ?thesis using False by (simp add: psk_sends_def tens)
  qed
qed

text \<open>A spot that does not fit ends the program.\<close>

lemma psk_sends_overflow:
  assumes "\<not> 12 + length (front_bytes e p) + 4 + length (concat (map spot_bytes (sps @ [sp]))) \<le> 512" and "length sps < 10"
  shows "psk_sends e p (sps @ sp # further) s None"
proof -
  have "take 10 (sps @ sp # further) = (sps @ [sp]) @ take (9 - length sps) further" using assms(2) by (simp add: take_Cons')
  then have "\<not> message_size e p (take 10 (sps @ sp # further)) \<le> 512"
    using message_size_prefix [of e p "sps @ [sp]" "take (9 - length sps) further"] assms(1) by simp
  then show ?thesis using tens_first [of "sps @ sp # further"] by (auto simp: psk_sends_def)
qed

lemma psk_loop_messages:
  assumes "psk_inv e p sps s" and "length sps < 10"
  shows "psk_sends e p (sps @ spots_of e ls) s (psk_loop e (12 + length (front_bytes e p)) ls s)"
  using assms
proof (induction ls arbitrary: sps s)
  case Nil
  have counter: "p_counter s = length sps" using Nil(1) by (auto simp: psk_inv_def)
  show ?case
  proof (cases "sps = []")
    case True
    then show ?thesis using counter by (simp add: psk_sends_def messages_def)
  next
    case False
    then show ?thesis
      using counter psk_flush_message [OF Nil(1)] Nil(2)
      by (auto simp: psk_sends_def tens_short messages_def split: if_splits)
  qed
next
  case (Cons l ls)
  show ?case
  proof (cases "parse_line (e_strptime e) l")
    case None
    then show ?thesis using Cons by simp
  next
    case (Some sp)
    have counter: "p_counter s = length sps" using Cons.prems(1) by (auto simp: psk_inv_def)
    note put = put_spot_inv [OF Cons.prems(1), of sp] parse_line_lengths [OF Some]
    show ?thesis
    proof (cases "12 + length (front_bytes e p) + 4 + length (concat (map spot_bytes (sps @ [sp]))) \<le> 512")
      case False
      then have "psk_loop e (12 + length (front_bytes e p)) (l # ls) s = None" using put Some by simp
      then show ?thesis using psk_sends_overflow [OF False Cons.prems(2)] Some by simp
    next
      case True
      then obtain c where c: "put_spot sp (p_cur s) = Some c" and
        inv: "psk_inv e p (sps @ [sp]) (s\<lparr>p_cur := c, p_counter := p_counter s + 1\<rparr>)"
        using put by auto
      show ?thesis
      proof (cases "length sps < 9")
        case True
        then show ?thesis using Cons.IH [OF inv] Some c counter by simp
      next
        case False
        then have ten: "length (sps @ [sp]) = 10" using Cons.prems(2) by simp
        then show ?thesis using psk_sends_ten [OF inv ten, of s "spots_of e ls"] Cons.IH [of "[]"] Some c counter by simp
      qed
    qed
  qed
qed


section \<open>The start\<close>

definition lengths_ok :: "psk_env \<Rightarrow> string \<times> string \<times> string \<Rightarrow> bool" where
  "lengths_ok e p \<longleftrightarrow> length (e_junk e) = 512 \<and> length (e_soft e) \<le> 64 \<and>
    length (fst p) \<le> 16 \<and> length (fst (snd p)) \<le> 6 \<and> length (snd (snd p)) \<le> 64"

lemma psk_args_lengths: "psk_args args = Some p \<Longrightarrow> length (fst p) \<le> 16 \<and> length (fst (snd p)) \<le> 6 \<and> length (snd (snd p)) \<le> 64"
  by (auto simp: psk_args_def split: list.splits if_splits)

lemma psk_header_length: "length psk_header = 120"
  by (simp add: psk_header_def)

lemma psk_header_head: "take 12 psk_header = [0, 0x0A] @ replicate 10 0"
  by (simp add: psk_header_def eval_nat_numeral)

lemma psk_begin_inv:
  assumes "lengths_ok e p"
  shows "\<exists>buffer. psk_begin e p = Some (buffer, 12 + length (front_bytes e p)) \<and>
    psk_inv e p [] \<lparr>p_cur = (buffer, 12 + length (front_bytes e p) + 4), p_counter = 0, p_sequence = 0, p_sent = []\<rparr>"
proof -
  obtain call grid antenna where p: "p = (call, grid, antenna)" by (cases p)
  have len: "length (e_junk e) = 512" "length (e_soft e) \<le> 64" "length call \<le> 16" "length grid \<le> 6" "length antenna \<le> 64"
    using assms by (simp_all add: lengths_ok_def p)
  let ?head = "[0, 0x0A] @ replicate 10 0 @ be32 (e_random e) @ drop 16 psk_header"
  let ?recv = "receiver_bytes (e_soft e) p"
  have head: "copy_int4 (e_random e) (psk_header, 12) = Some (?head, 16)"
    using psk_header_length psk_header_head by (simp add: copy_int4_def copy_bytes_def blit_def)
  have hlen: "length ?head = 120" using psk_header_length by simp
  have recv: "length ?recv \<le> 154" using len by (simp add: receiver_bytes_def p)
  define h where "h = take 4 (drop 120 (e_junk e))"
  define r where "r = drop 124 (e_junk e)"
  have junk: "drop 120 (e_junk e) = h @ r" using append_take_drop_id [of 4 "drop 120 (e_junk e)"] by (simp add: h_def r_def)
  have h: "length h = 4" "length r = 388" using len by (simp_all add: h_def r_def)
  have copy: "copy_bytes ?head (e_junk e, 0) = Some (?head @ h @ r, 120)"
    using len hlen junk by (simp add: copy_bytes_def blit_def)
  have strings: "copy_bytes ?recv (?head @ h @ r, 124) = Some (?head @ h @ ?recv @ drop (length ?recv) r, 124 + length ?recv)"
    using copy_bytes_at [of ?recv "?head @ h" r] recv h hlen by simp
  have fits: "set_size ?recv \<le> 164" using recv by (simp add: set_size_def padding_of_def)
  have close: "close_set 0x9992 120 (?head @ h @ ?recv @ drop (length ?recv) r, 124 + length ?recv) =
    Some (?head @ set_bytes 0x9992 ?recv @ drop (padding_of (4 + length ?recv)) (drop (length ?recv) r), set_size ?recv)"
    using close_set_bytes [of _ ?head h ?recv "drop (length ?recv) r" "0x9992"] hlen h recv fits by simp
  have start: "120 + set_size ?recv = 12 + length (front_bytes e p)"
    using psk_header_length by (simp add: front_bytes_def)
  have run: "psk_begin e p = Some (?head @ set_bytes 0x9992 ?recv @ drop (padding_of (4 + length ?recv)) (drop (length ?recv) r), 120 + set_size ?recv)"
  proof -
    have chain: "do { c \<leftarrow> copy_char call c; c \<leftarrow> copy_char grid c; c \<leftarrow> copy_char (e_soft e) c; c \<leftarrow> copy_char antenna c; f c } =
      Option.bind (copy_bytes ?recv c) f" for c and f :: "cursor \<Rightarrow> cursor option"
      using len by (simp add: p receiver_bytes_def copy_char_bytes copy_bytes_append_bind)
    have "psk_begin e p = do { c \<leftarrow> copy_bytes ?recv (?head @ h @ r, 120 + 4); (buffer, n) \<leftarrow> close_set 0x9992 120 c; Some (buffer, 120 + n) }"
      unfolding psk_begin_def p by (simp only: prod.case head Option.bind.simps fst_conv copy Let_def snd_conv chain) (simp only: p)
    then show ?thesis using strings close by simp
  qed
  let ?rest = "drop (padding_of (4 + length ?recv)) (drop (length ?recv) r)"
  define rest where "rest = ?rest"
  have room: "12 + length (front_bytes e p) + length rest = 512" "4 \<le> length rest"
    using h fits psk_header_length by (simp_all add: rest_def front_bytes_def set_size_def)
  have "psk_inv e p [] \<lparr>p_cur = (?head @ set_bytes 0x9992 ?recv @ rest, 12 + length (front_bytes e p) + 4), p_counter = 0, p_sequence = 0, p_sent = []\<rparr>"
    unfolding psk_inv_def
    by (rule exI [of _ "replicate 10 0"], rule exI [of _ "take 4 rest"], rule exI [of _ "drop 4 rest"])
      (use room psk_header_length in \<open>simp add: front_bytes_def\<close>)
  then show ?thesis using run start by (simp add: rest_def)
qed


section \<open>The program as a whole\<close>

lemma psk_upload_messages:
  assumes "lengths_ok e p"
  shows "psk_upload e p ls =
    (if \<forall>c \<in> set (tens (spots_of e ls)). message_size e p c \<le> 512 then Some (messages e p 0 (tens (spots_of e ls))) else None)"
proof -
  obtain buffer where run: "psk_begin e p = Some (buffer, 12 + length (front_bytes e p))"
    and inv: "psk_inv e p [] \<lparr>p_cur = (buffer, 12 + length (front_bytes e p) + 4), p_counter = 0, p_sequence = 0, p_sent = []\<rparr>"
    using psk_begin_inv [OF assms] by blast
  define start where "start = 12 + length (front_bytes e p)"
  define s0 where "s0 = \<lparr>p_cur = (buffer, start + 4), p_counter = 0, p_sequence = 0, p_sent = []\<rparr>"
  have "psk_upload e p ls = map_option p_sent (psk_loop e start ls s0)"
    by (cases "psk_loop e start ls s0") (simp_all add: psk_upload_def run [folded start_def] s0_def [symmetric])
  moreover have "p_sent s0 = []" by (simp add: s0_def)
  ultimately show ?thesis
    using psk_loop_messages [OF inv, of ls, unfolded psk_sends_def, folded start_def, folded s0_def]
    by (cases "\<forall>c \<in> set (tens (spots_of e ls)). message_size e p c \<le> 512") auto
qed

lemma concat_tens: "concat (tens xs) = xs"
proof (induction xs rule: tens.induct)
  case (2 x xs)
  then show ?case by (metis append_take_drop_id concat.simps(2) tens.simps(2))
qed simp

lemma tens_sizes: "c \<in> set (tens xs) \<Longrightarrow> length c \<le> 10 \<and> c \<noteq> [] \<and> set c \<subseteq> set xs"
proof (induction xs rule: tens.induct)
  case (2 x xs)
  then show ?case using set_take_subset [of 10 "x # xs"] set_drop_subset [of 10 "x # xs"] by fastforce
qed simp

lemma spots_of_set: "sp \<in> set (spots_of e ls) \<Longrightarrow> length (sp_call sp) \<le> 13 \<and> length (sp_grid sp) \<le> 4"
  by (induction ls) (auto split: option.splits dest: parse_line_lengths)

lemma spot_size: "length (spot_bytes sp) = 16 + length (sp_call sp) + length (sp_grid sp)"
  by (simp add: spot_bytes_def)

lemma length_spots: "length sps \<le> length (concat (map spot_bytes sps))"
  by (induction sps) (simp_all add: spot_size)

lemma spots_size: "list_all (\<lambda>sp. length (sp_call sp) \<le> 13 \<and> length (sp_grid sp) \<le> 4) sps \<Longrightarrow> length (concat (map spot_bytes sps)) \<le> 33 * length sps"
  by (induction sps) (auto simp: spot_size)

lemma set_size_le: "length body \<le> n \<Longrightarrow> n mod 4 = 0 \<Longrightarrow> set_size body \<le> 4 + n"
proof -
  assume n: "length body \<le> n" "n mod 4 = 0"
  have "padding_of (4 + length body) \<le> 3" by (simp add: padding_of_def)
  then have "set_size body < n + 8" using n by (simp add: set_size_def)
  moreover have eqs: "set_size body = 4 * (set_size body div 4)" "n = 4 * (n div 4)"
    using mult_div_mod_eq [of 4 "set_size body"] set_size_mod [of body] mult_div_mod_eq [of 4 n] n by simp_all
  ultimately have "4 * (set_size body div 4) < 4 * (n div 4) + 8" by metis
  then have "set_size body div 4 \<le> n div 4 + 1" by arith
  then have "4 * (set_size body div 4) \<le> 4 + 4 * (n div 4)" by simp
  then show ?thesis using eqs by metis
qed

text \<open>C37: if the name of the program and the three strings from the command line have at most 48 characters together, the
  datagrams never overflow the array of 512 bytes, whatever the file holds.  The checks of the program
  allow up to 86 characters for the three strings.\<close>

theorem psk_fits:
  assumes "length (e_junk e) = 512" and "psk_args args = Some (call, grid, antenna)"
    and "length (e_soft e) + length call + length grid + length antenna \<le> 48"
  shows "psk_upload e (call, grid, antenna) ls \<noteq> None"
proof -
  let ?p = "(call, grid, antenna)"
  have ok: "lengths_ok e ?p" using assms psk_args_lengths [OF assms(2)] by (simp add: lengths_ok_def)
  have "set_size (receiver_bytes (e_soft e) ?p) \<le> 56"
    using set_size_le [of "receiver_bytes (e_soft e) ?p" 52] assms(3) by (simp add: receiver_bytes_def)
  then have front: "12 + length (front_bytes e ?p) \<le> 176" using psk_header_length by (simp add: front_bytes_def)
  have "message_size e ?p c \<le> 512" if "c \<in> set (tens (spots_of e ls))" for c
  proof -
    have c: "length c \<le> 10" "list_all (\<lambda>sp. length (sp_call sp) \<le> 13 \<and> length (sp_grid sp) \<le> 4) c"
      using tens_sizes [OF that] spots_of_set by (auto simp: list_all_iff)
    have "length (concat (map spot_bytes c)) \<le> 332" using spots_size [OF c(2)] c(1) by simp
    then show ?thesis using set_size_le [of "concat (map spot_bytes c)" 332] front by (simp add: message_size_def)
  qed
  then show ?thesis by (simp add: psk_upload_messages [OF ok])
qed

section \<open>Reading the datagrams\<close>

definition of_be16 :: "u8 list \<Rightarrow> u16" where
  "of_be16 b = push_bit 8 (ucast (b ! 0)) OR ucast (b ! 1)"

lemma of_be16_be16: "of_be16 (be16 v @ r) = v"
  unfolding be16_def of_be16_def by (rule word16_eqI) (simp add: word_bits le16_def)

lemma of_be32_append: "of_be32 (be32 v @ r) = v"
proof -
  have "of_be32 (be32 v @ r) = of_be32 (be32 v)" by (simp add: of_be32_def nth_append)
  then show ?thesis by simp
qed

definition take_str :: "u8 list \<Rightarrow> string \<times> u8 list" where
  "take_str bs = (let n = unat (hd bs) in (map (\<lambda>b. char_of (unat b)) (take n (tl bs)), drop (n + 1) bs))"

lemma take_str_bytes: "length v \<le> 127 \<Longrightarrow> take_str (str_bytes v @ r) = (v, r)"
proof -
  assume "length v \<le> 127"
  then have n: "unat (of_nat (length v) :: u8) = length v" by (simp add: unat_of_nat)
  have "char_of (unat (of_nat (of_char c) :: u8)) = c" for c
  proof -
    have "(of_char c :: nat) < 256" by (rule nat_of_char_less_256)
    then have "unat (of_nat (of_char c) :: u8) = of_char c" by (simp add: unat_of_nat)
    then show ?thesis by simp
  qed
  then show ?thesis by (simp add: take_str_def str_bytes_def n bytes_of_def comp_def)
qed

fun decode_spots :: "nat \<Rightarrow> u8 list \<Rightarrow> spot list" where
  "decode_spots 0 bs = []"
| "decode_spots (Suc k) bs =
    (if length bs < 16 then []
     else let (call, r) = take_str bs; (grid, r) = take_str r; (mode, r') = take_str (drop 5 r)
          in \<lparr>sp_call = call, sp_grid = grid, sp_freq = of_be32 r, sp_snr = r ! 4, sp_time = of_be32 (drop 1 r')\<rparr> #
            decode_spots k (drop 5 r'))"

record datagram =
  d_size :: nat
  d_time :: u32
  d_sequence :: u32
  d_random :: u32
  d_names :: "string list"
  d_spots :: "spot list"

definition set_body :: "u8 list \<Rightarrow> u8 list" where
  "set_body bs = take (unat (of_be16 (drop 2 bs)) - 4) (drop 4 bs)"

definition decode :: "u8 list \<Rightarrow> datagram" where
  "decode d =
    (let (call, r) = take_str (set_body (drop 120 d)); (grid, r) = take_str r; (soft, r) = take_str r; (antenna, r) = take_str r;
         body = set_body (drop (120 + unat (of_be16 (drop 122 d))) d)
     in \<lparr>d_size = unat (of_be16 (drop 2 d)), d_time = of_be32 (drop 4 d), d_sequence = of_be32 (drop 8 d), d_random = of_be32 (drop 12 d),
         d_names = [call, grid, soft, antenna], d_spots = decode_spots (length body) body\<rparr>)"

lemma decode_spots_bytes:
  "list_all (\<lambda>sp. length (sp_call sp) \<le> 13 \<and> length (sp_grid sp) \<le> 4) sps \<Longrightarrow> length pad < 16 \<Longrightarrow> length sps \<le> k \<Longrightarrow>
   decode_spots k (concat (map spot_bytes sps) @ pad) = sps"
proof (induction sps arbitrary: k)
  case Nil
  then show ?case by (cases k) simp_all
next
  case (Cons sp sps)
  then obtain k' where k: "k = Suc k'" "length sps \<le> k'" by (cases k) auto
  have call: "take_str (str_bytes (sp_call sp) @ r) = (sp_call sp, r)" for r using Cons.prems(1) by (intro take_str_bytes) simp
  have grid: "take_str (str_bytes (sp_grid sp) @ r) = (sp_grid sp, r)" for r using Cons.prems(1) by (intro take_str_bytes) simp
  have mode: "take_str (str_bytes ''FT8'' @ r) = (''FT8'', r)" for r by (rule take_str_bytes) simp
  have "\<not> length (concat (map spot_bytes (sp # sps)) @ pad) < 16" by (simp add: spot_size)
  then show ?case
    using Cons k by (simp add: spot_bytes_def call grid mode of_be32_append nth_append)
qed

lemma set_body_bytes:
  assumes "set_size body < 65536"
  shows "set_body (set_bytes code body @ r) = body @ replicate (padding_of (4 + length body)) 0"
proof -
  have n: "unat (of_nat (set_size body) :: u16) = set_size body" using assms by (simp add: unat_of_nat)
  define w where "w = body @ replicate (padding_of (4 + length body)) (0 :: u8)"
  have "length w = set_size body - 4" by (simp add: w_def set_size_def)
  moreover have "set_body (set_bytes code body @ r) = take (set_size body - 4) (w @ r)"
    by (simp add: set_body_def set_bytes_def of_be16_be16 n w_def del: of_nat_add)
  ultimately show ?thesis by (simp add: w_def)
qed

lemma set_bytes_size:
  assumes "set_size body < 65536"
  shows "unat (of_be16 (drop 2 (set_bytes code body @ r))) = set_size body"
  using assms by (simp add: set_bytes_def of_be16_be16 unat_of_nat del: of_nat_add)

lemma decode_parts:
  assumes "length m = 104" and "set_size recv < 65536" and "set_size body < 65536" and "n < 65536"
    and "recv = str_bytes a @ str_bytes b @ str_bytes c @ str_bytes f" and "list_all (\<lambda>v. length v \<le> 127) [a, b, c, f]"
  shows "decode ([0, 0x0A] @ be16 (of_nat n) @ be32 t @ be32 k @ be32 q @ m @ set_bytes 0x9992 recv @ set_bytes 0x9993 body) =
    \<lparr>d_size = n, d_time = t, d_sequence = k, d_random = q, d_names = [a, b, c, f],
     d_spots = decode_spots (length (set_body (set_bytes 0x9993 body))) (set_body (set_bytes 0x9993 body))\<rparr>"
proof -
  let ?sets = "set_bytes 0x9992 recv @ set_bytes 0x9993 body"
  let ?d = "[0, 0x0A] @ be16 (of_nat n) @ be32 t @ be32 k @ be32 q @ m @ ?sets"
  have fields: "of_be16 (drop 2 ?d) = of_nat n" "of_be32 (drop 4 ?d) = t" "of_be32 (drop 8 ?d) = k" "of_be32 (drop 12 ?d) = q"
    by (simp_all add: of_be16_be16 of_be32_append)
  have n: "unat (of_nat n :: u16) = n" using assms(4) by (simp add: unat_of_nat)
  have first: "drop 120 ?d = ?sets" using assms(1) by simp
  have "drop (120 + set_size recv) ?d = drop (set_size recv) (drop 120 ?d)" by (simp only: drop_drop add.commute)
  then have second: "drop (120 + set_size recv) ?d = set_bytes 0x9993 body" unfolding first by simp
  have "drop 122 ?d = drop 2 ?sets" using drop_drop [of 2 120 ?d] unfolding first by simp
  then have size: "unat (of_be16 (drop 122 ?d)) = set_size recv" using set_bytes_size [OF assms(2)] by simp
  have names: "take_str (str_bytes a @ r) = (a, r)" "take_str (str_bytes b @ r) = (b, r)" "take_str (str_bytes c @ r) = (c, r)"
    "take_str (str_bytes f @ r) = (f, r)" for r
    using assms(6) by (auto intro: take_str_bytes)
  show ?thesis
    unfolding decode_def fields n first size second set_body_bytes [OF assms(2)]
    by (simp add: assms(5) names Let_def)
qed

text \<open>C36: whatever the file holds, the datagrams that are sent can be read back: each states its length, the
  sequence numbers count from 0, the receiver's strings are those of the command line, and the spots of
  all datagrams together, ten in each but the last, are the spots of the file in order.\<close>

theorem psk_datagrams:
  assumes "length (e_junk e) = 512" and "length (e_soft e) \<le> 64" and "psk_args args = Some (call, grid, antenna)"
    and "psk_upload e (call, grid, antenna) ls = Some sent"
  shows "map d_spots (map decode sent) = tens (spots_of e ls) \<and> concat (map d_spots (map decode sent)) = spots_of e ls \<and>
    (\<forall>k < length sent. length (sent ! k) \<le> 512 \<and> d_size (decode (sent ! k)) = length (sent ! k) \<and> d_sequence (decode (sent ! k)) = of_nat k \<and>
      d_time (decode (sent ! k)) = e_now e k \<and> d_random (decode (sent ! k)) = e_random e \<and>
      d_names (decode (sent ! k)) = [call, grid, e_soft e, antenna])"
proof -
  let ?p = "(call, grid, antenna)"
  let ?chunks = "tens (spots_of e ls)"
  have ok: "lengths_ok e ?p" using assms psk_args_lengths [OF assms(3)] by (simp add: lengths_ok_def)
  have fits: "\<forall>c \<in> set ?chunks. message_size e ?p c \<le> 512" and sent: "sent = messages e ?p 0 ?chunks"
    using assms(4) by (simp_all add: psk_upload_messages [OF ok] split: if_splits)
  have len: "length sent = length ?chunks" by (simp add: sent messages_def)
  have nth: "sent ! k = psk_message e ?p k (?chunks ! k)" if "k < length ?chunks" for k
    using that by (simp add: sent messages_def nth_enumerate_eq)
  have dec: "length (sent ! k) = message_size e ?p (?chunks ! k) \<and> decode (sent ! k) =
    \<lparr>d_size = length (sent ! k), d_time = e_now e k, d_sequence = of_nat k, d_random = e_random e, d_names = [call, grid, e_soft e, antenna],
     d_spots = ?chunks ! k\<rparr>" if k: "k < length ?chunks" for k
  proof -
    let ?sps = "?chunks ! k" and ?recv = "receiver_bytes (e_soft e) ?p"
    let ?body = "concat (map spot_bytes ?sps)" and ?d = "psk_message e ?p k (?chunks ! k)"
    have mem: "?sps \<in> set ?chunks" using k by simp
    then have small: "message_size e ?p ?sps \<le> 512" using fits by blast
    have sps: "list_all (\<lambda>sp. length (sp_call sp) \<le> 13 \<and> length (sp_grid sp) \<le> 4) ?sps"
      using tens_sizes [OF mem] spots_of_set by (auto simp: list_all_iff)
    have size: "length ?d = message_size e ?p ?sps" by (simp add: psk_message_def message_size_def)
    have recv: "set_size ?recv < 65536" and body: "set_size ?body < 65536"
      using small by (simp_all add: message_size_def front_bytes_def)
    have mid: "length (drop 16 psk_header) = 104" using psk_header_length by simp
    have d: "?d = [0, 0x0A] @ be16 (of_nat (length ?d)) @ be32 (e_now e k) @ be32 (of_nat k) @ be32 (e_random e) @ drop 16 psk_header @
      set_bytes 0x9992 ?recv @ set_bytes 0x9993 ?body" (is "_ = ?bytes")
      by (simp only: size) (simp add: psk_message_def front_bytes_def)
    have pad: "padding_of (4 + length ?body) < 16" by (simp add: padding_of_def)
    have sb: "set_body (set_bytes 0x9993 ?body) = ?body @ replicate (padding_of (4 + length ?body)) 0"
      using set_body_bytes [OF body, of "0x9993" "[]"] by simp
    have "length ?sps \<le> length ?body" by (rule length_spots)
    then have spots: "decode_spots (length (set_body (set_bytes 0x9993 ?body))) (set_body (set_bytes 0x9993 ?body)) = ?sps"
      unfolding sb by (intro decode_spots_bytes [OF sps]) (use pad in simp_all)
    have names: "?recv = str_bytes call @ str_bytes grid @ str_bytes (e_soft e) @ str_bytes antenna" by (simp add: receiver_bytes_def)
    have short: "list_all (\<lambda>v. length v \<le> 127) [call, grid, e_soft e, antenna]" using ok by (simp add: lengths_ok_def)
    have "decode ?d = \<lparr>d_size = length ?d, d_time = e_now e k, d_sequence = of_nat k, d_random = e_random e, d_names = [call, grid, e_soft e, antenna],
     d_spots = ?sps\<rparr>"
      by (subst d, subst decode_parts [OF mid recv body _ names short]) (use size small spots in simp_all)
    then show ?thesis using size nth [OF k] by simp
  qed
  have "map d_spots (map decode sent) = ?chunks"
    by (rule nth_equalityI) (simp_all add: len dec)
  then show ?thesis using dec len fits by (simp add: concat_tens)
qed


section \<open>Examples\<close>

text \<open>A line with the longest call sign and locator, and the spot it gives.\<close>

definition long_line :: string where
  "long_line = ''240101 120000  1.5e0 -12 0.3 7074000 ABCDEFGHIJKLM JO65''"

definition example_env :: "string \<Rightarrow> psk_env" where
  "example_env soft = \<lparr>e_strptime = (\<lambda>l. if length l < 13 then None else Some (drop 13 l, 1704110400)), e_now = of_nat, e_random = 7,
    e_junk = replicate 512 0xEE, e_soft = soft\<rparr>"

definition long_spot :: spot where
  "long_spot = \<lparr>sp_call = ''ABCDEFGHIJKLM'', sp_grid = ''JO65'', sp_freq = 7074000, sp_snr = 0xF4, sp_time = 1704110415\<rparr>"

lemma long_line_spot: "parse_line (e_strptime (example_env soft)) long_line = Some long_spot"
proof -
  have "parse_line (\<lambda>l. if length l < 13 then None else Some (drop 13 l, 1704110400)) long_line = Some long_spot" by code_simp
  then show ?thesis by (simp add: example_env_def)
qed

lemma example_spots: "spots_of (example_env soft) (replicate n long_line) = replicate n long_spot"
  by (induction n) (simp_all add: long_line_spot)

lemma example_args:
  "psk_args [''DL1ABC'', ''JO65ab'', ''dipole 10 m up'', ''file''] = Some (''DL1ABC'', ''JO65ab'', ''dipole 10 m up'')"
  "psk_args [''DL1ABC'', ''JO65ab'', ''dipole 10 m up.'', ''file''] = Some (''DL1ABC'', ''JO65ab'', ''dipole 10 m up.'')"
  by (simp_all add: psk_args_def)

text \<open>The bound is sharp: one more character in the description of the antenna, and ten spots with long call signs run
  past the end of the array.\<close>

theorem psk_overflow:
  "psk_upload (example_env soft_ft8) (''DL1ABC'', ''JO65ab'', ''dipole 10 m up.'') (replicate 10 long_line) = None"
proof -
  let ?e = "example_env soft_ft8" and ?p = "(''DL1ABC'', ''JO65ab'', ''dipole 10 m up.'')"
  have ok: "lengths_ok ?e ?p" by (simp add: lengths_ok_def example_env_def soft_ft8_def)
  have soft: "e_soft ?e = soft_ft8" by (simp add: example_env_def)
  have spot: "length (spot_bytes long_spot) = 33" by (simp add: spot_size long_spot_def)
  have ten: "replicate 10 long_spot = long_spot # replicate 9 long_spot" by (simp add: eval_nat_numeral)
  have body: "length (concat (map spot_bytes (replicate 10 long_spot))) = 330" by (simp add: length_concat spot sum_list_replicate)
  have chunks: "tens (replicate 10 long_spot) = [replicate 10 long_spot]" by (rule tens_short) simp_all
  have recv: "length (receiver_bytes soft_ft8 ?p) = 53" by (simp add: receiver_bytes_def soft_ft8_def)
  have "set_size (receiver_bytes (e_soft ?e) ?p) = 60" unfolding soft by (simp add: set_size_def recv padding_of_def)
  moreover have "set_size (concat (map spot_bytes (replicate 10 long_spot))) = 336"
    by (simp only: set_size_def body padding_of_def) simp
  ultimately have "message_size ?e ?p (replicate 10 long_spot) = 516"
    using psk_header_length by (simp add: message_size_def front_bytes_def)
  then show ?thesis unfolding psk_upload_messages [OF ok] example_spots chunks by simp
qed

theorem psk_fits_witness:
  "psk_upload (example_env soft_ft8) (''DL1ABC'', ''JO65ab'', ''dipole 10 m up'') (replicate 10 long_line) \<noteq> None"
  by (rule psk_fits [OF _ example_args(1)]) (simp_all add: example_env_def soft_ft8_def)

theorem psk_datagrams_witness:
  "\<exists>sent. psk_upload (example_env soft_ft8) (''DL1ABC'', ''JO65ab'', ''dipole 10 m up'') (replicate 2 long_line) = Some sent \<and>
    concat (map d_spots (map decode sent)) = [long_spot, long_spot]"
proof -
  let ?e = "example_env soft_ft8" and ?p = "(''DL1ABC'', ''JO65ab'', ''dipole 10 m up'')"
  have ok: "lengths_ok ?e ?p" by (simp add: lengths_ok_def example_env_def soft_ft8_def)
  have e: "length (e_junk ?e) = 512" "e_soft ?e = soft_ft8" "length (e_soft ?e) \<le> 64" by (simp_all add: example_env_def soft_ft8_def)
  have soft: "length (e_soft ?e) = 22" by (simp add: example_env_def soft_ft8_def)
  have chunks: "tens (replicate 2 long_spot) = [replicate 2 long_spot]" by (rule tens_short) simp_all
  have spot: "length (spot_bytes long_spot) = 33" by (simp add: spot_size long_spot_def)
  have "message_size ?e ?p (replicate 2 long_spot) \<le> 512"
    using psk_header_length soft
    by (simp add: message_size_def front_bytes_def set_size_def padding_of_def receiver_bytes_def length_concat spot sum_list_replicate)
  then obtain sent where sent: "psk_upload ?e ?p (replicate 2 long_line) = Some sent"
    unfolding psk_upload_messages [OF ok] example_spots chunks by simp
  from psk_datagrams [OF e(1) e(3) example_args(1) this]
  have "concat (map d_spots (map decode sent)) = replicate 2 long_spot" unfolding example_spots by blast
  then have "concat (map d_spots (map decode sent)) = [long_spot, long_spot]" by (simp add: numeral_2_eq_2)
  with sent show ?thesis by blast
qed

end
