(* ===== verification/Recorders.thy ===== *)
theory Recorders imports RingServers AdcTest Loops begin

text \<open>
  The programs that record samples and play them: adc-recorder.c and dac-player.c of dac_player, adc-recorder.c of
  adc_recorder and adc-recorder-trigger.c.  \<open>usleep\<close> and \<open>sleep\<close> are left out.
\<close>

section \<open>dac_player: adc-recorder.c\<close>

text \<open>Decimation rate and duration; the last argument is the file.\<close>

definition recorder_args :: "string list \<Rightarrow> (int \<times> int) option" where
  "recorder_args args =
    (if length args \<noteq> 3 then None
     else case number_arg 16 16384 (args ! 0) of None \<Rightarrow> None
       | Some r \<Rightarrow> (case number_arg 1 99999999 (args ! 1) of None \<Rightarrow> None | Some stop \<Rightarrow> Some (r, stop)))"

definition recorder_setup :: "u32 \<Rightarrow> int \<Rightarrow> ring \<Rightarrow> ring" where
  "recorder_setup addr r s =
    (let s = put32 4 addr s; s = enter_reset s;
         s = put16 8 (word_of_int (r div 2)) s; s = leave_reset s
     in s\<lparr>limit := 2 * 1024\<rparr>)"

text \<open>A pass of the loop.  The counter is unsigned here; \<open>fwrite\<close> returns no negative number, so that no failure ends the loop.  A block
  written to the file is a \<open>Send\<close> of the log.\<close>

definition recorder_poll :: "pass_io \<Rightarrow> ring \<Rightarrow> ring pass" where
  "recorder_poll io s = send_half ring_4mb (uint (io_cntr io)) (io\<lparr>io_ok := True\<rparr>) s"

definition recorder_rest :: "pass_io \<Rightarrow> ring \<Rightarrow> ring" where
  "recorder_rest io s =
    (let position = uint (io_cntr io)
     in if limit s > 0 \<and> position < limit s \<or> limit s = 0 \<and> position > 32 * 1024
        then emit [Send (ram_slice (io_ram io) (half_offset ring_4mb s) (nat (position * 128) - half_offset ring_4mb s))] s
        else s)"

text \<open>\<open>ios\<close> are the passes until the time is over or the program is interrupted, \<open>io\<close> is what is read after it.\<close>

definition recorder :: "u32 \<Rightarrow> int \<Rightarrow> pass_io list \<Rightarrow> pass_io \<Rightarrow> ring \<Rightarrow> ring" where
  "recorder addr r ios io s =
    (let s = passes recorder_poll ios (recorder_setup addr r s);
         s = clr8 0 1 s;
         s = recorder_rest io s
     in clr8 0 2 s)"

section \<open>dac_player: dac-player.c\<close>

record player = dev +
  dac :: "u64 list"

definition player_args :: "string list \<Rightarrow> (int \<times> int) option" where
  "player_args args =
    (if length args \<noteq> 3 then None
     else case number_arg 16 16384 (args ! 0) of None \<Rightarrow> None
       | Some r \<Rightarrow> (case number_arg 0 long_max (args ! 1) of None \<Rightarrow> None | Some skip \<Rightarrow> Some (r, skip)))"

definition of_le64 :: "u8 list \<Rightarrow> u64" where
  "of_le64 b = ucast (of_le32 (take 4 b)) OR push_bit 32 (ucast (of_le32 (take 4 (drop 4 b))))"

definition block_words :: "u8 list \<Rightarrow> u64 list" where
  "block_words block = map (\<lambda>i. of_le64 (take 8 (drop (8 * i) block))) [0..<length block div 8]"

text \<open>The wait for the FIFO; \<open>t\<close> counts the readings of the counter.\<close>

partial_function (option) player_wait :: "(nat \<Rightarrow> u32) \<Rightarrow> nat \<Rightarrow> nat option" where
  "player_wait cntr t = (if cntr t > 16384 then player_wait cntr (t + 1) else Some (t + 1))"

text \<open>\<open>n\<close> rounds until the program is interrupted.\<close>

fun player_loop :: "(nat \<Rightarrow> u32) \<Rightarrow> nat \<Rightarrow> nat \<Rightarrow> u8 list \<Rightarrow> player \<Rightarrow> player option" where
  "player_loop cntr 0 t bytes s = Some s"
| "player_loop cntr (Suc n) t bytes s =
    (if bytes = [] then Some s
     else do { t \<leftarrow> player_wait cntr t;
               player_loop cntr n t (drop 65536 bytes) (s\<lparr>dac := dac s @ block_words (take 65536 bytes)\<rparr>) })"

definition dac_player :: "(nat \<Rightarrow> u32) \<Rightarrow> nat \<Rightarrow> int \<Rightarrow> int \<Rightarrow> u8 list \<Rightarrow> player \<Rightarrow> player option" where
  "dac_player cntr n r skip file s =
    player_loop cntr n 0 (drop (nat (skip * 4)) file) (put16 10 (word_of_int (r div 2)) s)"

section \<open>adc_recorder: adc-recorder.c\<close>

definition pad5 :: "string \<Rightarrow> string" where
  "pad5 s = replicate (5 - length s) CHR '' '' @ s"

definition sample_line :: "u16 \<Rightarrow> u16 \<Rightarrow> string" where
  "sample_line a b = pad5 (print_d (sint a)) @ '' '' @ pad5 (print_d (sint b)) @ [CHR 0x0A]"

definition adc_recorder_setup :: "u32 \<Rightarrow> 'a dev_scheme \<Rightarrow> 'a dev_scheme" where
  "adc_recorder_setup addr s =
    (let s = put32 4 addr s; s = put32 8 (1024 * 1024 - 1) s;
         s = set8 0 4 (clr8 0 4 s); s = set8 0 1 (clr8 0 1 s)
     in set8 0 2 (clr8 0 2 s))"

definition adc_recorder :: "u32 \<Rightarrow> (nat \<Rightarrow> u16) \<Rightarrow> dev \<Rightarrow> dev \<times> string list" where
  "adc_recorder addr ram s =
    (adc_recorder_setup addr s, map (\<lambda>i. sample_line (ram (2 * i)) (ram (2 * i + 1))) [0..<1024 * 1024])"

section \<open>adc-recorder-trigger.c\<close>

definition trigger_setup :: "u32 \<Rightarrow> 'a dev_scheme \<Rightarrow> 'a dev_scheme" where
  "trigger_setup addr s =
    (let s = put32 4 addr s; s = set8 0 1 (clr8 0 1 s);
         s = put16 2 0 s; s = put16 8 1 s; s = put16 10 3 s;
         s = put32 12 (1024 - 1) s; s = put32 16 (1024 * 1024 - 1) s; s = put16 20 5 s;
         s = clr8 0 2 (set8 0 2 s)
     in put16 2 1 s)"

definition trigger_start :: "u32 \<Rightarrow> u32" where
  "trigger_start status = (drop_bit 1 status - 1024) AND 0x007FFFC0"

definition trigger_offset :: "u32 \<Rightarrow> nat \<Rightarrow> u32" where
  "trigger_offset start i = ((start + of_nat i) AND 0x007FFFFF) * 4"

text \<open>\<open>sts\<close> are the successive readings of the status, \<open>ram\<close> the 16-bit word at an offset in bytes.\<close>

definition trigger_recorder :: "u32 \<Rightarrow> (nat \<Rightarrow> u32) \<Rightarrow> (nat \<Rightarrow> u16) \<Rightarrow> dev \<Rightarrow> (dev \<times> string list) option" where
  "trigger_recorder addr sts ram s =
    do { t \<leftarrow> await_clear (\<lambda>t. bit (sts t) 0) 0;
         let start = trigger_start (sts (t + 1));
         Some (trigger_setup addr s,
           map (\<lambda>i. sample_line (ram (unat (trigger_offset start i))) (ram (unat (trigger_offset start i) + 2))) [0..<1024 * 1024]) }"

end
