(* ===== verification/RecorderProps.thy ===== *)
theory RecorderProps imports Recorders RingProps begin

text \<open>
  What the recorder of dac_player writes, what its player plays, and the window of the triggered recorder.
\<close>

section \<open>The recorder\<close>

lemma counter_sign: "unat (c :: u32) < 65536 \<Longrightarrow> sint c = uint c"
  using sint_counter [of "unat c"] by simp

interpretation recorder: ring_loop recorder_poll "\<lambda>_. False"
proof unfold_locales
  fix io :: pass_io and s :: ring
  assume "call_ok io"
  then have "recorder_poll io s = poll_ring io s" by (simp add: recorder_poll_def poll_ring_def send_half_def call_ok_def counter_sign)
  then show "\<exists>t. recorder_poll io s = poll_ring io t \<and> limit t = limit s \<and> sent_bytes (log t) = sent_bytes (log s)" by blast
qed simp

text \<open>From one reading of the counter to the next the FPGA writes at most an eighth of the ring.\<close>

definition recorder_hw :: "(nat \<Rightarrow> pass_io) \<Rightarrow> (nat \<Rightarrow> nat) \<Rightarrow> (nat \<Rightarrow> u8) \<Rightarrow> bool" where
  "recorder_hw io w d \<longleftrightarrow> ring_hw (\<lambda>_. False) io w d \<and> w 0 \<le> 8192 \<and> (\<forall>i. w (Suc i) \<le> w i + 8192)"

lemma recorder_step:
  assumes "call_ok io" and "io_cntr io = of_nat (v mod 65536)"
  shows "recorder_poll io s = Next (if half_ready ring_4mb (int (v mod 65536)) s
    then emit [Send (ram_slice (io_ram io) (half_offset ring_4mb s) 4194304)] (flip_limit ring_4mb s) else s)"
proof -
  have "uint (io_cntr io) = int (v mod 65536)" using counter_sign [of "io_cntr io"] sint_counter [of v] assms by (simp add: call_ok_def)
  then show ?thesis by (simp add: recorder_poll_def send_half_def Let_def ring_4mb_def)
qed

lemma recorder_next: "\<exists>t. recorder_poll io s = Next t"
  by (simp add: recorder_poll_def send_half_def Let_def)

lemma recorder_passes_append: "passes recorder_poll (xs @ ys) s = passes recorder_poll ys (passes recorder_poll xs s)"
proof (induction xs arbitrary: s)
  case (Cons x xs)
  then show ?case using recorder_next [of x s] by auto
qed simp

text \<open>Nothing is written while the position is at most 2048.\<close>

lemma recorder_waits:
  assumes "recorder_hw io w d" and "limit s = 2048" and "\<forall>i < k. w i \<le> 2048"
  shows "passes recorder_poll (map io [0..<k]) s = s"
  using assms(3)
proof (induction k)
  case (Suc k)
  have "call_ok (io k)" "io_cntr (io k) = of_nat (w k mod 65536)" using assms(1) by (simp_all add: recorder_hw_def ring_hw_def)
  then have "recorder_poll (io k) s = Next s" 
    using recorder_step [of "io k" "w k" s] Suc.prems assms(2) mod_less_eq_dividend [of "w k" 65536] le_trans [of "w k mod 65536" "w k" 2048]
    by (simp add: half_ready_def)
  then show ?case using Suc by (simp add: recorder_passes_append)
qed simp

text \<open>Then two halves are written at once, and the ring is read from its beginning.\<close>

lemma recorder_starts:
  assumes hw: "recorder_hw io w d" and lim: "limit s = 2048" and below: "\<forall>i < j. w i \<le> 2048" and "2048 < w j"
  shows "\<exists>junk s'. passes recorder_poll (map io [0..<j + 2]) s = s' \<and> length junk = 8388608 \<and> sent_bytes (log s') = sent_bytes (log s) @ junk \<and>
    limit s' = 32768 \<and> w (Suc j) \<le> 32768"
proof -
  have step: "w (Suc i) \<le> w i + 8192" and w0: "w 0 \<le> 8192" for i using hw by (simp_all add: recorder_hw_def)
  have wj: "w j \<le> 10240"
  proof (cases j)
    case (Suc i)
    then show ?thesis using below step [of i] by auto
  qed (use w0 in simp)
  then have wj1: "w (Suc j) \<le> 18432" using step [of j] by simp
  have io: "call_ok (io i)" "io_cntr (io i) = of_nat (w i mod 65536)" for i using hw by (simp_all add: recorder_hw_def ring_hw_def)
  define a where "a = ram_slice (io_ram (io j)) 0 4194304"
  define b where "b = ram_slice (io_ram (io (Suc j))) 4194304 4194304"
  have len: "length a = 4194304" "length b = 4194304" unfolding a_def b_def ram_slice_def length_map length_upt by simp_all
  define t where "t = emit [Send a] (s\<lparr>limit := 0\<rparr>)"
  define u where "u = emit [Send b] (t\<lparr>limit := 32768\<rparr>)"
  have t: "recorder_poll (io j) s = Next t"
    using recorder_step [OF io, of j s] assms(4) wj lim by (simp add: half_ready_def half_offset_def flip_limit_def t_def a_def)
  have tlim: "limit t = 0" by (simp add: t_def emit_def)
  have u: "recorder_poll (io (Suc j)) t = Next u"
    using recorder_step [OF io, of "Suc j" t] wj1 tlim by (simp add: half_ready_def half_offset_def flip_limit_def ring_4mb_def u_def b_def)
  have "[0..<j + 2] = [0..<j] @ [j, Suc j]" by (simp add: upt_conv_Cons upt_add_eq_append [of 0 j 2, simplified])
  then have run: "passes recorder_poll (map io [0..<j + 2]) s = u"
    using recorder_waits [OF hw lim below] t u by (simp add: recorder_passes_append)
  have "sent_bytes (log u) = sent_bytes (log s) @ a @ b" by (simp add: u_def t_def emit_def)
  moreover have "length (a @ b) = 8388608" by (simp add: len)
  moreover have "limit u = 32768" by (simp add: u_def emit_def)
  ultimately show ?thesis using run wj1 by (intro exI conjI) auto
qed

text \<open>Where the writer is within the half that is waited for, \<open>T\<close> being its position and \<open>n\<close> the halves that have been written.\<close>

lemma position_odd:
  fixes n T :: nat
  assumes "odd n" and "n * 32768 \<le> T" and "T < (n + 1) * 32768"
  shows "T mod 65536 = T - n * 32768 + 32768"
proof -
  have ev: "even (n - 1)" "0 < n" using assms(1) by (auto elim: oddE)
  have "(n - 1) * 32768 + 32768 = n * 32768" using ev(2) by (cases n) simp_all
  then show ?thesis using position_even [OF ev(1), of T] assms(2,3) by simp
qed

lemma rest_of_half:
  fixes n T :: nat
  assumes n: "n * 32768 \<le> T" "T \<le> n * 32768 + 40960" and inside: "if even n then T mod 65536 < 32768 else 32768 < T mod 65536"
  shows "T < (n + 1) * 32768" and "128 * (T mod 65536) - (if even n then 0 else 4194304) = 128 * T - n * 4194304"
proof -
  show less: "T < (n + 1) * 32768"
  proof (cases "even n")
    case True
    then show ?thesis using position_even [OF True n(1)] n(2) inside by simp
  next
    case False
    show ?thesis
    proof (rule ccontr)
      assume "\<not> T < (n + 1) * 32768"
      then have "T mod 65536 = T - (n + 1) * 32768" using position_even [of "n + 1" T] n(2) False by simp
      then show False using inside False n(2) by simp
    qed
  qed
  show "128 * (T mod 65536) - (if even n then 0 else 4194304) = 128 * T - n * 4194304"
    using position_even [OF _ n(1)] position_odd [OF _ n(1) less] n less by auto
qed

lemma half_full:
  fixes n T :: nat
  assumes n: "n * 32768 \<le> T" "T \<le> n * 32768 + 40960" and outside: "\<not> (if even n then T mod 65536 < 32768 else 32768 < T mod 65536)"
  shows "T = n * 32768 \<or> (n + 1) * 32768 \<le> T"
  using assms position_even [of n T] position_odd [of n T] by (cases "T < (n + 1) * 32768") (auto split: if_splits)

text \<open>The end: what is left is written if the position is still in the half that is waited for.\<close>

lemma recorder_rest_sent:
  assumes hw: "ring_hw (\<lambda>_. False) io w d" and up: "caught_up d s0 v n s" and "v \<le> w k" and "w k \<le> v + 8192" and "w (Suc k) \<le> w k + 8192"
  shows "\<exists>m. sent_bytes (log (recorder_rest (io k) s)) = sent_bytes (log s0) @ map d [0..<m] \<and>
    (m = 128 * w k \<or> m + 4194304 \<le> 128 * w k \<and> 128 * w k \<le> m + 5242880)"
proof -
  let ?T = "w k" and ?half = "if even n then 0 else 4194304 :: nat"
  have io: "call_ok (io k)" "io_cntr (io k) = of_nat (?T mod 65536)" using hw by (simp_all add: ring_hw_def)
  have pos: "uint (io_cntr (io k)) = int (?T mod 65536)" using counter_sign [of "io_cntr (io k)"] sint_counter [of ?T] io by (simp add: call_ok_def)
  have sent: "sent_bytes (log s) = sent_bytes (log s0) @ map d [0..<n * 4194304]" and lim: "limit s = (if even n then 32768 else 0)"
    and n: "n * 32768 \<le> ?T" "?T \<le> n * 32768 + 40960" and v: "v \<le> (n + 1) * 32768"
    using up assms(3,4) by (simp_all add: caught_up_def)
  have off: "half_offset ring_4mb s = ?half" by (simp add: half_offset_def lim ring_4mb_def)
  have slice: "ram_slice (io_ram (io k)) ?half len = map d [n * 4194304..<n * 4194304 + len]" if "len \<le> 4194304" "n * 4194304 + len \<le> 128 * ?T" for len
  proof (rule ring_slice_part [OF that(1)])
    fix a assume "n * 4194304 \<le> a" "a < n * 4194304 + len"
    moreover have "128 * w (Suc k) \<le> n * 4194304 + 8388608" using n(2) assms(5) by simp
    ultimately have "a < 128 * ?T" "128 * w (Suc k) \<le> a + 8388608" using that(2) by simp_all
    then show "io_ram (io k) (a mod 8388608) = d a" using hw by (simp add: ring_hw_def)
  qed
  let ?p = "?T mod 65536"
  show ?thesis
  proof (cases "if even n then ?p < 32768 else 32768 < ?p")
    case writing: True
    define len where "len = 128 * ?T - n * 4194304"
    have part: "128 * ?p - ?half = len \<and> ?T < (n + 1) * 32768" using rest_of_half [OF n writing] by (simp add: len_def)
    have "n * 4194304 \<le> 128 * ?T" "128 * ?T < n * 4194304 + 4194304" using part n(1) by simp_all
    then have len: "len \<le> 4194304" "n * 4194304 + len = 128 * ?T" by (simp_all add: len_def)
    have cond: "limit s > 0 \<and> int ?p < limit s \<or> limit s = 0 \<and> int ?p > 32 * 1024" using writing by (auto simp: lim)
    have "nat (int ?p * 128) = 128 * ?p" by simp
    then have "recorder_rest (io k) s = emit [Send (ram_slice (io_ram (io k)) ?half len)] s"
      unfolding recorder_rest_def pos Let_def off using part cond by simp
    then have "sent_bytes (log (recorder_rest (io k) s)) = sent_bytes (log s0) @ map d [0..<128 * ?T]"
      using slice [OF len(1)] len(2) sent map_upt_join [of "n * 4194304" "128 * ?T" d] by (simp add: emit_def)
    then show ?thesis by blast
  next
    case False
    then have "\<not> (limit s > 0 \<and> int ?p < limit s \<or> limit s = 0 \<and> int ?p > 32 * 1024)" by (auto simp: lim split: if_splits)
    then have same: "recorder_rest (io k) s = s" unfolding recorder_rest_def pos Let_def by (rule if_not_P)
    have "?T = n * 32768 \<or> (n + 1) * 32768 \<le> ?T" by (rule half_full [OF n False])
    then have "n * 4194304 = 128 * ?T \<or> n * 4194304 + 4194304 \<le> 128 * ?T \<and> 128 * ?T \<le> n * 4194304 + 5242880"
      using n(2) by auto
    then show ?thesis using same sent by (intro exI [of _ "n * 4194304"]) simp
  qed
qed


lemma recorder_setup_state: "limit (recorder_setup addr r s) = 2048" "sent_bytes (log (recorder_setup addr r s)) = sent_bytes (log s)"
  by (simp_all add: recorder_setup_def enter_reset_def leave_reset_def Let_def sent_writes)

text \<open>C38: if the FPGA writes at most an eighth of the ring between two readings of the counter, the file starts with 8 MB
  that are not the recording: the limit at the start makes the recorder write both halves of the ring before they
  have been filled.  What follows is the stream of samples from its beginning, without a gap, up to the
  end of the acquisition, except that the last 4 to 5 MB are missing if the writer crosses the end of a half after the last pass.\<close>

theorem recorder_file:
  assumes "recorder_hw io w d" and "Suc j < k" and "2048 < w j"
  shows "\<exists>junk m. sent_bytes (log (recorder addr r (map io [0..<k]) (io k) s)) = sent_bytes (log s) @ junk @ map d [0..<m] \<and>
    length junk = 8388608 \<and> (m = 128 * w k \<or> m + 4194304 \<le> 128 * w k \<and> 128 * w k \<le> m + 5242880)"
proof -
  define j0 where "j0 = (LEAST i. 2048 < w i)"
  have j0: "2048 < w j0" "j0 \<le> j" "\<forall>i < j0. w i \<le> 2048"
    using assms(3) by (auto simp: j0_def not_less [symmetric] intro: LeastI Least_le dest: not_less_Least)
  have hw: "ring_hw (\<lambda>_. False) io w d" and step: "w (Suc i) \<le> w i + 8192" for i using assms(1) by (simp_all add: recorder_hw_def)
  have last: "last_poll (\<lambda>_. False) io w (Suc i) = w i" for i by simp
  let ?s = "recorder_setup addr r s"
  obtain junk u where run: "passes recorder_poll (map io [0..<j0 + 2]) ?s = u" and junk: "length junk = 8388608"
    and u: "sent_bytes (log u) = sent_bytes (log s) @ junk" "limit u = 32768" "w (Suc j0) \<le> 32768"
    using recorder_starts [OF assms(1) recorder_setup_state(1) j0(3,1)] recorder_setup_state(2) by metis
  have "caught_up d u (last_poll (\<lambda>_. False) io w (j0 + 2)) 0 u" using u by (simp add: caught_up_def)
  from recorder.passes_catch_up_from [OF hw this, of k] assms(2) j0(2) obtain n where
    up: "caught_up d u (last_poll (\<lambda>_. False) io w k) n (passes recorder_poll (map io [j0 + 2..<k]) u)" by auto
  have split: "[0..<k] = [0..<j0 + 2] @ [j0 + 2..<k]" 
  proof -
    have "j0 + 2 + (k - (j0 + 2)) = k" using assms(2) j0(2) by simp
    then show ?thesis using upt_add_eq_append [of 0 "j0 + 2" "k - (j0 + 2)"] by (simp only: le0 simp_thms)
  qed
  obtain k' where k: "k = Suc k'" using assms(2) by (cases k) auto
  have "w k' \<le> w k" using hw unfolding ring_hw_def k by (metis last)
  let ?u = "passes recorder_poll (map io [j0 + 2..<k]) u"
  have "caught_up d u (last_poll (\<lambda>_. False) io w k) n (clr8 0 1 ?u)" using up by (simp add: caught_up_def sent_writes limit_writes)
  then obtain m where m: "sent_bytes (log (recorder_rest (io k) (clr8 0 1 ?u))) = sent_bytes (log u) @ map d [0..<m]"
      "m = 128 * w k \<or> m + 4194304 \<le> 128 * w k \<and> 128 * w k \<le> m + 5242880"
    using recorder_rest_sent [OF hw, of u _ n "clr8 0 1 ?u" k] step [of k'] step [of k] \<open>w k' \<le> w k\<close> unfolding k last by blast
  have "recorder addr r (map io [0..<k]) (io k) s = clr8 0 2 (recorder_rest (io k) (clr8 0 1 ?u))"
    unfolding recorder_def split map_append recorder_passes_append run by (simp only: Let_def)
  then have "sent_bytes (log (recorder addr r (map io [0..<k]) (io k) s)) = sent_bytes (log s) @ junk @ map d [0..<m]"
    using m(1) u(1) by (simp add: sent_writes)
  then show ?thesis using junk m(2) by blast
qed

text \<open>A writer that advances by 5000 units from pass to pass.\<close>

definition slow_io :: "nat \<Rightarrow> pass_io" where
  "slow_io i = \<lparr>io_size = Some 0, io_command = Some 0, io_cntr = of_nat (5000 * i mod 65536), io_ram = of_nat, io_ok = True\<rparr>"

theorem recorder_file_witness:
  "\<exists>junk. sent_bytes (log (recorder 0x1e000000 16 (map slow_io [0..<3]) (slow_io 3) \<lparr>cfg = (\<lambda>_. 0), log = [], limit = 0\<rparr>)) = junk @ map of_nat [0..<1920000] \<and>
    length junk = 8388608"
proof -
  have last: "last_poll (\<lambda>_. False) io w i = (if i = 0 then 0 else w (i - 1))" for io w i by (cases i) simp_all
  have "ring_hw (\<lambda>_. False) slow_io (\<lambda>i. 5000 * i) of_nat"
    unfolding ring_hw_def last by (auto simp: slow_io_def call_ok_def byte_counter unat_counter)
  then have "recorder_hw slow_io (\<lambda>i. 5000 * i) of_nat" by (simp add: recorder_hw_def)
  from recorder_file [OF this, of 1 3 "0x1e000000" 16 "\<lparr>cfg = (\<lambda>_. 0), log = [], limit = 0\<rparr>"] obtain junk m where
    out: "sent_bytes (log (recorder 0x1e000000 16 (map slow_io [0..<3]) (slow_io 3) \<lparr>cfg = (\<lambda>_. 0), log = [], limit = 0\<rparr>)) = [] @ junk @ map of_nat [0..<m]"
    and len: "length junk = 8388608" and m: "m = 128 * (5000 * 3) \<or> m + 4194304 \<le> 128 * (5000 * 3) \<and> 128 * (5000 * 3) \<le> m + 5242880"
    by (auto simp del: upt_rec_numeral)
  have "m = 1920000" using m by simp
  with out len show ?thesis by (intro exI [of _ junk]) (simp only: append_Nil simp_thms)
qed

section \<open>The player\<close>

lemma block_words_append:
  assumes "8 dvd length a"
  shows "block_words (a @ b) = block_words a @ block_words b"
proof -
  obtain k where k: "length a = 8 * k" using assms by (elim dvdE)
  have "take 8 (drop (8 * i) (a @ b)) = (if i < k then take 8 (drop (8 * i) a) else take 8 (drop (8 * (i - k)) b))" for i
    using k by (auto simp: diff_mult_distrib2)
  then show ?thesis
    using k by (intro nth_equalityI) (auto simp: block_words_def nth_append)
qed

lemma player_wait_returns:
  assumes "\<forall>t. \<exists>u \<ge> t. cntr u \<le> 16384"
  shows "\<exists>t'. player_wait cntr t = Some t'"
proof -
  obtain u where "t \<le> u" "cntr u \<le> 16384" using assms by blast
  then show ?thesis
  proof (induction "u - t" arbitrary: t)
    case 0
    then show ?case by (subst player_wait.simps) (auto dest: leD)
  next
    case (Suc n)
    then show ?case by (subst player_wait.simps) (simp add: Suc_leI)
  qed
qed

lemma player_loop_words:
  assumes "\<forall>t. \<exists>u \<ge> t. cntr u \<le> 16384"
  shows "\<exists>s'. player_loop cntr n t bytes s = Some s' \<and> dac s' = dac s @ block_words (take (65536 * n) bytes) \<and> cfg s' = cfg s"
proof (induction n arbitrary: t bytes s)
  case 0
  then show ?case by (simp add: block_words_def)
next
  case (Suc n)
  show ?case
  proof (cases "bytes = []")
    case True
    then show ?thesis by (simp add: block_words_def)
  next
    case False
    obtain t' where t: "player_wait cntr t = Some t'" using player_wait_returns [OF assms] by blast
    have split: "take (65536 * Suc n) bytes = take 65536 bytes @ take (65536 * n) (drop 65536 bytes)" by (simp add: take_add)
    have words: "block_words (take (65536 * Suc n) bytes) = block_words (take 65536 bytes) @ block_words (take (65536 * n) (drop 65536 bytes))"
    proof (cases "65536 \<le> length bytes")
      case True
      then show ?thesis unfolding split by (intro block_words_append) simp
    qed (simp add: split block_words_def)
    show ?thesis
      using Suc.IH [of t' "drop 65536 bytes" "s\<lparr>dac := dac s @ block_words (take 65536 bytes)\<rparr>"] False t unfolding words by simp
  qed
qed

text \<open>As long as the FIFO drains, the player ends each of its rounds, and after \<open>n\<close> of them it has written to the converter
  the 64-bit words of the file from the offset asked for, in order, up to \<open>n\<close> blocks of 64 kB; up to seven bytes at the end of
  the file are dropped.\<close>

theorem player_words:
  assumes "player_args args = Some (r, skip)" and "\<forall>t. \<exists>u \<ge> t. cntr u \<le> 16384"
  shows "\<exists>s'. dac_player cntr n r skip file s = Some s' \<and> rd16 (cfg s') 10 = word_of_int (r div 2) \<and>
    dac s' = dac s @ block_words (take (65536 * n) (drop (nat (4 * skip)) file))"
proof -
  have "dac (put16 10 (word_of_int (r div 2)) s) = dac s" by (simp add: put16_def)
  then show ?thesis
    using player_loop_words [OF assms(2), of n 0 "drop (nat (skip * 4)) file" "put16 10 (word_of_int (r div 2)) s"]
    by (auto simp: dac_player_def mult.commute reg_simps)
qed

theorem player_words_witness:
  "\<exists>s'. dac_player (\<lambda>t. if t = 0 then 20000 else 7) 3 16 1 [1, 2, 3, 4, 5, 6, 7, 8, 9, 10, 11, 12, 13] \<lparr>cfg = (\<lambda>_. 0), log = [], dac = []\<rparr> = Some s' \<and>
    dac s' = [0x0C0B0A0908070605]"
proof -
  have args: "player_args [''16'', ''1'', ''file''] = Some (16, 1)" by code_simp
  have drains: "\<forall>t :: nat. \<exists>u \<ge> t. (if u = 0 then 20000 else 7 :: u32) \<le> 16384"
  proof
    fix t :: nat
    show "\<exists>u \<ge> t. (if u = 0 then 20000 else 7 :: u32) \<le> 16384" by (rule exI [of _ "Suc t"]) simp
  qed
  have words: "block_words [5, 6, 7, 8, 9, 10, 11, 12, 13] = [0x0C0B0A0908070605]" by code_simp
  from player_words [OF args drains, of 3 "[1, 2, 3, 4, 5, 6, 7, 8, 9, 10, 11, 12, 13]" "\<lparr>cfg = (\<lambda>_. 0), log = [], dac = []\<rparr>"]
  show ?thesis by (auto simp: words)
qed

section \<open>The triggered recorder\<close>

text \<open>The sample at the trigger is between line 1024 and line 1087.\<close>

lemma trigger_window:
  "\<exists>i < 64. trigger_offset (trigger_start status) (1024 + i) = (drop_bit 1 status AND 0x007FFFFF) * 4"
proof -
  define x where "x = drop_bit 1 status - 1024"
  have mask: "y AND 0x007FFFFF = take_bit 23 y" for y :: u32
    by (simp add: take_bit_eq_mask mask_eq_exp_minus_1)
  have zero: "(x AND 0x007FFFC0) AND (x AND 63) = 0" and all: "(x AND 0x007FFFC0) OR (x AND 63) = x AND 0x007FFFFF"
    by (rule word32_eqI; simp add: word_bits)+
  have sum: "(x AND 0x007FFFC0) + (x AND 63) = take_bit 23 x"
    using disjunctive_add_eq_or [OF zero] all mask [of x] by simp
  define i where "i = unat (x AND 63)"
  have "i < 2 ^ 6" unfolding i_def by (rule and_mask_less) (simp add: mask_eq_exp_minus_1)
  moreover have "trigger_offset (trigger_start status) (1024 + i) = (drop_bit 1 status AND 0x007FFFFF) * 4"
  proof -
    have "trigger_start status = x AND 0x007FFFC0" by (simp only: trigger_start_def x_def)
    then have "trigger_start status + of_nat (1024 + i) = take_bit 23 x + 1024"
      by (simp add: i_def sum [symmetric] ac_simps)
    moreover have "take_bit 23 (take_bit 23 x + 1024) = take_bit 23 (drop_bit 1 status)"
    proof -
      have low: "uint (take_bit 23 (y + 1024)) = take_bit 23 (uint y + 1024)" for y :: u32
        by (simp add: unsigned_take_bit_eq uint_word_arith_bintrs)
      have "uint (take_bit 23 (take_bit 23 x + 1024)) = uint (take_bit 23 (x + 1024))"
        using take_bit_add [of 23 "take_bit 23 (uint x)" 1024] take_bit_add [of 23 "uint x" 1024]
        unfolding low by (simp add: unsigned_take_bit_eq)
      then have "take_bit 23 (take_bit 23 x + 1024) = take_bit 23 (x + 1024)" by (rule word_uint_eqI)
      then show ?thesis by (simp only: x_def diff_add_cancel)
    qed
    ultimately show ?thesis by (simp only: trigger_offset_def mask)
  qed
  ultimately show ?thesis by auto
qed

end
