(* ===== verification/Capture.thy ===== *)
theory Capture imports SdrReceiver Loops begin

text \<open>
  write-c2-files.c in its four versions (WSPR and FT8, two boards), which records all bands of a configuration file
  at once, and transmit-wspr-message.c (two boards).  The configuration is what libconfig has read:
  \<open>None\<close> is a setting that is missing.
\<close>

section \<open>write-c2-files.c\<close>

record c2_variant =
  v_ch :: nat
  v_len :: nat
  v_until :: nat
  v_mhz :: dbl
  v_is_wspr :: bool

definition c2_wspr :: c2_variant where
  "c2_wspr = \<lparr>v_ch = 8, v_len = 45000, v_until = 42000, v_mhz = 125, v_is_wspr = True\<rparr>"

definition c2_wspr_122_88 :: c2_variant where
  "c2_wspr_122_88 = \<lparr>v_ch = 16, v_len = 45000, v_until = 42000, v_mhz = rnd (12288 / 100), v_is_wspr = True\<rparr>"

definition c2_ft8 :: c2_variant where
  "c2_ft8 = \<lparr>v_ch = 8, v_len = 240000, v_until = 236000, v_mhz = 125, v_is_wspr = False\<rparr>"

definition c2_ft8_122_88 :: c2_variant where
  "c2_ft8_122_88 = \<lparr>v_ch = 16, v_len = 240000, v_until = 236000, v_mhz = rnd (12288 / 100), v_is_wspr = False\<rparr>"

record c2_config =
  k_corr :: "dbl option"
  k_bands :: "(dbl option \<times> int option) list option"

definition c2_band :: "dbl option \<times> int option \<Rightarrow> (dbl \<times> int) option" where
  "c2_band b =
    (case b of (Some freq, Some chan) \<Rightarrow> if chan < 1 \<or> chan > 2 then None else Some (freq, chan)
     | _ \<Rightarrow> None)"

fun c2_bands :: "(dbl option \<times> int option) list \<Rightarrow> (dbl \<times> int) list option" where
  "c2_bands [] = Some []"
| "c2_bands (b # bs) = do { x \<leftarrow> c2_band b; xs \<leftarrow> c2_bands bs; Some (x # xs) }"

text \<open>Correction and bands.\<close>

definition c2_settings :: "c2_variant \<Rightarrow> c2_config \<Rightarrow> (dbl \<times> (dbl \<times> int) list) option" where
  "c2_settings v k =
    do { corr \<leftarrow> k_corr k;
         if corr < -100 \<or> corr > 100 then None
         else do { bs \<leftarrow> k_bands k;
                   if length bs > v_ch v then None else if length bs < 1 then None
                   else do { bands \<leftarrow> c2_bands bs; Some (corr, bands) } } }"

definition c2_select :: "(dbl \<times> int) list \<Rightarrow> u16" where
  "c2_select bands = foldl (\<lambda>value (i, (freq, chan)). value OR push_bit i (word_of_int (chan - 1))) 0 (List.enumerate 0 bands)"

definition corrected_mhz :: "dbl \<Rightarrow> dbl \<Rightarrow> dbl" where
  "corrected_mhz corr freq = fmul (fadd 1 (fmul (rnd (1 / 1000000)) corr)) freq"

text \<open>The frequencies that the file does not give are 0.\<close>

definition c2_increment :: "(int \<Rightarrow> u32) \<Rightarrow> c2_variant \<Rightarrow> dbl \<Rightarrow> (dbl \<times> int) list \<Rightarrow> nat \<Rightarrow> u32" where
  "c2_increment undef v corr bands i =
    (let freq = (if i < length bands then fst (bands ! i) else 0)
     in to_u32 undef (fadd (fmul (fdiv (corrected_mhz corr freq) (v_mhz v)) 1073741824) (1/2)))"

definition c2_setup :: "(int \<Rightarrow> u32) \<Rightarrow> c2_variant \<Rightarrow> dbl \<Rightarrow> (dbl \<times> int) list \<Rightarrow> 'a dev_scheme \<Rightarrow> 'a dev_scheme" where
  "c2_setup undef v corr bands s =
    (let s = fold (\<lambda>i s. put32 (8 + i * 4) (c2_increment undef v corr bands i) s) [0..<v_ch v] s;
         s = (if v_ch v = 8 then put8 4 (ucast (c2_select bands)) s else put16 4 (c2_select bands) s)
     in set8 0 1 (clr8 0 1 s))"

text \<open>A block of 250 samples of every channel; \<open>w\<close> are the words that come out of the FIFO, of which \<open>pos\<close> have been read.\<close>

definition c2_row :: "c2_variant \<Rightarrow> (nat \<Rightarrow> u64) \<Rightarrow> nat \<Rightarrow> nat \<Rightarrow> u64 list \<Rightarrow> u64 list" where
  "c2_row v w pos t buffer = fold (\<lambda>j b. b[j * v_len v + t := w (pos + j)]) [0..<v_ch v] buffer"

definition c2_block :: "c2_variant \<Rightarrow> (nat \<Rightarrow> u64) \<Rightarrow> nat \<Rightarrow> nat \<Rightarrow> u64 list \<Rightarrow> u64 list" where
  "c2_block v w pos offset buffer = fold (\<lambda>i b. c2_row v w (pos + i * v_ch v) (offset + i) b) [0..<250] buffer"

text \<open>\<open>t\<close> counts the readings of the counter.\<close>

function c2_loop :: "c2_variant \<Rightarrow> (nat \<Rightarrow> u16) \<Rightarrow> (nat \<Rightarrow> u64) \<Rightarrow> nat \<Rightarrow> nat \<Rightarrow> nat \<Rightarrow> u64 list \<Rightarrow> u64 list option" where
  "c2_loop v cntr w offset t pos buffer =
    (if offset < v_until v
     then do { t \<leftarrow> await cntr 500 t;
               c2_loop v cntr w (offset + 250) (t + 1) (pos + 250 * v_ch v) (c2_block v w pos offset buffer) }
     else Some buffer)"
  by pat_completeness auto
termination by (relation "measure (\<lambda>(v, cntr, w, offset, t, pos, buffer). v_until v - offset)") auto

declare c2_loop.simps [simp del]

text \<open>A file: the parts of its name, the head of the WSPR format, the dial frequency and the samples.  The conversion of the frequency to
  \<open>uint32_t\<close> truncates.\<close>

record c2_file =
  f_index :: nat
  f_hz :: u32
  f_chan :: int
  f_head :: "(string \<times> u32) option"
  f_dial :: dbl
  f_data :: "u64 list"

definition dial_freq :: "c2_variant \<Rightarrow> dbl \<Rightarrow> dbl" where
  "dial_freq v freq = (if v_is_wspr v then fsub freq (rnd (15 / 10000)) else fmul freq 1000000)"

definition dial_hz :: "(int \<Rightarrow> u32) \<Rightarrow> c2_variant \<Rightarrow> dbl \<Rightarrow> u32" where
  "dial_hz undef v dial =
    (let x = (if v_is_wspr v then fmul dial 1000000 else dial)
     in if 0 \<le> x then to_u32 undef x else if - 1 < x then 0 else undef \<lceil>x\<rceil>)"

definition c2_file_of :: "(int \<Rightarrow> u32) \<Rightarrow> c2_variant \<Rightarrow> (dbl \<times> int) list \<Rightarrow> u64 list \<Rightarrow> nat \<Rightarrow> c2_file" where
  "c2_file_of undef v bands buffer i =
    (let (freq, chan) = bands ! i; dial = dial_freq v freq
     in \<lparr>f_index = i, f_hz = dial_hz undef v dial, f_chan = chan,
         f_head = (if v_is_wspr v then Some (''000000_0000.c2'', 2) else None), f_dial = dial,
         f_data = take (v_len v) (drop (i * v_len v) buffer)\<rparr>)"

text \<open>What is read from outside: the counter, the FIFO, and which files can be opened.  The result is \<open>None\<close> for a wrong configuration, or
  if the program never ends; the files that are written otherwise.\<close>

record c2_io =
  c_cntr :: "nat \<Rightarrow> u16"
  c_fifo :: "nat \<Rightarrow> u64"
  c_opens :: "nat \<Rightarrow> bool"

definition c2_main :: "(int \<Rightarrow> u32) \<Rightarrow> c2_variant \<Rightarrow> c2_config \<Rightarrow> c2_io \<Rightarrow> dev \<Rightarrow> (dev \<times> c2_file list) option" where
  "c2_main undef v k io s =
    do { (corr, bands) \<leftarrow> c2_settings v k;
         buffer \<leftarrow> c2_loop v (c_cntr io) (c_fifo io) 0 0 0 (replicate (v_len v * v_ch v) 0);
         Some (c2_setup undef v corr bands s,
           map (c2_file_of undef v bands buffer) (takeWhile (c_opens io) [0..<length bands])) }"

section \<open>transmit-wspr-message.c\<close>

record wspr_variant =
  w_coef :: nat
  w_hz :: dbl

definition wspr_125 :: wspr_variant where "wspr_125 = \<lparr>w_coef = 40, w_hz = 125000000\<rparr>"
definition wspr_122_88 :: wspr_variant where "wspr_122_88 = \<lparr>w_coef = 72, w_hz = 122880000\<rparr>"

record wspr_config =
  m_freq :: "dbl option"
  m_corr :: "dbl option"
  m_chan :: "int option"
  m_level :: "dbl option"
  m_message :: "string option"

record wspr_settings =
  t_freq :: dbl
  t_corr :: dbl
  t_chan :: int
  t_level :: dbl
  t_message :: string

definition wspr_settings_of :: "wspr_config \<Rightarrow> wspr_settings option" where
  "wspr_settings_of k =
    do { freq \<leftarrow> m_freq k;
         if freq < rnd (1 / 10) \<or> freq > 60 then None
         else do { corr \<leftarrow> m_corr k;
           if corr < -100 \<or> corr > 100 then None
           else do { chan \<leftarrow> m_chan k;
             if chan < 1 \<or> chan > 2 then None
             else do { level \<leftarrow> m_level k;
               if level < -90 \<or> level > 0 then None
               else do { message \<leftarrow> m_message k;
                 if length message > 22 then None
                 else Some \<lparr>t_freq = freq, t_corr = corr, t_chan = chan, t_level = level, t_message = message\<rparr> } } } } }"

text \<open>\<open>pow10 x\<close> stands for \<open>pow(10.0, x)\<close>.\<close>

definition wspr_level :: "(dbl \<Rightarrow> dbl) \<Rightarrow> dbl \<Rightarrow> u16" where
  "wspr_level pow10 level =
    (if level > -90 then word_of_int (dfloor (fadd (fmul 32766 (pow10 (fdiv level 20))) (1/2))) else 0)"

definition wspr_symbol :: "wspr_variant \<Rightarrow> dbl \<Rightarrow> dbl \<Rightarrow> nat \<Rightarrow> u32" where
  "wspr_symbol v freq corr symbol =
    (let dphi = fdiv (fadd (fmul freq 1000000) (fdiv (fmul (fsub (of_nat symbol) (3/2)) 375) 256)) (w_hz v)
     in word_of_int (dfloor (fadd (fmul (fmul (fadd 1 (fmul (rnd (1 / 1000000)) corr)) dphi) 1073741824) (1/2))))"

text \<open>\<open>symbols\<close> stands for \<open>get_wspr_channel_symbols\<close>, which makes 162 symbols from 0 to 3 of the message.\<close>

definition transmit_wspr :: "(dbl \<Rightarrow> dbl) \<Rightarrow> (string \<Rightarrow> nat list) \<Rightarrow> wspr_variant \<Rightarrow> wspr_config \<Rightarrow> dev \<Rightarrow> dev option" where
  "transmit_wspr pow10 symbols v k s =
    do { c \<leftarrow> wspr_settings_of k;
         let level = wspr_level pow10 (t_level c);
         let s = (if t_chan c = 1 then put16 (w_coef v + 2) 0 (put16 (w_coef v) level s)
                  else put16 (w_coef v + 2) level (put16 (w_coef v) 0 s));
         let s = set8 1 1 (clr8 1 1 s);
         Some (emit (map (\<lambda>x. Fifo (wspr_symbol v (t_freq c) (t_corr c) x)) (take 162 (symbols (t_message c)))) s) }"

end
