(* ===== verification/CaptureProps.thy ===== *)
theory CaptureProps imports Capture begin

text \<open>
  The files of write-c2-files: every band gets its own samples, and the inputs are selected as the configuration says.
\<close>

section \<open>The samples of all channels in one array\<close>

lemma slot_inj:
  fixes len :: nat
  assumes "t < len" and "t' < len"
  shows "j * len + t = j' * len + t' \<longleftrightarrow> j = j' \<and> t = t'"
proof
  assume eq: "j * len + t = j' * len + t'"
  have "(j * len + t) div len = j" "(j' * len + t') div len = j'" using assms by simp_all
  with eq have "j = j'" by simp
  with eq show "j = j' \<and> t = t'" by simp
qed simp

lemma slot_inside:
  fixes len :: nat
  shows "j < ch \<Longrightarrow> t < len \<Longrightarrow> j * len + t < len * ch"
proof -
  assume "j < ch" "t < len"
  then have "j * len + t < j * len + len" by simp
  also have "\<dots> = (j + 1) * len" by simp
  also have "\<dots> \<le> ch * len" using \<open>j < ch\<close> by (intro mult_right_mono) simp_all
  finally show ?thesis by (simp add: mult.commute)
qed

text \<open>The first \<open>n\<close> samples of every channel are there, and of channels below \<open>m\<close> one more.\<close>

definition filled :: "c2_variant \<Rightarrow> (nat \<Rightarrow> u64) \<Rightarrow> nat \<Rightarrow> nat \<Rightarrow> u64 list \<Rightarrow> bool" where
  "filled v w n m b \<longleftrightarrow> length b = v_len v * v_ch v \<and>
    (\<forall>j < v_ch v. \<forall>t < v_len v. b ! (j * v_len v + t) = (if t < n \<or> t = n \<and> j < m then w (t * v_ch v + j) else 0))"

lemma filled_row:
  assumes "filled v w n 0 b" and "n < v_len v"
  shows "filled v w (Suc n) 0 (c2_row v w (n * v_ch v) n b)"
proof -
  have "filled v w n m (fold (\<lambda>j b. b[j * v_len v + n := w (n * v_ch v + j)]) [0..<m] b)" if "m \<le> v_ch v" for m
    using that
  proof (induction m)
    case (Suc m)
    then show ?case
      using assms(2) slot_inside [of m "v_ch v" n "v_len v"]
      by (auto simp: filled_def nth_list_update slot_inj less_Suc_eq)
  qed (use assms in simp)
  then show ?thesis by (auto simp: c2_row_def filled_def less_Suc_eq)
qed

lemma filled_block:
  assumes "filled v w n 0 b" and "n + 250 \<le> v_len v"
  shows "filled v w (n + 250) 0 (c2_block v w (n * v_ch v) n b)"
proof -
  have "filled v w (n + m) 0 (fold (\<lambda>i b. c2_row v w (n * v_ch v + i * v_ch v) (n + i) b) [0..<m] b)" if "m \<le> 250" for m
    using that
  proof (induction m)
    case (Suc m)
    then show ?case
      using filled_row [of v w "n + m" "fold (\<lambda>i b. c2_row v w (n * v_ch v + i * v_ch v) (n + i) b) [0..<m] b"] assms(2)
      by (simp add: add_mult_distrib)
  qed (use assms in simp)
  then show ?thesis by (simp add: c2_block_def)
qed

lemma c2_loop_fills:
  assumes "\<forall>t. \<exists>u \<ge> t. 500 \<le> unat (cntr u)" and "250 dvd v_until v" and "v_until v \<le> v_len v"
    and "filled v w offset 0 b" and "250 dvd offset" and "offset \<le> v_until v"
  shows "\<exists>b'. c2_loop v cntr w offset t (offset * v_ch v) b = Some b' \<and> filled v w (v_until v) 0 b'"
  using assms(4-)
proof (induction "v_until v - offset" arbitrary: offset t b rule: less_induct)
  case less
  show ?case
  proof (cases "offset < v_until v")
    case True
    obtain u where "u \<ge> t" "500 \<le> unat (cntr u)" using assms(1) by blast
    then obtain t' where t': "await cntr 500 t = Some t'" using await_returns [of 500 cntr t "u - t"] by auto
    have "250 dvd v_until v - offset" using assms(2) less.prems(2) by (rule dvd_diff_nat)
    then have room: "offset + 250 \<le> v_until v" using True by (auto dest: dvd_imp_le)
    have "250 dvd offset + 250" using less.prems(2) by simp
    moreover have "v_until v - (offset + 250) < v_until v - offset" using True by simp
    moreover have "filled v w (offset + 250) 0 (c2_block v w (offset * v_ch v) offset b)"
      using filled_block [OF less.prems(1)] room assms(3) by simp
    ultimately obtain b' where "c2_loop v cntr w (offset + 250) (t' + 1) ((offset + 250) * v_ch v) (c2_block v w (offset * v_ch v) offset b) = Some b'"
      "filled v w (v_until v) 0 b'"
      using less.hyps [of "offset + 250" "c2_block v w (offset * v_ch v) offset b" "t' + 1"] room by blast
    then show ?thesis using True t' by (subst c2_loop.simps) (simp add: add_mult_distrib)
  next
    case False
    then show ?thesis using less.prems by (subst c2_loop.simps) auto
  qed
qed

lemma filled_channel:
  assumes "filled v w (v_until v) 0 b" and "i < v_ch v" and "v_until v \<le> v_len v"
  shows "take (v_len v) (drop (i * v_len v) b) = map (\<lambda>t. w (t * v_ch v + i)) [0..<v_until v] @ replicate (v_len v - v_until v) 0"
proof (rule nth_equalityI)
  have "i * v_len v + v_len v \<le> length b"
  proof -
    have "(i + 1) * v_len v \<le> v_ch v * v_len v" using assms(2) by (intro mult_right_mono) simp_all
    then show ?thesis using assms(1) by (simp add: filled_def mult.commute)
  qed
  then show len: "length (take (v_len v) (drop (i * v_len v) b)) = length (map (\<lambda>t. w (t * v_ch v + i)) [0..<v_until v] @ replicate (v_len v - v_until v) 0)"
    using assms(3) by simp
  fix t assume "t < length (take (v_len v) (drop (i * v_len v) b))"
  then have t: "t < v_len v" by simp
  then show "take (v_len v) (drop (i * v_len v) b) ! t = (map (\<lambda>t. w (t * v_ch v + i)) [0..<v_until v] @ replicate (v_len v - v_until v) 0) ! t"
    using assms \<open>i * v_len v + v_len v \<le> length b\<close> by (auto simp: filled_def nth_append)
qed

section \<open>The selection of the inputs\<close>

lemma c2_bands_chan: "c2_bands bs = Some bands \<Longrightarrow> length bands = length bs \<and> (\<forall>(freq, chan) \<in> set bands. chan = 1 \<or> chan = 2)"
  by (induction bs arbitrary: bands) (fastforce simp: c2_band_def split: prod.splits option.splits if_splits Option.bind_splits)+

lemma select_bits:
  assumes "\<forall>(freq, chan) \<in> set bands. chan = 1 \<or> chan = (2 :: int)" and "n + length bands \<le> 16"
  shows "bit (foldl (\<lambda>value (i, (freq, chan)). value OR push_bit i (word_of_int (chan - 1))) a (List.enumerate n bands) :: u16) k \<longleftrightarrow>
    bit a k \<or> n \<le> k \<and> k < n + length bands \<and> snd (bands ! (k - n)) = 2"
  using assms
proof (induction bands arbitrary: a n)
  case (Cons b bands)
  obtain freq chan where b: "b = (freq, chan)" by (cases b)
  have chan: "chan = 1 \<or> chan = 2" using Cons.prems b by auto
  have "bit (push_bit n (word_of_int (chan - 1)) :: u16) k \<longleftrightarrow> k = n \<and> chan = 2"
    using chan Cons.prems(2) by (auto simp: bit_push_bit_iff bit_1_iff)
  moreover have "k - n = Suc (k - Suc n)" if "Suc n \<le> k" using that by simp
  ultimately show ?case
    using Cons.IH [of "Suc n" "a OR push_bit n (word_of_int (chan - 1))"] Cons.prems b
    by (auto simp: bit_or_iff nth_Cons' not_less less_Suc_eq_le)
qed auto

definition c2_variants :: "c2_variant set" where
  "c2_variants = {c2_wspr, c2_wspr_122_88, c2_ft8, c2_ft8_122_88}"

lemma c2_variant_facts:
  "v \<in> c2_variants \<Longrightarrow> 250 dvd v_until v \<and> v_until v \<le> v_len v \<and> (v_ch v = 8 \<or> v_ch v = 16)"
  by (auto simp: c2_variants_def c2_wspr_def c2_wspr_122_88_def c2_ft8_def c2_ft8_122_88_def)

lemma c2_settings_bands:
  assumes "c2_settings v k = Some (corr, bands)"
  shows "1 \<le> length bands \<and> length bands \<le> v_ch v \<and> (\<forall>(freq, chan) \<in> set bands. chan = 1 \<or> chan = 2)"
proof -
  obtain bs where "length bs \<le> v_ch v" "bs \<noteq> []" "c2_bands bs = Some bands"
    using assms by (auto simp: c2_settings_def bind_eq_Some_conv not_less split: if_splits)
  then show ?thesis using c2_bands_chan [of bs bands] by (cases bs) auto
qed

lemma put_increments_keep: "cfg (fold (\<lambda>i s. put32 (8 + i * 4) (f i) s) is s) a = cfg s a \<or> 8 \<le> a"
proof (induction "is" arbitrary: s)
  case (Cons i "is")
  have "cfg (put32 (8 + i * 4) (f i) s) a = cfg s a \<or> 8 \<le> a" by (auto simp: put32_def wr32_def)
  then show ?case using Cons [of "put32 (8 + i * 4) (f i) s"] by auto
qed simp

text \<open>C39: with a correct configuration and as long as the FIFO fills up, write-c2-files ends and writes one file for each band, which holds
  exactly the samples of its channel in order, the \<open>i\<close>-th of every group of 8 or 16 words of the FIFO, then zeros; and the input of
  each band is the one of the configuration.  This holds in all four versions.\<close>

theorem c2_files:
  assumes "v \<in> c2_variants" and "c2_settings v k = Some (corr, bands)" and "\<forall>t. \<exists>u \<ge> t. 500 \<le> unat (c_cntr io u)" and "\<forall>i. c_opens io i"
  shows "\<exists>s' files. c2_main undef v k io s = Some (s', files) \<and> length files = length bands \<and> cfg s' 0 AND 1 = 1 \<and>
    (\<forall>i < length bands. f_index (files ! i) = i \<and> f_chan (files ! i) = snd (bands ! i) \<and>
      (bit (if v_ch v = 8 then ucast (cfg s' 4) else rd16 (cfg s') 4 :: u16) i \<longleftrightarrow> snd (bands ! i) = 2) \<and>
      f_data (files ! i) = map (\<lambda>t. c_fifo io (t * v_ch v + i)) [0..<v_until v] @ replicate (v_len v - v_until v) 0)"
proof -
  have v: "250 dvd v_until v" "v_until v \<le> v_len v" "v_ch v = 8 \<or> v_ch v = 16" using c2_variant_facts [OF assms(1)] by simp_all
  have bands: "length bands \<le> v_ch v" "\<forall>(freq, chan) \<in> set bands. chan = 1 \<or> chan = 2" using c2_settings_bands [OF assms(2)] by simp_all
  have "b ! (j * v_len v + t) = (0 :: u64)" if "b = replicate (v_len v * v_ch v) 0" "j < v_ch v" "t < v_len v" for b j t
    using slot_inside [OF that(2,3)] by (simp add: that(1))
  then have "filled v (c_fifo io) 0 0 (replicate (v_len v * v_ch v) 0)" by (simp add: filled_def)
  from c2_loop_fills [OF assms(3) v(1,2) this, of 0] obtain buffer where
    run: "c2_loop v (c_cntr io) (c_fifo io) 0 0 0 (replicate (v_len v * v_ch v) 0) = Some buffer" and full: "filled v (c_fifo io) (v_until v) 0 buffer"
    by auto
  let ?s = "c2_setup undef v corr bands s" and ?files = "map (c2_file_of undef v bands buffer) [0..<length bands]"
  have all: "takeWhile (c_opens io) [0..<length bands] = [0..<length bands]" using assms(4) by (simp add: takeWhile_eq_all_conv)
  have main: "c2_main undef v k io s = Some (?s, ?files)" by (simp only: c2_main_def assms(2) run all Option.bind.simps prod.case)
  have sel: "bit (c2_select bands) i \<longleftrightarrow> i < length bands \<and> snd (bands ! i) = 2" for i
    using select_bits [OF bands(2), of 0 0 i] bands(1) v(3) by (auto simp: c2_select_def)
  have reg: "(if v_ch v = 8 then ucast (cfg ?s 4) else rd16 (cfg ?s) 4 :: u16) = (if v_ch v = 8 then ucast (ucast (c2_select bands) :: u8) else c2_select bands)"
    by (simp add: c2_setup_def Let_def reg_simps)
  have bits: "bit (if v_ch v = 8 then ucast (cfg ?s 4) else rd16 (cfg ?s) 4 :: u16) i \<longleftrightarrow> snd (bands ! i) = 2" if "i < length bands" for i
    unfolding reg using that sel bands(1) v(3) by (auto simp: bit_ucast_iff)
  have "cfg ?s 0 AND 1 = 1"
    by (simp add: c2_setup_def Let_def reg_simps)
  moreover have "f_index (?files ! i) = i" "f_chan (?files ! i) = snd (bands ! i)"
    "f_data (?files ! i) = map (\<lambda>t. c_fifo io (t * v_ch v + i)) [0..<v_until v] @ replicate (v_len v - v_until v) 0" if "i < length bands" for i
    using that filled_channel [OF full _ v(2), of i] bands(1) by (simp_all add: c2_file_of_def Let_def split: prod.splits)
  ultimately show ?thesis using main bits by (intro exI [of _ ?s] exI [of _ ?files]) simp
qed

text \<open>One band on the second input, with a FIFO that counts.\<close>

theorem c2_files_witness:
  "\<exists>s' files. c2_main (\<lambda>_. 0) c2_wspr \<lparr>k_corr = Some 0, k_bands = Some [(Some 7, Some 2)]\<rparr>
      \<lparr>c_cntr = (\<lambda>_. 600), c_fifo = of_nat, c_opens = (\<lambda>_. True)\<rparr> \<lparr>cfg = (\<lambda>_. 0), log = []\<rparr> = Some (s', files) \<and> length files = 1 \<and>
    f_data (files ! 0) = map (\<lambda>t. of_nat (t * 8)) [0..<42000] @ replicate 3000 0"
proof -
  let ?k = "\<lparr>k_corr = Some 0, k_bands = Some [(Some 7, Some 2)]\<rparr>" and ?io = "\<lparr>c_cntr = (\<lambda>_. 600), c_fifo = of_nat, c_opens = (\<lambda>_. True)\<rparr>"
  have v: "c2_wspr \<in> c2_variants" by (simp add: c2_variants_def)
  have k: "c2_settings c2_wspr ?k = Some (0, [(7, 2)])" by (simp add: c2_settings_def c2_band_def c2_wspr_def)
  have c: "\<forall>t. \<exists>u \<ge> t. 500 \<le> unat (c_cntr ?io u)" by auto
  have o: "\<forall>i. c_opens ?io i" by simp
  have w: "v_ch c2_wspr = 8" "v_until c2_wspr = 42000" "v_len c2_wspr = 45000" "c_fifo ?io = of_nat" by (simp_all add: c2_wspr_def)
  from c2_files [OF v k c o, unfolded w, of "\<lambda>_. 0" "\<lparr>cfg = (\<lambda>_. 0), log = []\<rparr>"] obtain s' files where
    m: "c2_main (\<lambda>_. 0) c2_wspr ?k ?io \<lparr>cfg = (\<lambda>_. 0), log = []\<rparr> = Some (s', files)" and n: "length files = length [(7 :: rat, 2 :: int)]"
    and d: "f_data (files ! 0) = map (\<lambda>t. of_nat (t * 8)) [0..<42000] @ replicate (45000 - 42000) 0"
    by (elim exE conjE) (drule spec [of _ 0], simp only: list.size less_numeral_extra add_0 add_0_right zero_less_Suc simp_thms)
  have "45000 - 42000 = (3000 :: nat)" by simp
  have "length files = 1" using n by simp
  with m d show ?thesis unfolding \<open>45000 - 42000 = (3000 :: nat)\<close> by (intro exI conjI)
qed

end
