(* ===== verification/Impedance.thy ===== *)
theory Impedance imports Regs Dds begin

text \<open>
  impedance-controller.c: one client at a time sets the generator and starts a thread, which sends the samples of the
  FIFO in messages of 16 floats until it finds that the client has stopped it.
\<close>

section \<open>State and commands\<close>

text \<open>\<open>sock\<close> is \<open>sock_thread\<close> (\<open>None\<close> for -1), \<open>client\<close> the connection being served, \<open>clients\<close> the number of connections so far and
  \<open>readers\<close> the number of threads that run \<open>read_handler\<close>.\<close>

record imp = dev +
  sock :: "nat option"
  client :: "nat option"
  clients :: nat
  readers :: nat

definition imp_init :: imp where
  "imp_init =
    (let s = \<lparr>cfg = (\<lambda>_. 0), log = [], sock = None, client = None, clients = 0, readers = 0\<rparr>;
         s = put16 2 4 s; s = put32 4 (dds_word clk125 100000) s; s = put16 8 0 s
     in put8 1 0 (clr8 0 1 s))"

text \<open>A command has 4 bits of code and 28 bits of value, which is sign-extended.\<close>

definition imp_value :: "u32 \<Rightarrow> int" where
  "imp_value command =
    (let value = command AND 0xfffffff in sint (if value AND 0x8000000 \<noteq> 0 then value OR 0xf0000000 else value))"

definition imp_code :: "u32 \<Rightarrow> nat" where
  "imp_code command = unat (drop_bit 28 command)"

definition imp_begin :: "nat \<Rightarrow> imp \<Rightarrow> imp" where
  "imp_begin c s =
    (if sock s \<noteq> None then s
     else let s = clr8 0 1 s; s = s\<lparr>sock := Some c\<rparr>; s = s\<lparr>readers := readers s + 1\<rparr> in set8 0 1 s)"

definition imp_stop :: "imp \<Rightarrow> imp" where
  "imp_stop s = clr8 0 1 (s\<lparr>sock := None\<rparr>)"

definition imp_command :: "nat \<Rightarrow> u32 \<Rightarrow> imp \<Rightarrow> imp" where
  "imp_command c command s =
    (let value = imp_value command; code = imp_code command
     in if code = 0 then (if value < 4 \<or> value > 8192 then s else put16 2 (word_of_int value) s)
        else if code = 1 then (if value < 0 \<or> value > 62500000 then s else put32 4 (dds_word clk125 value) s)
        else if code = 2 then (if value < -32766 \<or> value > 32766 then s else put16 8 (word_of_int value) s)
        else if code = 3 then (if value < 0 \<or> value > 255 then s else put8 1 (word_of_int value) s)
        else if code = 4 then imp_begin c s
        else if code = 5 then imp_stop s
        else s)"

definition imp_close :: "imp \<Rightarrow> imp" where
  "imp_close s = (put8 1 0 (imp_stop s))\<lparr>client := None\<rparr>"

section \<open>The reading thread\<close>

text \<open>A round of \<open>read_handler\<close>, taken as one step: the counter, the 16 words of the FIFO as they are sent, and whether they could be sent.\<close>

definition reader_round :: "u16 \<Rightarrow> u32 list \<Rightarrow> bool \<Rightarrow> imp \<Rightarrow> imp" where
  "reader_round cntr samples ok s =
    (case sock s of
       None \<Rightarrow> s\<lparr>readers := readers s - 1\<rparr>
     | Some c \<Rightarrow>
         if unat cntr < 16 then s
         else let s1 = emit [Send (bytes32 samples)] s in if ok then s1 else s1\<lparr>readers := readers s1 - 1\<rparr>)"

section \<open>The whole server\<close>

datatype imp_event = Connect | Command u32 | Close | Reader u16 "u32 list" bool

text \<open>Main thread and reading threads take their steps in any order; a step that is not possible changes nothing.\<close>

fun imp_step :: "imp \<Rightarrow> imp_event \<Rightarrow> imp" where
  "imp_step s Connect = (if client s = None then s\<lparr>client := Some (clients s), clients := clients s + 1\<rparr> else s)"
| "imp_step s (Command command) = (case client s of None \<Rightarrow> s | Some c \<Rightarrow> imp_command c command s)"
| "imp_step s Close = (if client s = None then s else imp_close s)"
| "imp_step s (Reader cntr samples ok) = (if readers s = 0 then s else reader_round cntr samples ok s)"

definition imp_run :: "imp_event list \<Rightarrow> imp" where
  "imp_run events = foldl imp_step imp_init events"

section \<open>Properties\<close>

definition imp_ok :: "imp \<Rightarrow> bool" where
  "imp_ok s \<longleftrightarrow> (bit (cfg s 0) 0 \<longleftrightarrow> sock s \<noteq> None) \<and> (sock s \<noteq> None \<longrightarrow> sock s = client s) \<and>
    (client s = None \<longrightarrow> cfg s 1 = 0) \<and>
    4 \<le> rd16 (cfg s) 2 \<and> rd16 (cfg s) 2 \<le> 8192 \<and> rd32 (cfg s) 4 \<le> 2 ^ 29 \<and> - 32766 \<le> sint (rd16 (cfg s) 8) \<and> sint (rd16 (cfg s) 8) \<le> 32766"

lemma imp_frame:
  fixes s :: imp
  shows "sock (put8 a x s) = sock s" "sock (put16 a y s) = sock s" "sock (put32 a z s) = sock s" "sock (set8 a x s) = sock s" "sock (clr8 a x s) = sock s"
    "client (put8 a x s) = client s" "client (put16 a y s) = client s" "client (put32 a z s) = client s" "client (set8 a x s) = client s" "client (clr8 a x s) = client s"
    "readers (put8 a x s) = readers s" "readers (put16 a y s) = readers s" "readers (put32 a z s) = readers s" "readers (set8 a x s) = readers s" "readers (clr8 a x s) = readers s"
  by (simp_all add: put8_def put16_def put32_def set8_def clr8_def)

lemma increment_small:
  assumes "0 \<le> f" and "f \<le> 62500000"
  shows "dds_word clk125 f \<le> 2 ^ 29"
proof -
  define k where "k = round_half_up (f * 2 ^ 30) 125000000"
  have b: "2 * 125000000 * k \<le> 2 * (f * 2 ^ 30) + 125000000" "2 * (f * 2 ^ 30) - 125000000 < 2 * 125000000 * k"
    using round_half_up_bounds [of 125000000 "f * 2 ^ 30"] by (simp_all add: k_def)
  have k: "0 \<le> k" "k \<le> 2 ^ 29" using b assms by auto
  have "dds_word clk125 f = word_of_int k" using dds_inc_125 [of f] assms by (simp add: dds_word_def k_def)
  then show ?thesis using k by (simp add: word_le_def uint_word_of_int_eq take_bit_int_eq_self)
qed

lemma word16_signed: "- 32766 \<le> v \<Longrightarrow> v \<le> 32766 \<Longrightarrow> sint (word_of_int v :: u16) = v"
  by (simp add: sint_sbintrunc' signed_take_bit_int_eq_self)

lemma word16_unsigned: "0 \<le> v \<Longrightarrow> v < 65536 \<Longrightarrow> uint (word_of_int v :: u16) = v"
  by (simp add: uint_word_of_int_eq take_bit_int_eq_self)

lemma imp_init_ok: "imp_ok imp_init"
  using increment_small [of 100000]
  by (simp add: imp_init_def imp_ok_def Let_def reg_simps imp_frame bit_and_iff bit_not_iff)

lemma imp_command_ok:
  assumes ok: "imp_ok s" and "client s = Some c"
  shows "imp_ok (imp_command c command s)"
proof -
  have rate: "imp_ok (put16 2 (word_of_int v) s)" if "4 \<le> v" "v \<le> 8192" for v
    using ok that word16_unsigned [of v] assms(2) by (simp add: imp_ok_def reg_simps imp_frame word_le_def)
  have freq: "imp_ok (put32 4 (dds_word clk125 v) s)" if "0 \<le> v" "v \<le> 62500000" for v
    using ok increment_small [OF that] assms(2) by (simp add: imp_ok_def reg_simps imp_frame)
  have level: "imp_ok (put16 8 (word_of_int v) s)" if "- 32766 \<le> v" "v \<le> 32766" for v
    using ok word16_signed [OF that] that assms(2) by (simp add: imp_ok_def reg_simps imp_frame)
  have gpio: "imp_ok (put8 1 x s)" for x
    using ok assms(2) by (simp add: imp_ok_def reg_simps imp_frame)
  have beginning: "imp_ok (imp_begin c s)"
    using ok assms(2) by (auto simp: imp_begin_def imp_ok_def Let_def reg_simps imp_frame bit_or_iff)
  have stop: "imp_ok (imp_stop s)"
    using ok assms(2) by (simp add: imp_stop_def imp_ok_def reg_simps imp_frame bit_and_iff bit_not_iff)
  show ?thesis
    unfolding imp_command_def Let_def using ok rate freq level gpio beginning stop by (simp add: not_less)
qed

lemma imp_step_ok: "imp_ok s \<Longrightarrow> imp_ok (imp_step s ev)"
proof (cases ev)
  case Close
  moreover assume "imp_ok s"
  ultimately show ?thesis
    by (auto simp: imp_ok_def imp_close_def imp_stop_def reg_simps imp_frame bit_and_iff bit_not_iff)
next
  case (Command command)
  moreover assume "imp_ok s"
  ultimately show ?thesis by (auto simp: imp_command_ok split: option.split)
next
  case Connect
  moreover assume "imp_ok s"
  ultimately show ?thesis by (auto simp: imp_ok_def)
next
  case (Reader cntr samples ok)
  moreover assume "imp_ok s"
  ultimately show ?thesis by (auto simp: imp_ok_def reader_round_def emit_def Let_def split: option.split)
qed

text \<open>Whatever clients send and however the threads take turns, the FIFO is out of reset exactly while \<open>sock_thread\<close> is set,
  which is then the client being served; the output pins are off without a client; and rate, increment and
  level stay in range.\<close>

theorem imp_invariant:
  "let s = imp_run events in (bit (cfg s 0) 0 \<longleftrightarrow> sock s \<noteq> None) \<and> (sock s = None \<or> sock s = client s) \<and>
    (client s \<noteq> None \<or> cfg s 1 = 0) \<and>
    4 \<le> rd16 (cfg s) 2 \<and> rd16 (cfg s) 2 \<le> 8192 \<and> rd32 (cfg s) 4 \<le> 2 ^ 29 \<and> - 32766 \<le> sint (rd16 (cfg s) 8) \<and> sint (rd16 (cfg s) 8) \<le> 32766"
proof -
  have "imp_ok (imp_run events)"
    unfolding imp_run_def by (rule foldl_invariant [where I = imp_ok]) (auto intro: imp_init_ok imp_step_ok)
  then show ?thesis by (auto simp: imp_ok_def Let_def)
qed

text \<open>A client that stops and starts again before the thread has noticed gets two threads that read the same FIFO, each 16 samples at a time.\<close>

theorem imp_two_readers:
  "readers (imp_run [Connect, Command 0x40000000, Command 0x50000000, Command 0x40000000]) = 2"
proof -
  have codes: "imp_code 0x40000000 = 4" "imp_code 0x50000000 = 5" by (simp_all add: imp_code_def drop_bit_eq_div)
  show ?thesis
    by (simp add: imp_run_def imp_init_def imp_command_def codes imp_begin_def imp_stop_def Let_def imp_frame)
qed

end
