(* ===== verification/Boards12288.thy ===== *)
theory Boards12288 imports HpsdrMain HpsdrEp6 PulsedNmr Vna SdrRx Trx begin

text \<open>
  The programs for the second board, whose converters run at 122.88 MHz: the same sources with other constants.
  Each is the model of the first board's program at the constants of the second.  sdr-transceiver-wide.c is
  the third copy of the transceiver.
\<close>

section \<open>sdr-transceiver-hpsdr.c\<close>

definition ep2_config_12288 :: "u8 list \<Rightarrow> hpsdr \<Rightarrow> hpsdr" where "ep2_config_12288 = ep2_config hpsdr_122_88"
definition ep2_tx_freq_12288 :: "u8 list \<Rightarrow> hpsdr \<Rightarrow> hpsdr" where "ep2_tx_freq_12288 = ep2_tx_freq hpsdr_122_88"
definition ep2_rx1_freq_12288 :: "u8 list \<Rightarrow> hpsdr \<Rightarrow> hpsdr" where "ep2_rx1_freq_12288 = ep2_rx1_freq hpsdr_122_88"
definition ep2_rx2_freq_12288 :: "u8 list \<Rightarrow> hpsdr \<Rightarrow> hpsdr" where "ep2_rx2_freq_12288 = ep2_rx2_freq hpsdr_122_88"
definition ep2_rx3_freq_12288 :: "u8 list \<Rightarrow> hpsdr \<Rightarrow> hpsdr" where "ep2_rx3_freq_12288 = ep2_rx3_freq hpsdr_122_88"
definition ep2_drive_12288 :: "u8 list \<Rightarrow> hpsdr \<Rightarrow> hpsdr" where "ep2_drive_12288 = ep2_drive hpsdr_122_88"
definition process_ep2_12288 :: "u8 list \<Rightarrow> hpsdr \<Rightarrow> hpsdr" where "process_ep2_12288 = process_ep2 hpsdr_122_88"

definition hpsdr_registers_12288 :: "u8 \<Rightarrow> (nat \<Rightarrow> u8) \<Rightarrow> hpsdr \<Rightarrow> hpsdr" where
  "hpsdr_registers_12288 = hpsdr_registers hpsdr_122_88"

definition main_loop_12288 :: "u8 list \<Rightarrow> main_pass list \<Rightarrow> u8 list list \<times> hpsdr \<Rightarrow> (u8 list list \<times> hpsdr) option" where
  "main_loop_12288 = main_loop hpsdr_122_88"

definition ep6_run_12288 :: "(hpsdr \<times> ep6_io) list \<Rightarrow> ep6 \<Rightarrow> (ep6 \<times> u8 list list) option" where
  "ep6_run_12288 = ep6_run hpsdr_122_88"

section \<open>pulsed-nmr.c\<close>

definition nmr_init_12288 :: "bool \<Rightarrow> bool \<Rightarrow> nmr \<Rightarrow> nmr" where "nmr_init_12288 = nmr_init nmr_122_88"
definition nmr_client_12288 :: "(stream_io \<times> u64) list \<Rightarrow> nmr \<Rightarrow> nmr option" where "nmr_client_12288 = nmr_client nmr_122_88"

section \<open>vna.c\<close>

definition vna_init_12288 :: "vna \<Rightarrow> vna" where "vna_init_12288 = vna_init vna_122_88"
definition vna_server_12288 :: "u32 list list \<Rightarrow> vna \<Rightarrow> vna option" where "vna_server_12288 = vna_server vna_122_88"

section \<open>sdr-receiver-hpsdr.c\<close>

definition rx_init_12288 :: "string list \<Rightarrow> rx \<Rightarrow> rx option" where "rx_init_12288 = rx_init rx_122_88"
definition rx_process_ep2_12288 :: "u8 list \<Rightarrow> rx \<Rightarrow> rx" where "rx_process_ep2_12288 = rx_process_ep2 rx_122_88"
definition rx_main_12288 :: "u8 list \<Rightarrow> string list \<Rightarrow> rx_msg list \<Rightarrow> rx option" where "rx_main_12288 = rx_main rx_122_88"
definition rx_thread_12288 :: "(rx \<times> rx_io) list \<Rightarrow> rx_ep6 \<Rightarrow> (rx_ep6 \<times> u8 list list) option" where "rx_thread_12288 = rx_thread rx_122_88"

section \<open>sdr-transceiver.c and sdr-transceiver-wide.c\<close>

definition trx_init_12288 :: trx where "trx_init_12288 = trx_init trx_122_88"
definition trx_command_12288 :: "role \<Rightarrow> u32 \<Rightarrow> wr list" where "trx_command_12288 = trx_command trx_122_88"
definition trx_step_12288 :: "trx \<Rightarrow> trx \<Rightarrow> bool" where "trx_step_12288 = trx_step trx_122_88"

definition trx_init_wide :: trx where "trx_init_wide = trx_init trx_wide"
definition trx_command_wide :: "role \<Rightarrow> u32 \<Rightarrow> wr list" where "trx_command_wide = trx_command trx_wide"
definition trx_step_wide :: "trx \<Rightarrow> trx \<Rightarrow> bool" where "trx_step_wide = trx_step trx_wide"

section \<open>Constants\<close>

text \<open>The increment of a frequency that both boards accept is larger on the second by the ratio of the clocks, up to one step.\<close>

lemma increments_compare:
  assumes "0 \<le> f" and "f \<le> 61440000"
  shows "\<bar>dds_inc clk12288 f * 12288 - dds_inc clk125 f * 12500\<bar> \<le> 12394"
proof -
  define a where "a = round_half_up (f * 2 ^ 30) 122880000"
  define b where "b = round_half_up (f * 2 ^ 30) 125000000"
  have a: "2 * 122880000 * a \<le> 2 * (f * 2 ^ 30) + 122880000" "2 * (f * 2 ^ 30) - 122880000 < 2 * 122880000 * a"
    using round_half_up_bounds [of 122880000 "f * 2 ^ 30"] by (simp_all add: a_def)
  have b: "2 * 125000000 * b \<le> 2 * (f * 2 ^ 30) + 125000000" "2 * (f * 2 ^ 30) - 125000000 < 2 * 125000000 * b"
    using round_half_up_bounds [of 125000000 "f * 2 ^ 30"] by (simp_all add: b_def)
  have "\<bar>a * 12288 - b * 12500\<bar> \<le> 12394" using a b by linarith
  then show ?thesis using assms dds_inc_12288 [of f] dds_inc_125 [of f] by (simp add: a_def b_def)
qed

end
