(* ===== verification/Singles.thy ===== *)
theory Singles imports Doubles begin

text \<open>
  Rounding to any number of bits, and with it the \<open>float\<close>s of the sources; \<open>rnd\<close> of \<open>Doubles\<close> is the case of 53 bits.  Rounding is
  monotone, and its error is at most half a unit of the last place.
\<close>

section \<open>Rounding to any precision\<close>

text \<open>Rounding to \<open>p + 1\<close> significant bits; a \<open>float\<close> has 24.\<close>

definition rnd_bits :: "int \<Rightarrow> rat \<Rightarrow> rat" where
  "rnd_bits p x = (if x = 0 then 0 else let u = 2 powi (dexp \<bar>x\<bar> - p) in sgn x * (of_int (rne (\<bar>x\<bar> / u)) * u))"

definition sgl :: "rat \<Rightarrow> rat" where
  "sgl x = rnd_bits 23 x"

text \<open>\<open>M_PI\<close>.\<close>

definition m_pi :: dbl where
  "m_pi = rnd (314159265358979323846 / 100000000000000000000)"

lemma rnd_is_bits: "rnd x = rnd_bits 52 x"
  by (simp add: rnd_def rnd_bits_def)

lemma rnd_bits_pos: "0 < x \<Longrightarrow> rnd_bits p x = of_int (rne (x / 2 powi (dexp x - p))) * 2 powi (dexp x - p)"
  by (simp add: rnd_bits_def Let_def)

lemma rnd_bits_minus: "rnd_bits p (- x) = - rnd_bits p x"
  by (simp add: rnd_bits_def Let_def)

lemma rne_mono: "x \<le> y \<Longrightarrow> rne x \<le> rne y"
proof -
  assume le: "x \<le> y"
  show ?thesis
  proof (cases "\<lfloor>x\<rfloor> = \<lfloor>y\<rfloor>")
    case True
    then show ?thesis using le by (auto simp: rne_def Let_def)
  next
    case False
    then have "\<lfloor>x\<rfloor> + 1 \<le> \<lfloor>y\<rfloor>" using floor_mono [OF le] by simp
    moreover have "rne x \<le> \<lfloor>x\<rfloor> + 1" "\<lfloor>y\<rfloor> \<le> rne y" by (simp_all add: rne_def Let_def)
    ultimately show ?thesis by linarith
  qed
qed

lemma dexp_mono: "0 < x \<Longrightarrow> x \<le> y \<Longrightarrow> dexp x \<le> dexp y"
proof -
  assume x: "0 < x" and le: "x \<le> y"
  then have "2 powi dexp x \<le> x" "y < 2 powi (dexp y + 1)" using dexp_bounds [of x] dexp_bounds [of y] by auto
  then have "(2::rat) powi dexp x < 2 powi (dexp y + 1)" using le by linarith
  then show ?thesis by (simp add: powi_less_iff)
qed

text \<open>The mantissa of a positive value lies between \<open>2^p\<close> and \<open>2^(p + 1)\<close>.\<close>

lemma rnd_bits_range:
  assumes "0 < x" and "0 \<le> p"
  shows "2 powi dexp x \<le> rnd_bits p x" and "rnd_bits p x \<le> 2 powi (dexp x + 1)"
proof -
  define u :: rat where "u = 2 powi (dexp x - p)"
  define m :: int where "m = 2 ^ nat p"
  have u: "0 < u" and mu: "of_int m * u = 2 powi dexp x"
    using assms(2) by (simp_all add: u_def m_def power_int_def [of 2 p, symmetric] power_int_diff) (simp add: power_int_def)
  have "of_int m * u \<le> x" "x < of_int (2 * m) * u"
    using dexp_bounds [OF assms(1)] mu powi_Suc_int [of "dexp x"] by simp_all
  then have "of_int m \<le> x / u" "x / u \<le> of_int (2 * m)" using u by (simp_all add: field_simps)
  then have "m \<le> rne (x / u)" "rne (x / u) \<le> 2 * m"
    using rne_mono [of "of_int m" "x / u"] rne_mono [of "x / u" "of_int (2 * m)"] unfolding rne_of_int by blast+
  then have "(of_int m :: rat) \<le> of_int (rne (x / u))" "(of_int (rne (x / u)) :: rat) \<le> of_int (2 * m)" by (simp_all only: of_int_le_iff)
  then have "of_int m * u \<le> of_int (rne (x / u)) * u" "of_int (rne (x / u)) * u \<le> of_int (2 * m) * u"
    using u by (auto intro: mult_right_mono)
  then show "2 powi dexp x \<le> rnd_bits p x" "rnd_bits p x \<le> 2 powi (dexp x + 1)"
    using mu powi_Suc_int [of "dexp x"] by (simp_all add: rnd_bits_pos [OF assms(1)] u_def [symmetric])
qed

lemma rnd_bits_mono_pos:
  assumes "0 < x" and "x \<le> y" and "0 \<le> p"
  shows "rnd_bits p x \<le> rnd_bits p y"
proof -
  have y: "0 < y" using assms by linarith
  show ?thesis
  proof (cases "dexp x = dexp y")
    case True
    have "rne (x / 2 powi (dexp x - p)) \<le> rne (y / 2 powi (dexp x - p))" using assms by (intro rne_mono divide_right_mono) simp_all
    then show ?thesis using True by (simp add: rnd_bits_pos assms(1) y)
  next
    case False
    then have "dexp x + 1 \<le> dexp y" using dexp_mono [OF assms(1,2)] by simp
    then have "(2::rat) powi (dexp x + 1) \<le> 2 powi dexp y" by (simp add: powi_le_iff)
    then show ?thesis using rnd_bits_range [OF assms(1,3)] rnd_bits_range [OF y assms(3)] by linarith
  qed
qed

lemma rnd_bits_nonneg: "0 \<le> x \<Longrightarrow> 0 \<le> p \<Longrightarrow> 0 \<le> rnd_bits p x"
proof (cases "x = 0")
  case False
  assume "0 \<le> x" "0 \<le> p"
  then have "2 powi dexp x \<le> rnd_bits p x" using False by (intro rnd_bits_range(1)) simp_all
  moreover have "0 \<le> (2::rat) powi dexp x" by simp
  ultimately show ?thesis by linarith
qed (simp add: rnd_bits_def)

lemma rnd_bits_mono:
  assumes "x \<le> y" and "0 \<le> p"
  shows "rnd_bits p x \<le> rnd_bits p y"
proof -
  consider "0 < x" | "x \<le> 0" "0 \<le> y" | "y < 0" by linarith
  then show ?thesis
  proof cases
    case 1
    then show ?thesis using rnd_bits_mono_pos assms by blast
  next
    case 2
    then show ?thesis using rnd_bits_nonneg [of y p] rnd_bits_nonneg [of "- x" p] rnd_bits_minus [of p x] assms(2) by simp
  next
    case 3
    then have "rnd_bits p (- y) \<le> rnd_bits p (- x)" using assms by (intro rnd_bits_mono_pos) simp_all
    then show ?thesis by (simp add: rnd_bits_minus)
  qed
qed

text \<open>The error is at most half a unit of the last place.\<close>

lemma rnd_bits_err:
  assumes "0 < x" and "0 \<le> p"
  shows "\<bar>rnd_bits p x - x\<bar> \<le> x * 2 powi (- p - 1)"
proof -
  define u :: rat where "u = 2 powi (dexp x - p)"
  have u: "0 < u" by (simp add: u_def)
  have "\<bar>rnd_bits p x - x\<bar> = \<bar>of_int (rne (x / u)) - x / u\<bar> * u"
    using u by (simp add: rnd_bits_pos [OF assms(1)] u_def [symmetric] abs_mult [symmetric] left_diff_distrib)
      (metis abs_mult abs_of_pos left_diff_distrib nonzero_eq_divide_eq less_irrefl)
  also have "\<dots> \<le> 1/2 * u" using u by (intro mult_right_mono rne_err) simp
  also have "\<dots> = 2 powi dexp x * 2 powi (- p - 1)"
    by (simp add: u_def power_int_add [symmetric] power_int_diff)
  also have "\<dots> \<le> x * 2 powi (- p - 1)" using dexp_bounds [OF assms(1)] by (intro mult_right_mono) simp_all
  finally show ?thesis .
qed

text \<open>The same for values of either sign, with a bound on the magnitude.\<close>

lemma rnd_bits_err_abs:
  assumes "\<bar>x\<bar> \<le> b" and "0 \<le> p"
  shows "\<bar>rnd_bits p x - x\<bar> \<le> b * 2 powi (- p - 1)"
proof -
  have "\<bar>rnd_bits p x - x\<bar> \<le> \<bar>x\<bar> * 2 powi (- p - 1)"
    using rnd_bits_err [of x p] rnd_bits_err [of "- x" p] assms(2)
    by (cases x "0 :: rat" rule: linorder_cases) (simp_all add: rnd_bits_minus abs_minus_commute, simp add: rnd_bits_def)
  also have "\<dots> \<le> b * 2 powi (- p - 1)" using assms by (intro mult_right_mono) simp_all
  finally show ?thesis .
qed

lemma rnd_abs_err: "\<bar>x\<bar> \<le> b \<Longrightarrow> \<bar>rnd x - x\<bar> \<le> b / 9007199254740992"
  using rnd_bits_err_abs [of x b 52] by (simp add: rnd_is_bits power_int_def power_divide)

lemma sgl_err_abs: "\<bar>x\<bar> \<le> b \<Longrightarrow> \<bar>sgl x - x\<bar> \<le> b / 16777216"
  using rnd_bits_err_abs [of x b 23] by (simp add: sgl_def power_int_def power_divide)

lemma rnd_mono: "x \<le> y \<Longrightarrow> rnd x \<le> rnd y"
  unfolding rnd_is_bits by (rule rnd_bits_mono) simp_all

text \<open>The value of a rounded literal, given its exponent and its mantissa.\<close>

lemma rne_near: "\<bar>q - of_int k\<bar> < 1/2 \<Longrightarrow> rne q = k"
proof -
  assume "\<bar>q - of_int k\<bar> < 1/2"
  with rne_err [of q] have "\<bar>of_int (rne q) - of_int k\<bar> < (1 :: rat)" by linarith
  then show ?thesis by linarith
qed

lemma rnd_computes:
  assumes "2 powi e \<le> x" "x < 2 powi (e + 1)" "\<bar>x / 2 powi (e - 52) - of_int k\<bar> < 1/2"
  shows "rnd x = of_int k * 2 powi (e - 52)"
proof -
  have "0 < (2::rat) powi e" by simp
  with assms(1) have "0 < x" by linarith
  then show ?thesis using rne_near [OF assms(3)] dexp_unique [OF assms(1,2)] by (simp add: rnd_pos)
qed

end
