(* ===== verification/HpsdrTables.thy ===== *)
theory HpsdrTables imports HpsdrMain Singles begin

text \<open>
  The tables that main of sdr-transceiver-hpsdr.c computes when it starts: the attenuation for a drive level
  (\<open>calc_log_lookup\<close>) and the two ramps that shape the edges of a keyed signal.  \<open>log10\<close> and \<open>cos\<close> of the C library are
  arguments.
\<close>

section \<open>Attenuation for a drive level\<close>

text \<open>\<open>value\<close> is a \<open>float\<close>; its conversion to \<open>uint8_t\<close> truncates.\<close>

definition log_att :: "(dbl \<Rightarrow> dbl) \<Rightarrow> nat \<Rightarrow> u8" where
  "log_att log10 index =
    (let value = sgl (fmul (-40) (log10 (fdiv (of_nat index) 255)))
     in if value > 63 then 63 else word_of_int (if 0 \<le> value then \<lfloor>value\<rfloor> else \<lceil>value\<rceil>))"

definition calc_log_lookup :: "(dbl \<Rightarrow> dbl) \<Rightarrow> nat \<Rightarrow> u8" where
  "calc_log_lookup log10 index = (if index = 0 then 63 else log_att log10 index)"

text \<open>With a logarithm that is monotone, not positive up to 1 and 0 there, the table falls from 63 to 0.\<close>

lemma log_lookup_falls:
  assumes mono: "\<And>x y. x \<le> y \<Longrightarrow> log10 x \<le> log10 y" and one: "log10 1 = 0" and "i \<le> j" and "j \<le> 255"
  shows "calc_log_lookup log10 j \<le> calc_log_lookup log10 i \<and> calc_log_lookup log10 i \<le> 63 \<and> calc_log_lookup log10 255 = 0"
proof -
  define level where "level k = sgl (fmul (-40) (log10 (fdiv (of_nat k) 255)))" for k :: nat
  have falls: "level k \<le> level m" if "m \<le> k" for m k
  proof -
    have "(of_nat m / 255 :: rat) \<le> of_nat k / 255" using that by (simp add: divide_right_mono)
    then have "fdiv (of_nat m) 255 \<le> fdiv (of_nat k) 255" unfolding fdiv_def rnd_is_bits by (rule rnd_bits_mono) simp
    then have "log10 (fdiv (of_nat m) 255) \<le> log10 (fdiv (of_nat k) 255)" by (rule mono)
    then have "fmul (-40) (log10 (fdiv (of_nat k) 255)) \<le> fmul (-40) (log10 (fdiv (of_nat m) 255))"
      unfolding fmul_def rnd_is_bits by (intro rnd_bits_mono) simp_all
    then show ?thesis unfolding level_def sgl_def by (rule rnd_bits_mono) simp
  qed
  have "fdiv (of_nat 255) 255 = 1" using rnd_int [of 1] by (simp add: fdiv_def)
  then have last: "level 255 = 0" using one by (simp add: level_def fmul_def sgl_def rnd_bits_def)
  define att where "att k = (if level k > 63 then 63 else \<lfloor>level k\<rfloor>)" for k
  have range: "0 \<le> att k" "att k \<le> 63" if "k \<le> 255" for k
    using falls [OF that] last by (auto simp: att_def floor_le_iff)
  have word: "log_att log10 k = word_of_int (att k)" if "k \<le> 255" for k
    using falls [OF that] last by (simp add: log_att_def att_def level_def Let_def)
  have uint: "uint (word_of_int (att k) :: u8) = att k" if "k \<le> 255" for k
    using range [OF that] by (simp add: uint_word_of_int_eq take_bit_int_eq_self)
  have att: "att k \<le> att m" if "m \<le> k" for m k
    using falls [OF that] floor_mono [OF falls [OF that]] by (auto simp: att_def floor_le_iff)
  have "att 255 = 0" by (simp add: att_def last)
  then show ?thesis
    using assms(3,4) att [of i j] uint [of i] uint [of j] range [of i] range [of j] word [of i] word [of j] word [of 255]
    by (auto simp: calc_log_lookup_def word_le_def)
qed

section \<open>The ramps\<close>

text \<open>The coefficients are \<open>float\<close>s; the first sum is one of \<open>float\<close>s, the rest is computed in double.\<close>

definition ramp_a :: "nat \<Rightarrow> rat" where
  "ramp_a k = sgl (rnd ([35875, 48829, 14128, 1168] ! k / 100000))"

definition ramp_cos :: "(dbl \<Rightarrow> dbl) \<Rightarrow> nat \<Rightarrow> dbl \<Rightarrow> nat \<Rightarrow> dbl" where
  "ramp_cos cosine n k i = cosine (fdiv (fmul (fmul k m_pi) (of_nat i)) (of_nat n))"

fun ramp :: "(dbl \<Rightarrow> dbl) \<Rightarrow> nat \<Rightarrow> nat \<Rightarrow> rat" where
  "ramp cosine n 0 = 0"
| "ramp cosine n (Suc i) =
    sgl (fsub (fadd (fsub (sgl (ramp cosine n i + ramp_a 0)) (fmul (ramp_a 1) (ramp_cos cosine n 2 (Suc i))))
      (fmul (ramp_a 2) (ramp_cos cosine n 4 (Suc i)))) (fmul (ramp_a 3) (ramp_cos cosine n 6 (Suc i))))"

definition ramp_scale :: "(dbl \<Rightarrow> dbl) \<Rightarrow> nat \<Rightarrow> int \<Rightarrow> rat" where
  "ramp_scale cosine n top_value = sgl (fdiv (of_int top_value) (ramp cosine n n))"

definition ramp_value :: "(dbl \<Rightarrow> dbl) \<Rightarrow> nat \<Rightarrow> int \<Rightarrow> nat \<Rightarrow> int" where
  "ramp_value cosine n top_value i = dfloor (fadd (sgl (ramp cosine n i * ramp_scale cosine n top_value)) (1/2))"

definition tx_ramp :: "(dbl \<Rightarrow> dbl) \<Rightarrow> bool \<Rightarrow> nat \<Rightarrow> u32" where
  "tx_ramp cosine second_board i = word_of_int (ramp_value cosine 1001 (if second_board then 4100000 else 6100000) i)"

definition dac_ramp :: "(dbl \<Rightarrow> dbl) \<Rightarrow> nat \<Rightarrow> u16" where
  "dac_ramp cosine i = word_of_int (ramp_value cosine 481 32000 i)"

lemma ramp_starts: "ramp_value cosine n top_value 0 = 0"
proof -
  have "rnd (1 / 2) * 2 = 1" using rnd_scale [of 1 "- 1"] rnd_int [of 1] by (simp add: power_int_def)
  then have half: "rnd (1 / 2) = 1 / 2" by linarith
  have "\<lfloor>1 / 2 :: rat\<rfloor> = 0" by (simp add: floor_eq_iff)
  then show ?thesis by (simp add: ramp_value_def fadd_def sgl_def rnd_bits_def dfloor_def half)
qed

text \<open>The rounding errors move the last value by at most one from the one that is meant.\<close>

lemma ramp_ends:
  assumes pos: "0 < ramp cosine n n" and t: "0 < t" "t \<le> 6100000"
  shows "\<bar>ramp_value cosine n t n - t\<bar> \<le> 1"
proof -
  define r where "r = ramp cosine n n"
  define z where "z = of_int t / r"
  define q where "q = rnd z"
  define c where "c = sgl q"
  define y where "y = sgl (r * c)"
  have r: "0 < r" and tq: "0 < (of_int t :: rat)" "(of_int t :: rat) \<le> 6100000"
    using pos t of_int_le_iff [of t 6100000, where ?'a = rat] by (simp_all add: r_def)
  have q0: "0 < z" and rz: "r * z = of_int t" using r tq by (simp_all add: z_def)
  have p: "(2::rat) powi (- 52 - 1) = 1 / 9007199254740992" "(2::rat) powi (- 23 - 1) = 1 / 16777216"
    by (simp_all add: power_int_def power_divide)
  have eq: "\<bar>q - z\<bar> \<le> z * (1 / 9007199254740992)"
    using rnd_bits_err [OF q0, of 52] by (simp add: q_def rnd_is_bits p)
  then have qpos: "0 < q" using q0 unfolding abs_le_iff by linarith
  have ec: "\<bar>c - q\<bar> \<le> q * (1 / 16777216)" using rnd_bits_err [OF qpos, of 23] by (simp add: c_def sgl_def p)
  then have cpos: "0 < c" using qpos unfolding abs_le_iff by linarith
  have rc: "0 < r * c" using r cpos by simp
  have ey: "\<bar>y - r * c\<bar> \<le> r * c * (1 / 16777216)" using rnd_bits_err [OF rc, of 23] by (simp add: y_def sgl_def p)
  have rq: "\<bar>r * q - of_int t\<bar> \<le> of_int t * (1 / 9007199254740992)"
  proof -
    have "\<bar>r * q - r * z\<bar> = r * \<bar>q - z\<bar>" using r by (simp add: right_diff_distrib [symmetric] abs_mult)
    also have "\<dots> \<le> r * (z * (1 / 9007199254740992))" using r eq by (intro mult_left_mono) simp_all
    finally show ?thesis by (simp add: rz [symmetric])
  qed
  have rce: "\<bar>r * c - r * q\<bar> \<le> r * q * (1 / 16777216)"
  proof -
    have "\<bar>r * c - r * q\<bar> = r * \<bar>c - q\<bar>" using r by (simp add: right_diff_distrib [symmetric] abs_mult)
    also have "\<dots> \<le> r * (q * (1 / 16777216))" using r ec by (intro mult_left_mono) simp_all
    finally show ?thesis by simp
  qed
  have close: "\<bar>y - of_int t\<bar> < 1"
    using ey rce rq tq unfolding abs_le_iff abs_less_iff by linarith
  have ypos: "0 < y + 1/2" using close tq t unfolding abs_less_iff by linarith
  have "y + 1/2 < 2 powi 23" using close tq by (simp add: abs_less_iff)
  then have half: "\<bar>fadd y (1/2) - (y + 1/2)\<bar> \<le> 2 powi (23 - 54)" unfolding fadd_def using ypos by (intro rnd_err) simp_all
  have "(2::rat) powi (23 - 54) = 1 / 2147483648" by (simp add: power_int_def power_divide)
  with half have "\<bar>fadd y (1/2) - (y + 1/2)\<bar> \<le> 1 / 2147483648" by simp
  then have "of_int t - 1 \<le> fadd y (1/2)" "fadd y (1/2) < of_int t + 2" using close unfolding abs_le_iff abs_less_iff by linarith+
  then have "t - 1 \<le> \<lfloor>fadd y (1/2)\<rfloor>" "\<lfloor>fadd y (1/2)\<rfloor> < t + 2" by (simp_all add: le_floor_iff floor_less_iff)
  moreover have "ramp_value cosine n t n = \<lfloor>fadd y (1/2)\<rfloor>"
    by (simp add: ramp_value_def ramp_scale_def dfloor_def y_def c_def q_def z_def r_def fdiv_def)
  ultimately show ?thesis by simp
qed

end
