(* ===== verification/Cma.thy ===== *)
theory Cma imports Loops begin

text \<open>
  src/patches/cma.c, the kernel module behind /dev/cma: a server asks it with \<open>ioctl\<close> for a block of contiguous memory,
  gets the bus address for the FPGA and maps the block.  The module keeps one block for all files.
  The functions of the kernel are read as their documentation says: \<open>dma_alloc_coherent\<close> returns \<open>NULL\<close>, an error pointer or a
  block, \<open>copy_from_user\<close> and \<open>copy_to_user\<close> the number of bytes that they could not copy.
  The operations are given twice: as functions of the state, for operations one after the other, and statement by statement for the
  calls of several threads that overlap, since the module takes no lock.
\<close>

section \<open>State and calls of the kernel\<close>

datatype allocation = Null | ErrPtr int | Block u32

datatype kernel_call =
    MiscRegister | MiscDeregister
  | DmaAlloc u32 u32 u32 | DmaFree u32 allocation u32 | DmaMmap allocation u32 u32
  | CopyToUser u32

text \<open>\<open>dma_mask\<close> is the mask that \<open>cma_init\<close> gives the device.\<close>

record cma =
  dma_size :: u32
  cpu_addr :: allocation
  dma_addr :: u32
  dma_mask :: u64
  calls :: "kernel_call list"

definition call :: "kernel_call \<Rightarrow> cma \<Rightarrow> cma" where
  "call c s = s\<lparr>calls := calls s @ [c]\<rparr>"

definition cma_start :: cma where
  "cma_start = \<lparr>dma_size = 0, cpu_addr = Null, dma_addr = 0, dma_mask = 0, calls = []\<rparr>"

section \<open>Operations\<close>

definition CMA_ALLOC :: u32 where "CMA_ALLOC = 0xC0045A00"

definition ENOTTY :: int where "ENOTTY = 25"
definition ENOMEM :: int where "ENOMEM = 12"

definition cma_free :: "cma \<Rightarrow> cma" where
  "cma_free s =
    (if cpu_addr s = Null then s
     else (call (DmaFree (dma_size s) (cpu_addr s) (dma_addr s)) s)\<lparr>cpu_addr := Null\<rparr>)"

text \<open>What the calls of one \<open>ioctl\<close> deliver: the bytes not copied and the word read; the allocation and what it has
  stored in \<open>dma_addr\<close>; the bytes not copied back.\<close>

record ioctl_io =
  left_in :: nat
  asked :: u32
  allocated :: allocation
  bus_addr :: u32
  left_out :: nat

definition cma_ioctl :: "u32 \<Rightarrow> ioctl_io \<Rightarrow> cma \<Rightarrow> int \<times> cma" where
  "cma_ioctl cmd io s =
    (if cmd \<noteq> CMA_ALLOC then (- ENOTTY, s)
     else if left_in io \<noteq> 0 then (int (left_in io), s)
     else let s = (cma_free s)\<lparr>dma_size := asked io, dma_addr := bus_addr io\<rparr>
          in case allocated io of
               Null \<Rightarrow> (- ENOMEM, s\<lparr>cpu_addr := Null\<rparr>)
             | ErrPtr e \<Rightarrow> (if e = 0 then - ENOMEM else e, s\<lparr>cpu_addr := Null\<rparr>)
             | Block cpu \<Rightarrow>
                 let s = call (DmaAlloc (dma_size s) cpu (dma_addr s)) (s\<lparr>cpu_addr := Block cpu\<rparr>)
                 in if left_out io = 0 then (0, call (CopyToUser (dma_addr s)) s) else (int (left_out io), s))"

definition cma_mmap :: "cma \<Rightarrow> cma" where
  "cma_mmap s = call (DmaMmap (cpu_addr s) (dma_addr s) (dma_size s)) s"

definition cma_release :: "cma \<Rightarrow> cma" where
  "cma_release s = cma_free s"

definition cma_init :: "int \<Rightarrow> cma \<Rightarrow> int \<times> cma" where
  "cma_init rc s = (if rc \<noteq> 0 then (rc, s) else (0, (call MiscRegister s)\<lparr>dma_mask := mask 32\<rparr>))"

definition cma_exit :: "cma \<Rightarrow> cma" where
  "cma_exit s = call MiscDeregister (cma_free s)"

section \<open>Sequences of operations\<close>

text \<open>The operations of all files that have the device open, in the order in which they happen; \<open>Release\<close> is the last
  \<open>close\<close> of one of them.\<close>

datatype file_op = Ioctl u32 ioctl_io | Mmap | Release

fun cma_op :: "file_op \<Rightarrow> cma \<Rightarrow> cma" where
  "cma_op (Ioctl cmd io) s = snd (cma_ioctl cmd io s)"
| "cma_op Mmap s = cma_mmap s"
| "cma_op Release s = cma_release s"

definition cma_loaded :: "file_op list \<Rightarrow> cma" where
  "cma_loaded ops = fold cma_op ops (snd (cma_init 0 cma_start))"

section \<open>The blocks that are allocated\<close>

text \<open>Replaying the calls: the blocks that are allocated and not freed; \<open>None\<close> when something is freed that is
  not allocated with that size and these addresses.\<close>

fun after_call :: "kernel_call \<Rightarrow> (u32 \<times> u32 \<times> u32) list \<Rightarrow> (u32 \<times> u32 \<times> u32) list option" where
  "after_call (DmaAlloc n cpu dma) B = Some ((n, cpu, dma) # B)"
| "after_call (DmaFree n (Block cpu) dma) B = (if (n, cpu, dma) \<in> set B then Some (remove1 (n, cpu, dma) B) else None)"
| "after_call (DmaFree n _ dma) B = None"
| "after_call _ B = Some B"

definition blocks :: "kernel_call list \<Rightarrow> (u32 \<times> u32 \<times> u32) list option" where
  "blocks cs = run_all after_call cs []"

text \<open>What the module believes to own.\<close>

definition owned :: "cma \<Rightarrow> (u32 \<times> u32 \<times> u32) list" where
  "owned s = (case cpu_addr s of Block cpu \<Rightarrow> [(dma_size s, cpu, dma_addr s)] | _ \<Rightarrow> [])"

definition accounts :: "cma \<Rightarrow> bool" where
  "accounts s \<longleftrightarrow> blocks (calls s) = Some (owned s) \<and> (\<forall>e. cpu_addr s \<noteq> ErrPtr e)"

lemma blocks_append: "blocks (cs @ ds) = Option.bind (blocks cs) (run_all after_call ds)"
  by (cases "blocks cs") (simp_all add: blocks_def run_all_append)

lemma cma_simps [simp]:
  "calls (call c s) = calls s @ [c]" "cpu_addr (call c s) = cpu_addr s" "dma_addr (call c s) = dma_addr s"
  "dma_size (call c s) = dma_size s" "dma_mask (call c s) = dma_mask s"
  by (simp_all add: call_def)

lemma cma_owned [simp]:
  "owned (call c s) = owned s" "cpu_addr s = Null \<Longrightarrow> owned s = []"
  "cpu_addr s = Block cpu \<Longrightarrow> owned s = [(dma_size s, cpu, dma_addr s)]"
  by (simp_all add: owned_def cong: allocation.case_cong)

lemma cma_free_accounts: "accounts s \<Longrightarrow> accounts (cma_free s) \<and> cpu_addr (cma_free s) = Null \<and> blocks (calls (cma_free s)) = Some []"
  by (cases "cpu_addr s") (auto simp: accounts_def cma_free_def owned_def blocks_append)

section \<open>Overlapping calls\<close>

text \<open>Where a thread is inside an operation: each constructor is a statement still to be executed, with what the kernel will deliver
  to an \<open>ioctl\<close>; in \<open>cma_free\<close>, \<open>None\<close> when it has been called by \<open>release\<close>.\<close>

datatype cma_pc =
    Finished
  | TestFree "ioctl_io option" | CallFree "ioctl_io option" | ClearCpu "ioctl_io option"
  | SetSize ioctl_io | CallAlloc ioctl_io | SetCpu ioctl_io | TestCpu ioctl_io | ClearErr ioctl_io | CopyOut ioctl_io
  | CallMmap

fun enter :: "file_op \<Rightarrow> cma_pc" where
  "enter (Ioctl cmd io) = (if cmd \<noteq> CMA_ALLOC \<or> left_in io \<noteq> 0 then Finished else TestFree (Some io))"
| "enter Mmap = CallMmap"
| "enter Release = TestFree None"

definition after_free :: "ioctl_io option \<Rightarrow> cma_pc" where
  "after_free k = (case k of None \<Rightarrow> Finished | Some io \<Rightarrow> SetSize io)"

fun advance :: "cma_pc \<times> cma \<Rightarrow> cma_pc \<times> cma" where
  "advance (Finished, s) = (Finished, s)"
| "advance (TestFree k, s) = (if cpu_addr s = Null then (after_free k, s) else (CallFree k, s))"
| "advance (CallFree k, s) = (ClearCpu k, call (DmaFree (dma_size s) (cpu_addr s) (dma_addr s)) s)"
| "advance (ClearCpu k, s) = (after_free k, s\<lparr>cpu_addr := Null\<rparr>)"
| "advance (SetSize io, s) = (CallAlloc io, s\<lparr>dma_size := asked io\<rparr>)"
| "advance (CallAlloc io, s) =
    (SetCpu io, let s = s\<lparr>dma_addr := bus_addr io\<rparr>
                in case allocated io of Block cpu \<Rightarrow> call (DmaAlloc (dma_size s) cpu (dma_addr s)) s | _ \<Rightarrow> s)"
| "advance (SetCpu io, s) = (TestCpu io, s\<lparr>cpu_addr := allocated io\<rparr>)"
| "advance (TestCpu io, s) = ((case cpu_addr s of Block _ \<Rightarrow> CopyOut io | _ \<Rightarrow> ClearErr io), s)"
| "advance (ClearErr io, s) = (Finished, s\<lparr>cpu_addr := Null\<rparr>)"
| "advance (CopyOut io, s) = (Finished, if left_out io = 0 then call (CopyToUser (dma_addr s)) s else s)"
| "advance (CallMmap, s) = (Finished, call (DmaMmap (cpu_addr s) (dma_addr s) (dma_size s)) s)"

text \<open>A thread that executes an operation without interruption does what the function says.\<close>

lemma advance_all: "(advance ^^ 8) (enter p, s) = (Finished, cma_op p s)"
proof -
  have f: "(advance ^^ 8) x = advance (advance (advance (advance (advance (advance (advance (advance x)))))))" for x
    by (simp add: numeral_eq_Suc)
  show ?thesis
  proof (cases p)
    case (Ioctl cmd io)
    then show ?thesis
      unfolding f by (cases "cpu_addr s"; cases "allocated io") (auto simp: after_free_def cma_ioctl_def cma_free_def Let_def call_def)
  next
    case Mmap
    then show ?thesis unfolding f by (simp add: cma_mmap_def)
  next
    case Release
    then show ?thesis unfolding f by (cases "cpu_addr s") (simp_all add: after_free_def cma_release_def cma_free_def call_def)
  qed
qed

text \<open>The threads take their steps in any order.  \<open>alone\<close> is what the module does not see to: that a thread enters an operation only when
  no other one is inside.\<close>

inductive cma_reach :: "bool \<Rightarrow> (nat \<Rightarrow> cma_pc) \<times> cma \<Rightarrow> bool" for alone where
  loaded: "cma_reach alone (\<lambda>_. Finished, snd (cma_init 0 cma_start))"
| entered: "cma_reach alone (ts, s) \<Longrightarrow> ts t = Finished \<Longrightarrow> alone \<longrightarrow> (\<forall>u. ts u = Finished) \<Longrightarrow> cma_reach alone (ts(t := enter p), s)"
| advanced: "cma_reach alone (ts, s) \<Longrightarrow> advance (ts t, s) = (pc, s') \<Longrightarrow> cma_reach alone (ts(t := pc), s')"

lemma reach_advances: "cma_reach alone (ts, s) \<Longrightarrow> (advance ^^ n) (ts t, s) = (pc, s') \<Longrightarrow> cma_reach alone (ts(t := pc), s')"
proof (induction n arbitrary: pc s')
  case (Suc n)
  obtain pc1 s1 where one: "(advance ^^ n) (ts t, s) = (pc1, s1)" by fastforce
  then have "cma_reach alone (ts(t := pc1), s1)" using Suc by blast
  moreover have "advance (pc1, s1) = (pc, s')" using Suc.prems(2) one by simp
  ultimately show ?case using cma_reach.advanced [of alone "ts(t := pc1)" s1 t pc s'] by (simp only: fun_upd_same fun_upd_upd)
qed (auto simp: fun_upd_idem)

lemma reach_op: "cma_reach alone (\<lambda>_. Finished, s) \<Longrightarrow> cma_reach alone (\<lambda>_. Finished, cma_op p s)"
proof -
  assume "cma_reach alone (\<lambda>_. Finished, s)"
  then have "cma_reach alone ((\<lambda>_. Finished)(0 := enter p), s)" by (intro cma_reach.entered) simp_all
  from reach_advances [OF this, of 8 0 Finished] advance_all [of p s] show ?thesis
    by (simp add: fun_upd_idem)
qed

lemma reach_loaded: "cma_reach alone (\<lambda>_. Finished, cma_loaded ops)"
proof -
  have "cma_reach alone (\<lambda>_. Finished, s) \<Longrightarrow> cma_reach alone (\<lambda>_. Finished, fold cma_op ops s)" for s
    by (induction ops arbitrary: s) (simp_all add: reach_op)
  then show ?thesis by (simp add: cma_loaded_def cma_reach.loaded)
qed

section \<open>The account of the blocks\<close>

text \<open>What holds while one thread is inside: the block it has allocated, or has not given back yet, is the only one.\<close>

fun inside_ok :: "cma_pc \<Rightarrow> cma \<Rightarrow> bool" where
  "inside_ok (CallFree k) s \<longleftrightarrow> accounts s \<and> cpu_addr s \<noteq> Null"
| "inside_ok (ClearCpu k) s \<longleftrightarrow> blocks (calls s) = Some []"
| "inside_ok (SetSize io) s \<longleftrightarrow> blocks (calls s) = Some [] \<and> cpu_addr s = Null"
| "inside_ok (CallAlloc io) s \<longleftrightarrow> blocks (calls s) = Some [] \<and> cpu_addr s = Null"
| "inside_ok (SetCpu io) s \<longleftrightarrow> blocks (calls s) = Some (owned (s\<lparr>cpu_addr := allocated io\<rparr>))"
| "inside_ok (TestCpu io) s \<longleftrightarrow> blocks (calls s) = Some (owned s)"
| "inside_ok (ClearErr io) s \<longleftrightarrow> blocks (calls s) = Some []"
| "inside_ok _ s \<longleftrightarrow> accounts s"

lemma inside_ok_blocks: "inside_ok pc s \<Longrightarrow> \<exists>B. blocks (calls s) = Some B"
  by (cases pc) (auto simp: accounts_def)

lemma inside_ok_enter: "accounts s \<Longrightarrow> inside_ok (enter p) s"
  by (cases p) simp_all

lemma inside_ok_free: "blocks (calls s) = Some [] \<Longrightarrow> cpu_addr s = Null \<Longrightarrow> inside_ok (after_free k) s"
  by (cases k) (simp_all add: after_free_def accounts_def)

lemma inside_ok_advance: "inside_ok pc s \<Longrightarrow> advance (pc, s) = (pc', s') \<Longrightarrow> inside_ok pc' s'"
proof (cases pc)
  case (TestFree k)
  moreover assume "inside_ok pc s" "advance (pc, s) = (pc', s')"
  ultimately show ?thesis by (auto simp: accounts_def intro: inside_ok_free split: if_splits)
next
  case (CallFree k)
  moreover assume "inside_ok pc s" "advance (pc, s) = (pc', s')"
  ultimately show ?thesis by (cases "cpu_addr s") (auto simp: accounts_def blocks_append)
next
  case (ClearCpu k)
  moreover assume "inside_ok pc s" "advance (pc, s) = (pc', s')"
  ultimately show ?thesis by (auto intro: inside_ok_free)
next
  case (CallAlloc io)
  moreover assume "inside_ok pc s" "advance (pc, s) = (pc', s')"
  ultimately show ?thesis by (cases "allocated io") (auto simp: owned_def blocks_append Let_def)
next
  case (TestCpu io)
  moreover assume "inside_ok pc s" "advance (pc, s) = (pc', s')"
  ultimately show ?thesis by (cases "cpu_addr s") (auto simp: owned_def accounts_def)
next
  case (SetCpu io)
  moreover assume "inside_ok pc s" "advance (pc, s) = (pc', s')"
  ultimately show ?thesis by auto
qed (auto simp: accounts_def blocks_append split: if_splits)

lemma alone_inside:
  assumes "cma_reach True x"
  shows "\<exists>t. (\<forall>u. u \<noteq> t \<longrightarrow> fst x u = Finished) \<and> inside_ok (fst x t) (snd x)"
  using assms
proof (induction rule: cma_reach.induct)
  case loaded
  then show ?case by (simp add: cma_init_def accounts_def cma_start_def owned_def blocks_def call_def)
next
  case (entered ts s t p)
  then have "accounts s" by auto
  with entered show ?case by (intro exI [of _ t]) (simp add: inside_ok_enter)
next
  case (advanced ts s t pc s')
  then obtain u where u: "\<forall>w. w \<noteq> u \<longrightarrow> ts w = Finished" "inside_ok (ts u) s" by auto
  show ?case
  proof (cases "t = u")
    case True
    then show ?thesis using u advanced.hyps(2) inside_ok_advance [of "ts u" s pc s'] by (intro exI [of _ u]) simp
  next
    case False
    then have "pc = Finished" "s' = s" using u advanced.hyps(2) by auto
    then show ?thesis using u False by (intro exI [of _ u]) simp
  qed
qed

text \<open>Two releases that overlap: both threads have seen the block before either clears the pointer.\<close>

definition race_io :: ioctl_io where
  "race_io = \<lparr>left_in = 0, asked = 8388608, allocated = Block 0xC0000000, bus_addr = 0x1E000000, left_out = 0\<rparr>"

lemma race_reached:
  "\<exists>ts s. cma_reach False (ts, s) \<and> blocks (calls s) = None"
proof -
  let ?s = "cma_loaded [Ioctl CMA_ALLOC race_io]"
  have s: "cpu_addr ?s = Block 0xC0000000" "dma_size ?s = 8388608" "dma_addr ?s = 0x1E000000"
    "blocks (calls ?s) = Some [(8388608, 0xC0000000, 0x1E000000)]"
    by (simp_all add: cma_loaded_def cma_init_def cma_start_def cma_ioctl_def cma_free_def race_io_def Let_def call_def blocks_def)
  let ?a = "(\<lambda>_. Finished)(0 := TestFree None)"
  have "cma_reach False (?a, ?s)"
    using cma_reach.entered [OF reach_loaded, of False 0 Release "[Ioctl CMA_ALLOC race_io]"] by simp
  then have "cma_reach False (?a(1 := TestFree None), ?s)"
    using cma_reach.entered [of False ?a ?s 1 Release] by simp
  then have "cma_reach False ((?a(1 := TestFree None))(0 := CallFree None), ?s)"
    by (rule cma_reach.advanced) (simp add: s)
  then have "cma_reach False (((?a(1 := TestFree None))(0 := CallFree None))(1 := CallFree None), ?s)"
    by (rule cma_reach.advanced) (simp add: s)
  moreover define s1 where "s1 = call (DmaFree 8388608 (Block 0xC0000000) 0x1E000000) ?s"
  ultimately have "cma_reach False ((((?a(1 := TestFree None))(0 := CallFree None))(1 := CallFree None))(0 := ClearCpu None), s1)"
    by (elim cma_reach.advanced) (simp add: s)
  then have "cma_reach False (((((?a(1 := TestFree None))(0 := CallFree None))(1 := CallFree None))(0 := ClearCpu None))(1 := ClearCpu None),
      call (DmaFree 8388608 (Block 0xC0000000) 0x1E000000) s1)"
    by (rule cma_reach.advanced) (simp add: s1_def s)
  moreover have "blocks (calls (call (DmaFree 8388608 (Block 0xC0000000) 0x1E000000) s1)) = None"
    by (simp add: s1_def blocks_append s)
  ultimately show ?thesis by blast
qed

text \<open>C40: as long as a program calls the module only when no other call is running, whatever the programs ask and the allocator answers,
  nothing is ever freed that is not allocated with that size and these addresses, between two calls the module owns exactly the block
  that it has allocated last, and nothing is left when it is unloaded.  The module itself takes no lock: when calls overlap, a
  state can be reached in which the same block has been freed twice.\<close>

theorem cma_block_account:
  assumes "cma_reach True (ts, s)"
  shows "(\<exists>B. blocks (calls s) = Some B) \<and>
    ((\<forall>t. ts t = Finished) \<longrightarrow> blocks (calls s) = Some (owned s) \<and> blocks (calls (cma_exit s)) = Some []) \<and>
    (\<exists>ts' s'. cma_reach False (ts', s') \<and> blocks (calls s') = None)"
proof -
  obtain t where t: "inside_ok (ts t) s" using alone_inside [OF assms] by auto
  have "accounts s" if "\<forall>t. ts t = Finished" using t that by simp
  then have "(\<forall>t. ts t = Finished) \<longrightarrow> blocks (calls s) = Some (owned s) \<and> blocks (calls (cma_exit s)) = Some []"
    using cma_free_accounts [of s] by (auto simp: accounts_def cma_exit_def blocks_append)
  with inside_ok_blocks [OF t] race_reached show ?thesis by blast
qed

text \<open>A server that has got a block and mapped it.\<close>

theorem cma_block_account_witness:
  "blocks (calls (cma_loaded [Ioctl CMA_ALLOC race_io, Mmap])) = Some [(8388608, 0xC0000000, 0x1E000000)]"
proof -
  let ?s = "cma_loaded [Ioctl CMA_ALLOC race_io, Mmap]"
  have "owned ?s = [(8388608, 0xC0000000, 0x1E000000)]"
    by (simp add: owned_def cma_loaded_def cma_init_def cma_start_def cma_ioctl_def cma_mmap_def cma_free_def race_io_def Let_def call_def)
  with cma_block_account [OF reach_loaded, of "[Ioctl CMA_ALLOC race_io, Mmap]"] show ?thesis by simp
qed

section \<open>Results of \<open>ioctl\<close>\<close>

text \<open>0 if and only if the caller has got the address of a block that is its own now.\<close>

lemma cma_ioctl_result:
  assumes "\<And>e. allocated io = ErrPtr e \<Longrightarrow> e < 0"
  shows "fst (cma_ioctl cmd io s) = 0 \<longleftrightarrow>
    (cmd = CMA_ALLOC \<and> left_in io = 0 \<and> left_out io = 0 \<and>
     (\<exists>cpu. allocated io = Block cpu \<and> owned (snd (cma_ioctl cmd io s)) = [(asked io, cpu, bus_addr io)] \<and>
       last (calls (snd (cma_ioctl cmd io s))) = CopyToUser (bus_addr io)))"
  using assms
  by (cases "allocated io") (auto simp: cma_ioctl_def Let_def ENOTTY_def ENOMEM_def split: if_splits)

text \<open>The servers test the result with \<open>< 0\<close>: they take bytes that could not be copied for success.\<close>

lemma cma_ioctl_fault: "left_in io \<noteq> 0 \<Longrightarrow> 0 < fst (cma_ioctl CMA_ALLOC io s) \<and> snd (cma_ioctl CMA_ALLOC io s) = s"
  by (simp add: cma_ioctl_def)

section \<open>Mappings\<close>

text \<open>A server that asks and then maps, before any other file does something, maps the block whose address it has got.\<close>

lemma cma_server:
  assumes "allocated io = Block cpu" "left_in io = 0" "left_out io = 0"
  shows "\<exists>cs. calls (cma_loaded (ops @ [Ioctl CMA_ALLOC io, Mmap])) =
      cs @ [DmaAlloc (asked io) cpu (bus_addr io), CopyToUser (bus_addr io), DmaMmap (Block cpu) (bus_addr io) (asked io)] \<and>
    blocks (calls (cma_loaded (ops @ [Ioctl CMA_ALLOC io, Mmap]))) = Some [(asked io, cpu, bus_addr io)]"
proof (intro exI conjI)
  let ?s = "cma_loaded ops"
  show "calls (cma_loaded (ops @ [Ioctl CMA_ALLOC io, Mmap])) =
      calls (cma_free ?s) @ [DmaAlloc (asked io) cpu (bus_addr io), CopyToUser (bus_addr io), DmaMmap (Block cpu) (bus_addr io) (asked io)]"
    using assms by (simp add: cma_loaded_def cma_ioctl_def cma_mmap_def Let_def)
  show "blocks (calls (cma_loaded (ops @ [Ioctl CMA_ALLOC io, Mmap]))) = Some [(asked io, cpu, bus_addr io)]"
    using alone_inside [OF reach_loaded, of "ops @ [Ioctl CMA_ALLOC io, Mmap]"] assms
    by (auto simp: accounts_def cma_loaded_def cma_ioctl_def cma_mmap_def Let_def)
qed

text \<open>\<open>cma_mmap\<close> does not look whether there is a block.  When another program has opened and closed the device in between, the
  server maps memory that the kernel has got back.\<close>

theorem cma_stale_mapping:
  "let io = \<lparr>left_in = 0, asked = 8388608, allocated = Block 0xC0000000, bus_addr = 0x1E000000, left_out = 0\<rparr>;
       s = cma_loaded [Ioctl CMA_ALLOC io, Release, Mmap]
   in last (calls s) = DmaMmap Null 0x1E000000 8388608 \<and> blocks (calls s) = Some []"
  by (simp add: cma_loaded_def cma_init_def cma_start_def cma_ioctl_def cma_release_def cma_free_def cma_mmap_def call_def blocks_def)

end
