(* ===== verification/Tools.thy ===== *)
theory Tools imports Mmio Cargs Dds Singles Loops begin

text \<open>
  The small programs of common_tools: gpio-output, led-output, i2c-write, measure-corr, measure-level, temp0, sleep-to-59 and
  sleep-rand; and the three versions of gen.c, which set a signal generator.  \<open>None\<close> is \<open>EXIT_FAILURE\<close>, unless
  something else is said.
\<close>

section \<open>gpio-output.c, led-output.c, i2c-write.c\<close>

definition one_number :: "int \<Rightarrow> int \<Rightarrow> string list \<Rightarrow> int option" where
  "one_number lo hi args = (case args of [arg] \<Rightarrow> number_arg lo hi arg | _ \<Rightarrow> None)"

definition byte_output :: "nat \<Rightarrow> string list \<Rightarrow> 'a dev_scheme \<Rightarrow> 'a dev_scheme option" where
  "byte_output a args s = do { number \<leftarrow> one_number 0 255 args; Some (put8 a (word_of_int number) s) }"

definition led_output :: "string list \<Rightarrow> 'a dev_scheme \<Rightarrow> 'a dev_scheme option" where
  "led_output = byte_output 2"

definition gpio_output :: "string list \<Rightarrow> 'a dev_scheme \<Rightarrow> 'a dev_scheme option" where
  "gpio_output = byte_output 3"

text \<open>The result is the exit status and what is sent on the bus; \<open>selected\<close> and \<open>written\<close> are the results of
  \<open>ioctl\<close> and \<open>write\<close>.\<close>

definition dac_message :: "int \<Rightarrow> u8 list" where
  "dac_message number = [word_of_int (number div 256), word_of_int number]"

definition i2c_write :: "string list \<Rightarrow> bool \<Rightarrow> bool \<Rightarrow> bool \<Rightarrow> bool \<times> ev list" where
  "i2c_write args opened selected written =
    (case one_number 0 4095 args of None \<Rightarrow> (False, [])
     | Some number \<Rightarrow>
         if opened \<and> selected then (written, [Slave 0x60, I2c (dac_message number)])
         else (False, if opened then [Slave 0x60] else []))"

text \<open>The MCP4725 reads the upper four bits of the first byte as a command; 0 writes the converter.\<close>

lemma dac_message_decodes:
  assumes "0 \<le> n" "n \<le> 4095"
  shows "\<exists>hi lo. dac_message n = [hi, lo] \<and> unat hi < 16 \<and> int (unat hi * 256 + unat lo) = n"
proof -
  have "0 \<le> n div 256" "n div 256 < 16" using assms by auto
  then have hi: "unat (word_of_int (n div 256) :: u8) < 16" and u: "uint (word_of_int (n div 256) :: u8) = n div 256" "uint (word_of_int n :: u8) = n mod 256"
    by (simp_all add: unat_eq_nat_uint uint_word_of_int del: nat_uint_eq)
  have "n div 256 * 256 + n mod 256 = n" by simp
  then show ?thesis using hi by (simp add: dac_message_def u)
qed

section \<open>measure-corr.c\<close>

text \<open>The frequency is compared with the two doubles that are meant; \<open>strtod\<close> gives \<open>errno\<close>, the characters read and the value.\<close>

definition f122_88 :: dbl where "f122_88 = rnd (12288 / 100)"

definition freq_arg :: "(string \<Rightarrow> bool \<times> nat \<times> dbl) \<Rightarrow> string \<Rightarrow> dbl option" where
  "freq_arg strtod arg =
    (let (range, consumed, freq) = strtod arg
     in if range \<or> consumed = 0 \<or> freq \<noteq> f122_88 \<and> freq \<noteq> 125 then None else Some freq)"

definition measure_args :: "(string \<Rightarrow> bool \<times> nat \<times> dbl) \<Rightarrow> string list \<Rightarrow> (dbl \<times> int) option" where
  "measure_args strtod args =
    (case args of
       [a, b] \<Rightarrow> do { freq \<leftarrow> freq_arg strtod a; time \<leftarrow> number_arg 1 30 b; Some (freq, time) }
     | _ \<Rightarrow> None)"

text \<open>The sum over \<open>time\<close> intervals between pulses; the FIFO holds the cycles of each, less one.\<close>

definition pps_sum :: "(nat \<Rightarrow> u32) \<Rightarrow> nat \<Rightarrow> u32" where
  "pps_sum fifo n = fold (\<lambda>i buffer. buffer + (fifo i + 1)) [0..<n] 0"

text \<open>\<open>corr\<close> for a sum that is not 0.  For 0 the quotient is infinite and out of range.\<close>

definition corr_value :: "dbl \<Rightarrow> int \<Rightarrow> u32 \<Rightarrow> rat" where
  "corr_value freq time buffer =
    sgl (fmul (fsub (fdiv (fmul (fmul freq 1000000) (of_int time)) (of_nat (unat buffer))) 1) 1000000)"

definition measure_corr :: "(string \<Rightarrow> bool \<times> nat \<times> dbl) \<Rightarrow> string list \<Rightarrow> u16 \<Rightarrow> (nat \<Rightarrow> u32) \<Rightarrow> 'a dev_scheme \<Rightarrow> 'a dev_scheme \<times> rat option" where
  "measure_corr strtod args cntr fifo s =
    (case measure_args strtod args of None \<Rightarrow> (s, None)
     | Some (freq, time) \<Rightarrow>
         let s = pulse8 0 1 s
         in if int (unat cntr) < time then (s, None)
            else let buffer = pps_sum fifo (nat time); corr = corr_value freq time buffer
                 in if buffer = 0 \<or> corr < -100 \<or> corr > 100 then (s, None) else (s, Some corr))"

lemma nominal_clock: "freq = f122_88 \<or> freq = 125 \<Longrightarrow> \<exists>f0 :: int. fmul freq 1000000 = of_int f0 \<and> (f0 = 122880000 \<or> f0 = 125000000)"
proof (elim disjE)
  assume f: "freq = f122_88"
  have "f122_88 = of_int 8646911284551352 * 2 powi (6 - 52)"
    unfolding f122_88_def by (rule rnd_computes) (simp_all add: power_int_def power_divide)
  then have "f122_88 * 1000000 = 8646911284551352000000 / 2 ^ 46" by (simp add: power_int_def power_divide)
  then have "fmul f122_88 1000000 = of_int 8246337208320000 * 2 powi (26 - 52)"
    unfolding fmul_def by (intro rnd_computes) (simp_all add: power_int_def power_divide)
  then have "fmul f122_88 1000000 = 122880000" by (simp add: power_int_def power_divide)
  then show ?thesis unfolding f by (intro exI [of _ 122880000]) simp
next
  assume f: "freq = 125"
  have "fmul 125 1000000 = 125000000" using rnd_int [of 125000000] by (simp add: fmul_def)
  then show ?thesis unfolding f by (intro exI [of _ 125000000]) simp
qed

lemma pps_sum_Suc: "pps_sum fifo (Suc n) = pps_sum fifo n + (fifo n + 1)"
  by (simp add: pps_sum_def)

text \<open>Up to 30 intervals of at most \<open>2^27\<close> cycles do not overflow.\<close>

lemma pps_sum_exact:
  assumes "\<And>i. i < n \<Longrightarrow> unat (fifo i) < 2 ^ 27" and "n \<le> 30"
  shows "unat (pps_sum fifo n) = (\<Sum>i<n. unat (fifo i) + 1) \<and> unat (pps_sum fifo n) \<le> n * 2 ^ 27"
  using assms
proof (induction n)
  case (Suc n)
  then have IH: "unat (pps_sum fifo n) = (\<Sum>i<n. unat (fifo i) + 1)" "unat (pps_sum fifo n) \<le> n * 2 ^ 27" by simp_all
  have f: "unat (fifo n) < 2 ^ 27" using Suc.prems by simp
  then have one: "unat (fifo n + 1) = unat (fifo n) + 1" by (simp add: unat_word_ariths)
  then have "unat (pps_sum fifo (Suc n)) = unat (pps_sum fifo n) + (unat (fifo n) + 1)"
    unfolding pps_sum_Suc one [symmetric] using IH(2) f one Suc.prems(2) by (intro unat_add_lem [THEN iffD1]) simp
  then show ?case using IH f by simp
qed (simp add: pps_sum_def)

text \<open>The printed correction, in parts per million, is that of the measured clock to within a hundred thousandth.\<close>

lemma corr_value_error:
  assumes "freq = f122_88 \<or> freq = 125" and t: "1 \<le> time" "time \<le> 30" and b: "0 < unat buffer"
    and c: "\<bar>corr_value freq time buffer\<bar> \<le> 100"
  shows "\<exists>f0 \<in> {122880000, 125000000}. \<bar>corr_value freq time buffer - (f0 * of_int time / of_nat (unat buffer) - 1) * 1000000\<bar> \<le> 1 / 100000"
proof -
  obtain f0 :: int where f0: "fmul freq 1000000 = of_int f0" "f0 = 122880000 \<or> f0 = 125000000"
    using nominal_clock [OF assms(1)] by blast
  define B :: rat where "B = of_nat (unat buffer)"
  define q where "q = of_int (f0 * time) / B"
  define x where "x = fdiv (of_int (f0 * time)) B"
  define y where "y = fsub x 1"
  define z where "z = fmul y 1000000"
  have "\<bar>f0 * time\<bar> < 2 ^ 53" using f0(2) t by auto
  then have ft: "fmul (fmul freq 1000000) (of_int time) = of_int (f0 * time)"
    using rnd_int [of "f0 * time"] unfolding f0(1) by (simp add: fmul_def)
  have cz: "corr_value freq time buffer = sgl z" by (simp add: corr_value_def ft x_def y_def z_def B_def)
  have "0 < B" using b unfolding B_def by (simp only: of_nat_0_less_iff)
  moreover have "0 < f0 * time" using f0(2) t by auto
  ultimately have "0 < q" unfolding q_def by (simp only: divide_pos_pos of_int_0_less_iff)
  then have e1: "\<bar>x - q\<bar> \<le> q / 9007199254740992" using rnd_abs_err [of q q] by (simp add: x_def fdiv_def q_def)
  have e2: "\<bar>y - (x - 1)\<bar> \<le> \<bar>x - 1\<bar> / 9007199254740992" using rnd_abs_err [of "x - 1" "\<bar>x - 1\<bar>"] by (simp add: y_def fsub_def)
  have e3: "\<bar>z - y * 1000000\<bar> \<le> \<bar>y * 1000000\<bar> / 9007199254740992"
    using rnd_abs_err [of "y * 1000000" "\<bar>y * 1000000\<bar>"] by (simp add: z_def fmul_def)
  have e4: "\<bar>sgl z - z\<bar> \<le> \<bar>z\<bar> / 16777216" using sgl_err_abs [of z "\<bar>z\<bar>"] by simp
  have z: "\<bar>z\<bar> \<le> 1001/10" using e4 c unfolding cz abs_le_iff by (auto simp: abs_if split: if_splits)
  have y: "\<bar>y\<bar> \<le> 1002/10000000" using e3 z by (auto simp: abs_if split: if_splits)
  have x: "\<bar>x - 1\<bar> \<le> 1003/10000000" using e2 y by (auto simp: abs_if split: if_splits)
  have "q \<le> 2" using e1 x unfolding abs_le_iff by linarith
  then have "\<bar>x - q\<bar> \<le> 2 / 9007199254740992" using e1 by linarith
  moreover have "\<bar>y - (x - 1)\<bar> \<le> 1003 / 10000000 / 9007199254740992" using order_trans [OF e2 divide_right_mono [OF x]] by simp
  moreover have "\<bar>z - y * 1000000\<bar> \<le> 1 / 10000000" using e3 y by (simp add: abs_mult)
  moreover have "\<bar>sgl z - z\<bar> \<le> 1001/10 / 16777216" using order_trans [OF e4 divide_right_mono [OF z]] by simp
  ultimately have "\<bar>sgl z - (q - 1) * 1000000\<bar> \<le> 1 / 100000" unfolding abs_le_iff
    by (elim conjE, intro conjI) (simp_all add: field_simps)
  then have "\<bar>corr_value freq time buffer - (of_int f0 * of_int time / of_nat (unat buffer) - 1) * 1000000\<bar> \<le> 1 / 100000"
    by (simp add: cz q_def B_def)
  then show ?thesis using f0(2) by auto
qed

theorem measure_corr_accuracy:
  assumes args: "measure_args strtod args = Some (freq, time)" and corr: "measure_corr strtod args cntr fifo s = (t, Some c)"
    and cycles: "\<And>i. i < nat time \<Longrightarrow> unat (fifo i) < 2 ^ 27"
  shows "\<exists>f0 \<in> {122880000, 125000000}.
    \<bar>c - (f0 * of_int time / of_nat (\<Sum>i<nat time. unat (fifo i) + 1) - 1) * 1000000\<bar> \<le> 1 / 100000"
proof -
  have freq: "freq = f122_88 \<or> freq = 125" and t: "1 \<le> time" "time \<le> 30"
    using args number_arg_range [of 1 30]
    by (auto simp: measure_args_def freq_arg_def Let_def bind_eq_Some_conv split: list.splits prod.splits if_splits)
  define buffer where "buffer = pps_sum fifo (nat time)"
  have c: "c = corr_value freq time buffer" "\<bar>corr_value freq time buffer\<bar> \<le> 100" "buffer \<noteq> 0"
    using corr by (auto simp: measure_corr_def args Let_def buffer_def split: if_splits)
  have sum: "unat buffer = (\<Sum>i<nat time. unat (fifo i) + 1)"
    unfolding buffer_def using pps_sum_exact [of "nat time" fifo] cycles t by simp
  have "0 < unat buffer" using c(3) by (simp add: unat_gt_0)
  from corr_value_error [OF freq t this c(2)] show ?thesis unfolding sum c(1) by simp
qed

section \<open>measure-level.c\<close>

text \<open>The number of lit diodes of a channel, as the bits of \<open>15 >> (uint8_t)floor(-5.0 * log10(1.0 * level / scale))\<close>.  \<open>None\<close>
  is undefined behaviour: the logarithm of 0 is infinite, and a negative number cannot be converted to \<open>uint8_t\<close>.\<close>

definition level_bits :: "(dbl \<Rightarrow> dbl) \<Rightarrow> nat \<Rightarrow> u16 \<Rightarrow> u8 option" where
  "level_bits log10 scale level =
    (if level = 0 then None
     else let k = dfloor (fmul (-5) (log10 (fdiv (of_nat (unat level)) (of_nat scale))))
          in if 0 \<le> k \<and> k < 32 then Some (drop_bit (nat k) 15) else None)"

definition level_scale :: "dbl \<Rightarrow> nat" where
  "level_scale freq = (if freq = 125 then 8192 else 32768)"

definition level_led :: "(dbl \<Rightarrow> dbl) \<Rightarrow> dbl \<Rightarrow> u32 \<Rightarrow> u8 option" where
  "level_led log10 freq buffer =
    do { b0 \<leftarrow> level_bits log10 (level_scale freq) (ucast buffer);
         b1 \<leftarrow> level_bits log10 (level_scale freq) (ucast (drop_bit 16 buffer));
         Some (push_bit 4 b1 OR b0) }"

definition level_setup :: "dbl \<Rightarrow> int \<Rightarrow> 'a dev_scheme \<Rightarrow> 'a dev_scheme" where
  "level_setup freq time s =
    pulse8 1 1 (put32 4 (word_of_int (dfloor (fadd (fmul (fmul freq 1000000) (of_int time)) (1/2))) - 1) s)"

text \<open>A pass reads the counter and, if there is something, a word of the FIFO.\<close>

definition level_pass :: "(dbl \<Rightarrow> dbl) \<Rightarrow> dbl \<Rightarrow> u16 \<times> u32 \<Rightarrow> 'a dev_scheme \<Rightarrow> 'a dev_scheme option" where
  "level_pass log10 freq = (\<lambda>(cntr, buffer) s.
    if cntr < 1 then Some s else do { led \<leftarrow> level_led log10 freq buffer; Some (put8 2 led s) })"

text \<open>\<open>ios\<close> are the passes until the program is interrupted.\<close>

definition measure_level :: "(dbl \<Rightarrow> dbl) \<Rightarrow> dbl \<Rightarrow> int \<Rightarrow> (u16 \<times> u32) list \<Rightarrow> 'a dev_scheme \<Rightarrow> 'a dev_scheme option" where
  "measure_level log10 freq time ios s =
    do { s \<leftarrow> run_all (level_pass log10 freq) ios (level_setup freq time s);
         Some (clr8 1 1 (put8 2 0 s)) }"

text \<open>The measurement takes exactly the cycles of \<open>time\<close> seconds.\<close>

lemma level_setup_cycles:
  assumes "freq = f122_88 \<or> freq = 125" and "1 \<le> time" "time \<le> 30"
  shows "\<exists>f0 \<in> {122880000, 125000000}. uint (rd32 (cfg (level_setup freq time s)) 4) + 1 = f0 * time"
proof -
  obtain f0 :: int where f0: "fmul freq 1000000 = of_int f0" "f0 = 122880000 \<or> f0 = 125000000"
    using nominal_clock [OF assms(1)] by blast
  define n where "n = f0 * time"
  have n: "1 \<le> n" "n \<le> 3750000000" using f0(2) assms(2,3) by (auto simp: n_def)
  have product: "fmul (fmul freq 1000000) (of_int time) = of_int n"
    using rnd_int [of n] n unfolding f0(1) by (simp add: fmul_def n_def)
  have "rnd (of_int (2 * n + 1) * 2 powi (- 1)) = of_int (2 * n + 1) * 2 powi (- 1)"
    unfolding rnd_scale using n by (subst rnd_int) simp_all
  then have "dfloor (fadd (of_int n) (1/2)) = n"
    by (simp add: fadd_def dfloor_def power_int_def add_divide_distrib floor_eq_iff)
  then have "rd32 (cfg (level_setup freq time s)) 4 = word_of_int n - 1"
    by (simp add: level_setup_def product reg_simps)
  also have "word_of_int n - 1 = (word_of_int (n - 1) :: u32)" by simp
  finally have "uint (rd32 (cfg (level_setup freq time s)) 4) = n - 1" using n by (simp add: uint_word_of_int del: of_int_diff)
  then show ?thesis using f0(2) by (auto simp: n_def)
qed

text \<open>With a monotone logarithm every level from 1 to full scale is shown, full scale with all four diodes, and
  a higher level with at least as many.\<close>

lemma level_bits_shown:
  assumes mono: "\<And>x y. x \<le> y \<Longrightarrow> log10 x \<le> log10 y" and one: "log10 1 = 0" and least: "- 5 \<le> log10 (1 / 32768)"
    and scale: "scale = 8192 \<or> scale = 32768" and a: "0 < unat a" "unat a \<le> unat b" and b: "unat b \<le> scale"
  shows "\<exists>x y. level_bits log10 scale a = Some x \<and> level_bits log10 scale b = Some y \<and> x \<le> y \<and> (unat b = scale \<longrightarrow> y = 15)"
proof -
  define r where "r l = fdiv (of_nat l) (of_nat scale)" for l :: nat
  define k where "k l = \<lfloor>fmul (-5) (log10 (r l))\<rfloor>" for l
  have s: "0 < (of_nat scale :: rat)" using scale by auto
  have r_mono: "r l \<le> r m" if "l \<le> m" for l m
    unfolding r_def fdiv_def using that s by (intro rnd_mono divide_right_mono) simp_all
  have rs: "r scale = 1" using s rnd_int [of 1] by (simp add: r_def fdiv_def)
  have "r 1 = of_int 1 * 2 powi (- 13) \<or> r 1 = of_int 1 * 2 powi (- 15)"
    using scale rnd_scale [of 1 "- 13"] rnd_scale [of 1 "- 15"] rnd_int [of 1] by (auto simp: r_def fdiv_def power_int_def power_divide)
  then have "1 / 32768 \<le> r 1" by (auto simp: power_int_def power_divide)
  then have low: "1 / 32768 \<le> r l" if "0 < l" for l using r_mono [of 1 l] that by linarith
  have k_mono: "k m \<le> k l" if "l \<le> m" for l m
    unfolding k_def fmul_def using mono [OF r_mono [OF that]] by (intro floor_mono rnd_mono) simp
  have k0: "k scale = 0" by (simp add: k_def rs one fmul_def)
  have k_low: "k l \<le> 25" if "0 < l" for l
  proof -
    have "fmul (- 5) (log10 (r l)) \<le> rnd 25"
      unfolding fmul_def using order_trans [OF least mono [OF low [OF that]]] by (intro rnd_mono) simp
    then have "fmul (- 5) (log10 (r l)) \<le> 25" using rnd_int [of 25] by simp
    then show ?thesis by (simp add: k_def floor_le_iff)
  qed
  have shown: "level_bits log10 scale l = Some (drop_bit (nat (k (unat l))) 15)" "0 \<le> k (unat l)" if "0 < unat l" "unat l \<le> scale" for l
    using k_low [OF that(1)] k_mono [OF that(2)] k0 that(1) by (auto simp: level_bits_def Let_def k_def r_def dfloor_def)
  have falls: "drop_bit i (15 :: u8) \<le> drop_bit j 15" if "j \<le> i" for i j
    unfolding word_le_nat_alt unat_drop_bit_eq using that by (simp add: drop_bit_eq_div div_le_mono2 power_increasing)
  show ?thesis
    using shown [of a] shown [of b] a b k_mono [OF a(2)] k0 falls [of "nat (k (unat b))" "nat (k (unat a))"] by auto
qed

lemma level_bits_undefined:
  "level_bits log10 scale 0 = None"
  "0 < log10 (fdiv (of_nat (unat l)) (of_nat scale)) \<Longrightarrow> level_bits log10 scale l = None"
proof -
  show "level_bits log10 scale 0 = None" by (simp add: level_bits_def)
  assume pos: "0 < log10 (fdiv (of_nat (unat l)) (of_nat scale))"
  define x where "x = log10 (fdiv (of_nat (unat l)) (of_nat scale))"
  have "\<bar>rnd (- 5 * x) - - 5 * x\<bar> \<le> 5 * x / 9007199254740992" using pos by (intro rnd_abs_err) (simp add: x_def abs_mult)
  then have "rnd (- 5 * x) \<le> - 5 * x + 5 * x / 9007199254740992" unfolding abs_le_iff by linarith
  moreover have "0 < x" using pos by (simp add: x_def)
  ultimately have "fmul (- 5) x < 0" unfolding fmul_def by linarith
  then show "level_bits log10 scale l = None" by (simp add: level_bits_def Let_def dfloor_def x_def floor_less_zero)
qed

section \<open>temp0.c\<close>

text \<open>The three files are lines that \<open>atof\<close> reads; the sum, the product and the quotient are \<open>float\<close>s.\<close>

definition read_value :: "(string \<Rightarrow> dbl) \<Rightarrow> string option \<Rightarrow> rat option" where
  "read_value atof line = map_option (\<lambda>buffer. sgl (atof buffer)) line"

definition temp0 :: "(string \<Rightarrow> dbl) \<Rightarrow> string option \<Rightarrow> string option \<Rightarrow> string option \<Rightarrow> rat option" where
  "temp0 atof offset_line raw_line scale_line =
    do { off \<leftarrow> read_value atof offset_line; raw \<leftarrow> read_value atof raw_line; scl \<leftarrow> read_value atof scale_line;
         Some (sgl (sgl (sgl (off + raw) * scl) / 1000)) }"

text \<open>The rounding changes the temperature by at most a thousandth of a degree.\<close>

lemma temp0_error:
  assumes "temp0 atof (Some a) (Some b) (Some c) = Some t"
    and "0 \<le> sgl (atof a) + sgl (atof b)" "sgl (atof a) + sgl (atof b) \<le> 4096" and "0 \<le> sgl (atof c)" "sgl (atof c) \<le> 128"
  shows "\<bar>t - (sgl (atof a) + sgl (atof b)) * sgl (atof c) / 1000\<bar> \<le> 1 / 1000"
proof -
  define x where "x = sgl (atof a) + sgl (atof b)"
  define k where "k = sgl (atof c)"
  have x: "0 \<le> x" "x \<le> 4096" and k: "0 \<le> k" "k \<le> 128" using assms by (simp_all add: x_def k_def)
  have e1: "\<bar>sgl x - x\<bar> \<le> 4096 / 16777216" using x by (intro sgl_err_abs) simp
  have "0 \<le> sgl x" unfolding sgl_def using x by (intro rnd_bits_nonneg) simp_all
  moreover have "sgl x \<le> 4097" using e1 x unfolding abs_le_iff by linarith
  ultimately have y: "0 \<le> sgl x * k" "sgl x * k \<le> 4097 * 128" using k mult_mono [of "sgl x" 4097 k 128] by simp_all
  have e2: "\<bar>sgl (sgl x * k) - sgl x * k\<bar> \<le> 524416 / 16777216" using y by (intro sgl_err_abs) simp
  have z: "\<bar>sgl (sgl x * k) / 1000\<bar> \<le> 525" using e2 y unfolding abs_le_iff by auto
  have e3: "\<bar>t - sgl (sgl x * k) / 1000\<bar> \<le> 525 / 16777216"
    using sgl_err_abs [OF z] assms(1) by (simp add: temp0_def read_value_def x_def k_def)
  have "\<bar>sgl x * k - x * k\<bar> = \<bar>sgl x - x\<bar> * k" using k by (simp add: left_diff_distrib [symmetric] abs_mult)
  also have "\<dots> \<le> 4096 / 16777216 * 128" using e1 k by (intro mult_mono) simp_all
  finally have "\<bar>sgl x * k - x * k\<bar> \<le> 4096 / 16777216 * 128" .
  then have "\<bar>t - x * k / 1000\<bar> \<le> 1 / 1000" using e2 e3 unfolding abs_le_iff by (elim conjE, intro conjI) (simp_all add: field_simps)
  then show ?thesis by (simp add: x_def k_def)
qed

section \<open>sleep-to-59.c, sleep-rand.c\<close>

text \<open>The time to sleep as seconds and nanoseconds, from the time of the clock.  \<open>nanosleep\<close> refuses negative seconds and returns at once.\<close>

definition sleep_to_59 :: "int \<Rightarrow> int \<Rightarrow> int \<times> int" where
  "sleep_to_59 sec nsec = (58 - sec mod 60, 999999999 - nsec)"

definition sleep_rand :: "string list \<Rightarrow> int \<Rightarrow> int \<Rightarrow> (int \<times> int) option" where
  "sleep_rand args r1 r2 = do { number \<leftarrow> one_number 1 3600 args; Some (r1 mod number, r2 mod 1000 * 1000000) }"

text \<open>The program wakes up at the end of second 58 of the minute (one nanosecond before second 59), or is in second 59 already and does
  not sleep.\<close>

lemma sleep_to_59_wakes:
  assumes "0 \<le> sec" and "0 \<le> nsec" "nsec < 1000000000"
  shows "let (s, n) = sleep_to_59 sec nsec in
    0 \<le> n \<and> n < 1000000000 \<and> (s < 0 \<longleftrightarrow> sec mod 60 = 59) \<and>
    (sec + s) * 1000000000 + (nsec + n) = (60 * (sec div 60) + 59) * 1000000000 - 1"
proof -
  define m d where "m = sec mod 60" and "d = sec div 60"
  then have "sec = 60 * d + m" "0 \<le> m" "m < 60" by simp_all
  then show ?thesis using assms unfolding sleep_to_59_def m_def [symmetric] d_def [symmetric] by auto
qed

lemma sleep_rand_range:
  assumes "sleep_rand args r1 r2 = Some (s, n)" and "0 \<le> r1" "0 \<le> r2"
  shows "0 \<le> s \<and> s < 3600 \<and> 0 \<le> n \<and> n < 1000000000"
proof -
  obtain k where k: "1 \<le> k" "k \<le> 3600" and s: "s = r1 mod k" and n: "n = r2 mod 1000 * 1000000"
    using assms(1) number_arg_range [of 1 3600]
    by (auto simp: sleep_rand_def one_number_def bind_eq_Some_conv split: list.splits)
  have "0 \<le> s" "s < k" "0 \<le> r2 mod 1000" "r2 mod 1000 < 1000" using k by (simp_all add: s)
  then show ?thesis using k by (simp add: n)
qed

section \<open>gen.c\<close>

text \<open>The three copies differ in the clock, the largest frequency and the registers.\<close>

record gen =
  gen_clk :: int
  gen_fmax :: int
  gen_freq :: nat
  gen_level :: nat

definition gen_adc_test :: gen where
  "gen_adc_test = \<lparr>gen_clk = 125000000, gen_fmax = 61440000, gen_freq = 8, gen_level = 16\<rparr>"

definition gen_wide :: gen where
  "gen_wide = \<lparr>gen_clk = 125000000, gen_fmax = 62500000, gen_freq = 16, gen_level = 24\<rparr>"

definition gen_wide_122_88 :: gen where
  "gen_wide_122_88 = \<lparr>gen_clk = 122880000, gen_fmax = 61440000, gen_freq = 16, gen_level = 24\<rparr>"

definition gen_args :: "gen \<Rightarrow> string list \<Rightarrow> (int \<times> int \<times> int) option" where
  "gen_args g args =
    (case args of
       [a, b, c] \<Rightarrow> do { n0 \<leftarrow> number_arg long_min long_max a; n1 \<leftarrow> number_arg long_min long_max b;
                       n2 \<leftarrow> number_arg long_min long_max c;
                       if n0 < 1 \<or> n0 > 2 \<or> n1 < 0 \<or> n1 > 32766 \<or> n2 < 0 \<or> n2 > gen_fmax g then None else Some (n0, n1, n2) }
     | _ \<Rightarrow> None)"

definition gen_store :: "gen \<Rightarrow> int \<times> int \<times> int \<Rightarrow> 'a dev_scheme \<Rightarrow> 'a dev_scheme" where
  "gen_store g = (\<lambda>(n0, n1, n2) s.
    if n0 = 1 then put16 (gen_level g) (word_of_int n1) (put32 (gen_freq g) (dds_word (of_int (gen_clk g)) n2) s)
    else if n0 = 2 then put16 (gen_level g + 2) (word_of_int n1) (put32 (gen_freq g + 4) (dds_word (of_int (gen_clk g)) n2) s)
    else s)"

definition gen_main :: "gen \<Rightarrow> string list \<Rightarrow> 'a dev_scheme \<Rightarrow> 'a dev_scheme option" where
  "gen_main g args s = map_option (\<lambda>ns. gen_store g ns s) (gen_args g args)"

text \<open>A generator that is set has the phase increment nearest to its frequency and its level; the other keeps its own.\<close>

theorem gen_sets:
  assumes g: "g \<in> {gen_adc_test, gen_wide, gen_wide_122_88}" and t: "gen_main g args s = Some t"
  shows "\<exists>k \<in> {0, 1}. \<exists>level f. 0 \<le> level \<and> level \<le> 32766 \<and> 0 \<le> f \<and> f \<le> gen_fmax g \<and>
    unat (rd16 (cfg t) (gen_level g + 2 * k)) = nat level \<and>
    uint (rd32 (cfg t) (gen_freq g + 4 * k)) = round_half_up (f * 2 ^ 30) (gen_clk g) \<and>
    rd16 (cfg t) (gen_level g + 2 * (1 - k)) = rd16 (cfg s) (gen_level g + 2 * (1 - k)) \<and>
    rd32 (cfg t) (gen_freq g + 4 * (1 - k)) = rd32 (cfg s) (gen_freq g + 4 * (1 - k))"
proof -
  obtain n0 n1 n2 where n': "\<not> (n0 < 1 \<or> n0 > 2 \<or> n1 < 0 \<or> n1 > 32766 \<or> n2 < 0 \<or> n2 > gen_fmax g)" and t': "t = gen_store g (n0, n1, n2) s"
    using t by (auto simp: gen_main_def gen_args_def bind_eq_Some_conv split: list.splits if_splits)
  then have n: "n0 = 1 \<or> n0 = 2" "0 \<le> n1" "n1 \<le> 32766" "0 \<le> n2" "n2 \<le> gen_fmax g" by auto
  have clk: "gen_clk g = 125000000 \<and> n2 < 249000000 \<or> gen_clk g = 122880000 \<and> n2 < 249000000"
    using g n(5) by (auto simp: gen_adc_test_def gen_wide_def gen_wide_122_88_def)
  have inc: "dds_inc (of_int (gen_clk g)) n2 = round_half_up (n2 * 2 ^ 30) (gen_clk g)"
    using clk dds_inc_125 [OF n(4)] dds_inc_12288 [OF n(4)] by auto
  have "0 \<le> round_half_up (n2 * 2 ^ 30) (gen_clk g)" "round_half_up (n2 * 2 ^ 30) (gen_clk g) < 2 ^ 32"
    using clk n(4) round_half_up_bounds [of "gen_clk g" "n2 * 2 ^ 30"] by auto
  then have f: "uint (dds_word (of_int (gen_clk g)) n2) = round_half_up (n2 * 2 ^ 30) (gen_clk g)"
    by (simp add: dds_word_def inc uint_word_of_int)
  have l: "unat (word_of_int n1 :: u16) = nat n1" using n by (simp add: unat_eq_nat_uint uint_word_of_int del: nat_uint_eq)
  have apart: "gen_freq g + 8 \<le> gen_level g" using g by (auto simp: gen_adc_test_def gen_wide_def gen_wide_122_88_def)
  from n(1) show ?thesis
  proof
    assume "n0 = 1"
    then show ?thesis using n f l apart by (intro bexI [of _ 0] exI [of _ n1] exI [of _ n2]) (simp_all add: t' gen_store_def reg_simps)
  next
    assume "n0 = 2"
    then show ?thesis using n f l apart by (intro bexI [of _ 1] exI [of _ n1] exI [of _ n2]) (simp_all add: t' gen_store_def reg_simps)
  qed
qed

end
