(* ===== verification/Continuity.thy ===== *)
theory Continuity imports RingProps Singles begin

text \<open>
  The test clients of the servers that stream a ring, test-signal-continuity.c in four versions (adc_test, sdr_receiver_wide on two
  boards, radar_122_88): they look for jumps between neighbouring samples, which would show that the stream has a gap.
\<close>

section \<open>The largest step\<close>

text \<open>The loop over the samples of a buffer; neighbours are \<open>stride\<close> values apart, and \<open>counts\<close> excludes steps.\<close>

definition steps :: "('a \<Rightarrow> 'a \<Rightarrow> 'b) \<Rightarrow> nat \<Rightarrow> 'a list \<Rightarrow> 'b list" where
  "steps step stride xs = map (\<lambda>j. step (xs ! (stride * j)) (xs ! (stride * j - stride))) [1..<length xs div stride]"

definition largest_step :: "('a \<Rightarrow> 'a \<Rightarrow> 'b::{linorder,zero}) \<Rightarrow> ('b \<Rightarrow> bool) \<Rightarrow> nat \<Rightarrow> 'a list \<Rightarrow> 'b" where
  "largest_step step counts stride xs = fold (\<lambda>d dmax. if dmax < d \<and> counts d then d else dmax) (steps step stride xs) 0"

text \<open>What is printed for a buffer.\<close>

definition report :: "('a \<Rightarrow> 'a \<Rightarrow> 'b::{linorder,zero}) \<Rightarrow> ('b \<Rightarrow> bool) \<Rightarrow> nat \<Rightarrow> 'b \<Rightarrow> 'a list \<Rightarrow> 'b option" where
  "report step counts stride bound xs =
    (let dmax = largest_step step counts stride xs in if dmax > bound then Some dmax else None)"

lemma fold_largest_le:
  fixes a :: "'b::linorder"
  shows "fold (\<lambda>d dmax. if dmax < d \<and> counts d then d else dmax) ds a \<le> l \<longleftrightarrow> a \<le> l \<and> (\<forall>d \<in> set ds. counts d \<longrightarrow> a < d \<longrightarrow> d \<le> l)"
proof (induction ds arbitrary: a)
  case (Cons d ds)
  show ?case using Cons.IH [of d] Cons.IH [of a] by (auto simp: not_less)
qed simp

lemma fold_largest_in:
  fixes a :: "'b::linorder"
  shows "fold (\<lambda>d dmax. if dmax < d \<and> counts d then d else dmax) ds a = a \<or>
    fold (\<lambda>d dmax. if dmax < d \<and> counts d then d else dmax) ds a \<in> {d \<in> set ds. counts d}"
proof (induction ds arbitrary: a)
  case (Cons d ds)
  show ?case using Cons.IH [of d] Cons.IH [of a] by auto
qed simp

text \<open>Something is printed if and only if there is a step above the bound, and then the largest.\<close>

lemma report_iff:
  assumes "0 \<le> bound"
  shows "report step counts stride bound xs = None \<longleftrightarrow> (\<forall>d \<in> set (steps step stride xs). counts d \<longrightarrow> d \<le> bound)"
proof -
  have "largest_step step counts stride xs \<le> bound \<longleftrightarrow> (\<forall>d \<in> set (steps step stride xs). counts d \<longrightarrow> 0 < d \<longrightarrow> d \<le> bound)"
    using assms by (simp add: largest_step_def fold_largest_le)
  then show ?thesis using assms by (auto simp: report_def Let_def not_less)
qed

lemma report_largest:
  assumes "0 \<le> bound" and "report step counts stride bound xs = Some d"
  shows "d \<in> set (steps step stride xs) \<and> bound < d \<and> (\<forall>e \<in> set (steps step stride xs). counts e \<longrightarrow> e \<le> d)"
proof -
  have d: "largest_step step counts stride xs = d" "bound < d" using assms(2) by (auto simp: report_def Let_def split: if_splits)
  then have "d \<in> {d \<in> set (steps step stride xs). counts d}"
    using fold_largest_in [of counts "steps step stride xs" 0] assms(1) by (auto simp: largest_step_def)
  moreover have "\<forall>e \<in> set (steps step stride xs). counts e \<longrightarrow> 0 < e \<longrightarrow> e \<le> d"
    using d(1) fold_largest_le [of counts "steps step stride xs" 0 d] by (simp add: largest_step_def)
  moreover have "0 < d" using assms(1) d(2) by (rule le_less_trans)
  ultimately show ?thesis using d(2) by (auto simp: not_less)
qed

section \<open>Steps\<close>

text \<open>\<open>d = abs(data[i] - data[i - 1])\<close> with \<open>d\<close> an \<open>int16_t\<close>.\<close>

definition step16 :: "u16 \<Rightarrow> u16 \<Rightarrow> int" where
  "step16 x y = sint (word_of_int \<bar>sint x - sint y\<bar> :: u16)"

text \<open>A step of 32768 or more comes out negative, so that the largest jumps are not seen.\<close>

lemma step16_cases: "step16 x y = (if \<bar>sint x - sint y\<bar> < 32768 then \<bar>sint x - sint y\<bar> else \<bar>sint x - sint y\<bar> - 65536)"
proof -
  define d where "d = \<bar>sint x - sint y\<bar>"
  have "- 32768 \<le> sint x" "sint x < 32768" "- 32768 \<le> sint y" "sint y < 32768"
    using sint_range_size [of x] sint_range_size [of y] by (simp_all add: word_size)
  then have d: "0 \<le> d" "d < 65536" by (auto simp: d_def)
  have "sint (word_of_int d :: u16) = signed_take_bit 15 d" by (simp add: signed_of_int)
  moreover have "signed_take_bit 15 d = (if d < 32768 then d else d - 65536)"
  proof (cases "d < 32768")
    case True
    then show ?thesis using d by (simp add: signed_take_bit_int_eq_self)
  next
    case False
    then have "d div 32768 = 1" using d int_div_pos_eq [of d 32768 1 "d - 32768"] by simp
    then show ?thesis using d False
      by (simp add: signed_take_bit_eq_take_bit_minus take_bit_eq_mod bit_iff_odd_drop_bit drop_bit_eq_div)
  qed
  ultimately show ?thesis by (simp add: step16_def d_def)
qed

lemma step16_above: "0 \<le> bound \<Longrightarrow> bound < step16 x y \<longleftrightarrow> bound < \<bar>sint x - sint y\<bar> \<and> \<bar>sint x - sint y\<bar> < 32768"
proof -
  have "- 32768 \<le> sint x" "sint x < 32768" "- 32768 \<le> sint y" "sint y < 32768"
    using sint_range_size [of x] sint_range_size [of y] by (simp_all add: word_size)
  then show "0 \<le> bound \<Longrightarrow> bound < step16 x y \<longleftrightarrow> bound < \<bar>sint x - sint y\<bar> \<and> \<bar>sint x - sint y\<bar> < 32768" by (auto simp: step16_cases)
qed

text \<open>Single precision: the value of a finite number, and the step of two.\<close>

definition single_of :: "u32 \<Rightarrow> rat" where
  "single_of w =
    (let e = unat (drop_bit 23 w AND 255); m = unat (w AND 0x7fffff);
         v = (if e = 0 then of_nat m * 2 powi (- 149) else of_nat (8388608 + m) * 2 powi (int e - 150))
     in if bit w 31 then - v else v)"

definition step32 :: "u32 \<Rightarrow> u32 \<Rightarrow> rat" where
  "step32 x y = \<bar>sgl (single_of x - single_of y)\<bar>"

section \<open>The clients\<close>

definition words16 :: "u8 list \<Rightarrow> u16 list" where
  "words16 bs = map (\<lambda>i. ucast (bs ! (2 * i)) OR push_bit 8 (ucast (bs ! (2 * i + 1)))) [0..<length bs div 2]"

text \<open>The complete buffers that \<open>recv\<close> with \<open>MSG_WAITALL\<close> has filled from the bytes of the server.\<close>

definition buffers :: "nat \<Rightarrow> u8 list \<Rightarrow> u8 list list" where
  "buffers n bs = map (\<lambda>i. take n (drop (i * n) bs)) [0..<length bs div n]"

definition adc_continuity :: "u8 list \<Rightarrow> int option list" where
  "adc_continuity bs = map (\<lambda>data. report step16 (\<lambda>_. True) 1 10 (words16 data)) (buffers (2 * 4194304) bs)"

definition wide_continuity :: "u8 list \<Rightarrow> rat option list" where
  "wide_continuity bs = map (\<lambda>data. report step32 (\<lambda>_. True) 4 (rnd (5 / 1000)) (words32 data)) (buffers (16 * 524288) bs)"

definition wide_12288_continuity :: "u8 list \<Rightarrow> int option list" where
  "wide_12288_continuity bs = map (\<lambda>data. report step16 (\<lambda>_. True) 4 50 (words16 data)) (buffers (8 * 1048576) bs)"

text \<open>The commands that the clients of sdr_receiver_wide send first.\<close>

definition wide_commands :: "u32 list" where
  "wide_commands = [16, push_bit 28 1 + 2000000, push_bit 28 2 + 2000000]"

definition wide_12288_commands :: "u32 list" where
  "wide_12288_commands = [6, push_bit 28 1 + 10000000, push_bit 28 2 + 10000000]"

section \<open>Server and client\<close>

lemma buffers_of_stream:
  assumes "0 < n"
  shows "buffers n (map d [0..<m]) = map (\<lambda>i. map d [i * n..<i * n + n]) [0..<m div n]"
  unfolding buffers_def length_map length_upt minus_nat.diff_0
proof (rule map_cong [OF refl])
  fix i assume "i \<in> set [0..<m div n]"
  then have i: "i < m div n" by simp
  then have "Suc i * n \<le> m div n * n" by (intro mult_le_mono1) simp
  also have "\<dots> \<le> m" by (simp add: div_times_less_eq_dividend)
  finally have "i * n + n \<le> m" by simp
  then show "take n (drop (i * n) (map d [0..<m])) = map d [i * n..<i * n + n]"
    by (simp add: drop_map take_map)
qed

text \<open>Sample \<open>j\<close> of a stream of bytes.\<close>

definition stream16 :: "(nat \<Rightarrow> u8) \<Rightarrow> nat \<Rightarrow> u16" where
  "stream16 d j = ucast (d (2 * j)) OR push_bit 8 (ucast (d (2 * j + 1)))"

lemma words16_of_stream: "words16 (map d [2 * a..<2 * a + 2 * n]) = map (\<lambda>j. stream16 d (a + j)) [0..<n]"
  by (simp add: words16_def stream16_def algebra_simps)

lemma steps_of_stream: "steps step 1 (map f [0..<n]) = map (\<lambda>j. step (f j) (f (j - 1))) [1..<n]"
  unfolding steps_def by (rule map_cong) auto

text \<open>What the test of adc_test prints about its \<open>i\<close>th buffer.\<close>

definition adc_report :: "(nat \<Rightarrow> u8) \<Rightarrow> nat \<Rightarrow> int option" where
  "adc_report d i = report step16 (\<lambda>_. True) 1 10 (map (\<lambda>j. stream16 d (i * 4194304 + j)) [0..<4194304])"

lemma adc_continuity_of_stream: "adc_continuity (map d [0..<n]) = map (adc_report d) [0..<n div 8388608]"
proof -
  have "words16 (map d [i * (2 * 4194304)..<i * (2 * 4194304) + 2 * 4194304]) = map (\<lambda>j. stream16 d (i * 4194304 + j)) [0..<4194304]" for i
    using words16_of_stream [of d "i * 4194304" 4194304] by (simp only: mult.left_commute [of i 2])
  then show ?thesis
    unfolding adc_continuity_def adc_report_def by (subst buffers_of_stream) (simp_all only: map_map comp_def, simp_all)
qed

lemma adc_report_none:
  "adc_report d i = None \<longleftrightarrow> (\<forall>j \<in> {1..<4194304}. let a = sint (stream16 d (i * 4194304 + j)); b = sint (stream16 d (i * 4194304 + j - 1))
     in \<bar>a - b\<bar> \<le> 10 \<or> 32768 \<le> \<bar>a - b\<bar>)"
proof -
  have "adc_report d i = None \<longleftrightarrow> (\<forall>j \<in> {1..<4194304}. \<not> 10 < step16 (stream16 d (i * 4194304 + j)) (stream16 d (i * 4194304 + (j - 1))))"
    unfolding adc_report_def by (subst report_iff) (simp_all only: steps_of_stream set_map set_upt ball_simps not_less, simp_all)
  also have "\<dots> \<longleftrightarrow> (\<forall>j \<in> {1..<4194304}. let a = sint (stream16 d (i * 4194304 + j)); b = sint (stream16 d (i * 4194304 + j - 1))
     in \<bar>a - b\<bar> \<le> 10 \<or> 32768 \<le> \<bar>a - b\<bar>)"
  proof (intro ball_cong refl)
    fix j :: nat assume "j \<in> {1..<4194304}"
    then have "i * 4194304 + (j - 1) = i * 4194304 + j - 1" by auto
    then show "(\<not> 10 < step16 (stream16 d (i * 4194304 + j)) (stream16 d (i * 4194304 + (j - 1)))) \<longleftrightarrow>
      (let a = sint (stream16 d (i * 4194304 + j)); b = sint (stream16 d (i * 4194304 + j - 1)) in \<bar>a - b\<bar> \<le> 10 \<or> 32768 \<le> \<bar>a - b\<bar>)"
      using step16_above [of 10] by (auto simp: Let_def not_less)
  qed
  finally show ?thesis .
qed

lemma whole_rings:
  fixes n v :: nat
  shows "n * 32768 \<le> v \<Longrightarrow> v \<le> (n + 1) * 32768 \<Longrightarrow> n div 2 * 8388608 \<le> 128 * v \<and> 128 * v \<le> (n div 2 + 1) * 8388608"
  by (cases "even n") (auto elim!: evenE oddE)

text \<open>Composed with the server, while the FPGA keeps to its protocol: the client prints nothing if and only if no two neighbouring samples in a
  buffer of the stream itself differ by 11 to 32767.  In particular server and network add no jump.\<close>

theorem continuity_of_server:
  assumes "ring_hw (refuses adc_test) io w d" and "sent_bytes (log s) = []"
  shows "\<exists>n. adc_continuity (sent_bytes (log (passes (prog_pass adc_test) (map io [0..<k]) (connected adc_test s)))) = map (adc_report d) [0..<n] \<and>
    n * 8388608 \<le> 128 * last_poll (refuses adc_test) io w k \<and> 128 * last_poll (refuses adc_test) io w k \<le> (n + 1) * 8388608"
proof -
  have "adc_test \<in> ring_programs 0" by (simp add: ring_programs_def)
  from ring_caught_up [OF this assms(1), of s k] obtain n where
    up: "caught_up d (connected adc_test s) (last_poll (refuses adc_test) io w k) n (passes (prog_pass adc_test) (map io [0..<k]) (connected adc_test s))" ..
  have "sent_bytes (log (connected adc_test s)) = []"
    using assms(2) by (simp add: adc_test_def start_limit_def leave_reset_def sent_writes)
  with up have "sent_bytes (log (passes (prog_pass adc_test) (map io [0..<k]) (connected adc_test s))) = map d [0..<n * 4194304]"
    by (simp add: caught_up_def)
  moreover have "n * 4194304 div 8388608 = n div 2" by (simp add: div_mult2_eq [of "n * 4194304" 4194304 2, simplified])
  moreover have "n div 2 * 8388608 \<le> 128 * last_poll (refuses adc_test) io w k \<and> 128 * last_poll (refuses adc_test) io w k \<le> (n div 2 + 1) * 8388608"
    using up by (intro whole_rings) (simp_all add: caught_up_def)
  ultimately show ?thesis using adc_continuity_of_stream [of d "n * 4194304"] by (intro exI [of _ "n div 2"]) simp
qed

text \<open>The commands of the clients are accepted and leave their values in the registers.\<close>

lemma wide_commands_accepted:
  "\<exists>t. run_all (wide_command wide_125) wide_commands s = Some t \<and> rd16 (cfg t) 2 = 16 \<and>
     rd32 (cfg t) 8 = increment 125000000 2000000 \<and> rd32 (cfg t) 12 = increment 125000000 2000000"
  "\<exists>t. run_all (wide_command wide_122_88) wide_12288_commands s = Some t \<and> rd16 (cfg t) 2 = 6 \<and>
     rd32 (cfg t) 8 = increment 122880000 10000000 \<and> rd32 (cfg t) 12 = increment 122880000 10000000"
  by (simp_all add: wide_commands_def wide_12288_commands_def wide_command_def Let_def value_of_def code_of_def wide_125_def wide_122_88_def reg_simps)

end
