(* ===== verification/RadarClient.thy ===== *)
theory RadarClient imports Continuity begin

text \<open>
  radar_122_88/client/test-signal-continuity.c: sends a waveform to the radar server, starts it and looks for jumps in a counter
  in the data it gets back.
\<close>

section \<open>24-bit values\<close>

definition to24 :: "u32 \<Rightarrow> u8 list" where
  "to24 v = [ucast v, ucast (drop_bit 8 v), ucast (drop_bit 16 v)]"

definition to32 :: "u8 list \<Rightarrow> u32" where
  "to32 b =
    (let v = push_bit 16 (ucast (b ! 2)) OR push_bit 8 (ucast (b ! 1)) OR ucast (b ! 0)
     in if v AND 0x00800000 \<noteq> 0 then v OR 0xff000000 else v)"

lemma and_bit23: "v AND 0x00800000 \<noteq> 0 \<longleftrightarrow> bit (v :: u32) 23"
proof -
  have "(0x00800000 :: u32) = push_bit 23 1" by simp
  then show ?thesis by (metis and_exp_eq_0_iff_not_bit push_bit_of_1)
qed

lemma to32_to24: "to32 (to24 v) = signed_take_bit 23 v"
proof -
  define u :: u32 where "u = push_bit 16 (ucast (ucast (drop_bit 16 v) :: u8)) OR push_bit 8 (ucast (ucast (drop_bit 8 v) :: u8)) OR ucast (ucast v :: u8)"
  have bits: "bit u n = (n < 24 \<and> bit v n)" if "n < 32" for n
  proof -
    consider "n < 8" | "8 \<le> n" "n < 16" | "16 \<le> n" "n < 24" | "24 \<le> n" by linarith
    then show ?thesis using that by cases (simp_all add: u_def word_bits u8_high less_diff_conv2)
  qed
  have top: "bit (0xff000000 :: u32) n = (24 \<le> n)" if "n < 32" for n
  proof -
    have e: "(0xff000000 :: u32) = push_bit 24 (mask 8)" by (simp add: mask_eq_exp_minus_1)
    show ?thesis unfolding e using that by (auto simp: bit_push_bit_iff bit_mask_iff)
  qed
  have "to32 (to24 v) = (if bit u 23 then u OR 0xff000000 else u)"
    by (simp add: to32_def to24_def u_def Let_def and_bit23)
  also have "\<dots> = signed_take_bit 23 v"
  proof (rule bit_word_eqI)
    fix n assume "n < LENGTH(32)"
    then have n: "n < 32" by simp
    consider "n < 23" | "n = 23" | "24 \<le> n" by linarith
    then show "bit (if bit u 23 then u OR 0xff000000 else u) n = bit (signed_take_bit 23 v) n"
      using n bits [OF n] bits [of 23] top [OF n] by cases (auto simp: bit_or_iff bit_signed_take_bit_iff min_def)
  qed
  finally show ?thesis .
qed

text \<open>Values of 24 bits survive the way to the bytes and back.\<close>

theorem to24_roundtrip: "- 8388608 \<le> sint v \<Longrightarrow> sint v < 8388608 \<Longrightarrow> to32 (to24 v) = v"
proof -
  assume v: "- 8388608 \<le> sint v" "sint v < 8388608"
  have "signed_take_bit 23 v = word_of_int (signed_take_bit 23 (sint v))"
    by (rule bit_word_eqI) (auto simp: bit_signed_take_bit_iff bit_of_int_iff bit_sint_iff min_def)
  also have "signed_take_bit 23 (sint v) = sint v" using v by (intro signed_take_bit_int_eq_self) simp_all
  finally show ?thesis by (simp add: to32_to24)
qed

section \<open>The waveform\<close>

text \<open>\<open>data\<close> has \<open>16 * N\<close> bytes with \<open>N = 524288\<close>; \<open>None\<close> is a store outside of it.  \<open>cosine\<close> and \<open>sine\<close> are those of
  the C library.\<close>

definition poke :: "nat \<Rightarrow> u8 list \<Rightarrow> u8 list \<Rightarrow> u8 list option" where
  "poke off bs data = (if off + length bs \<le> length data then Some (blit data off bs) else None)"

definition wave_value :: "(dbl \<Rightarrow> dbl) \<Rightarrow> nat \<Rightarrow> u32" where
  "wave_value func i =
    word_of_int (dfloor (fadd (fmul 5790000 (func (fdiv (fmul (fmul 2 m_pi) (of_nat i)) 4194304))) (1/2)))"

definition wave_point :: "(dbl \<Rightarrow> dbl) \<Rightarrow> (dbl \<Rightarrow> dbl) \<Rightarrow> nat \<Rightarrow> u8 list \<Rightarrow> u8 list option" where
  "wave_point cosine sine i data =
    do { data \<leftarrow> poke (i * 16) (to24 (wave_value cosine i)) data; data \<leftarrow> poke (i * 16 + 3) (to24 (wave_value sine i)) data;
         data \<leftarrow> poke (i * 16 + 6) (to24 0) data; data \<leftarrow> poke (i * 16 + 9) (to24 0) data;
         poke (i * 16 + 15) [if i < 8 then 1 else 0] data }"

definition radar_wave :: "(dbl \<Rightarrow> dbl) \<Rightarrow> (dbl \<Rightarrow> dbl) \<Rightarrow> u8 list \<Rightarrow> u8 list option" where
  "radar_wave cosine sine data = run_all (wave_point cosine sine) [0..<4194304] data"

lemma wave_point_length: "wave_point cosine sine i data = Some data' \<Longrightarrow> length data' = length data \<and> i * 16 + 16 \<le> length data"
  by (auto simp: wave_point_def poke_def to24_def bind_eq_Some_conv split: if_splits)

text \<open>The waveform has eight times as many points as the array: the client always writes beyond its end.\<close>

theorem radar_wave_overflows: "length data = 16 * 524288 \<Longrightarrow> radar_wave cosine sine data = None"
proof -
  assume len: "length data = 16 * 524288"
  have "run_all (wave_point cosine sine) is d = None" if "524288 \<in> set is" "length d = 16 * 524288" for "is" d
    using that
  proof (induction "is" arbitrary: d)
    case (Cons i "is")
    show ?case
    proof (cases "wave_point cosine sine i d")
      case (Some d1)
      then have "length d1 = 16 * 524288" "i \<noteq> 524288" using wave_point_length [OF Some] Cons.prems(2) by auto
      then show ?thesis using Some Cons by simp
    qed simp
  qed simp
  then show ?thesis using len by (simp add: radar_wave_def del: upt_rec_numeral)
qed

section \<open>The test\<close>

text \<open>The counter is in bytes 12 to 14 of each record; the step when it starts again is not counted.\<close>

definition record_counter :: "u8 list \<Rightarrow> nat \<Rightarrow> u32" where
  "record_counter data i = to32 (take 3 (drop (12 + i * 16) data))"

definition radar_step :: "u32 \<Rightarrow> u32 \<Rightarrow> int" where
  "radar_step v w = \<bar>sint v - sint w\<bar>"

definition radar_continuity :: "u8 list \<Rightarrow> int option list" where
  "radar_continuity bs =
    map (\<lambda>data. report radar_step (\<lambda>d. d \<noteq> 4194304 - 1) 1 1 (map (record_counter data) [0..<524288])) (buffers (16 * 524288) bs)"

text \<open>A counter that goes up by one, and from \<open>4194303\<close> back to 0, is not reported.\<close>

lemma radar_continuity_quiet:
  assumes "\<forall>j \<in> {1..<524288}. sint (record_counter data j) = sint (record_counter data (j - 1)) + 1 \<or>
      sint (record_counter data j) = 0 \<and> sint (record_counter data (j - 1)) = 4194303"
  shows "report radar_step (\<lambda>d. d \<noteq> 4194304 - 1) 1 1 (map (record_counter data) [0..<524288]) = None"
proof -
  have "d \<le> 1" if "d \<in> set (steps radar_step 1 (map (record_counter data) [0..<524288]))" "d \<noteq> 4194303" for d
    using that assms unfolding steps_of_stream by (auto simp: radar_step_def simp del: upt_rec_numeral)
  then show ?thesis by (subst report_iff) simp_all
qed

end
