(* ===== verification/Playground.thy ===== *)
theory Playground imports Loops begin

text \<open>
  playground.c: a client reads and writes the address space of the FPGA with commands of 64 bits, and can load a new
  configuration.  The mapped space is 32768 pages (128 MB); \<open>None\<close> is an access outside of it, which kills the server.
\<close>

record play =
  hub :: "nat \<Rightarrow> u8"
  buf :: "nat \<Rightarrow> u8"
  sent :: "u8 list list"
  configured :: "u8 list list"

definition hub_size :: nat where "hub_size = 32768 * 4096"
definition buffer_size :: nat where "buffer_size = 16777216"

text \<open>The fields of a command.\<close>

definition play_code :: "u64 \<Rightarrow> nat" where
  "play_code command = unat (drop_bit 52 command AND 0xf)"

definition play_size :: "u64 \<Rightarrow> nat" where
  "play_size command = unat (drop_bit 28 command AND 0xffffff)"

definition play_addr :: "u64 \<Rightarrow> nat" where
  "play_addr command = unat (command AND 0xfffffff)"

text \<open>\<open>memcpy\<close> between two memories, and the bytes that \<open>recv\<close> stores.\<close>

definition copy_mem :: "(nat \<Rightarrow> u8) \<Rightarrow> nat \<Rightarrow> (nat \<Rightarrow> u8) \<Rightarrow> nat \<Rightarrow> nat \<Rightarrow> (nat \<Rightarrow> u8)" where
  "copy_mem dst a src b n = (\<lambda>i. if a \<le> i \<and> i < a + n then src (b + (i - a)) else dst i)"

definition store_bytes :: "u8 list \<Rightarrow> (nat \<Rightarrow> u8) \<Rightarrow> (nat \<Rightarrow> u8)" where
  "store_bytes data m = copy_mem m 0 (\<lambda>i. data ! i) 0 (length data)"

definition load_bytes :: "(nat \<Rightarrow> u8) \<Rightarrow> nat \<Rightarrow> nat \<Rightarrow> u8 list" where
  "load_bytes m a n = map m [a..<a + n]"

text \<open>\<open>data\<close> is what the second \<open>recv\<close> delivers, at most the size that is asked for; its result is not looked at.\<close>

definition play_command :: "u64 \<times> u8 list \<Rightarrow> play \<Rightarrow> play option" where
  "play_command = (\<lambda>(command, data) s.
    let code = play_code command; n = play_size command; addr = play_addr command
    in if code = 0
       then if n = 0 \<or> addr + n \<le> hub_size
            then let s = s\<lparr>buf := copy_mem (buf s) 0 (hub s) addr n\<rparr> in Some (s\<lparr>sent := sent s @ [load_bytes (buf s) 0 n]\<rparr>)
            else None
       else if code = 1
       then let s = s\<lparr>buf := store_bytes (take n data) (buf s)\<rparr>
            in if n = 0 \<or> addr + n \<le> hub_size then Some (s\<lparr>hub := copy_mem (hub s) addr (buf s) 0 n\<rparr>) else None
       else if code = 2
       then let s = s\<lparr>buf := store_bytes (take n data) (buf s)\<rparr> in Some (s\<lparr>configured := configured s @ [load_bytes (buf s) 0 n]\<rparr>)
       else Some s)"

definition play_client :: "(u64 \<times> u8 list) list \<Rightarrow> play \<Rightarrow> play option" where
  "play_client cs s = run_all play_command cs s"

text \<open>A command with its fields.\<close>

definition play_word :: "nat \<Rightarrow> nat \<Rightarrow> nat \<Rightarrow> u64" where
  "play_word code n addr = push_bit 52 (of_nat code) OR push_bit 28 (of_nat n) OR of_nat addr"

lemma unat_field:
  fixes w :: u64 and v :: nat
  assumes bits: "\<And>i. bit w i \<longleftrightarrow> i < k \<and> bit v i" and v: "v < 2 ^ k" and k: "k < 64"
  shows "unat w = v"
proof (rule bit_eqI)
  fix i
  show "bit (unat w) i = bit v i"
    using bits [of i] bit_small_nat [OF v, of i] k by (cases "i < k") (auto simp: bit_unsigned_iff)
qed

lemma play_fields:
  assumes "code < 16" "n < 2 ^ 24" "addr < 2 ^ 28"
  shows "play_code (play_word code n addr) = code" "play_size (play_word code n addr) = n" "play_addr (play_word code n addr) = addr"
proof -
  have code: "\<not> bit code i" if "4 \<le> i" for i using bit_small_nat [of code 4 i] assms(1) that by simp
  have n: "\<not> bit n i" if "24 \<le> i" for i using bit_small_nat [of n 24 i] assms(2) that by simp
  have addr: "\<not> bit addr i" if "28 \<le> i" for i using bit_small_nat [of addr 28 i] assms(3) that by simp
  have m: "(0xf :: u64) = mask 4" "(0xffffff :: u64) = mask 24" "(0xfffffff :: u64) = mask 28" by (simp_all add: mask_eq_exp_minus_1)
  have b: "bit (play_word code n addr) i = (i < 64 \<and> (52 \<le> i \<and> bit code (i - 52) \<or> 28 \<le> i \<and> bit n (i - 28) \<or> bit addr i))" for i
    by (auto simp: play_word_def bit_or_iff bit_push_bit_iff bit_of_nat_word)
  show "play_code (play_word code n addr) = code"
    unfolding play_code_def m
    by (rule unat_field [of _ 4]) (use assms code n addr in \<open>auto simp: bit_and_iff bit_mask_iff bit_drop_bit_eq b\<close>)
  show "play_size (play_word code n addr) = n"
    unfolding play_size_def m
    by (rule unat_field [of _ 24]) (use assms code n addr in \<open>auto simp: bit_and_iff bit_mask_iff bit_drop_bit_eq b\<close>)
  show "play_addr (play_word code n addr) = addr"
    unfolding play_addr_def m
    by (rule unat_field [of _ 28]) (use assms code n addr in \<open>auto simp: bit_and_iff bit_mask_iff b\<close>)
qed

text \<open>No command needs more than the buffer, and all of them are handled as long as they stay in the mapped space.\<close>

lemma play_size_fits: "play_size command < buffer_size"
proof -
  have "(0xffffff :: u64) = mask 24" by (simp add: mask_eq_exp_minus_1)
  then show ?thesis using and_mask_less [of "0xffffff" 24 "drop_bit 28 command"] by (simp add: play_size_def buffer_size_def)
qed

lemma play_stops_iff:
  "play_command (command, data) s = None \<longleftrightarrow>
     (play_code command = 0 \<or> play_code command = 1) \<and> play_size command \<noteq> 0 \<and> hub_size < play_addr command + play_size command"
  by (auto simp: play_command_def Let_def)

lemma load_copy: "load_bytes (copy_mem dst a src b n) a n = load_bytes src b n"
  by (rule nth_equalityI) (simp_all add: load_bytes_def copy_mem_def)

lemma load_store: "load_bytes (store_bytes data m) 0 (length data) = data"
  by (rule nth_equalityI) (simp_all add: load_bytes_def store_bytes_def copy_mem_def)

lemma load_copy_other: "a + n \<le> a' \<or> a' + n' \<le> a \<Longrightarrow> load_bytes (copy_mem dst a src b n) a' n' = load_bytes dst a' n'"
  by (rule nth_equalityI) (auto simp: load_bytes_def copy_mem_def)

text \<open>A client that writes a block and reads it gets what it has written, and every other byte of the space is as it was.\<close>

theorem play_write_read:
  assumes "length data < 2 ^ 24" and "addr + length data \<le> hub_size"
  shows "\<exists>t. play_client [(play_word 1 (length data) addr, data), (play_word 0 (length data) addr, [])] s = Some t \<and>
    sent t = sent s @ [data] \<and> (\<forall>i. i < addr \<or> addr + length data \<le> i \<longrightarrow> hub t i = hub s i)"
proof -
  have "addr < 2 ^ 28" using assms(2) by (simp add: hub_size_def)
  note f = play_fields [OF _ assms(1) this, of 1, simplified] play_fields [OF _ assms(1) this, of 0, simplified]
  show ?thesis
    using assms(2) by (simp add: play_client_def play_command_def Let_def f load_copy load_store) (simp add: copy_mem_def)
qed

text \<open>The result of the second \<open>recv\<close> is ignored: when the client stops half way, the rest comes from earlier commands.\<close>

lemma play_short_write:
  assumes "length data < n" "n < 2 ^ 24" "addr + n \<le> hub_size"
  shows "\<exists>t. play_command (play_word 1 n addr, data) s = Some t \<and>
    load_bytes (hub t) addr n = data @ load_bytes (buf s) (length data) (n - length data)"
proof -
  have "addr < 2 ^ 28" using assms by (simp add: hub_size_def)
  note f = play_fields [OF _ assms(2) this, of 1, simplified]
  have "load_bytes (store_bytes data (buf s)) 0 n = data @ load_bytes (buf s) (length data) (n - length data)"
    by (rule nth_equalityI) (use assms(1) in \<open>auto simp: load_bytes_def store_bytes_def copy_mem_def nth_append\<close>)
  then show ?thesis using assms by (auto simp: play_command_def Let_def f load_copy)
qed

end
