(* ===== verification/Fsbl.thy ===== *)
theory Fsbl imports Loops begin

text \<open>
  src/patches/red_pitaya_fsbl_hooks.c: before Linux starts, the boot loader reads the EEPROM of the board, looks for
  \<open>ethaddr=\<close> and gives the address behind it to the network controller.
\<close>

section \<open>\<open>strtol\<close> with base 16 on a buffer\<close>

definition space8 :: "u8 \<Rightarrow> bool" where
  "space8 c \<longleftrightarrow> c = 32 \<or> 9 \<le> c \<and> c \<le> 13"

definition hex8 :: "u8 \<Rightarrow> bool" where
  "hex8 c \<longleftrightarrow> 48 \<le> c \<and> c \<le> 57 \<or> 65 \<le> c \<and> c \<le> 70 \<or> 97 \<le> c \<and> c \<le> 102"

definition hex_digit :: "u8 \<Rightarrow> int" where
  "hex_digit c = uint c - (if c \<le> 57 then 48 else if c \<le> 70 then 55 else 87)"

definition hex_value :: "u8 list \<Rightarrow> int" where
  "hex_value ds = foldl (\<lambda>acc c. acc * 16 + hex_digit c) 0 ds"

text \<open>The value, clamped to 32 bits, and the position after it (that of the start when there are no digits); \<open>None\<close> when the
  digits go on to the end of the buffer, so that bytes beyond it are read.\<close>

definition strtol16 :: "u8 list \<Rightarrow> nat \<Rightarrow> (int \<times> nat) option" where
  "strtol16 b p =
    (let blanks = takeWhile space8 (drop p b);
         r1 = drop (length blanks) (drop p b);
         minus = (r1 \<noteq> [] \<and> hd r1 = 0x2d);
         sign = (minus \<or> r1 \<noteq> [] \<and> hd r1 = 0x2b);
         r2 = (if sign then tl r1 else r1);
         prefix = (3 \<le> length r2 \<and> r2 ! 0 = 0x30 \<and> (r2 ! 1 = 0x78 \<or> r2 ! 1 = 0x58) \<and> hex8 (r2 ! 2));
         r3 = (if prefix then drop 2 r2 else r2);
         ds = takeWhile hex8 r3;
         v = (if minus then - hex_value ds else hex_value ds)
     in if length ds = length r3 then None
        else if ds = [] then Some (0, p)
        else Some (max (- 2147483648) (min 2147483647 v),
                   p + length blanks + of_bool sign + (if prefix then 2 else 0) + length ds))"

lemma hex_not_space: "hex8 c \<Longrightarrow> \<not> space8 c \<and> c \<noteq> 0x2d \<and> c \<noteq> 0x2b \<and> c \<noteq> 0x78 \<and> c \<noteq> 0x58"
  by (auto simp: hex8_def space8_def word_le_nat_alt)

lemma hex_digit_range: "hex8 c \<Longrightarrow> 0 \<le> hex_digit c \<and> hex_digit c < 16"
  by (auto simp: hex8_def hex_digit_def word_le_def)

lemma strtol16_pair:
  assumes "p + 2 < length b" and "hex8 (b ! p)" "hex8 (b ! (p + 1))" "\<not> hex8 (b ! (p + 2))"
  shows "strtol16 b p = Some (16 * hex_digit (b ! p) + hex_digit (b ! (p + 1)), p + 2)"
proof -
  obtain rest where r: "drop p b = b ! p # b ! (p + 1) # b ! (p + 2) # rest"
    using assms(1) by (metis Cons_nth_drop_Suc Suc_eq_plus1 add_2_eq_Suc' add_lessD1 lessI less_trans_Suc)
  define v where "v = 16 * hex_digit (b ! p) + hex_digit (b ! (p + 1))"
  have v: "0 \<le> v" "v < 256" using hex_digit_range [OF assms(2)] hex_digit_range [OF assms(3)] by (simp_all add: v_def)
  have ds: "takeWhile hex8 (b ! p # b ! (p + 1) # b ! (p + 2) # rest) = [b ! p, b ! (p + 1)]" using assms by simp
  have "strtol16 b p = Some (v, p + 2)"
    using hex_not_space [OF assms(2)] hex_not_space [OF assms(3)] assms(2-4) v
    by (simp add: strtol16_def Let_def r ds hex_value_def v_def algebra_simps)
  then show ?thesis by (simp add: v_def)
qed

section \<open>SetMacAddress\<close>

definition ethaddr :: "u8 list" where
  "ethaddr = [0x65, 0x74, 0x68, 0x61, 0x64, 0x64, 0x72, 0x3d]"

definition memmem :: "u8 list \<Rightarrow> u8 list \<Rightarrow> nat option" where
  "memmem b needle = find (\<lambda>i. take (length needle) (drop i b) = needle) [0..<length b - length needle + 1]"

text \<open>\<open>Buffer[i] = strtol(Pointer + 1, &Pointer, 16)\<close>.\<close>

definition mac_byte :: "nat \<Rightarrow> u8 list \<times> nat \<Rightarrow> (u8 list \<times> nat) option" where
  "mac_byte i = (\<lambda>(b, p). do { (v, p') \<leftarrow> strtol16 b (p + 1); Some (b[i := word_of_int v], p') })"

text \<open>The results of the functions of the board support package, 0 for success, and the bytes that the EEPROM delivers.  The wait for
  the bus is left out.\<close>

record fsbl_io =
  iic_found :: bool
  iic_init :: u32
  iic_clock :: u32
  iic_send :: u32
  iic_recv :: u32
  eeprom :: "u8 list"
  emac_found :: bool
  emac_init :: u32
  emac_set :: u32

text \<open>The result, and the buffer given to the controller, which reads its first six bytes.  The outer \<open>None\<close> is an access outside of the buffer.\<close>

definition set_mac_address :: "fsbl_io \<Rightarrow> (u32 \<times> u8 list option) option" where
  "set_mac_address io =
    (if \<not> iic_found io \<or> iic_init io \<noteq> 0 \<or> iic_clock io \<noteq> 0 \<or> iic_send io \<noteq> 0 \<or> iic_recv io \<noteq> 0 then Some (1, None)
     else case memmem (eeprom io) ethaddr of
       None \<Rightarrow> Some (1, None)
     | Some k \<Rightarrow>
         do { (b, p) \<leftarrow> run_all mac_byte [0..<6] (eeprom io, k + 7);
              if \<not> emac_found io \<or> emac_init io \<noteq> 0 then Some (1, None)
              else Some (if emac_set io \<noteq> 0 then 1 else emac_set io, Some (take 6 b)) })"

text \<open>The text of an address: six pairs of hexadecimal digits, each followed by something else.\<close>

definition mac_text :: "u8 list \<Rightarrow> nat \<Rightarrow> u8 list \<Rightarrow> bool" where
  "mac_text b q mac \<longleftrightarrow> length mac = 6 \<and> q + 18 \<le> length b \<and>
     (\<forall>i < 6. hex8 (b ! (q + 3 * i)) \<and> hex8 (b ! (q + 3 * i + 1)) \<and> \<not> hex8 (b ! (q + 3 * i + 2)) \<and>
        16 * hex_digit (b ! (q + 3 * i)) + hex_digit (b ! (q + 3 * i + 1)) = uint (mac ! i))"

lemma mac_bytes:
  assumes m: "mac_text b (p + 1) mac" and p: "6 \<le> p" and "n \<le> 6"
  shows "run_all mac_byte [0..<n] (b, p) = Some (take n mac @ drop n b, p + 3 * n)"
  using assms(3)
proof (induction n)
  case (Suc n)
  define c where "c = take n mac @ drop n b"
  have len: "length mac = 6" "p + 19 \<le> length b" using m by (simp_all add: mac_text_def)
  have same: "c ! i = b ! i" if "6 \<le> i" for i using that Suc.prems len by (simp add: c_def nth_append)
  have lc: "length c = length b" using Suc.prems len by (simp add: c_def)
  have pair: "hex8 (b ! (p + 1 + 3 * n))" "hex8 (b ! (p + 1 + 3 * n + 1))" "\<not> hex8 (b ! (p + 1 + 3 * n + 2))"
    "16 * hex_digit (b ! (p + 1 + 3 * n)) + hex_digit (b ! (p + 1 + 3 * n + 1)) = uint (mac ! n)"
    using m Suc.prems by (auto simp: mac_text_def)
  have "strtol16 c (p + 1 + 3 * n) = Some (uint (mac ! n), p + 1 + 3 * n + 2)"
    using pair p len Suc.prems by (subst strtol16_pair) (simp_all add: same lc)
  then have step: "mac_byte n (c, p + 3 * n) = Some (c[n := mac ! n], p + 3 * Suc n)" by (simp add: mac_byte_def ac_simps)
  have "c[n := mac ! n] = take (Suc n) mac @ drop (Suc n) b"
    using Suc.prems len by (intro nth_equalityI) (auto simp: c_def nth_append nth_list_update)
  then show ?case using Suc step by (simp add: run_all_append c_def)
qed simp

text \<open>When the EEPROM has an address and everything works, the controller gets exactly this address; without \<open>ethaddr=\<close>, or when
  a call fails, it gets none and the result is a failure.\<close>

theorem mac_address_set:
  assumes "memmem (eeprom io) ethaddr = Some k" and "mac_text (eeprom io) (k + 8) mac"
    and "iic_found io" "iic_init io = 0" "iic_clock io = 0" "iic_send io = 0" "iic_recv io = 0" "emac_found io" "emac_init io = 0" "emac_set io = 0"
  shows "set_mac_address io = Some (0, Some mac)"
proof -
  have "mac_text (eeprom io) (k + 7 + 1) mac" using assms(2) by (simp add: ac_simps)
  then have "run_all mac_byte [0..<6] (eeprom io, k + 7) = Some (take 6 mac @ drop 6 (eeprom io), k + 7 + 3 * 6)"
    by (rule mac_bytes) simp_all
  moreover have "length mac = 6" using assms(2) by (simp add: mac_text_def)
  ultimately show ?thesis using assms by (simp add: set_mac_address_def del: upt_rec_numeral)
qed

lemma mac_address_kept:
  "memmem (eeprom io) ethaddr = None \<or> \<not> iic_found io \<or> iic_recv io \<noteq> 0 \<Longrightarrow> set_mac_address io = Some (1, None)"
  by (auto simp: set_mac_address_def)

lemma mac_address_example:
  "set_mac_address \<lparr>iic_found = True, iic_init = 0, iic_clock = 0, iic_send = 0, iic_recv = 0,
      eeprom = 1 # ethaddr @ [0x30, 0x30, 0x3a, 0x32, 0x36, 0x3a, 0x33, 0x32, 0x3a, 0x46, 0x30, 0x3a, 0x31, 0x61, 0x3a, 0x62, 0x33, 0] @ replicate 5 0,
      emac_found = True, emac_init = 0, emac_set = 0\<rparr> = Some (0, Some [0, 0x26, 0x32, 0xf0, 0x1a, 0xb3])"
  by code_simp

end
