(* ===== verification/Exercisers.thy ===== *)
theory Exercisers imports Recorders McphaProps HpsdrTables begin

text \<open>
  Three of the programs that exercise FPGA blocks: validator-test.c prints the samples of a small ring, iir_test/test.c sets up the
  pulse filter that mcpha-server uses, pdm_test/test.c feeds a FIFO with a tone.  \<open>usleep\<close> and \<open>sleep\<close> are left out, and so are the messages
  about the FIFO's counters.
\<close>

section \<open>validator-test.c\<close>

definition ring_2kb :: ring_size where
  "ring_2kb = \<lparr>half_units = 512, half_bytes = 2048\<rparr>"

record validator = ring +
  lines :: "string list"

text \<open>\<open>n\<close> pairs of 16-bit samples from \<open>offset\<close> on.\<close>

definition pair_lines :: "(nat \<Rightarrow> u8) \<Rightarrow> nat \<Rightarrow> nat \<Rightarrow> string list" where
  "pair_lines ram offset n = map (\<lambda>i. sample_line (rd16 ram (offset + 4 * i)) (rd16 ram (offset + 4 * i + 2))) [0..<n]"

text \<open>A pass reads the position and the memory.\<close>

definition validator_pass :: "u32 \<times> (nat \<Rightarrow> u8) \<Rightarrow> validator \<Rightarrow> validator" where
  "validator_pass = (\<lambda>(pos, ram) s.
    if half_ready ring_2kb (sint pos) s
    then (flip_limit ring_2kb s)\<lparr>lines := lines s @ pair_lines ram (half_offset ring_2kb s) 512\<rparr> else s)"

text \<open>\<open>offset\<close> is computed after the loop, but not used.\<close>

definition validator_last :: "u32 \<times> (nat \<Rightarrow> u8) \<Rightarrow> validator \<Rightarrow> validator" where
  "validator_last = (\<lambda>(pos, ram) s.
    let n = (if limit s > 0 then sint pos else sint pos - 512)
    in s\<lparr>lines := lines s @ pair_lines ram 0 (nat n)\<rparr>)"

definition validator_reset :: "validator \<Rightarrow> validator" where
  "validator_reset s =
    (let s = s\<lparr>limit := 512\<rparr>; s = put32 0 (rd32 (cfg s) 0 AND NOT 1) s in put32 0 (rd32 (cfg s) 0 OR 1) s)"

text \<open>\<open>ios\<close> are the passes until the program is interrupted; the last position read in the loop is used after it.\<close>

definition validator_main :: "(u32 \<times> (nat \<Rightarrow> u8)) list \<Rightarrow> u32 \<times> (nat \<Rightarrow> u8) \<Rightarrow> validator \<Rightarrow> validator" where
  "validator_main ios rest s = validator_last rest (fold validator_pass ios (validator_reset s))"

text \<open>When the program is interrupted while the second half is being written, the last lines are those of the first half once more.\<close>

lemma validator_repeats:
  assumes "uint pos = 512 + int n" "n < 512" and "limit s = 0"
  shows "lines (validator_last (pos, ram) s) = lines s @ take n (pair_lines ram 0 512)"
proof -
  have "sint pos = 512 + int n"
    using assms(1,2) by (simp add: sint_uint signed_take_bit_int_eq_self)
  then show ?thesis using assms by (simp add: validator_last_def pair_lines_def take_map)
qed

section \<open>iir_test\<close>

text \<open>The loop of mcpha-server that looks for the peak of the pulse, here with a counter.\<close>

partial_function (option) iir_peak :: "int \<Rightarrow> int \<Rightarrow> u16 \<Rightarrow> int \<Rightarrow> int \<Rightarrow> int \<Rightarrow> (u16 \<times> int) option" where
  "iir_peak f r cntr y0 y1 y2 =
    (if y2 \<le> y1 then iir_peak f r (cntr + 1) (y0 * f div 65536) (y0 + y1 * r div 65536) y1 else Some (cntr, y2))"

text \<open>\<open>coef\<close> is \<open>expf(-logf(2.0) / 125.0 / 100 * k) * 65536.0\<close> for \<open>k = 1\<close> and \<open>k = 1000\<close>.\<close>

definition iir_coef :: "(nat \<Rightarrow> dbl) \<Rightarrow> nat \<Rightarrow> u16" where
  "iir_coef coef k = word_of_int (dfloor (fadd (coef k) (1/2)))"

definition iir_setup :: "(nat \<Rightarrow> dbl) \<Rightarrow> 'a dev_scheme \<Rightarrow> (u16 \<times> 'a dev_scheme) option" where
  "iir_setup coef s =
    (let s = clr8 0 3 s; f = iir_coef coef 1; r = iir_coef coef 1000
     in do { (cntr, y2) \<leftarrow> iir_peak (uint f) (uint r) 0 (push_bit 9 4095) 0 0;
             let s = emit (map (\<lambda>i. Win 0 i 0) [0..<1024] @ [Win 0 0 4095]) s;
             let s = put16 4 1024 s; let s = put16 6 (pulse_scale y2) s;
             let s = put16 8 f s; let s = put16 10 r s; let s = put16 12 (- 8192) s; let s = put16 14 8191 s;
             Some (cntr, set8 0 1 (set8 0 2 s)) })"

lemma iir_peak_value:
  assumes "pulse_peak f r y0 y1 y2 = Some y"
  shows "\<exists>c'. iir_peak f r c y0 y1 y2 = Some (c', y)"
proof -
  have "\<forall>c. \<exists>c'. iir_peak f r c y0 y1 y2 = Some (c', y)"
  proof (rule pulse_peak.raw_induct [of "\<lambda>f r y0 y1 y2 y. \<forall>c. \<exists>c'. iir_peak f r c y0 y1 y2 = Some (c', y)", OF _ assms], rule allI)
    fix pp f r y0 y1 y2 y c
    assume IH: "\<And>f r y0 y1 y2 y. pp f r y0 y1 y2 = Some y \<Longrightarrow> \<forall>c. \<exists>c'. iir_peak f r c y0 y1 y2 = Some (c', y)"
      and body: "(if y2 \<le> y1 then pp f r (y0 * f div 65536) (y0 + y1 * r div 65536) y1 else Some y2) = Some y"
    show "\<exists>c'. iir_peak f r c y0 y1 y2 = Some (c', y)"
      using body by (subst iir_peak.simps) (auto split: if_splits dest: IH)
  qed
  then show ?thesis ..
qed

text \<open>The set-up ends for every result of \<open>expf\<close>, with the same scale as in the server that has the same coefficients.\<close>

theorem iir_setup_ends:
  "\<exists>cntr t y. iir_setup coef s = Some (cntr, t) \<and> pulse_peak (uint (iir_coef coef 1)) (uint (iir_coef coef 1000)) (push_bit 9 4095) 0 0 = Some y \<and>
     rd16 (cfg t) 6 = pulse_scale y \<and> rd16 (cfg t) 8 = iir_coef coef 1 \<and> rd16 (cfg t) 10 = iir_coef coef 1000"
proof -
  let ?f = "iir_coef coef 1" and ?r = "iir_coef coef 1000"
  obtain y where y: "pulse_peak (uint ?f) (uint ?r) (push_bit 9 4095) 0 0 = Some y" using pulse_peak_exists by blast
  from iir_peak_value [OF this] obtain c where c: "iir_peak (uint ?f) (uint ?r) 0 (push_bit 9 4095) 0 0 = Some (c, y)" by blast
  have "\<exists>cntr t. iir_setup coef s = Some (cntr, t) \<and> rd16 (cfg t) 6 = pulse_scale y \<and> rd16 (cfg t) 8 = ?f \<and> rd16 (cfg t) 10 = ?r"
    unfolding iir_setup_def Let_def c by (simp add: reg_simps del: upt_rec_numeral)
  with y show ?thesis by blast
qed

section \<open>pdm_test\<close>

definition pdm_value :: "(dbl \<Rightarrow> rat) \<Rightarrow> nat \<Rightarrow> u32" where
  "pdm_value sinf i = word_of_int (dfloor (fadd (sgl (sinf (sgl (fdiv (fmul (fmul 2 m_pi) (of_nat i)) 48)) * 32000)) (1/2)))"

definition pdm_start :: "'a dev_scheme \<Rightarrow> 'a dev_scheme" where
  "pdm_start s = set8 0 1 (emit (replicate 10 (Fifo 0)) (set8 0 2 (clr8 0 3 (put16 2 21990 s))))"

text \<open>A round waits for room and writes ten periods of the tone; \<open>t\<close> counts the readings of the counter.\<close>

definition pdm_round :: "(dbl \<Rightarrow> rat) \<Rightarrow> (nat \<Rightarrow> u16) \<Rightarrow> nat \<Rightarrow> 'a dev_scheme \<Rightarrow> (nat \<times> 'a dev_scheme) option" where
  "pdm_round sinf cntr t s =
    do { t \<leftarrow> await_below cntr 544 t; Some (t + 1, emit (map (\<lambda>i. Fifo (pdm_value sinf i)) [0..<480]) s) }"

text \<open>The FIFO of 1024 words is never asked to hold more, and the round ends when the block plays.\<close>

lemma pdm_round_fits:
  assumes "unat (cntr (t + d)) \<le> 544"
  shows "\<exists>t'. pdm_round sinf cntr t s = Some (t' + 1, emit (map (\<lambda>i. Fifo (pdm_value sinf i)) [0..<480]) s) \<and> unat (cntr t') + 480 \<le> 1024"
proof -
  obtain t' where t': "await_below cntr 544 t = Some t'" using await_below_returns [where cntr = cntr and t = t and d = d and limit = 544] assms by blast
  then have "unat (cntr t') \<le> 544" by (rule await_below_reached)
  with t' show ?thesis by (simp add: pdm_round_def)
qed

end
